(* ===== verification/Prelude.thy ===== *)
theory Prelude
  imports Main "HOL-Library.Word"
begin

text \<open>
  Shared vocabulary of the development: the machine integer types of the Go sources, results
  that are either an error or a value, octet slices, the big-endian readers and writers of
  \<^verbatim>\<open>encoding/binary\<close> that every codec of the repository uses, and the two interfaces the
  components are proved against: a wire codec and a state machine with an invariant.
\<close>

unbundle bit_operations_syntax

section \<open>Types\<close>

type_synonym u8 = "8 word"
type_synonym u16 = "16 word"
type_synonym u32 = "32 word"
type_synonym u64 = "64 word"

text \<open>A Go \<^verbatim>\<open>[]byte\<close> or \<^verbatim>\<open>string\<close> is a list of octets; \<^verbatim>\<open>nil\<close> and the empty slice are both \<open>[]\<close>.\<close>

type_synonym bytes = "u8 list"

named_theorems wire_simps \<open>unfolding rules of the octet codecs\<close>
named_theorems result_simps \<open>rules for the error monad\<close>

section \<open>Results\<close>

text \<open>
  A Go function that returns \<^verbatim>\<open>(T, error)\<close> is a function into \<open>'e + 'a\<close>; \<open>rbind\<close> is the early
  return \<^verbatim>\<open>if err != nil { return ..., err }\<close>.
\<close>

fun rbind :: "'e + 'a \<Rightarrow> ('a \<Rightarrow> 'e + 'b) \<Rightarrow> 'e + 'b" where
  "rbind (Inl e) f = Inl e"
| "rbind (Inr x) f = f x"

fun is_ok :: "'e + 'a \<Rightarrow> bool" where
  "is_ok (Inl e) = False"
| "is_ok (Inr x) = True"

fun rmap :: "('a \<Rightarrow> 'b) \<Rightarrow> 'e + 'a \<Rightarrow> 'e + 'b" where
  "rmap f (Inl e) = Inl e"
| "rmap f (Inr x) = Inr (f x)"

lemma rbind_cong [fundef_cong]:
  "m = m' \<Longrightarrow> (\<And>x. m' = Inr x \<Longrightarrow> f x = g x) \<Longrightarrow> rbind m f = rbind m' g"
  by (cases m') auto

lemma rbind_eq_Inr [result_simps]: "rbind m f = Inr y \<longleftrightarrow> (\<exists>x. m = Inr x \<and> f x = Inr y)"
  by (cases m) auto

lemma rbind_pair_eq_Inr [result_simps]:
  "rbind m (\<lambda>(a, b). f a b) = Inr y \<longleftrightarrow> (\<exists>a b. m = Inr (a, b) \<and> f a b = Inr y)"
  by (cases m) auto

lemma rbind_eq_Inl [result_simps]:
  "rbind m f = Inl e \<longleftrightarrow> m = Inl e \<or> (\<exists>x. m = Inr x \<and> f x = Inl e)"
  by (cases m) auto

lemma rmap_eq_Inr [result_simps]: "rmap f m = Inr y \<longleftrightarrow> (\<exists>x. m = Inr x \<and> y = f x)"
  by (cases m) auto

lemma rmap_eq_Inl [simp]: "rmap f m = Inl e \<longleftrightarrow> m = Inl e"
  by (cases m) auto

lemma rmap_comp: "rmap f (rmap g m) = rmap (\<lambda>x. f (g x)) m"
  by (cases m) auto

lemma rbind_Inr_right [simp]: "rbind m Inr = m"
  by (cases m) simp_all

lemma rbind_assoc: "rbind (rbind m f) g = rbind m (\<lambda>x. rbind (f x) g)"
  by (cases m) auto

lemma rbind_rmap [simp]: "rbind (rmap f m) g = rbind m (\<lambda>x. g (f x))"
  by (cases m) auto

lemma rmap_rbind: "rmap f (rbind m g) = rbind m (\<lambda>x. rmap f (g x))"
  by (cases m) auto

lemma is_ok_iff: "is_ok m \<longleftrightarrow> (\<exists>x. m = Inr x)"
  by (cases m) auto

section \<open>Slices\<close>

text \<open>The Go slice expression \<^verbatim>\<open>xs[i:j]\<close>, for \<open>i \<le> j \<le> length xs\<close>.\<close>

definition subslice :: "'a list \<Rightarrow> nat \<Rightarrow> nat \<Rightarrow> 'a list" where
  "subslice xs i j = take (j - i) (drop i xs)"

lemma length_subslice [simp]: "j \<le> length xs \<Longrightarrow> length (subslice xs i j) = j - i"
  by (simp add: subslice_def)

lemma subslice_0 [simp]: "subslice xs 0 j = take j xs"
  by (simp add: subslice_def)

lemma subslice_append_mid:
  "length xs = i \<Longrightarrow> j = i + length ys \<Longrightarrow> subslice (xs @ ys @ zs) i j = ys"
  by (simp add: subslice_def)

lemma subslice_Cons_Suc [simp]: "subslice (x # xs) (Suc i) (Suc j) = subslice xs i j"
  by (simp add: subslice_def)

lemma subslice_glue: "i \<le> j \<Longrightarrow> j \<le> length xs \<Longrightarrow> subslice xs i j @ drop j xs = drop i xs"
  unfolding subslice_def by (metis append_take_drop_id drop_drop le_add_diff_inverse2)

section \<open>Association lists\<close>

lemma map_of_filter_snd:
  "distinct (map fst xs) \<Longrightarrow> map_of (filter (\<lambda>(k, v). P v) xs) k =
     (case map_of xs k of None \<Rightarrow> None | Some v \<Rightarrow> if P v then Some v else None)"
proof (induction xs)
  case (Cons x xs)
  then have "map_of xs (fst x) = None" by (simp add: map_of_eq_None_iff)
  with Cons show ?case by (cases x) auto
qed simp

section \<open>Words\<close>

lemma single_bit_mask: "(if c AND 2 ^ k \<noteq> 0 then 2 ^ k else 0) = c AND (2 ^ k :: 'a::len word)"
  by (rule bit_word_eqI) (auto simp: bit_simps and_exp_eq_0_iff_not_bit)

lemma unat_ucast: "unat (ucast x :: 'b::len word) = unat x mod 2 ^ LENGTH('b)"
  for x :: "'a::len word"
  by (simp add: unsigned_ucast_eq take_bit_eq_mod)

lemma word_bit_bound: "unat x < 2 ^ n \<Longrightarrow> bit x k \<Longrightarrow> k < n"
  for x :: "'a::len word"
proof -
  assume "unat x < 2 ^ n" "bit x k"
  then have "bit (take_bit n (unat x)) k"
    by (simp add: take_bit_nat_eq_self bit_unsigned_iff)
  then show "k < n" by (simp add: bit_take_bit_iff)
qed

section \<open>Big-endian integers\<close>

text \<open>
  \<^verbatim>\<open>binary.BigEndian.Uint16\<close>, \<^verbatim>\<open>Uint32\<close>, \<^verbatim>\<open>Uint64\<close> and the matching \<^verbatim>\<open>Append\<close>/\<^verbatim>\<open>Put\<close> functions. The
  readers are called behind a length check in the sources, and the model keeps that check.
\<close>

definition Uint16 :: "bytes \<Rightarrow> u16" where
  "Uint16 b = (push_bit 8 (ucast (b ! 0)) OR ucast (b ! 1))"

definition Uint32 :: "bytes \<Rightarrow> u32" where
  "Uint32 b = (push_bit 24 (ucast (b ! 0)) OR push_bit 16 (ucast (b ! 1))
     OR push_bit 8 (ucast (b ! 2)) OR ucast (b ! 3))"

definition Uint64 :: "bytes \<Rightarrow> u64" where
  "Uint64 b = (push_bit 56 (ucast (b ! 0)) OR push_bit 48 (ucast (b ! 1))
     OR push_bit 40 (ucast (b ! 2)) OR push_bit 32 (ucast (b ! 3))
     OR push_bit 24 (ucast (b ! 4)) OR push_bit 16 (ucast (b ! 5))
     OR push_bit 8 (ucast (b ! 6)) OR ucast (b ! 7))"

definition put16 :: "u16 \<Rightarrow> bytes" where
  "put16 v = [ucast (drop_bit 8 v), ucast v]"

definition put32 :: "u32 \<Rightarrow> bytes" where
  "put32 v = [ucast (drop_bit 24 v), ucast (drop_bit 16 v), ucast (drop_bit 8 v), ucast v]"

definition put64 :: "u64 \<Rightarrow> bytes" where
  "put64 v = [ucast (drop_bit 56 v), ucast (drop_bit 48 v), ucast (drop_bit 40 v),
     ucast (drop_bit 32 v), ucast (drop_bit 24 v), ucast (drop_bit 16 v), ucast (drop_bit 8 v),
     ucast v]"

lemma length_put [simp]: "length (put16 v) = 2" "length (put32 w) = 4" "length (put64 x) = 8"
  by (simp_all add: put16_def put32_def put64_def)

lemma put_not_Nil [simp]: "put16 v \<noteq> []" "put32 w \<noteq> []" "put64 x \<noteq> []"
  by (simp_all add: put16_def put32_def put64_def)

lemma Uint16_put16_append [simp]: "Uint16 (put16 v @ r) = v"
  by (auto simp: Uint16_def put16_def bit_eq_iff bit_simps)

lemma Uint32_put32_append [simp]: "Uint32 (put32 v @ r) = v"
proof (rule bit_word_eqI)
  fix n assume "n < LENGTH(32)"
  then consider "n < 8" | "8 \<le> n" "n < 16" | "16 \<le> n" "n < 24" | "24 \<le> n" "n < 32" by force
  then show "bit (Uint32 (put32 v @ r)) n = bit v n"
    by cases (simp_all add: Uint32_def put32_def bit_simps less_diff_conv2)
qed

lemma Uint64_put64_append [simp]: "Uint64 (put64 v @ r) = v"
proof (rule bit_word_eqI)
  fix n assume "n < LENGTH(64)"
  then consider "n < 8" | "8 \<le> n" "n < 16" | "16 \<le> n" "n < 24" | "24 \<le> n" "n < 32"
    | "32 \<le> n" "n < 40" | "40 \<le> n" "n < 48" | "48 \<le> n" "n < 56" | "56 \<le> n" "n < 64" by force
  then show "bit (Uint64 (put64 v @ r)) n = bit v n"
    by cases (simp_all add: Uint64_def put64_def bit_simps less_diff_conv2)
qed

lemma Uint_put [simp]: "Uint16 (put16 v) = v" "Uint32 (put32 w) = w" "Uint64 (put64 x) = x"
  using Uint16_put16_append [of v "[]"] Uint32_put32_append [of w "[]"]
    Uint64_put64_append [of x "[]"] by simp_all

text \<open>Writing what was read gives the octets back.\<close>

lemma put16_Uint16 [simp]: "put16 (Uint16 (a # b # r)) = [a, b]"
  by (auto simp: Uint16_def put16_def bit_eq_iff bit_simps dest: bit_imp_le_length)

lemma put32_Uint32 [simp]: "put32 (Uint32 (a # b # c # d # r)) = [a, b, c, d]"
proof -
  have "ucast (drop_bit 24 (Uint32 (a # b # c # d # r))) = a"
    "ucast (drop_bit 16 (Uint32 (a # b # c # d # r))) = b"
    "ucast (drop_bit 8 (Uint32 (a # b # c # d # r))) = c"
    "ucast (Uint32 (a # b # c # d # r)) = d"
    by (rule bit_word_eqI; simp add: Uint32_def bit_simps not_less;
        auto dest: bit_imp_le_length)+
  then show ?thesis by (simp add: put32_def)
qed

section \<open>Interfaces\<close>

text \<open>
  A wire codec: an encoder that accepts every well-formed message, and a decoder that recovers
  the message from its encoding up to the fields the wire form canonicalises (\<open>norm\<close>).
\<close>

locale wire_codec =
  fixes enc :: "'a \<Rightarrow> 'e + bytes"
    and dec :: "bytes \<Rightarrow> 'e + 'a"
    and wf :: "'a \<Rightarrow> bool"
    and norm :: "'a \<Rightarrow> 'a"
  assumes enc_total: "wf x \<Longrightarrow> is_ok (enc x)"
    and dec_enc: "wf x \<Longrightarrow> enc x = Inr bs \<Longrightarrow> dec bs = Inr (norm x)"
begin

lemma roundtrip: "wf x \<Longrightarrow> rbind (enc x) dec = Inr (norm x)"
  using enc_total [of x] dec_enc [of x] by (cases "enc x") auto

lemma enc_inj: "wf x \<Longrightarrow> wf y \<Longrightarrow> enc x = enc y \<Longrightarrow> norm x = norm y"
  using roundtrip [of x] roundtrip [of y] by simp

end

text \<open>A deterministic machine with an invariant that every permitted event keeps.\<close>

locale invariant_machine =
  fixes step :: "'s \<Rightarrow> 'ev \<Rightarrow> 's"
    and inv :: "'s \<Rightarrow> bool"
    and ok :: "'ev \<Rightarrow> bool"
  assumes step_inv: "inv s \<Longrightarrow> ok e \<Longrightarrow> inv (step s e)"
begin

lemma run_inv: "inv s \<Longrightarrow> list_all ok es \<Longrightarrow> inv (foldl step s es)"
  by (induction es arbitrary: s) (auto intro: step_inv)

end

end
