(* ===== verification/Bacnet_Types.thy ===== *)
theory Bacnet_Types
  imports Prelude
begin

text \<open>
  The root package's data: error sentinels (\<^verbatim>\<open>errors.go\<close>), decode limits (\<^verbatim>\<open>limits.go\<close>), MAC and
  network addresses (\<^verbatim>\<open>mac.go\<close>, \<^verbatim>\<open>address.go\<close>), object identifiers (\<^verbatim>\<open>object.go\<close>), property
  references (\<^verbatim>\<open>property.go\<close>) and generic values (\<^verbatim>\<open>value.go\<close>).
  A wrapped error \<^verbatim>\<open>fmt.Errorf("%w: text", ErrX)\<close> is modelled by its sentinel: that is what
  \<^verbatim>\<open>errors.Is\<close> observes, the text is for humans. A float is its IEEE 754 bit pattern, which is
  what \<^verbatim>\<open>math.Float32bits\<close> and \<^verbatim>\<open>math.Float32frombits\<close> exchange with the wire.
\<close>

section \<open>Errors\<close>

datatype bacnet_error =
    ErrClosed | ErrTimeout | ErrTransactionCapacity | ErrMalformed | ErrUnsupported
  | ErrResponseSourceMismatch | ErrProtocolViolation | ErrAPDUTooLarge | ErrTrailingData
  | ErrLimitExceeded | ErrDeliveryDropped | ErrDeviceManagementDisabled | ErrBusy
  | ErrInvalidConfig
  | AbortError u8 bool u8 \<comment> \<open>invoke ID, server, reason\<close>
  | RejectError u8 u8 \<comment> \<open>invoke ID, reason\<close>
  | ErrorResponse u8 u8 u16 u16 \<comment> \<open>invoke ID, service, class, code\<close>

type_synonym 'a result = "bacnet_error + 'a"

section \<open>Decode limits\<close>

record DecodeLimits =
  MaxDatagramSize :: int
  MaxAPDUSize :: int
  MaxConstructedDepth :: int
  MaxElements :: int
  MaxOctetStringLength :: int
  MaxCharacterLength :: int
  MaxBitStringBits :: int
  MaxSegments :: int
  MaxReassembledAPDU :: int

definition DefaultDecodeLimits :: DecodeLimits where
  "DefaultDecodeLimits = \<lparr>MaxDatagramSize = 65535, MaxAPDUSize = 1476, MaxConstructedDepth = 32,
     MaxElements = 4096, MaxOctetStringLength = 65535, MaxCharacterLength = 65535,
     MaxBitStringBits = 65535, MaxSegments = 64, MaxReassembledAPDU = 65535\<rparr>"

definition withDefaults :: "DecodeLimits \<Rightarrow> DecodeLimits" where
  "withDefaults l = (let d = DefaultDecodeLimits in
     \<lparr>MaxDatagramSize = (if MaxDatagramSize l \<le> 0 then MaxDatagramSize d else MaxDatagramSize l),
      MaxAPDUSize = (if MaxAPDUSize l \<le> 0 then MaxAPDUSize d else MaxAPDUSize l),
      MaxConstructedDepth =
        (if MaxConstructedDepth l \<le> 0 then MaxConstructedDepth d else MaxConstructedDepth l),
      MaxElements = (if MaxElements l \<le> 0 then MaxElements d else MaxElements l),
      MaxOctetStringLength =
        (if MaxOctetStringLength l \<le> 0 then MaxOctetStringLength d else MaxOctetStringLength l),
      MaxCharacterLength =
        (if MaxCharacterLength l \<le> 0 then MaxCharacterLength d else MaxCharacterLength l),
      MaxBitStringBits =
        (if MaxBitStringBits l \<le> 0 then MaxBitStringBits d else MaxBitStringBits l),
      MaxSegments = (if MaxSegments l \<le> 0 then MaxSegments d else MaxSegments l),
      MaxReassembledAPDU =
        (if MaxReassembledAPDU l \<le> 0 then MaxReassembledAPDU d else MaxReassembledAPDU l)\<rparr>)"

definition Normalize :: "DecodeLimits \<Rightarrow> DecodeLimits" where
  "Normalize l = withDefaults l"

text \<open>The limits a parser runs with: every bound positive.\<close>

definition wf_limits :: "DecodeLimits \<Rightarrow> bool" where
  "wf_limits l \<longleftrightarrow> 0 < MaxDatagramSize l \<and> 0 < MaxAPDUSize l \<and> 0 < MaxConstructedDepth l
     \<and> 0 < MaxElements l \<and> 0 < MaxOctetStringLength l \<and> 0 < MaxCharacterLength l
     \<and> 0 < MaxBitStringBits l \<and> 0 < MaxSegments l \<and> 0 < MaxReassembledAPDU l"

section \<open>MAC and network addresses\<close>

definition MaxMACLength :: nat where
  "MaxMACLength = 7"

record MAC =
  mac_length :: u8
  mac_bytes :: bytes

definition zeroMAC :: MAC where
  "zeroMAC = \<lparr>mac_length = 0, mac_bytes = replicate MaxMACLength 0\<rparr>"

definition NewMAC :: "bytes \<Rightarrow> MAC result" where
  "NewMAC b = (let n = length b in
     if n > MaxMACLength then Inl ErrMalformed
     else Inr \<lparr>mac_length = of_nat n, mac_bytes = b @ replicate (MaxMACLength - n) 0\<rparr>)"

text \<open>\<^verbatim>\<open>MustMAC\<close> panics where \<open>NewMAC\<close> fails: \<open>None\<close>.\<close>

definition MustMAC :: "bytes \<Rightarrow> MAC option" where
  "MustMAC b = (case NewMAC b of Inl e \<Rightarrow> None | Inr m \<Rightarrow> Some m)"

definition MAC_Bytes :: "MAC \<Rightarrow> bytes" where
  "MAC_Bytes m = (if mac_length m = 0 then [] else take (unat (mac_length m)) (mac_bytes m))"

definition MAC_Len :: "MAC \<Rightarrow> nat" where
  "MAC_Len m = unat (mac_length m)"

definition MAC_IsZero :: "MAC \<Rightarrow> bool" where
  "MAC_IsZero m \<longleftrightarrow> mac_length m = 0"

text \<open>What the unexported fields guarantee of every \<open>MAC\<close> a program can hold.\<close>

definition wf_MAC :: "MAC \<Rightarrow> bool" where
  "wf_MAC m \<longleftrightarrow> unat (mac_length m) \<le> MaxMACLength
     \<and> mac_bytes m = take (unat (mac_length m)) (mac_bytes m)
         @ replicate (MaxMACLength - unat (mac_length m)) 0
     \<and> length (mac_bytes m) = MaxMACLength"

datatype AddressScope = AddressLocalStation | AddressLocalBroadcast | AddressRemoteStation
  | AddressRemoteBroadcast | AddressGlobalBroadcast

record Address =
  network :: u16
  addr_mac :: MAC
  scope :: AddressScope

text \<open>The zero value of \<^verbatim>\<open>Address\<close> is the local station without a MAC.\<close>

definition LocalStation :: "MAC \<Rightarrow> Address" where
  "LocalStation m = \<lparr>network = 0, addr_mac = m, scope = AddressLocalStation\<rparr>"

definition LocalBroadcast :: Address where
  "LocalBroadcast = \<lparr>network = 0, addr_mac = zeroMAC, scope = AddressLocalBroadcast\<rparr>"

definition RemoteStation :: "u16 \<Rightarrow> MAC \<Rightarrow> Address" where
  "RemoteStation n m = \<lparr>network = n, addr_mac = m, scope = AddressRemoteStation\<rparr>"

definition RemoteBroadcast :: "u16 \<Rightarrow> Address" where
  "RemoteBroadcast n = \<lparr>network = n, addr_mac = zeroMAC, scope = AddressRemoteBroadcast\<rparr>"

definition GlobalBroadcast :: Address where
  "GlobalBroadcast = \<lparr>network = 0, addr_mac = zeroMAC, scope = AddressGlobalBroadcast\<rparr>"

definition zeroAddress :: Address where
  "zeroAddress = LocalStation zeroMAC"

definition IsBroadcast :: "Address \<Rightarrow> bool" where
  "IsBroadcast a = (case scope a of AddressLocalBroadcast \<Rightarrow> True | AddressRemoteBroadcast \<Rightarrow> True
     | AddressGlobalBroadcast \<Rightarrow> True | _ \<Rightarrow> False)"

text \<open>The addresses the exported constructors build.\<close>

definition wf_Address :: "Address \<Rightarrow> bool" where
  "wf_Address a \<longleftrightarrow> (\<exists>m n. wf_MAC m \<and> (a = LocalStation m \<or> a = LocalBroadcast
     \<or> a = RemoteStation n m \<or> a = RemoteBroadcast n \<or> a = GlobalBroadcast))"

section \<open>Object identifiers and property references\<close>

type_synonym ObjectType = u16

definition ObjectTypeDevice :: ObjectType where
  "ObjectTypeDevice = 8"

definition MaxObjectInstance :: u32 where
  "MaxObjectInstance = 0x3FFFFF"

definition WildcardInstance :: u32 where
  "WildcardInstance = MaxObjectInstance"

record ObjectIdentifier =
  oType :: ObjectType
  Instance :: u32

definition zeroObjectID :: ObjectIdentifier where
  "zeroObjectID = \<lparr>oType = 0, Instance = 0\<rparr>"

definition AnyDevice :: ObjectIdentifier where
  "AnyDevice = \<lparr>oType = ObjectTypeDevice, Instance = WildcardInstance\<rparr>"

definition Matches :: "ObjectIdentifier \<Rightarrow> ObjectIdentifier \<Rightarrow> bool" where
  "Matches i got = (if i = got then True
     else oType i = ObjectTypeDevice \<and> Instance i = WildcardInstance \<and> oType got = ObjectTypeDevice)"

definition EncodeObjectIdentifier :: "ObjectIdentifier \<Rightarrow> u32 result" where
  "EncodeObjectIdentifier i =
     (if oType i > 0x3FF then Inl ErrMalformed
      else if Instance i > MaxObjectInstance then Inl ErrMalformed
      else Inr (push_bit 22 (ucast (oType i)) OR Instance i))"

definition DecodeObjectIdentifier :: "u32 \<Rightarrow> ObjectIdentifier" where
  "DecodeObjectIdentifier v = \<lparr>oType = ucast (drop_bit 22 v), Instance = v AND MaxObjectInstance\<rparr>"

definition AppendObjectIdentifier :: "bytes \<Rightarrow> ObjectIdentifier \<Rightarrow> bytes result" where
  "AppendObjectIdentifier dst i = rbind (EncodeObjectIdentifier i) (\<lambda>v. Inr (dst @ put32 v))"

type_synonym PropertyIdentifier = u32

record PropertyReference =
  Identifier :: PropertyIdentifier
  ArrayIndex :: "u32 option"

definition PropertyReference_Equal :: "PropertyReference \<Rightarrow> PropertyReference \<Rightarrow> bool" where
  "PropertyReference_Equal p q =
     (if Identifier p \<noteq> Identifier q then False
      else case (ArrayIndex p, ArrayIndex q) of
          (None, None) \<Rightarrow> True
        | (None, Some _) \<Rightarrow> False
        | (Some _, None) \<Rightarrow> False
        | (Some i, Some j) \<Rightarrow> i = j)"

section \<open>Values\<close>

type_synonym ApplicationTag = u8

abbreviation (input) "TagNull \<equiv> (0 :: ApplicationTag)"
abbreviation (input) "TagBoolean \<equiv> (1 :: ApplicationTag)"
abbreviation (input) "TagUnsigned \<equiv> (2 :: ApplicationTag)"
abbreviation (input) "TagSigned \<equiv> (3 :: ApplicationTag)"
abbreviation (input) "TagReal \<equiv> (4 :: ApplicationTag)"
abbreviation (input) "TagDouble \<equiv> (5 :: ApplicationTag)"
abbreviation (input) "TagOctetString \<equiv> (6 :: ApplicationTag)"
abbreviation (input) "TagCharacterString \<equiv> (7 :: ApplicationTag)"
abbreviation (input) "TagBitString \<equiv> (8 :: ApplicationTag)"
abbreviation (input) "TagEnumerated \<equiv> (9 :: ApplicationTag)"
abbreviation (input) "TagDate \<equiv> (10 :: ApplicationTag)"
abbreviation (input) "TagTime \<equiv> (11 :: ApplicationTag)"
abbreviation (input) "TagObjectIdentifier \<equiv> (12 :: ApplicationTag)"

record CharacterString =
  Encoding :: u8
  cs_Value :: bytes

record BitString =
  UnusedBits :: u8
  bs_Bytes :: bytes

record Date =
  Year :: u8
  Month :: u8
  Day :: u8
  Weekday :: u8

record Time =
  Hour :: u8
  Minute :: u8
  Second :: u8
  Hundredths :: u8

datatype ValueKind = ValueNull | ValueBoolean | ValueUnsigned | ValueSigned | ValueReal
  | ValueDouble | ValueOctetString | ValueCharacterString | ValueBitString | ValueEnumerated
  | ValueDate | ValueTime | ValueObjectID | ValueConstructed | ValueContext

text \<open>
  The primitive fields of the Go struct \<^verbatim>\<open>ApplicationValue\<close>, of which \<open>Kind\<close> selects one. Struct
  literals that name one field leave the others zero, so \<open>zeroFields\<close> with one update is the
  model of \<^verbatim>\<open>ApplicationValue{Kind: K, X: x}\<close>.
\<close>

record AVFields =
  Boolean :: bool
  Unsigned :: u64
  Signed :: u64 \<comment> \<open>int64, read with \<open>sint\<close>\<close>
  Real :: u32 \<comment> \<open>float32 bits\<close>
  Double :: u64 \<comment> \<open>float64 bits\<close>
  OctetString :: bytes
  Character :: CharacterString
  av_BitString :: BitString
  Enumerated :: u32
  av_Date :: Date
  av_Time :: Time
  ObjectID :: ObjectIdentifier

definition zeroFields :: AVFields where
  "zeroFields = \<lparr>Boolean = False, Unsigned = 0, Signed = 0, Real = 0, Double = 0, OctetString = [],
     Character = \<lparr>Encoding = 0, cs_Value = []\<rparr>, av_BitString = \<lparr>UnusedBits = 0, bs_Bytes = []\<rparr>,
     Enumerated = 0, av_Date = \<lparr>Year = 0, Month = 0, Day = 0, Weekday = 0\<rparr>,
     av_Time = \<lparr>Hour = 0, Minute = 0, Second = 0, Hundredths = 0\<rparr>, ObjectID = zeroObjectID\<rparr>"

datatype ApplicationValue =
    AV (Kind: ValueKind) (Fields: AVFields) (Elements: "Element list")
and Element =
    El (Context: bool) (TagNumber: u8) (Opening: bool) (Closing: bool) (Value: ApplicationValue)

definition zeroValue :: ApplicationValue where
  "zeroValue = AV ValueNull zeroFields []"

definition NullValue :: ApplicationValue where
  "NullValue = AV ValueNull zeroFields []"

definition BoolValue :: "bool \<Rightarrow> ApplicationValue" where
  "BoolValue b = AV ValueBoolean (zeroFields\<lparr>Boolean := b\<rparr>) []"

definition UnsignedValue :: "u64 \<Rightarrow> ApplicationValue" where
  "UnsignedValue u = AV ValueUnsigned (zeroFields\<lparr>Unsigned := u\<rparr>) []"

definition SignedValue :: "u64 \<Rightarrow> ApplicationValue" where
  "SignedValue s = AV ValueSigned (zeroFields\<lparr>Signed := s\<rparr>) []"

definition RealValue :: "u32 \<Rightarrow> ApplicationValue" where
  "RealValue f = AV ValueReal (zeroFields\<lparr>Real := f\<rparr>) []"

definition DoubleValue :: "u64 \<Rightarrow> ApplicationValue" where
  "DoubleValue f = AV ValueDouble (zeroFields\<lparr>Double := f\<rparr>) []"

definition EnumValue :: "u32 \<Rightarrow> ApplicationValue" where
  "EnumValue e = AV ValueEnumerated (zeroFields\<lparr>Enumerated := e\<rparr>) []"

definition ObjectIDValue :: "ObjectIdentifier \<Rightarrow> ApplicationValue" where
  "ObjectIDValue i = AV ValueObjectID (zeroFields\<lparr>ObjectID := i\<rparr>) []"

text \<open>Struct literals that name the other kinds' field, as several decoders write them.\<close>

definition OctetStringValue :: "bytes \<Rightarrow> ApplicationValue" where
  "OctetStringValue b = AV ValueOctetString (zeroFields\<lparr>OctetString := b\<rparr>) []"

definition CharacterValue :: "CharacterString \<Rightarrow> ApplicationValue" where
  "CharacterValue c = AV ValueCharacterString (zeroFields\<lparr>Character := c\<rparr>) []"

definition BitStringValue :: "BitString \<Rightarrow> ApplicationValue" where
  "BitStringValue b = AV ValueBitString (zeroFields\<lparr>av_BitString := b\<rparr>) []"

definition DateValue :: "Date \<Rightarrow> ApplicationValue" where
  "DateValue d = AV ValueDate (zeroFields\<lparr>av_Date := d\<rparr>) []"

definition TimeValue :: "Time \<Rightarrow> ApplicationValue" where
  "TimeValue t = AV ValueTime (zeroFields\<lparr>av_Time := t\<rparr>) []"

definition ContextValue :: "bytes \<Rightarrow> ApplicationValue" where
  "ContextValue b = AV ValueContext (zeroFields\<lparr>OctetString := b\<rparr>) []"

definition ConstructedValue :: "Element list \<Rightarrow> ApplicationValue" where
  "ConstructedValue els = AV ValueConstructed zeroFields els"

lemmas value_defs = NullValue_def BoolValue_def UnsignedValue_def SignedValue_def RealValue_def
  DoubleValue_def EnumValue_def ObjectIDValue_def OctetStringValue_def CharacterValue_def
  BitStringValue_def DateValue_def TimeValue_def ContextValue_def ConstructedValue_def

definition av_TagNumber :: "ApplicationValue \<Rightarrow> ApplicationTag" where
  "av_TagNumber v = (case Kind v of
      ValueNull \<Rightarrow> TagNull | ValueBoolean \<Rightarrow> TagBoolean | ValueUnsigned \<Rightarrow> TagUnsigned
    | ValueSigned \<Rightarrow> TagSigned | ValueReal \<Rightarrow> TagReal | ValueDouble \<Rightarrow> TagDouble
    | ValueOctetString \<Rightarrow> TagOctetString | ValueCharacterString \<Rightarrow> TagCharacterString
    | ValueBitString \<Rightarrow> TagBitString | ValueEnumerated \<Rightarrow> TagEnumerated | ValueDate \<Rightarrow> TagDate
    | ValueTime \<Rightarrow> TagTime | ValueObjectID \<Rightarrow> TagObjectIdentifier | _ \<Rightarrow> TagNull)"

definition AsUnsigned :: "ApplicationValue \<Rightarrow> u64 result" where
  "AsUnsigned v = (case Kind v of
      ValueUnsigned \<Rightarrow> Inr (Unsigned (Fields v))
    | ValueEnumerated \<Rightarrow> Inr (ucast (Enumerated (Fields v)))
    | _ \<Rightarrow> Inl ErrUnsupported)"

definition AsEnumerated :: "ApplicationValue \<Rightarrow> u32 result" where
  "AsEnumerated v =
     (if Kind v \<noteq> ValueEnumerated then Inl ErrUnsupported else Inr (Enumerated (Fields v)))"

definition AsBool :: "ApplicationValue \<Rightarrow> bool result" where
  "AsBool v = (if Kind v \<noteq> ValueBoolean then Inl ErrUnsupported else Inr (Boolean (Fields v)))"

definition AsObjectID :: "ApplicationValue \<Rightarrow> ObjectIdentifier result" where
  "AsObjectID v = (if Kind v \<noteq> ValueObjectID then Inl ErrUnsupported else Inr (ObjectID (Fields v)))"

section \<open>Lemmas\<close>

lemma wf_limits_Normalize [simp]: "wf_limits (Normalize l)"
  by (simp add: wf_limits_def Normalize_def withDefaults_def DefaultDecodeLimits_def Let_def)

lemma Normalize_wf: "wf_limits l \<Longrightarrow> Normalize l = l"
  by (simp add: wf_limits_def Normalize_def withDefaults_def)

lemma Normalize_idem [simp]: "Normalize (Normalize l) = Normalize l"
  by (rule Normalize_wf) simp

lemma wf_limits_Default [simp]: "wf_limits DefaultDecodeLimits"
  by (simp add: wf_limits_def DefaultDecodeLimits_def)

lemma Normalize_Default [simp]: "Normalize DefaultDecodeLimits = DefaultDecodeLimits"
  by (rule Normalize_wf) simp

lemma unat_of_nat_small [simp]: "n \<le> MaxMACLength \<Longrightarrow> unat (of_nat n :: u8) = n"
  by (simp add: MaxMACLength_def unat_of_nat)

lemma wf_MAC_NewMAC: "NewMAC b = Inr m \<Longrightarrow> wf_MAC m"
  by (auto simp: NewMAC_def wf_MAC_def Let_def split: if_splits)

lemma NewMAC_Bytes: "wf_MAC m \<Longrightarrow> NewMAC (MAC_Bytes m) = Inr m"
  by (cases m) (auto simp: NewMAC_def wf_MAC_def MAC_Bytes_def MaxMACLength_def Let_def)

lemma length_MAC_Bytes: "wf_MAC m \<Longrightarrow> length (MAC_Bytes m) = unat (mac_length m)"
  by (auto simp: MAC_Bytes_def wf_MAC_def)

lemma wf_MAC_zero [simp]: "wf_MAC zeroMAC"
  by (simp add: wf_MAC_def zeroMAC_def MaxMACLength_def)

lemma MAC_IsZero_iff: "wf_MAC m \<Longrightarrow> MAC_IsZero m \<longleftrightarrow> m = zeroMAC"
  by (cases m) (auto simp: MAC_IsZero_def wf_MAC_def zeroMAC_def)

lemma PropertyReference_Equal_iff: "PropertyReference_Equal p q \<longleftrightarrow> p = q"
  by (cases p; cases q) (auto simp: PropertyReference_Equal_def split: option.splits)

lemma MAC_Bytes_NewMAC: "length b \<le> MaxMACLength \<Longrightarrow> \<exists>m. NewMAC b = Inr m \<and> MAC_Bytes m = b"
  using unat_of_nat_small [of "length b"]
  by (auto simp: NewMAC_def MAC_Bytes_def Let_def simp del: unat_of_nat_small)

lemma EncodeObjectIdentifier_Decode:
  "EncodeObjectIdentifier (DecodeObjectIdentifier v) = Inr v"
proof -
  have "ucast (drop_bit 22 v) \<le> (0x3FF :: u16)"
  proof -
    have "unat (drop_bit 22 v) < 2 ^ 10"
      using unsigned_less [of v, where ?'a = nat] by (simp add: drop_bit_eq_div unat_div)
    then show ?thesis by (simp add: word_le_nat_alt unat_ucast)
  qed
  moreover have "v AND 0x3FFFFF \<le> (0x3FFFFF :: u32)" by (rule word_and_le1)
  moreover have "push_bit 22 (ucast (ucast (drop_bit 22 v) :: u16)) OR (v AND 0x3FFFFF) = v"
  proof -
    have m: "(0x3FFFFF :: u32) = mask 22" by (simp add: mask_eq_exp_minus_1)
    show ?thesis unfolding m
      by (rule bit_word_eqI) (auto simp: bit_simps)
  qed
  ultimately show ?thesis
    by (simp add: EncodeObjectIdentifier_def DecodeObjectIdentifier_def MaxObjectInstance_def not_less)
qed

lemma DecodeObjectIdentifier_Encode:
  assumes "EncodeObjectIdentifier i = Inr v"
  shows "DecodeObjectIdentifier v = i"
proof -
  have t: "unat (oType i) < 2 ^ 10" and n: "unat (Instance i) < 2 ^ 22" and
    v: "v = (push_bit 22 (ucast (oType i)) OR Instance i)"
    using assms by (auto simp: EncodeObjectIdentifier_def MaxObjectInstance_def word_le_nat_alt
        not_less split: if_splits)
  note tb = word_bit_bound [OF t] and nb = word_bit_bound [OF n]
  have "ucast (drop_bit 22 v) = oType i"
    unfolding v by (rule bit_word_eqI) (auto simp: bit_simps dest: tb nb)
  moreover have "v AND mask 22 = Instance i"
    unfolding v by (rule bit_word_eqI) (auto simp: bit_simps dest: tb nb)
  ultimately show ?thesis
    by (simp add: DecodeObjectIdentifier_def MaxObjectInstance_def mask_eq_exp_minus_1)
qed
end
