(* ===== verification/Tags.thy ===== *)
theory Tags
  imports Bacnet_Types
begin

text \<open>
  The tag codec of clause 20.2 (\<^verbatim>\<open>tags.go\<close>): parsing one tag with its value, and the deterministic
  encoding of tags, application values and context-tagged values. The encoders of \<^verbatim>\<open>tags.go\<close> and
  \<^verbatim>\<open>AppendContextTagged\<close> of \<^verbatim>\<open>constructed.go\<close> call each other, so they are one recursive block.
  Main results: a parsed tag consumes between one octet and the whole input, the integer codecs
  are inverse and minimal, and a parsed tag is the one that was encoded.
\<close>

section \<open>Decoding\<close>

definition tagNumberReserved :: u8 where
  "tagNumberReserved = 255"

text \<open>\<open>maxSafe\<close> of \<^verbatim>\<open>parseLength\<close>: the largest Go \<^verbatim>\<open>int\<close> on a 64-bit platform.\<close>

definition maxSafe :: nat where
  "maxSafe = 2 ^ 63 - 1"

definition parseLength :: "bytes \<Rightarrow> u8 \<Rightarrow> (nat \<times> nat) result" where
  "parseLength data lvt =
     (if lvt < 5 then Inr (unat lvt, 0)
      else if lvt = 5 then
        (if length data < 1 then Inl ErrMalformed
         else let ext = data ! 0 in
           if ext < 254 then Inr (unat ext, 1)
           else if ext = 254 then
             (if length data < 3 then Inl ErrMalformed
              else Inr (unat (Uint16 (subslice data 1 3)), 3))
           else if length data < 5 then Inl ErrMalformed
           else let u = Uint32 (subslice data 1 5) in
             if unat u > maxSafe then Inl ErrLimitExceeded else Inr (unat u, 5))
      else Inl ErrMalformed)"

definition validateBitString :: "u8 \<Rightarrow> nat \<Rightarrow> unit result" where
  "validateBitString unused octets =
     (if unused > 7 then Inl ErrMalformed
      else if octets = 0 \<and> unused \<noteq> 0 then Inl ErrMalformed
      else Inr ())"

definition shiftIn :: "u64 \<Rightarrow> u8 \<Rightarrow> u64" where
  "shiftIn u b = (push_bit 8 u OR ucast b)"

definition decodeUnsigned :: "bytes \<Rightarrow> u64 result" where
  "decodeUnsigned data =
     (if length data = 0 \<or> length data > 8 then Inl ErrMalformed
      else Inr (foldl shiftIn 0 data))"

text \<open>The int64 value is a 64-bit word read with \<open>sint\<close>; \<^verbatim>\<open>s << 8 | b\<close> is the same word operation.\<close>

definition decodeSigned :: "bytes \<Rightarrow> u64 result" where
  "decodeSigned data =
     (if length data = 0 \<or> length data > 8 then Inl ErrMalformed
      else let s = ucast (data ! 0); s = (if s \<ge> 0x80 then s - 0x100 else s)
        in Inr (foldl shiftIn s (drop 1 data)))"

definition decodeApplicationValue ::
    "ApplicationTag \<Rightarrow> bytes \<Rightarrow> u8 \<Rightarrow> DecodeLimits \<Rightarrow> ApplicationValue result" where
  "decodeApplicationValue tag data lvt limits =
     (if tag = TagNull then
        (if length data \<noteq> 0 then Inl ErrMalformed else Inr NullValue)
      else if tag = TagBoolean then
        (if length data \<noteq> 0 \<or> lvt > 1 then Inl ErrMalformed else Inr (BoolValue (lvt = 1)))
      else if tag = TagUnsigned then rbind (decodeUnsigned data) (\<lambda>u. Inr (UnsignedValue u))
      else if tag = TagSigned then rbind (decodeSigned data) (\<lambda>s. Inr (SignedValue s))
      else if tag = TagReal then
        (if length data \<noteq> 4 then Inl ErrMalformed else Inr (RealValue (Uint32 data)))
      else if tag = TagDouble then
        (if length data \<noteq> 8 then Inl ErrMalformed else Inr (DoubleValue (Uint64 data)))
      else if tag = TagOctetString then
        (if int (length data) > MaxOctetStringLength limits then Inl ErrLimitExceeded
         else Inr (OctetStringValue data))
      else if tag = TagCharacterString then
        (if length data < 1 then Inl ErrMalformed
         else if int (length data - 1) > MaxCharacterLength limits then Inl ErrLimitExceeded
         else Inr (CharacterValue \<lparr>Encoding = data ! 0, cs_Value = drop 1 data\<rparr>))
      else if tag = TagBitString then
        (if length data < 1 then Inl ErrMalformed
         else let unused = data ! 0 in
           rbind (validateBitString unused (length data - 1)) (\<lambda>_.
             if int ((length data - 1) * 8) > MaxBitStringBits limits then Inl ErrLimitExceeded
             else Inr (BitStringValue \<lparr>UnusedBits = unused, bs_Bytes = drop 1 data\<rparr>)))
      else if tag = TagEnumerated then
        rbind (decodeUnsigned data) (\<lambda>u.
          if u > 0xFFFFFFFF then Inl ErrMalformed else Inr (EnumValue (ucast u)))
      else if tag = TagDate then
        (if length data \<noteq> 4 then Inl ErrMalformed
         else Inr (DateValue \<lparr>Year = data ! 0, Month = data ! 1, Day = data ! 2, Weekday = data ! 3\<rparr>))
      else if tag = TagTime then
        (if length data \<noteq> 4 then Inl ErrMalformed
         else Inr (TimeValue
           \<lparr>Hour = data ! 0, Minute = data ! 1, Second = data ! 2, Hundredths = data ! 3\<rparr>))
      else if tag = TagObjectIdentifier then
        (if length data \<noteq> 4 then Inl ErrMalformed
         else Inr (ObjectIDValue (DecodeObjectIdentifier (Uint32 data))))
      else if int (length data) > MaxOctetStringLength limits then Inl ErrLimitExceeded
      else Inr (OctetStringValue data))"

text \<open>The tag number and the octets it takes, from the initial octet and the extension octet.\<close>

definition parseTagNumber :: "bytes \<Rightarrow> (u8 \<times> nat) result" where
  "parseTagNumber data =
     (let tagNumber = drop_bit 4 (data ! 0) in
      if tagNumber = 0x0F then
        (if 1 \<ge> length data then Inl ErrMalformed
         else let tagNumber = data ! 1 in
           if tagNumber < 0x0F \<or> tagNumber = tagNumberReserved then Inl ErrMalformed
           else Inr (tagNumber, 2))
      else Inr (tagNumber, 1))"

definition ParseTag :: "bytes \<Rightarrow> DecodeLimits \<Rightarrow> (Element \<times> nat) result" where
  "ParseTag data limits0 =
     (let limits = Normalize limits0 in
      if length data < 1 then Inl ErrMalformed
      else let b0 = data ! 0; context = (b0 AND 0x08 \<noteq> 0) in
        rbind (parseTagNumber data) (\<lambda>(tagNumber, off).
          let lvt = b0 AND 0x07 in
          if context \<and> lvt = 6 then Inr (El True tagNumber True False zeroValue, off)
          else if context \<and> lvt = 7 then Inr (El True tagNumber False True zeroValue, off)
          else if \<not> context \<and> tagNumber = TagBoolean then
            (if lvt > 1 then Inl ErrMalformed
             else Inr (El False tagNumber False False (BoolValue (lvt = 1)), off))
          else rbind (parseLength (drop off data) lvt) (\<lambda>(len, n).
            let off = off + n in
            if len > length data - off then Inl ErrMalformed
            else let valueBytes = subslice data off (off + len); off = off + len in
              if context then
                (if int len > MaxOctetStringLength limits then Inl ErrLimitExceeded
                 else Inr (El True tagNumber False False (ContextValue valueBytes), off))
              else rbind (decodeApplicationValue tagNumber valueBytes lvt limits) (\<lambda>v.
                Inr (El False tagNumber False False v, off)))))"

section \<open>Encoding\<close>

fun encodeUnsigned_loop :: "u64 \<Rightarrow> nat \<Rightarrow> bytes \<Rightarrow> bytes" where
  "encodeUnsigned_loop u 0 tmp = tmp"
| "encodeUnsigned_loop u (Suc i) tmp =
     (let b = ucast (drop_bit (i * 8) u AND 0xFF) in
      if length tmp > 0 \<or> b \<noteq> 0 then encodeUnsigned_loop u i (tmp @ [b])
      else encodeUnsigned_loop u i tmp)"

definition encodeUnsigned :: "u64 \<Rightarrow> bytes" where
  "encodeUnsigned u = (if u = 0 then [0] else encodeUnsigned_loop u 8 [])"

text \<open>The width loop of \<^verbatim>\<open>encodeSigned\<close>.\<close>

function encodeSigned_width :: "u64 \<Rightarrow> nat \<Rightarrow> nat" where
  "encodeSigned_width v width =
     (if width < 8 then
        let limit = 2 ^ (8 * width - 1) in
        if sint v \<ge> - limit \<and> sint v < limit then width
        else encodeSigned_width v (width + 1)
      else width)"
  by pat_completeness auto
termination
  by (relation "measure (\<lambda>(v, width). 8 - width)") auto

declare encodeSigned_width.simps [simp del]

definition encodeSigned :: "u64 \<Rightarrow> bytes" where
  "encodeSigned v = (let width = encodeSigned_width v 1 in
     map (\<lambda>i. ucast (signed_drop_bit ((width - 1 - i) * 8) v AND 0xFF)) [0..<width])"

definition encodeTagHeader :: "bool \<Rightarrow> u8 \<Rightarrow> nat \<Rightarrow> bytes result" where
  "encodeTagHeader context tagNumber len =
     (if len > 0xFFFFFFFF then Inl ErrLimitExceeded
      else let b0 = (if tagNumber < 15 then push_bit 4 tagNumber else 0xF0);
               extTag = (if tagNumber < 15 then [] else [tagNumber]);
               b0 = (if context then b0 OR 0x08 else b0) in
        Inr (if len < 5 then [b0 OR of_nat len] @ extTag
             else if len < 254 then [b0 OR 5] @ extTag @ [of_nat len]
             else if len \<le> 0xFFFF then [b0 OR 5] @ extTag @ [254] @ put16 (of_nat len)
             else [b0 OR 5] @ extTag @ [255] @ put32 (of_nat len)))"

definition appendAppPrimitive :: "bytes \<Rightarrow> ApplicationTag \<Rightarrow> bytes \<Rightarrow> bytes result" where
  "appendAppPrimitive dst tag value =
     rbind (encodeTagHeader False tag (length value)) (\<lambda>hdr. Inr (dst @ hdr @ value))"

definition appendContextPrimitive :: "bytes \<Rightarrow> u8 \<Rightarrow> bytes \<Rightarrow> bytes result" where
  "appendContextPrimitive dst tagNumber value =
     (if tagNumber = tagNumberReserved then Inl ErrMalformed
      else rbind (encodeTagHeader True tagNumber (length value)) (\<lambda>hdr. Inr (dst @ hdr @ value)))"

definition appendContextOpenClose :: "bytes \<Rightarrow> u8 \<Rightarrow> bool \<Rightarrow> bytes" where
  "appendContextOpenClose dst tagNumber opening =
     (let lvt = (if opening then 6 else 7) in
      if tagNumber < 15 then dst @ [push_bit 4 tagNumber OR 0x08 OR lvt]
      else dst @ [0xF0 OR 0x08 OR lvt, tagNumber])"

text \<open>A \<open>ValueNull\<close> value yields its \<open>OctetString\<close>: the zero \<open>Kind\<close> doubles as raw octets.\<close>

definition contextContentOctets :: "ApplicationValue \<Rightarrow> bytes result" where
  "contextContentOctets v = (let f = Fields v in case Kind v of
      ValueContext \<Rightarrow> (if length (Elements v) \<noteq> 0 then Inl ErrUnsupported else Inr (OctetString f))
    | ValueNull \<Rightarrow> Inr (OctetString f)
    | ValueBoolean \<Rightarrow> (if Boolean f then Inr [1] else Inr [0])
    | ValueUnsigned \<Rightarrow> Inr (encodeUnsigned (Unsigned f))
    | ValueSigned \<Rightarrow> Inr (encodeSigned (Signed f))
    | ValueReal \<Rightarrow> Inr (put32 (Real f))
    | ValueDouble \<Rightarrow> Inr (put64 (Double f))
    | ValueOctetString \<Rightarrow> Inr (OctetString f)
    | ValueCharacterString \<Rightarrow> Inr ([Encoding (Character f)] @ cs_Value (Character f))
    | ValueBitString \<Rightarrow>
        rbind (validateBitString (UnusedBits (av_BitString f)) (length (bs_Bytes (av_BitString f)))) (\<lambda>_.
          Inr ([UnusedBits (av_BitString f)] @ bs_Bytes (av_BitString f)))
    | ValueEnumerated \<Rightarrow> Inr (encodeUnsigned (ucast (Enumerated f)))
    | ValueDate \<Rightarrow> Inr [Year (av_Date f), Month (av_Date f), Day (av_Date f), Weekday (av_Date f)]
    | ValueTime \<Rightarrow> Inr [Hour (av_Time f), Minute (av_Time f), Second (av_Time f), Hundredths (av_Time f)]
    | ValueObjectID \<Rightarrow> rbind (EncodeObjectIdentifier (ObjectID f)) (\<lambda>e. Inr (put32 e))
    | ValueConstructed \<Rightarrow> Inl ErrUnsupported)"

text \<open>The primitive cases of \<^verbatim>\<open>AppendApplicationValue\<close>.\<close>

definition appendAppFields :: "bytes \<Rightarrow> ValueKind \<Rightarrow> AVFields \<Rightarrow> bytes result" where
  "appendAppFields dst k f = (case k of
      ValueNull \<Rightarrow> Inr (dst @ [push_bit 4 TagNull])
    | ValueBoolean \<Rightarrow>
        (if Boolean f then Inr (dst @ [push_bit 4 TagBoolean OR 1]) else Inr (dst @ [push_bit 4 TagBoolean]))
    | ValueUnsigned \<Rightarrow> appendAppPrimitive dst TagUnsigned (encodeUnsigned (Unsigned f))
    | ValueSigned \<Rightarrow> appendAppPrimitive dst TagSigned (encodeSigned (Signed f))
    | ValueReal \<Rightarrow> appendAppPrimitive dst TagReal (put32 (Real f))
    | ValueDouble \<Rightarrow> appendAppPrimitive dst TagDouble (put64 (Double f))
    | ValueOctetString \<Rightarrow> appendAppPrimitive dst TagOctetString (OctetString f)
    | ValueCharacterString \<Rightarrow>
        appendAppPrimitive dst TagCharacterString ([Encoding (Character f)] @ cs_Value (Character f))
    | ValueBitString \<Rightarrow>
        rbind (validateBitString (UnusedBits (av_BitString f)) (length (bs_Bytes (av_BitString f)))) (\<lambda>_.
          appendAppPrimitive dst TagBitString ([UnusedBits (av_BitString f)] @ bs_Bytes (av_BitString f)))
    | ValueEnumerated \<Rightarrow> appendAppPrimitive dst TagEnumerated (encodeUnsigned (ucast (Enumerated f)))
    | ValueDate \<Rightarrow> appendAppPrimitive dst TagDate
        [Year (av_Date f), Month (av_Date f), Day (av_Date f), Weekday (av_Date f)]
    | ValueTime \<Rightarrow> appendAppPrimitive dst TagTime
        [Hour (av_Time f), Minute (av_Time f), Second (av_Time f), Hundredths (av_Time f)]
    | ValueObjectID \<Rightarrow> rbind (EncodeObjectIdentifier (ObjectID f)) (\<lambda>e.
        appendAppPrimitive dst TagObjectIdentifier (put32 e))
    | _ \<Rightarrow> Inl ErrUnsupported)"

fun AppendTag :: "bytes \<Rightarrow> Element \<Rightarrow> bytes result"
and AppendContextTagged :: "bytes \<Rightarrow> u8 \<Rightarrow> Element list \<Rightarrow> bytes result"
and AppendApplicationValue :: "bytes \<Rightarrow> ApplicationValue \<Rightarrow> bytes result"
and AppendTags :: "bytes \<Rightarrow> Element list \<Rightarrow> bytes result" where
  "AppendTag dst (El context tagNumber opening closing (AV kind f els)) =
     (if (opening \<or> closing \<or> context) \<and> tagNumber = tagNumberReserved then Inl ErrMalformed
      else if opening then Inr (appendContextOpenClose dst tagNumber True)
      else if closing then Inr (appendContextOpenClose dst tagNumber False)
      else if context \<and> kind = ValueConstructed then AppendContextTagged dst tagNumber els
      else if context then
        rbind (contextContentOctets (AV kind f els)) (\<lambda>raw. appendContextPrimitive dst tagNumber raw)
      else AppendApplicationValue dst (AV kind f els))"
| "AppendContextTagged dst tagNumber body =
     (if tagNumber = tagNumberReserved then Inl ErrMalformed
      else rbind (AppendTags (appendContextOpenClose dst tagNumber True) body) (\<lambda>dst.
        Inr (appendContextOpenClose dst tagNumber False)))"
| "AppendApplicationValue dst (AV kind f els) =
     (if kind = ValueConstructed then AppendTags dst els else appendAppFields dst kind f)"
| "AppendTags dst [] = Inr dst"
| "AppendTags dst (e # es) = rbind (AppendTag dst e) (\<lambda>dst. AppendTags dst es)"

definition AppendContextBool :: "bytes \<Rightarrow> u8 \<Rightarrow> bool \<Rightarrow> bytes result" where
  "AppendContextBool dst tagNumber v = appendContextPrimitive dst tagNumber [if v then 1 else 0]"

definition ContextBool :: "Element \<Rightarrow> bool result" where
  "ContextBool el =
     (if \<not> Context el \<or> Opening el \<or> Closing el \<or> Kind (Value el) = ValueConstructed
      then Inl ErrMalformed
      else if length (OctetString (Fields (Value el))) \<noteq> 1 then Inl ErrMalformed
      else if OctetString (Fields (Value el)) ! 0 = 0 then Inr False
      else if OctetString (Fields (Value el)) ! 0 = 1 then Inr True
      else Inl ErrMalformed)"

definition IsContextConstructed :: "Element \<Rightarrow> bool" where
  "IsContextConstructed el \<longleftrightarrow>
     Context el \<and> \<not> Opening el \<and> \<not> Closing el \<and> Kind (Value el) = ValueConstructed"

definition ParseApplicationValue :: "bytes \<Rightarrow> DecodeLimits \<Rightarrow> (ApplicationValue \<times> nat) result" where
  "ParseApplicationValue data limits =
     rbind (ParseTag data limits) (\<lambda>(el, n).
       if Context el \<or> Opening el \<or> Closing el then Inl ErrMalformed else Inr (Value el, n))"

text \<open>A list of octets as a number, most significant octet first.\<close>

fun be_nat :: "bytes \<Rightarrow> nat" where
  "be_nat [] = 0"
| "be_nat (b # bs) = unat b * 256 ^ length bs + be_nat bs"

section \<open>Consumption\<close>

lemma parseTagNumber_consumes:
  "parseTagNumber data = Inr (t, off) \<Longrightarrow> data \<noteq> [] \<Longrightarrow> 0 < off \<and> off \<le> length data"
  by (cases data) (auto simp: parseTagNumber_def Let_def Suc_le_eq split: if_splits)

lemma parseLength_consumes: "parseLength data lvt = Inr (len, n) \<Longrightarrow> n \<le> length data"
  by (auto simp: parseLength_def Let_def Suc_le_eq split: if_splits)

lemma ParseTag_consumes:
  "ParseTag data limits = Inr (el, n) \<Longrightarrow> 0 < n \<and> n \<le> length data"
  by (auto simp: ParseTag_def Let_def rbind_eq_Inr split: if_splits prod.splits
      dest!: parseTagNumber_consumes parseLength_consumes)

section \<open>Unsigned and signed integers\<close>

lemma be_nat_append: "be_nat (xs @ ys) = be_nat xs * 256 ^ length ys + be_nat ys"
  by (induction xs) (auto simp: algebra_simps power_add)

lemma be_nat_less: "be_nat bs < 256 ^ length bs"
proof (induction bs)
  case (Cons b bs)
  have "unat b \<le> 255" using unsigned_less [of b, where ?'a = nat] by simp
  then have "unat b * 256 ^ length bs \<le> 255 * 256 ^ length bs" by (rule mult_le_mono1)
  with Cons have "unat b * 256 ^ length bs + be_nat bs < 255 * 256 ^ length bs + 256 ^ length bs"
    by linarith
  then show ?case by simp
qed simp

lemma two_power_octets: "(2::nat) ^ (i * 8) = 256 ^ i"
  by (induction i) (auto simp: power_add)

lemma unat_shiftIn: "unat u < 2 ^ 56 \<Longrightarrow> unat (shiftIn u b) = unat u * 256 + unat b"
proof -
  assume u: "unat u < 2 ^ 56"
  have "push_bit 8 u AND ucast b = 0"
    by (rule bit_word_eqI) (auto simp: bit_simps dest: bit_imp_le_length)
  then have "shiftIn u b = push_bit 8 u + ucast b"
    by (simp add: shiftIn_def disjunctive_add_eq_or)
  moreover have "unat (push_bit 8 u) = unat u * 256"
    using u by (simp add: push_bit_eq_mult unat_word_ariths mult.commute)
  moreover have "unat (ucast b :: u64) = unat b"
    using unsigned_less [of b, where ?'a = nat] by (simp add: unat_ucast)
  ultimately show ?thesis
    using u unsigned_less [of b, where ?'a = nat] by (simp add: unat_word_ariths)
qed

lemma unat_foldl_shiftIn:
  "length bs \<le> 8 \<Longrightarrow> unat u < 256 ^ (8 - length bs) \<Longrightarrow>
     unat (foldl shiftIn u bs) = unat u * 256 ^ length bs + be_nat bs"
proof (induction bs arbitrary: u)
  case (Cons b bs)
  have "(256::nat) ^ (8 - length (b # bs)) \<le> 256 ^ 7" by (rule power_increasing) auto
  with Cons.prems have "unat u < 2 ^ 56" by simp
  then have s: "unat (shiftIn u b) = unat u * 256 + unat b" by (rule unat_shiftIn)
  have "8 - length bs = Suc (8 - length (b # bs))" using Cons.prems(1) by simp
  then have "(256::nat) ^ (8 - length bs) = 256 * 256 ^ (8 - length (b # bs))" by simp
  then have "unat (shiftIn u b) < 256 ^ (8 - length bs)"
    using s Cons.prems(2) unsigned_less [of b, where ?'a = nat] by simp
  with Cons.IH Cons.prems(1) s show ?case by (simp add: algebra_simps)
qed simp

lemma decodeUnsigned_be_nat:
  "0 < length data \<Longrightarrow> length data \<le> 8 \<Longrightarrow> decodeUnsigned data = Inr (of_nat (be_nat data))"
proof -
  assume l: "0 < length data" "length data \<le> 8"
  then have "unat (foldl shiftIn 0 data) = be_nat data"
    using unat_foldl_shiftIn [of data 0] by simp
  then have "foldl shiftIn 0 data = of_nat (be_nat data)"
    by (metis of_nat_unat ucast_id)
  with l show ?thesis by (simp add: decodeUnsigned_def)
qed

lemma ucast_and_0xFF: "ucast (x AND 0xFF) = (ucast x :: u8)" for x :: u64
proof -
  have m: "(0xFF :: u64) = mask 8" by (simp add: mask_eq_exp_minus_1)
  show ?thesis unfolding m by (auto intro!: bit_word_eqI simp: bit_simps)
qed

lemma encodeUnsigned_loop_be_nat:
  "i \<le> 8 \<Longrightarrow> be_nat (encodeUnsigned_loop u i tmp) = be_nat tmp * 256 ^ i + unat u mod 256 ^ i"
proof (induction i arbitrary: tmp)
  case (Suc i)
  define b :: u8 where "b = ucast (drop_bit (i * 8) u AND 0xFF)"
  have b: "unat b = unat u div 256 ^ i mod 256"
  proof -
    have "unat (drop_bit (i * 8) u) = unat u div 256 ^ i"
      by (simp only: unat_drop_bit_eq) (simp add: drop_bit_eq_div two_power_octets)
    then show ?thesis by (simp add: b_def ucast_and_0xFF unat_ucast)
  qed
  have split: "unat u mod 256 ^ Suc i = unat b * 256 ^ i + unat u mod 256 ^ i"
    unfolding b by (metis add.commute mod_mult2_eq mult.commute power_Suc)
  show ?case
  proof (cases "length tmp > 0 \<or> b \<noteq> 0")
    case True
    then show ?thesis using Suc split
      by (simp add: b_def [symmetric] be_nat_append Let_def algebra_simps)
  next
    case False
    then show ?thesis using Suc split by (simp add: b_def [symmetric] Let_def)
  qed
qed simp

lemma encodeUnsigned_be_nat [simp]: "be_nat (encodeUnsigned u) = unat u"
proof -
  have "unat u mod 256 ^ 8 = unat u" using unsigned_less [of u, where ?'a = nat] by simp
  then show ?thesis using encodeUnsigned_loop_be_nat [of 8 u "[]"]
    by (simp add: encodeUnsigned_def)
qed

lemma length_encodeUnsigned_loop: "length (encodeUnsigned_loop u i tmp) \<le> length tmp + i"
proof (induction i arbitrary: tmp)
  case (Suc i)
  show ?case
    using Suc.IH [of tmp] Suc.IH [of "tmp @ [ucast (drop_bit (i * 8) u AND 0xFF)]"]
    by (auto simp: Let_def)
qed simp

lemma hd_encodeUnsigned_loop:
  "tmp \<noteq> [] \<Longrightarrow> encodeUnsigned_loop u i tmp \<noteq> [] \<and> hd (encodeUnsigned_loop u i tmp) = hd tmp"
  by (induction i arbitrary: tmp) (auto simp: Let_def)

lemma hd_encodeUnsigned_loop_Nil:
  "encodeUnsigned_loop u i [] = [] \<or> hd (encodeUnsigned_loop u i []) \<noteq> 0"
  by (induction i) (auto simp: Let_def hd_encodeUnsigned_loop)

lemma length_encodeUnsigned: "0 < length (encodeUnsigned u)" "length (encodeUnsigned u) \<le> 8"
proof -
  have "encodeUnsigned u \<noteq> []"
    using encodeUnsigned_be_nat [of u] by (auto simp: encodeUnsigned_def unat_0_iff)
  then show "0 < length (encodeUnsigned u)" by simp
  show "length (encodeUnsigned u) \<le> 8"
    using length_encodeUnsigned_loop [of u 8 "[]"] by (simp add: encodeUnsigned_def)
qed

lemma decodeUnsigned_encodeUnsigned [simp]: "decodeUnsigned (encodeUnsigned u) = Inr u"
  using length_encodeUnsigned [of u] by (simp add: decodeUnsigned_be_nat)

lemma be_nat_lower: "bs \<noteq> [] \<Longrightarrow> hd bs \<noteq> 0 \<Longrightarrow> 256 ^ (length bs - 1) \<le> be_nat bs"
proof (cases bs)
  case (Cons b r)
  assume "hd bs \<noteq> 0"
  with Cons have "1 \<le> unat b" by (simp add: Suc_le_eq unat_gt_0)
  then have "1 * 256 ^ length r \<le> unat b * 256 ^ length r" by (rule mult_le_mono1)
  then have "256 ^ length r \<le> unat b * 256 ^ length r + be_nat r" by linarith
  with Cons show ?thesis by simp
qed simp

lemma encodeUnsigned_minimal:
  assumes "decodeUnsigned bs = Inr u"
  shows "length (encodeUnsigned u) \<le> length bs"
proof (cases "u = 0")
  case True
  with assms show ?thesis
    by (auto simp: encodeUnsigned_def decodeUnsigned_def Suc_le_eq split: if_splits)
next
  case False
  from assms have l: "0 < length bs" "length bs \<le> 8"
    by (auto simp: decodeUnsigned_def split: if_splits)
  let ?e = "encodeUnsigned u"
  have "hd ?e \<noteq> 0"
    using hd_encodeUnsigned_loop_Nil [of u 8] length_encodeUnsigned [of u] False
    by (auto simp: encodeUnsigned_def)
  then have "256 ^ (length ?e - 1) \<le> unat u"
    using be_nat_lower [of ?e] length_encodeUnsigned [of u] by simp
  also have "unat u \<le> be_nat bs"
    using assms decodeUnsigned_be_nat [OF l] by (auto simp: unat_of_nat)
  also have "be_nat bs < 256 ^ length bs" by (rule be_nat_less)
  finally have "length ?e - 1 < length bs" by simp
  then show ?thesis by simp
qed


lemma encodeSigned_width_bounds:
  "1 \<le> w \<Longrightarrow> w \<le> 8 \<Longrightarrow> w \<le> encodeSigned_width v w \<and> encodeSigned_width v w \<le> 8 \<and>
    - (2 ^ (8 * encodeSigned_width v w - 1)) \<le> sint v \<and> sint v < 2 ^ (8 * encodeSigned_width v w - 1)"
proof (induction v w rule: encodeSigned_width.induct)
  case (1 v w)
  have r: "- (2 ^ 63) \<le> sint v" "sint v < 2 ^ 63"
    using sint_greater_eq [of v] sint_less [of v] by simp_all
  show ?case
  proof (cases "w < 8 \<and> \<not> (- (2 ^ (8 * w - 1)) \<le> sint v \<and> sint v < 2 ^ (8 * w - 1))")
    case True
    then have e: "encodeSigned_width v w = encodeSigned_width v (w + 1)"
      by (subst encodeSigned_width.simps) (auto simp: Let_def)
    from True "1.IH" [of "2 ^ (8 * w - 1)"] "1.prems" show ?thesis
      unfolding e by (auto simp: not_le not_less)
  next
    case False
    then have e: "encodeSigned_width v w = w"
      by (subst encodeSigned_width.simps) (auto simp: Let_def)
    show ?thesis
    proof (cases "w < 8")
      case True
      with False "1.prems" show ?thesis unfolding e by auto
    next
      case F: False
      with "1.prems" have "w = 8" by simp
      with r show ?thesis unfolding e by simp
    qed
  qed
qed

lemma shiftIn_signed_drop_bit:
  "shiftIn (signed_drop_bit 8 x) (ucast (x AND 0xFF)) = x"
  by (rule bit_word_eqI) (auto simp: shiftIn_def ucast_and_0xFF bit_simps)

lemma foldl_shiftIn_signed:
  "m < w \<Longrightarrow> foldl shiftIn (signed_drop_bit (m * 8) v)
     (map (\<lambda>i. ucast (signed_drop_bit ((w - 1 - i) * 8) v AND 0xFF)) [w - m..<w]) = v"
proof (induction m)
  case (Suc m)
  have u: "[w - Suc m..<w] = (w - Suc m) # [w - m..<w]"
    using Suc.prems by (subst upt_conv_Cons) (auto simp: Suc_diff_Suc)
  have i: "w - 1 - (w - Suc m) = m" using Suc.prems by simp
  have s: "shiftIn (signed_drop_bit (8 + m * 8) v) (ucast (signed_drop_bit (m * 8) v AND 0xFF))
      = signed_drop_bit (m * 8) v"
    using shiftIn_signed_drop_bit [of "signed_drop_bit (m * 8) v"]
    by (simp add: add.commute)
  show ?case using Suc unfolding u by (simp add: i s)
qed simp

lemma int_div_bounds:
  fixes a c P :: int
  assumes "0 < P" "- c * P \<le> a" "a < c * P"
  shows "- c \<le> a div P" "a div P < c"
proof -
  have "- c * P div P \<le> a div P" using assms by (intro zdiv_mono1) auto
  moreover have "- c * P div P = - c" using assms by (intro nonzero_mult_div_cancel_right) auto
  ultimately show "- c \<le> a div P" by simp
  have "a = a div P * P + a mod P" "0 \<le> a mod P" using assms by simp_all
  then have "a div P * P < c * P" using assms by linarith
  then show "a div P < c" using assms by simp
qed

lemma sign_extend_octet:
  assumes "- 128 \<le> sint x" "sint x < 128"
  shows "(let s = ucast (ucast x :: u8) :: u64 in if s \<ge> 0x80 then s - 0x100 else s) = x"
proof -
  define k where "k = sint x"
  define b :: u8 where "b = ucast x"
  have ux: "uint x mod 256 = k mod 256"
  proof -
    have "uint x = k mod 2 ^ 64" by (simp add: k_def uint_sint take_bit_eq_mod)
    then show ?thesis by (simp add: mod_mod_cancel)
  qed
  have "uint b = uint x mod 256" unfolding b_def by (simp add: unsigned_ucast_eq take_bit_eq_mod)
  then have b: "uint (ucast b :: u64) = k mod 256" by (simp add: ux unsigned_ucast_eq take_bit_int_eq_self_iff)
  have wb: "ucast b = (word_of_int (k mod 256) :: u64)" by (metis b word_of_int_uint)
  have le: "ucast b \<ge> (0x80 :: u64) \<longleftrightarrow> k mod 256 \<ge> 128" by (simp add: word_le_def b)
  show ?thesis
  proof (cases "0 \<le> k")
    case True
    then have "k mod 256 = k" using assms by (simp add: k_def)
    with le wb assms show ?thesis by (simp add: Let_def k_def b_def)
  next
    case False
    then have "(k + 256) mod 256 = k + 256"
      using assms by (intro mod_pos_pos_trivial) (auto simp: k_def)
    then have m: "k mod 256 = k + 256" by simp
    have "(word_of_int (k + 256) :: u64) - 0x100 = x" by (simp add: k_def)
    with m le wb assms show ?thesis by (simp add: Let_def k_def b_def)
  qed
qed

lemma decodeSigned_encodeSigned [simp]: "decodeSigned (encodeSigned v) = Inr v"
proof -
  define w where "w = encodeSigned_width v 1"
  have w: "1 \<le> w" "w \<le> 8" "- (2 ^ (8 * w - 1)) \<le> sint v" "sint v < 2 ^ (8 * w - 1)"
    using encodeSigned_width_bounds [of 1 v] by (auto simp: w_def)
  let ?x = "signed_drop_bit ((w - 1) * 8) v"
  have sx: "sint ?x = sint v div 2 ^ ((w - 1) * 8)"
    by (simp add: sint_signed_drop_bit_eq drop_bit_eq_div)
  have p: "(2::int) ^ (8 * w - 1) = 128 * 2 ^ ((w - 1) * 8)"
  proof -
    have "8 * w - 1 = 7 + (w - 1) * 8" using w by simp
    then show ?thesis by (simp only: power_add) simp
  qed
  have "- 128 \<le> sint ?x" "sint ?x < 128"
    using int_div_bounds [of "2 ^ ((w - 1) * 8)" 128 "sint v"] w(3,4) unfolding sx p by simp_all
  note ext = sign_extend_octet [OF this]
  have "[0..<w] = 0 # [1..<w]" using w by (simp add: upt_conv_Cons)
  then have e: "encodeSigned v = ucast ?x #
      map (\<lambda>i. ucast (signed_drop_bit ((w - 1 - i) * 8) v AND 0xFF)) [1..<w]"
    by (simp only: encodeSigned_def Let_def w_def [symmetric]) (simp add: ucast_and_0xFF)
  have "w - (w - 1) = 1" using w by simp
  then have "foldl shiftIn ?x
      (map (\<lambda>i. ucast (signed_drop_bit ((w - 1 - i) * 8) v AND 0xFF)) [1..<w]) = v"
    using foldl_shiftIn_signed [of "w - 1" w v] w by simp
  then show ?thesis using w(2) ext unfolding e by (simp add: decodeSigned_def Let_def)
qed
end
