(* ===== verification/Tag_Roundtrip.thy ===== *)
theory Tag_Roundtrip
  imports Tags
begin

text \<open>
  Round trip of single tags: \<open>ParseTag\<close> behind an encoded header cuts out exactly the value octets,
  and parsing an encoded application value gives the value back. A value is well formed when only
  the field its \<open>Kind\<close> selects is set and its length fits both the 32-bit length field and the
  decoder's limits.
\<close>

section \<open>The shape of a tag header\<close>

definition lvtOf :: "nat \<Rightarrow> u8" where
  "lvtOf len = (if len < 5 then of_nat len else 5)"

definition lengthOctets :: "nat \<Rightarrow> bytes" where
  "lengthOctets len = (if len < 5 then [] else if len < 254 then [of_nat len]
     else if len \<le> 0xFFFF then 254 # put16 (of_nat len) else 255 # put32 (of_nat len))"

definition extOctets :: "u8 \<Rightarrow> bytes" where
  "extOctets tn = (if tn < 15 then [] else [tn])"

definition initialOctet :: "bool \<Rightarrow> u8 \<Rightarrow> u8 \<Rightarrow> u8" where
  "initialOctet ctx tn lvt =
     (push_bit 4 (if tn < 15 then tn else 15) OR (if ctx then 8 else 0) OR lvt)"

section \<open>Well-formed values\<close>

text \<open>The struct literal that carries only the field its \<open>Kind\<close> selects.\<close>

definition canonicalValue :: "ApplicationValue \<Rightarrow> ApplicationValue" where
  "canonicalValue v = (let f = Fields v in case Kind v of
      ValueNull \<Rightarrow> NullValue
    | ValueBoolean \<Rightarrow> BoolValue (Boolean f)
    | ValueUnsigned \<Rightarrow> UnsignedValue (Unsigned f)
    | ValueSigned \<Rightarrow> SignedValue (Signed f)
    | ValueReal \<Rightarrow> RealValue (Real f)
    | ValueDouble \<Rightarrow> DoubleValue (Double f)
    | ValueOctetString \<Rightarrow> OctetStringValue (OctetString f)
    | ValueCharacterString \<Rightarrow> CharacterValue (Character f)
    | ValueBitString \<Rightarrow> BitStringValue (av_BitString f)
    | ValueEnumerated \<Rightarrow> EnumValue (Enumerated f)
    | ValueDate \<Rightarrow> DateValue (av_Date f)
    | ValueTime \<Rightarrow> TimeValue (av_Time f)
    | ValueObjectID \<Rightarrow> ObjectIDValue (ObjectID f)
    | ValueConstructed \<Rightarrow> ConstructedValue (Elements v)
    | ValueContext \<Rightarrow> ContextValue (OctetString f))"

text \<open>The primitive values that fit the wire form and the limits of the decoder.\<close>

definition fitsLimits :: "DecodeLimits \<Rightarrow> ApplicationValue \<Rightarrow> bool" where
  "fitsLimits L v = (let f = Fields v in case Kind v of
      ValueOctetString \<Rightarrow> int (length (OctetString f)) \<le> MaxOctetStringLength L
        \<and> length (OctetString f) \<le> 0xFFFFFFFF
    | ValueContext \<Rightarrow> int (length (OctetString f)) \<le> MaxOctetStringLength L
        \<and> length (OctetString f) \<le> 0xFFFFFFFF
    | ValueCharacterString \<Rightarrow> int (length (cs_Value (Character f))) \<le> MaxCharacterLength L
        \<and> length (cs_Value (Character f)) < 0xFFFFFFFF
    | ValueBitString \<Rightarrow>
        is_ok (validateBitString (UnusedBits (av_BitString f)) (length (bs_Bytes (av_BitString f))))
        \<and> int (length (bs_Bytes (av_BitString f)) * 8) \<le> MaxBitStringBits L
        \<and> length (bs_Bytes (av_BitString f)) < 0xFFFFFFFF
    | ValueObjectID \<Rightarrow> oType (ObjectID f) \<le> 0x3FF \<and> Instance (ObjectID f) \<le> MaxObjectInstance
    | _ \<Rightarrow> True)"

definition wf_appValue :: "DecodeLimits \<Rightarrow> ApplicationValue \<Rightarrow> bool" where
  "wf_appValue L v \<longleftrightarrow> Kind v \<noteq> ValueConstructed \<and> Kind v \<noteq> ValueContext
     \<and> canonicalValue v = v \<and> fitsLimits L v"

text \<open>Octets that parse back to one application-tagged value, whatever follows them.\<close>

definition isRoundTrip :: "DecodeLimits \<Rightarrow> ApplicationValue \<Rightarrow> bytes \<Rightarrow> bool" where
  "isRoundTrip L v bs \<longleftrightarrow> bs \<noteq> [] \<and>
     (\<forall>rest. ParseTag (bs @ rest) L = Inr (El False (av_TagNumber v) False False v, length bs))"

section \<open>Headers\<close>

lemma encodeTagHeader_eq:
  "len \<le> 0xFFFFFFFF \<Longrightarrow> encodeTagHeader ctx tn len =
     Inr (initialOctet ctx tn (lvtOf len) # extOctets tn @ lengthOctets len)"
  by (auto simp: encodeTagHeader_def initialOctet_def lvtOf_def extOctets_def lengthOctets_def
      Let_def ac_simps)

lemma encodeTagHeader_limit: "encodeTagHeader ctx tn len = Inr hdr \<Longrightarrow> len \<le> 0xFFFFFFFF"
  by (auto simp: encodeTagHeader_def split: if_splits)

lemma octet_fields:
  assumes t: "unat t < 2 ^ 4" and c: "c = 0 \<or> c = 8" and l: "unat l < 2 ^ 3"
  shows "drop_bit 4 (push_bit 4 t OR c OR l) = (t :: u8)"
    and "(push_bit 4 t OR c OR l) AND 8 = c"
    and "(push_bit 4 t OR c OR l) AND 7 = l"
proof -
  have tb: "bit t k = (bit t k \<and> k < 4)" for k using word_bit_bound [OF t] by blast
  have lb: "bit l k = (bit l k \<and> k < 3)" for k using word_bit_bound [OF l] by blast
  have c8: "bit (8 :: u8) n \<longleftrightarrow> n = 3" for n
    using bit_exp_iff [where ?'a = u8, of 3 n] by auto
  have c7: "(7 :: u8) = mask 3" by (simp add: mask_eq_exp_minus_1)
  have cb: "bit c k = (bit c k \<and> k = 3)" for k using c c8 by (metis bit_0_eq bot_apply bot_bool_def)
  show "drop_bit 4 (push_bit 4 t OR c OR l) = t"
  proof (rule bit_word_eqI)
    fix n show "bit (drop_bit 4 (push_bit 4 t OR c OR l)) n = bit t n"
      using tb [of n] lb [of "4 + n"] cb [of "4 + n"] by (auto simp: bit_simps)
  qed
  show "(push_bit 4 t OR c OR l) AND 8 = c"
  proof (rule bit_word_eqI)
    fix n show "bit ((push_bit 4 t OR c OR l) AND 8) n = bit c n"
      using lb [of n] cb [of n] c8 [of n] by (auto simp only: bit_and_iff bit_or_iff bit_push_bit_iff)
  qed
  show "(push_bit 4 t OR c OR l) AND 7 = l"
  proof (rule bit_word_eqI)
    fix n show "bit ((push_bit 4 t OR c OR l) AND 7) n = bit l n"
      using lb [of n] cb [of n] unfolding c7 by (auto simp: bit_simps)
  qed
qed

lemma initialOctet_fields:
  assumes "unat l < 8"
  shows "drop_bit 4 (initialOctet ctx tn l) = (if tn < 15 then tn else 15)"
    and "initialOctet ctx tn l AND 8 = (if ctx then 8 else 0)"
    and "initialOctet ctx tn l AND 7 = l"
proof -
  have "unat (if tn < 15 then tn else 15) < 2 ^ 4"
    by (auto simp: word_less_nat_alt)
  note f = octet_fields [OF this, of "if ctx then 8 else 0" l]
  show "drop_bit 4 (initialOctet ctx tn l) = (if tn < 15 then tn else 15)"
    "initialOctet ctx tn l AND 8 = (if ctx then 8 else 0)"
    "initialOctet ctx tn l AND 7 = l"
    using f assms by (auto simp: initialOctet_def)
qed

lemma lvtOf_bounds: "unat (lvtOf len) < 8" "lvtOf len \<noteq> 6" "lvtOf len \<noteq> 7"
proof -
  have "unat (lvtOf len) \<le> 5"
    by (auto simp: lvtOf_def unat_of_nat)
  then show "unat (lvtOf len) < 8" "lvtOf len \<noteq> 6" "lvtOf len \<noteq> 7"
    by auto
qed

lemma parseTagNumber_header:
  "unat l < 8 \<Longrightarrow> tn \<noteq> tagNumberReserved \<Longrightarrow>
     parseTagNumber (initialOctet ctx tn l # extOctets tn @ r) = Inr (tn, 1 + length (extOctets tn))"
  by (auto simp: parseTagNumber_def initialOctet_fields extOctets_def Let_def)

lemma parseLength_header:
  assumes "len \<le> 0xFFFFFFFF"
  shows "parseLength (lengthOctets len @ r) (lvtOf len) = Inr (len, length (lengthOctets len))"
proof -
  consider "len < 5" | "5 \<le> len" "len < 254" | "254 \<le> len" "len \<le> 0xFFFF" | "0xFFFF < len" by linarith
  then show ?thesis
  proof cases
    case 1
    then have "unat (of_nat len :: u8) = len" by (simp add: unat_of_nat)
    with 1 show ?thesis
      by (auto simp: parseLength_def lvtOf_def lengthOctets_def word_less_nat_alt)
  next
    case 2
    then have "unat (of_nat len :: u8) = len" by (simp add: unat_of_nat)
    with 2 show ?thesis
      by (auto simp: parseLength_def lvtOf_def lengthOctets_def word_less_nat_alt)
  next
    case 3
    then have "unat (of_nat len :: u16) = len" by (simp add: unat_of_nat)
    with 3 show ?thesis
      by (auto simp: parseLength_def lvtOf_def lengthOctets_def subslice_def Let_def)
  next
    case 4
    with assms have "unat (of_nat len :: u32) = len" by (simp add: unat_of_nat)
    with 4 assms show ?thesis
      by (auto simp: parseLength_def lvtOf_def lengthOctets_def subslice_def Let_def maxSafe_def)
  qed
qed

lemma ParseTag_primitive:
  assumes "data \<noteq> []" "(data ! 0 AND 8 \<noteq> 0) = ctx" "data ! 0 AND 7 = lvt" "lvt \<noteq> 6" "lvt \<noteq> 7"
    "ctx \<or> tn \<noteq> TagBoolean" "parseTagNumber data = Inr (tn, off)"
    "parseLength (drop off data) lvt = Inr (len, n)" "h = off + n" "h + len \<le> length data"
  shows "ParseTag data limits =
    (if ctx then
       (if int len > MaxOctetStringLength (Normalize limits) then Inl ErrLimitExceeded
        else Inr (El True tn False False (ContextValue (subslice data h (h + len))), h + len))
     else rbind (decodeApplicationValue tn (subslice data h (h + len)) lvt (Normalize limits)) (\<lambda>v.
       Inr (El False tn False False v, h + len)))"
proof -
  have "\<not> len > length data - (off + n)" using assms(9,10) by simp
  with assms show ?thesis by (auto simp: ParseTag_def Let_def)
qed

text \<open>Parsing behind an encoded header: the header is consumed and the value octets are cut out.\<close>

lemma ParseTag_header:
  assumes len: "length value \<le> 0xFFFFFFFF" and tn: "tn \<noteq> tagNumberReserved"
    and nb: "ctx \<or> tn \<noteq> TagBoolean"
    and hdr: "hdr = initialOctet ctx tn (lvtOf (length value)) # extOctets tn @ lengthOctets (length value)"
  shows "ParseTag (hdr @ value @ rest) limits =
    (if ctx then
       (if int (length value) > MaxOctetStringLength (Normalize limits) then Inl ErrLimitExceeded
        else Inr (El True tn False False (ContextValue value), length hdr + length value))
     else rbind (decodeApplicationValue tn value (lvtOf (length value)) (Normalize limits)) (\<lambda>v.
       Inr (El False tn False False v, length hdr + length value)))"
proof -
  have sl: "subslice (hdr @ value @ rest) (length hdr) (length hdr + length value) = value"
    by (rule subslice_append_mid) simp_all
  have "ParseTag (hdr @ value @ rest) limits =
    (if ctx then
       (if int (length value) > MaxOctetStringLength (Normalize limits) then Inl ErrLimitExceeded
        else Inr (El True tn False False (ContextValue
          (subslice (hdr @ value @ rest) (length hdr) (length hdr + length value))), length hdr + length value))
     else rbind (decodeApplicationValue tn
         (subslice (hdr @ value @ rest) (length hdr) (length hdr + length value))
         (lvtOf (length value)) (Normalize limits)) (\<lambda>v.
       Inr (El False tn False False v, length hdr + length value)))"
  proof (rule ParseTag_primitive)
    show "parseTagNumber (hdr @ value @ rest) = Inr (tn, 1 + length (extOctets tn))"
      using parseTagNumber_header [OF lvtOf_bounds(1) tn] by (simp add: hdr)
    have "drop (1 + length (extOctets tn)) (hdr @ value @ rest)
        = lengthOctets (length value) @ value @ rest" by (simp add: hdr)
    then show "parseLength (drop (1 + length (extOctets tn)) (hdr @ value @ rest))
        (lvtOf (length value)) = Inr (length value, length (lengthOctets (length value)))"
      using parseLength_header [OF len] by simp
  qed (use nb lvtOf_bounds [of "length value"] in
      \<open>simp_all add: hdr initialOctet_fields\<close>)
  then show ?thesis unfolding sl .
qed

section \<open>Application values\<close>

lemma appendAppPrimitive_ok:
  assumes "length value \<le> 0xFFFFFFFF" "tn < 15" "tn \<noteq> TagBoolean"
    "\<And>lvt. decodeApplicationValue tn value lvt (Normalize L) = Inr v" "av_TagNumber v = tn"
  shows "\<exists>bs. (\<forall>dst. appendAppPrimitive dst tn value = Inr (dst @ bs)) \<and> isRoundTrip L v bs"
proof -
  let ?h = "initialOctet False tn (lvtOf (length value)) # extOctets tn @ lengthOctets (length value)"
  have "tn \<noteq> tagNumberReserved" using assms(2) by (auto simp: tagNumberReserved_def)
  then have "isRoundTrip L v (?h @ value)"
    using ParseTag_header [of "value" tn False "?h" _ L] assms by (simp add: isRoundTrip_def)
  moreover have "appendAppPrimitive dst tn value = Inr (dst @ ?h @ value)" for dst
    using assms(1) by (simp add: appendAppPrimitive_def encodeTagHeader_eq)
  ultimately show ?thesis by blast
qed

lemma u32_in_u64 [simp]: "\<not> 0xFFFFFFFF < (ucast e :: u64)" "ucast (ucast e :: u64) = e" for e :: u32
proof -
  have "unat (ucast e :: u64) = unat e"
    using unsigned_less [of e, where ?'a = nat] by (simp add: unat_ucast)
  then show "\<not> 0xFFFFFFFF < (ucast e :: u64)"
    using unsigned_less [of e, where ?'a = nat] by (simp add: word_less_nat_alt)
  show "ucast (ucast e :: u64) = e"
    by (rule bit_word_eqI) (auto simp: bit_simps)
qed

lemma length_encodeSigned: "0 < length (encodeSigned v)" "length (encodeSigned v) \<le> 8"
  using encodeSigned_width_bounds [of 1 v] by (auto simp: encodeSigned_def Let_def)

lemma validateBitString_ok: "is_ok m \<Longrightarrow> m = Inr ()" for m :: "unit result"
  by (cases m) auto

lemma appendAppFields_roundtrip:
  assumes wf: "wf_appValue (Normalize L) v"
  shows "\<exists>bs. (\<forall>dst. appendAppFields dst (Kind v) (Fields v) = Inr (dst @ bs)) \<and> isRoundTrip L v bs"
proof -
  have v: "v = canonicalValue v" using wf by (simp add: wf_appValue_def)
  have fits: "fitsLimits (Normalize L) v" using wf by (simp add: wf_appValue_def)
  show ?thesis
  proof (cases "Kind v")
    case ValueNull
    then have "v = NullValue" using v by (simp add: canonicalValue_def)
    moreover have "isRoundTrip L NullValue [0]"
      by (simp add: isRoundTrip_def ParseTag_def parseTagNumber_def parseLength_def
          decodeApplicationValue_def av_TagNumber_def NullValue_def)
    ultimately show ?thesis by (auto simp: appendAppFields_def NullValue_def)
  next
    case ValueBoolean
    then obtain b where b: "v = BoolValue b" using v by (auto simp: canonicalValue_def)
    have "isRoundTrip L (BoolValue b) [if b then 0x11 else 0x10]"
      by (simp add: isRoundTrip_def ParseTag_def parseTagNumber_def av_TagNumber_def BoolValue_def)
    then show ?thesis by (cases b) (auto simp: b appendAppFields_def BoolValue_def)
  next
    case ValueUnsigned
    then obtain u where u: "v = UnsignedValue u" using v by (auto simp: canonicalValue_def)
    show ?thesis
      using appendAppPrimitive_ok [of "encodeUnsigned u" TagUnsigned L v] length_encodeUnsigned [of u]
      by (simp add: u appendAppFields_def UnsignedValue_def decodeApplicationValue_def av_TagNumber_def)
  next
    case ValueSigned
    then obtain s where s: "v = SignedValue s" using v by (auto simp: canonicalValue_def)
    show ?thesis
      using appendAppPrimitive_ok [of "encodeSigned s" TagSigned L v] length_encodeSigned [of s]
      by (simp add: s appendAppFields_def SignedValue_def decodeApplicationValue_def av_TagNumber_def)
  next
    case ValueReal
    then obtain f where f: "v = RealValue f" using v by (auto simp: canonicalValue_def)
    show ?thesis
      using appendAppPrimitive_ok [of "put32 f" TagReal L v] 
      by (simp add: f appendAppFields_def RealValue_def decodeApplicationValue_def av_TagNumber_def)
  next
    case ValueDouble
    then obtain f where f: "v = DoubleValue f" using v by (auto simp: canonicalValue_def)
    show ?thesis
      using appendAppPrimitive_ok [of "put64 f" TagDouble L v] 
      by (simp add: f appendAppFields_def DoubleValue_def decodeApplicationValue_def av_TagNumber_def)
  next
    case ValueOctetString
    then obtain b where b: "v = OctetStringValue b" using v by (auto simp: canonicalValue_def)
    show ?thesis
      using appendAppPrimitive_ok [of "b" TagOctetString L v] fits
      by (simp add: b appendAppFields_def OctetStringValue_def decodeApplicationValue_def av_TagNumber_def fitsLimits_def)
  next
    case ValueCharacterString
    then obtain c where c: "v = CharacterValue c" using v by (auto simp: canonicalValue_def)
    show ?thesis
      using appendAppPrimitive_ok [of "Encoding c # cs_Value c" TagCharacterString L v] fits
      by (simp add: c appendAppFields_def CharacterValue_def decodeApplicationValue_def av_TagNumber_def fitsLimits_def)
  next
    case ValueBitString
    then obtain b where b: "v = BitStringValue b" using v by (auto simp: canonicalValue_def)
    show ?thesis
      using appendAppPrimitive_ok [of "UnusedBits b # bs_Bytes b" TagBitString L v] fits validateBitString_ok [of "validateBitString (UnusedBits b) (length (bs_Bytes b))"]
      by (simp add: b appendAppFields_def BitStringValue_def decodeApplicationValue_def av_TagNumber_def fitsLimits_def)
  next
    case ValueEnumerated
    then obtain e where e: "v = EnumValue e" using v by (auto simp: canonicalValue_def)
    show ?thesis
      using appendAppPrimitive_ok [of "encodeUnsigned (ucast e)" TagEnumerated L v] length_encodeUnsigned [of "ucast e"]
      by (simp add: e appendAppFields_def EnumValue_def decodeApplicationValue_def av_TagNumber_def )
  next
    case ValueDate
    then obtain d where d: "v = DateValue d" using v by (auto simp: canonicalValue_def)
    show ?thesis
      using appendAppPrimitive_ok [of "[Year d, Month d, Day d, Weekday d]" TagDate L v] 
      by (simp add: d appendAppFields_def DateValue_def decodeApplicationValue_def av_TagNumber_def)
  next
    case ValueTime
    then obtain t where t: "v = TimeValue t" using v by (auto simp: canonicalValue_def)
    show ?thesis
      using appendAppPrimitive_ok [of "[Hour t, Minute t, Second t, Hundredths t]" TagTime L v] 
      by (simp add: t appendAppFields_def TimeValue_def decodeApplicationValue_def av_TagNumber_def)
  next
    case ValueObjectID
    then obtain i where i: "v = ObjectIDValue i" using v by (auto simp: canonicalValue_def)
    then have "oType i \<le> 0x3FF" "Instance i \<le> MaxObjectInstance"
      using fits by (auto simp: fitsLimits_def ObjectIDValue_def)
    then obtain e where e: "EncodeObjectIdentifier i = Inr e"
      by (simp add: EncodeObjectIdentifier_def leD)
    then have "DecodeObjectIdentifier e = i" by (rule DecodeObjectIdentifier_Encode)
    with e show ?thesis
      using appendAppPrimitive_ok [of "put32 e" TagObjectIdentifier L v]
      by (simp add: i appendAppFields_def ObjectIDValue_def decodeApplicationValue_def av_TagNumber_def)
  next
    case ValueConstructed
    then show ?thesis using wf by (simp add: wf_appValue_def)
  next
    case ValueContext
    then show ?thesis using wf by (simp add: wf_appValue_def)
  qed
qed

section \<open>Encoding is appending\<close>

lemma appendAppPrimitive_dst: "appendAppPrimitive dst tn raw = rmap ((@) dst) (appendAppPrimitive [] tn raw)"
  by (simp add: appendAppPrimitive_def rmap_rbind)

lemma appendContextPrimitive_dst:
  "appendContextPrimitive dst tn raw = rmap ((@) dst) (appendContextPrimitive [] tn raw)"
  by (simp add: appendContextPrimitive_def rmap_rbind)

lemma appendContextOpenClose_dst: "appendContextOpenClose dst tn b = dst @ appendContextOpenClose [] tn b"
  by (simp add: appendContextOpenClose_def Let_def)

lemma appendAppFields_dst: "appendAppFields dst k f = rmap ((@) dst) (appendAppFields [] k f)"
  using appendAppPrimitive_dst [of dst]
  by (cases k) (simp_all add: appendAppFields_def rmap_rbind)

lemma AppendTags_dst_aux:
  "(\<And>e dst. e \<in> set els \<Longrightarrow> AppendTag dst e = rmap ((@) dst) (AppendTag [] e)) \<Longrightarrow>
     AppendTags dst els = rmap ((@) dst) (AppendTags [] els)"
proof (induction els arbitrary: dst)
  case (Cons e es)
  have e: "AppendTag dst e = rmap ((@) dst) (AppendTag [] e)" for dst by (rule Cons.prems) simp
  have es: "AppendTags dst es = rmap ((@) dst) (AppendTags [] es)" for dst
    by (rule Cons.IH) (rule Cons.prems, simp)
  show ?case
  proof (cases "AppendTag [] e")
    case (Inr b)
    then show ?thesis using e [of dst] es [of "dst @ b"] es [of b] by (cases "AppendTags [] es") simp_all
  qed (use e [of dst] in simp)
qed simp

lemma AppendContextTagged_dst_aux:
  assumes els: "\<And>dst. AppendTags dst els = rmap ((@) dst) (AppendTags [] els)"
  shows "AppendContextTagged dst tn els = rmap ((@) dst) (AppendContextTagged [] tn els)"
proof -
  let ?o = "appendContextOpenClose [] tn True"
  have o: "appendContextOpenClose dst tn True = dst @ ?o" by (rule appendContextOpenClose_dst)
  have c: "appendContextOpenClose (dst @ d) tn False = dst @ appendContextOpenClose d tn False" for d
    using appendContextOpenClose_dst [of "dst @ d"] appendContextOpenClose_dst [of d] by simp
  show ?thesis
    using els [of "dst @ ?o"] els [of "?o"] by (cases "AppendTags [] els") (simp_all add: o c)
qed

lemma AppendApplicationValue_dst:
    "AppendApplicationValue dst v = rmap ((@) dst) (AppendApplicationValue [] v)"
  and AppendTag_dst: "AppendTag dst el = rmap ((@) dst) (AppendTag [] el)"
  and AppendContextTagged_dst: "AppendContextTagged dst tn els = rmap ((@) dst) (AppendContextTagged [] tn els)"
  and AppendTags_dst: "AppendTags dst els = rmap ((@) dst) (AppendTags [] els)"
proof -
  have *: "(\<forall>dst. AppendApplicationValue dst v = rmap ((@) dst) (AppendApplicationValue [] v)) \<and>
    (\<forall>dst. AppendTags dst (Elements v) = rmap ((@) dst) (AppendTags [] (Elements v)))"
    and **: "\<forall>dst. AppendTag dst el = rmap ((@) dst) (AppendTag [] el)" for v el
  proof (induction v and el)
    case (AV k f els)
    have els: "AppendTags dst els = rmap ((@) dst) (AppendTags [] els)" for dst
      by (rule AppendTags_dst_aux) (use AV in blast)
    have "AppendApplicationValue dst (AV k f els) = rmap ((@) dst) (AppendApplicationValue [] (AV k f els))" for dst
      using els [of dst] appendAppFields_dst [of dst k f] by simp
    with els show ?case unfolding ApplicationValue.sel by blast
  next
    case (El c t op cl v)
    obtain k f els where v: "v = AV k f els" by (cases v)
    have els: "AppendTags dst els = rmap ((@) dst) (AppendTags [] els)" for dst
      using El unfolding v ApplicationValue.sel by blast
    have av: "AppendApplicationValue dst v = rmap ((@) dst) (AppendApplicationValue [] v)" for dst
      using El by blast
    show ?case
    proof
      fix dst
      show "AppendTag dst (El c t op cl v) = rmap ((@) dst) (AppendTag [] (El c t op cl v))"
        using AppendContextTagged_dst_aux [OF els, of dst t] av [of dst]
          appendContextOpenClose_dst [of dst t True] appendContextOpenClose_dst [of dst t False]
          appendContextPrimitive_dst [of dst t]
        by (cases "contextContentOctets (AV k f els)")
          (simp_all add: v rmap_rbind del: AppendContextTagged.simps AppendApplicationValue.simps)
    qed
  qed
  show "AppendApplicationValue dst v = rmap ((@) dst) (AppendApplicationValue [] v)" using * by blast
  show "AppendTag dst el = rmap ((@) dst) (AppendTag [] el)" using ** by blast
  show els: "AppendTags dst els = rmap ((@) dst) (AppendTags [] els)" for dst els
    by (rule AppendTags_dst_aux) (use ** in blast)
  show "AppendContextTagged dst tn els = rmap ((@) dst) (AppendContextTagged [] tn els)"
    by (rule AppendContextTagged_dst_aux) (rule els)
qed
end
