(* ===== verification/Constructed.thy ===== *)
theory Constructed
  imports Tag_Roundtrip
begin

text \<open>
  Constructed data (\<^verbatim>\<open>constructed.go\<close>) and the BACnet Error production (\<^verbatim>\<open>error_value.go\<close>):
  the recursive tag sequence parser with its element budget and depth bound, the context-tagged
  append and extract helpers the service codecs are written in, and the two encodings of an error.
  Main results: the parser consumes its input and never builds more elements or deeper nesting
  than its limits allow, and it reads back every well-formed sequence that was encoded.
\<close>

section \<open>Parsing sequences\<close>

text \<open>
  The element budget behind the pointer is passed along and returned. \<open>closeTag\<close> is a Go \<^verbatim>\<open>int\<close>,
  negative for a sequence that ends with its input. \<open>parseSequence_loop\<close> is the \<^verbatim>\<open>for\<close> loop.
\<close>

function (sequential) parseSequence ::
    "bytes \<Rightarrow> DecodeLimits \<Rightarrow> int \<Rightarrow> int \<Rightarrow> int \<Rightarrow> (Element list \<times> nat \<times> int) result"
  and parseSequence_loop ::
    "bytes \<Rightarrow> DecodeLimits \<Rightarrow> int \<Rightarrow> int \<Rightarrow> int \<Rightarrow> Element list \<Rightarrow> nat \<Rightarrow> (Element list \<times> nat \<times> int) result"
where
  "parseSequence data limits closeTag depth budget =
     (if depth > MaxConstructedDepth limits then Inl ErrLimitExceeded
      else parseSequence_loop data limits closeTag depth budget [] 0)"
| "parseSequence_loop data limits closeTag depth budget elements off =
     (if off < length data then
        if budget \<le> 0 then Inl ErrLimitExceeded
        else case ParseTag (drop off data) limits of
          Inl e \<Rightarrow> Inl e
        | Inr (el, n) \<Rightarrow>
            if Closing el then
              if closeTag \<ge> 0 \<and> int (unat (TagNumber el)) = closeTag
              then Inr (elements, off + n, budget) else Inl ErrMalformed
            else if Opening el then
              case parseSequence (drop (off + n) data) limits (int (unat (TagNumber el))) (depth + 1) budget of
                Inl e \<Rightarrow> Inl e
              | Inr (inner, m, budget) \<Rightarrow>
                  parseSequence_loop data limits closeTag depth (budget - 1)
                    (elements @ [El True (TagNumber el) False False (ConstructedValue inner)]) (off + n + m)
            else parseSequence_loop data limits closeTag depth (budget - 1) (elements @ [el]) (off + n)
      else if closeTag \<ge> 0 then Inl ErrMalformed
      else Inr (elements, off, budget))"
  by pat_completeness auto
termination
proof (relation "measure (\<lambda>x. case x of
    Inl (data, _) \<Rightarrow> 2 * length data + 1
  | Inr (data, limits, closeTag, depth, budget, elements, off) \<Rightarrow> 2 * (length data - off))", goal_cases)
qed (auto dest!: ParseTag_consumes)

declare parseSequence.simps [simp del] parseSequence_loop.simps [simp del]

text \<open>The budget stays behind the pointer: \<^verbatim>\<open>ParseSequence\<close> drops what is left of it.\<close>

definition ParseSequence :: "bytes \<Rightarrow> DecodeLimits \<Rightarrow> int \<Rightarrow> (Element list \<times> nat) result" where
  "ParseSequence data limits closeTag =
     (let limits = Normalize limits; budget = MaxElements limits in
      rmap (\<lambda>(els, n, _). (els, n)) (parseSequence data limits closeTag 0 budget))"

section \<open>Context-tagged primitives\<close>

definition AppendContextUnsigned :: "bytes \<Rightarrow> u8 \<Rightarrow> u64 \<Rightarrow> bytes result" where
  "AppendContextUnsigned dst tagNumber v = appendContextPrimitive dst tagNumber (encodeUnsigned v)"

definition AppendContextObjectID :: "bytes \<Rightarrow> u8 \<Rightarrow> ObjectIdentifier \<Rightarrow> bytes result" where
  "AppendContextObjectID dst tagNumber i =
     rbind (EncodeObjectIdentifier i) (\<lambda>e. appendContextPrimitive dst tagNumber (put32 e))"

definition AppendContextNull :: "bytes \<Rightarrow> u8 \<Rightarrow> bytes result" where
  "AppendContextNull dst tagNumber = appendContextPrimitive dst tagNumber []"

definition AppendContextSigned :: "bytes \<Rightarrow> u8 \<Rightarrow> u64 \<Rightarrow> bytes result" where
  "AppendContextSigned dst tagNumber v = appendContextPrimitive dst tagNumber (encodeSigned v)"

definition AppendContextBitString :: "bytes \<Rightarrow> u8 \<Rightarrow> BitString \<Rightarrow> bytes result" where
  "AppendContextBitString dst tagNumber v =
     rbind (validateBitString (UnusedBits v) (length (bs_Bytes v))) (\<lambda>_.
       appendContextPrimitive dst tagNumber (UnusedBits v # bs_Bytes v))"

definition AppendContextCharacterString :: "bytes \<Rightarrow> u8 \<Rightarrow> CharacterString \<Rightarrow> bytes result" where
  "AppendContextCharacterString dst tagNumber v =
     appendContextPrimitive dst tagNumber (Encoding v # cs_Value v)"

definition AppendContextTime :: "bytes \<Rightarrow> u8 \<Rightarrow> Time \<Rightarrow> bytes result" where
  "AppendContextTime dst tagNumber t =
     appendContextPrimitive dst tagNumber [Hour t, Minute t, Second t, Hundredths t]"

definition AppendContextReal :: "bytes \<Rightarrow> u8 \<Rightarrow> u32 \<Rightarrow> bytes result" where
  "AppendContextReal dst tagNumber v = appendContextPrimitive dst tagNumber (put32 v)"

text \<open>The guard every extractor starts with.\<close>

definition notContextPrimitive :: "Element \<Rightarrow> bool" where
  "notContextPrimitive el \<longleftrightarrow>
     \<not> Context el \<or> Opening el \<or> Closing el \<or> Kind (Value el) = ValueConstructed"

definition ContextTime :: "Element \<Rightarrow> Time result" where
  "ContextTime el = (let b = OctetString (Fields (Value el)) in
     if notContextPrimitive el then Inl ErrMalformed
     else if length b \<noteq> 4 then Inl ErrMalformed
     else Inr \<lparr>Hour = b ! 0, Minute = b ! 1, Second = b ! 2, Hundredths = b ! 3\<rparr>)"

definition ContextReal :: "Element \<Rightarrow> u32 result" where
  "ContextReal el = (let b = OctetString (Fields (Value el)) in
     if notContextPrimitive el then Inl ErrMalformed
     else if length b \<noteq> 4 then Inl ErrMalformed
     else Inr (Uint32 b))"

definition ContextDate :: "Element \<Rightarrow> Date result" where
  "ContextDate el = (let b = OctetString (Fields (Value el)) in
     if notContextPrimitive el then Inl ErrMalformed
     else if length b \<noteq> 4 then Inl ErrMalformed
     else Inr \<lparr>Year = b ! 0, Month = b ! 1, Day = b ! 2, Weekday = b ! 3\<rparr>)"

definition ContextUnsigned :: "Element \<Rightarrow> u64 result" where
  "ContextUnsigned el =
     (if notContextPrimitive el then Inl ErrMalformed
      else decodeUnsigned (OctetString (Fields (Value el))))"

definition ContextUnsigned32 :: "Element \<Rightarrow> u32 result" where
  "ContextUnsigned32 el =
     rbind (ContextUnsigned el) (\<lambda>u. if u > 0xFFFFFFFF then Inl ErrMalformed else Inr (ucast u))"

definition ContextSigned :: "Element \<Rightarrow> u64 result" where
  "ContextSigned el =
     (if notContextPrimitive el then Inl ErrMalformed
      else decodeSigned (OctetString (Fields (Value el))))"

definition ContextBitString :: "Element \<Rightarrow> BitString result" where
  "ContextBitString el = (let b = OctetString (Fields (Value el)) in
     if notContextPrimitive el then Inl ErrMalformed
     else if length b < 1 then Inl ErrMalformed
     else rbind (validateBitString (b ! 0) (length b - 1)) (\<lambda>_.
       Inr \<lparr>UnusedBits = b ! 0, bs_Bytes = drop 1 b\<rparr>))"

definition ContextCharacterString :: "Element \<Rightarrow> CharacterString result" where
  "ContextCharacterString el = (let b = OctetString (Fields (Value el)) in
     if notContextPrimitive el then Inl ErrMalformed
     else if length b < 1 then Inl ErrMalformed
     else Inr \<lparr>Encoding = b ! 0, cs_Value = drop 1 b\<rparr>)"

definition ContextObjectID :: "Element \<Rightarrow> ObjectIdentifier result" where
  "ContextObjectID el = (let b = OctetString (Fields (Value el)) in
     if notContextPrimitive el then Inl ErrMalformed
     else if length b \<noteq> 4 then Inl ErrMalformed
     else Inr (DecodeObjectIdentifier
       (push_bit 24 (ucast (b ! 0)) OR push_bit 16 (ucast (b ! 1))
        OR push_bit 8 (ucast (b ! 2)) OR ucast (b ! 3))))"

section \<open>The BACnet Error production\<close>

definition errorFieldUint :: "Element \<Rightarrow> u16 result" where
  "errorFieldUint el = (let f = Fields (Value el) in
     if Kind (Value el) = ValueEnumerated then
       (if (ucast (Enumerated f) :: u64) > 0xFFFF then Inl ErrMalformed else Inr (ucast (Enumerated f)))
     else if Kind (Value el) = ValueUnsigned then
       (if Unsigned f > 0xFFFF then Inl ErrMalformed else Inr (ucast (Unsigned f)))
     else if Context el then
       rbind (ContextUnsigned el) (\<lambda>u. if u > 0xFFFF then Inl ErrMalformed else Inr (ucast u))
     else Inl ErrMalformed)"

text \<open>The loop over the elements, with class and code as options for the \<^verbatim>\<open>have\<close> flags.\<close>

fun decodeBACnetErrorContext_loop ::
    "u16 option \<Rightarrow> u16 option \<Rightarrow> Element list \<Rightarrow> (u16 \<times> u16) result" where
  "decodeBACnetErrorContext_loop class code [] =
     (case (class, code) of (Some c, Some d) \<Rightarrow> Inr (c, d) | _ \<Rightarrow> Inl ErrMalformed)"
| "decodeBACnetErrorContext_loop class code (el # els) =
     rbind (errorFieldUint el) (\<lambda>u.
       if TagNumber el = 0 then
         if class \<noteq> None then Inl ErrMalformed else decodeBACnetErrorContext_loop (Some u) code els
       else if TagNumber el = 1 then
         if code \<noteq> None then Inl ErrMalformed else decodeBACnetErrorContext_loop class (Some u) els
       else Inl ErrMalformed)"

definition decodeBACnetErrorContext :: "Element list \<Rightarrow> (u16 \<times> u16) result" where
  "decodeBACnetErrorContext elements = decodeBACnetErrorContext_loop None None elements"

definition decodeBACnetErrorApplication :: "Element list \<Rightarrow> (u16 \<times> u16) result" where
  "decodeBACnetErrorApplication elements =
     (if length elements \<noteq> 2 then Inl ErrMalformed
      else rbind (errorFieldUint (elements ! 0)) (\<lambda>class.
        rbind (errorFieldUint (elements ! 1)) (\<lambda>code. Inr (class, code))))"

definition DecodeBACnetError :: "Element list \<Rightarrow> (u16 \<times> u16) result" where
  "DecodeBACnetError elements =
     (if length elements = 0 then Inl ErrMalformed
      else if \<exists>el\<in>set elements. Opening el \<or> Closing el \<or> IsContextConstructed el then Inl ErrMalformed
      else if \<forall>el\<in>set elements. Context el then decodeBACnetErrorContext elements
      else if \<forall>el\<in>set elements. \<not> Context el then decodeBACnetErrorApplication elements
      else Inl ErrMalformed)"

definition EncodeBACnetError :: "bytes \<Rightarrow> u16 \<Rightarrow> u16 \<Rightarrow> bytes result" where
  "EncodeBACnetError dst class code =
     rbind (AppendApplicationValue dst (EnumValue (ucast class))) (\<lambda>dst.
       AppendApplicationValue dst (EnumValue (ucast code)))"

section \<open>Well-formed sequences\<close>

text \<open>The number of elements the budget pays for, and the nesting of opening tags.\<close>

fun el_count :: "Element \<Rightarrow> nat" and els_count :: "Element list \<Rightarrow> nat" where
  "el_count (El c tn op cl (AV k f els)) = Suc (els_count els)"
| "els_count [] = 0"
| "els_count (e # es) = el_count e + els_count es"

fun el_depth :: "Element \<Rightarrow> nat" and els_depth :: "Element list \<Rightarrow> nat" where
  "el_depth (El c tn op cl (AV k f els)) = (if k = ValueConstructed then Suc (els_depth els) else 0)"
| "els_depth [] = 0"
| "els_depth (e # es) = max (el_depth e) (els_depth es)"

text \<open>
  A sequence as \<^verbatim>\<open>ParseSequence\<close> builds it: no opening or closing elements left, context primitives
  as raw octets, application values with only the field of their kind set.
\<close>

fun wf_element :: "DecodeLimits \<Rightarrow> Element \<Rightarrow> bool" and wf_elements :: "DecodeLimits \<Rightarrow> Element list \<Rightarrow> bool" where
  "wf_element L (El c tn op cl (AV k f els)) \<longleftrightarrow> \<not> op \<and> \<not> cl \<and>
     (if c then tn \<noteq> tagNumberReserved \<and>
        (if k = ValueConstructed then f = zeroFields \<and> wf_elements L els
         else AV k f els = ContextValue (OctetString f) \<and> fitsLimits L (AV k f els))
      else wf_appValue L (AV k f els) \<and> tn = av_TagNumber (AV k f els))"
| "wf_elements L [] \<longleftrightarrow> True"
| "wf_elements L (e # es) \<longleftrightarrow> wf_element L e \<and> wf_elements L es"

text \<open>The elements the encoders emit: context primitives, application values, opening/closing pairs.\<close>

definition ctxEl :: "u8 \<Rightarrow> bytes \<Rightarrow> Element" where
  "ctxEl tn raw = El True tn False False (ContextValue raw)"

definition appEl :: "ApplicationValue \<Rightarrow> Element" where
  "appEl v = El False (av_TagNumber v) False False v"

definition conEl :: "u8 \<Rightarrow> Element list \<Rightarrow> Element" where
  "conEl tn els = El True tn False False (ConstructedValue els)"

text \<open>Octets the parser's loop turns into the given elements, wherever they stand in the input.\<close>

definition seqRoundTrip :: "DecodeLimits \<Rightarrow> Element list \<Rightarrow> bytes \<Rightarrow> bool" where
  "seqRoundTrip L els bs \<longleftrightarrow> (\<forall>pre rest ct d b acc.
     d + int (els_depth els) \<le> MaxConstructedDepth L \<longrightarrow> int (els_count els) \<le> b \<longrightarrow>
     parseSequence_loop (pre @ bs @ rest) L ct d b acc (length pre) =
     parseSequence_loop (pre @ bs @ rest) L ct d (b - int (els_count els)) (acc @ els) (length pre + length bs))"

text \<open>Application tags 13 and 14 are reserved; \<^verbatim>\<open>ParseTag\<close> keeps their content as an octet string.\<close>

fun standardTag :: "Element \<Rightarrow> bool" and standardTags :: "Element list \<Rightarrow> bool" where
  "standardTag (El c tn op cl (AV k f els)) \<longleftrightarrow> (c \<or> tn \<le> 12) \<and> standardTags els"
| "standardTags [] \<longleftrightarrow> True"
| "standardTags (e # es) \<longleftrightarrow> standardTag e \<and> standardTags es"

text \<open>
  What a successful run of the parser guarantees: it stops inside the input, pays for each element
  from its budget, keeps one unit while a closing tag is awaited and stays within the depth bound.
\<close>

definition boundedParse :: "DecodeLimits \<Rightarrow> nat \<Rightarrow> int \<Rightarrow> int \<Rightarrow> int \<Rightarrow> nat \<Rightarrow> Element list \<Rightarrow> nat \<Rightarrow> int \<Rightarrow> bool" where
  "boundedParse L len d ct b off els n b' \<longleftrightarrow> off \<le> n \<and> n \<le> len \<and> 0 \<le> b' \<and> (0 \<le> ct \<longrightarrow> 0 < b') \<and> int (els_count els) = b - b'
     \<and> d + int (els_depth els) \<le> MaxConstructedDepth L \<and> (standardTags els \<longrightarrow> wf_elements L els)"

section \<open>Reading back an encoded sequence\<close>

lemma length_appendContextOpenClose:
  "0 < length (appendContextOpenClose [] tn b)"
  by (simp add: appendContextOpenClose_def Let_def)

lemma appendContextOpenClose_octets:
  "appendContextOpenClose [] tn b = initialOctet True tn (if b then 6 else 7) # extOctets tn"
  by (simp add: appendContextOpenClose_def Let_def initialOctet_def extOctets_def)

lemma ParseTag_openClose:
  assumes "tn \<noteq> tagNumberReserved"
  shows "ParseTag (appendContextOpenClose [] tn b @ rest) L =
    Inr (El True tn b (\<not> b) zeroValue, length (appendContextOpenClose [] tn b))"
proof -
  let ?l = "if b then 6 else 7 :: u8"
  have "unat ?l < 8" by simp
  from parseTagNumber_header [OF this assms, of True rest] initialOctet_fields [OF this, of True tn]
  show ?thesis by (simp add: ParseTag_def appendContextOpenClose_octets Let_def)
qed

lemma appendContextPrimitive_roundtrip:
  assumes "tn \<noteq> tagNumberReserved" "length raw \<le> 0xFFFFFFFF" "int (length raw) \<le> MaxOctetStringLength (Normalize L)"
  shows "\<exists>bs. appendContextPrimitive [] tn raw = Inr bs \<and> bs \<noteq> [] \<and>
    (\<forall>rest. ParseTag (bs @ rest) L = Inr (El True tn False False (ContextValue raw), length bs))"
  using ParseTag_header [OF assms(2,1) _ refl, of True _ L] assms
  by (simp add: appendContextPrimitive_def encodeTagHeader_eq)

lemma parseSequence_loop_prim:
  assumes "ParseTag (bs @ rest) L = Inr (el, length bs)" "bs \<noteq> []" "0 < b" "\<not> Opening el" "\<not> Closing el"
  shows "parseSequence_loop (pre @ bs @ rest) L ct d b acc (length pre) =
    parseSequence_loop (pre @ bs @ rest) L ct d (b - 1) (acc @ [el]) (length pre + length bs)"
  using assms by (subst parseSequence_loop.simps) simp

lemma parseSequence_loop_open:
  assumes "tn \<noteq> tagNumberReserved" "0 < b" "bs = appendContextOpenClose [] tn True"
  shows "parseSequence_loop (pre @ bs @ rest) L ct d b acc (length pre) =
    (case parseSequence rest L (int (unat tn)) (d + 1) b of Inl e \<Rightarrow> Inl e
     | Inr (inner, m, b) \<Rightarrow> parseSequence_loop (pre @ bs @ rest) L ct d (b - 1)
         (acc @ [El True tn False False (ConstructedValue inner)]) (length pre + length bs + m))"
  using assms ParseTag_openClose [of tn True rest L] length_appendContextOpenClose [of tn True]
  by (subst parseSequence_loop.simps) (simp split: sum.split prod.split)

lemma parseSequence_loop_close:
  assumes "tn \<noteq> tagNumberReserved" "0 < b" "bs = appendContextOpenClose [] tn False"
  shows "parseSequence_loop (pre @ bs @ rest) L (int (unat tn)) d b acc (length pre) =
    Inr (acc, length pre + length bs, b)"
  using assms ParseTag_openClose [of tn False rest L] length_appendContextOpenClose [of tn False]
  by (subst parseSequence_loop.simps) simp

lemma seqRoundTrip_append:
  assumes "seqRoundTrip L [e] bs" "seqRoundTrip L es cs"
  shows "seqRoundTrip L (e # es) (bs @ cs)"
  unfolding seqRoundTrip_def
proof (intro allI impI)
  fix pre rest ct d b acc
  assume d: "d + int (els_depth (e # es)) \<le> MaxConstructedDepth L" and b: "int (els_count (e # es)) \<le> b"
  have "parseSequence_loop (pre @ bs @ cs @ rest) L ct d b acc (length pre) =
     parseSequence_loop (pre @ bs @ cs @ rest) L ct d (b - int (els_count [e])) (acc @ [e]) (length pre + length bs)"
    using assms(1) d b by (simp add: seqRoundTrip_def del: append_assoc)
  also have "\<dots> = parseSequence_loop ((pre @ bs) @ cs @ rest) L ct d (b - int (els_count [e])) (acc @ [e]) (length (pre @ bs))"
    by simp
  also have "\<dots> = parseSequence_loop ((pre @ bs) @ cs @ rest) L ct d (b - int (els_count [e]) - int (els_count es))
      ((acc @ [e]) @ es) (length (pre @ bs) + length cs)"
    using assms(2) [unfolded seqRoundTrip_def, rule_format, of d "b - int (els_count [e])" "pre @ bs"] d b by simp
  finally show "parseSequence_loop (pre @ (bs @ cs) @ rest) L ct d b acc (length pre) =
    parseSequence_loop (pre @ (bs @ cs) @ rest) L ct d (b - int (els_count (e # es))) (acc @ e # es)
      (length pre + length (bs @ cs))"
    by (simp add: algebra_simps)
qed

lemma seqRoundTrip_prim:
  assumes "\<And>rest. ParseTag (bs @ rest) L = Inr (el, length bs)" "bs \<noteq> []" "\<not> Opening el" "\<not> Closing el"
    "el_count el = 1"
  shows "seqRoundTrip L [el] bs"
  using parseSequence_loop_prim [OF assms(1,2) _ assms(3,4)] assms(5) by (simp add: seqRoundTrip_def)

lemma seqRoundTrip_constructed:
  assumes "seqRoundTrip L els bs" "tn \<noteq> tagNumberReserved"
  shows "seqRoundTrip L [El True tn False False (ConstructedValue els)]
    (appendContextOpenClose [] tn True @ bs @ appendContextOpenClose [] tn False)"
  unfolding seqRoundTrip_def
proof (intro allI impI)
  let ?o = "appendContextOpenClose [] tn True" and ?c = "appendContextOpenClose [] tn False"
  let ?e = "El True tn False False (ConstructedValue els)"
  fix pre rest ct d b acc
  assume d: "d + int (els_depth [?e]) \<le> MaxConstructedDepth L" and b: "int (els_count [?e]) \<le> b"
  from d b have d': "d + 1 + int (els_depth els) \<le> MaxConstructedDepth L"
    and b': "int (els_count els) + 1 \<le> b" by (simp_all add: ConstructedValue_def)
  have "parseSequence (bs @ ?c @ rest) L (int (unat tn)) (d + 1) b =
      parseSequence_loop (bs @ ?c @ rest) L (int (unat tn)) (d + 1) (b - int (els_count els)) els (length bs)"
    using assms(1) [unfolded seqRoundTrip_def, rule_format, of "d + 1" b "[]" "?c @ rest"] d' b'
    by (subst parseSequence.simps) simp
  also have "\<dots> = Inr (els, length bs + length ?c, b - int (els_count els))"
    using parseSequence_loop_close [OF assms(2) _ refl, of "b - int (els_count els)" bs] b' by simp
  finally have "parseSequence (bs @ ?c @ rest) L (int (unat tn)) (d + 1) b = \<dots>" .
  then show "parseSequence_loop (pre @ (?o @ bs @ ?c) @ rest) L ct d b acc (length pre) =
      parseSequence_loop (pre @ (?o @ bs @ ?c) @ rest) L ct d (b - int (els_count [?e])) (acc @ [?e])
        (length pre + length (?o @ bs @ ?c))"
    using parseSequence_loop_open [OF assms(2) _ refl, of b pre "bs @ ?c @ rest"] b'
    by (simp add: algebra_simps ConstructedValue_def)
qed


lemma wf_element_roundtrip:
  "Normalize L = L \<Longrightarrow> wf_element L el \<Longrightarrow> \<exists>bs. AppendTag [] el = Inr bs \<and> seqRoundTrip L [el] bs"
  "Normalize L = L \<Longrightarrow> wf_elements L els \<Longrightarrow> \<exists>bs. AppendTags [] els = Inr bs \<and> seqRoundTrip L els bs"
proof (induction el and els rule: wf_element_wf_elements.induct [case_names El Nil Cons])
  case (El L c tn op cl k f els)
  let ?v = "AV k f els"
  consider (con) "c" "k = ValueConstructed" | (ctx) "c" "k \<noteq> ValueConstructed" | (app) "\<not> c" by blast
  then show ?case
  proof cases
    case con
    then obtain bs where bs: "AppendTags [] els = Inr bs" "seqRoundTrip L els bs"
      using El by auto
    moreover have "AppendTags (appendContextOpenClose [] tn True) els = Inr (appendContextOpenClose [] tn True @ bs)"
      using AppendTags_dst [of "appendContextOpenClose [] tn True" els] bs by simp
    ultimately show ?thesis
      using seqRoundTrip_constructed [OF bs(2), of tn] El con
        appendContextOpenClose_dst [of "appendContextOpenClose [] tn True @ bs" tn False]
      by (auto simp: ConstructedValue_def)
  next
    case ctx
    with El have v: "?v = ContextValue (OctetString f)" "fitsLimits L ?v" "tn \<noteq> tagNumberReserved" "\<not> op" "\<not> cl"
      by auto
    then have "length (OctetString f) \<le> 0xFFFFFFFF" "int (length (OctetString f)) \<le> MaxOctetStringLength L"
      "contextContentOctets ?v = Inr (OctetString f)" "els = []"
      by (auto simp: fitsLimits_def ContextValue_def contextContentOctets_def)
    with appendContextPrimitive_roundtrip [of tn "OctetString f" L] v El.prems(1) obtain bs where
      bs: "appendContextPrimitive [] tn (OctetString f) = Inr bs" "bs \<noteq> []"
      "\<forall>rest. ParseTag (bs @ rest) L = Inr (El True tn False False ?v, length bs)"
      by auto
    have "seqRoundTrip L [El True tn False False ?v] bs"
      by (rule seqRoundTrip_prim) (use bs \<open>els = []\<close> in auto)
    with bs(1) show ?thesis
      using v(3-5) ctx \<open>contextContentOctets ?v = Inr (OctetString f)\<close> by auto
  next
    case app
    with El have v: "wf_appValue L ?v" "tn = av_TagNumber ?v" "\<not> op" "\<not> cl" by simp_all
    with appendAppFields_roundtrip [of L ?v] El.prems(1) obtain bs where
      bs: "appendAppFields [] k f = Inr bs" "isRoundTrip L ?v bs" by auto
    have "els = []" "k \<noteq> ValueConstructed"
      using v(1) by (cases k; auto simp: wf_appValue_def canonicalValue_def value_defs)+
    moreover have "seqRoundTrip L [El False tn False False ?v] bs"
      by (rule seqRoundTrip_prim) (use bs v(2) \<open>els = []\<close> in \<open>auto simp: isRoundTrip_def\<close>)
    ultimately show ?thesis
      using bs app v by auto
  qed
next
  case (Nil L)
  show ?case by (simp add: seqRoundTrip_def)
next
  case (Cons L e es)
  then obtain bs cs where "AppendTag [] e = Inr bs" "seqRoundTrip L [e] bs"
    "AppendTags [] es = Inr cs" "seqRoundTrip L es cs" by auto
  then show ?case
    using seqRoundTrip_append AppendTags_dst [of bs es] by auto
qed
lemma seqRoundTrip_ParseSequence:
  assumes "seqRoundTrip (Normalize L) els bs" "int (els_count els) \<le> MaxElements (Normalize L)"
    "int (els_depth els) \<le> MaxConstructedDepth (Normalize L)"
  shows "ParseSequence bs L (-1) = Inr (els, length bs)"
  using assms(1) [unfolded seqRoundTrip_def, rule_format, of 0 "MaxElements (Normalize L)" "[]" "[]" "-1" "[]"] assms(2,3)
  by (simp add: ParseSequence_def Let_def parseSequence.simps)
     (simp add: parseSequence_loop.simps)

section \<open>What the parser accepts\<close>

lemma parseLength_u32: "parseLength data lvt = Inr (len, n) \<Longrightarrow> len \<le> 0xFFFFFFFF"
  using unsigned_less [of "Uint32 (subslice data 1 5)", where ?'a = nat]
    unsigned_less [of "Uint16 (subslice data 1 3)", where ?'a = nat]
    unsigned_less [of lvt, where ?'a = nat] unsigned_less [of "data ! 0", where ?'a = nat]
  by (auto simp: parseLength_def Let_def split: if_splits)

lemma standard_tag: "tn \<le> 12 \<Longrightarrow> tn \<in> {0, 1, 2, 3, 4, 5, 6, 7, 8, 9, 10, 11, 12}" for tn :: u8
proof -
  assume "tn \<le> 12"
  then have "tn \<in> of_nat ` {0..<13}"
    by (intro image_eqI [of _ _ "unat tn"]) (simp_all add: word_le_nat_alt)
  also have "{0..<13::nat} = set [0..<13]" by simp
  finally show ?thesis by (simp add: upt_rec)
qed

lemma DecodeObjectIdentifier_bounds:
  "oType (DecodeObjectIdentifier v) \<le> 0x3FF" "Instance (DecodeObjectIdentifier v) \<le> MaxObjectInstance"
  using EncodeObjectIdentifier_Decode [of v] by (auto simp: EncodeObjectIdentifier_def split: if_splits)

lemma decodeApplicationValue_wf:
  assumes "decodeApplicationValue tn data lvt N = Inr v" "tn \<le> 12" "length data \<le> 0xFFFFFFFF"
  shows "wf_appValue N v \<and> av_TagNumber v = tn"
  using assms(1,3) standard_tag [OF assms(2)]
  by (auto simp: decodeApplicationValue_def wf_appValue_def canonicalValue_def fitsLimits_def value_defs
      av_TagNumber_def rbind_eq_Inr Let_def DecodeObjectIdentifier_bounds split: if_splits)

lemma parseTagNumber_not_reserved: "parseTagNumber data = Inr (tn, n) \<Longrightarrow> tn \<noteq> tagNumberReserved"
proof -
  have "drop_bit 4 (data ! 0) \<noteq> 255"
    using unsigned_less [of "data ! 0", where ?'a = nat] 
    by (auto simp: word_unat_eq_iff drop_bit_eq_div unat_div)
  then show "parseTagNumber data = Inr (tn, n) \<Longrightarrow> tn \<noteq> tagNumberReserved"
    by (auto simp: parseTagNumber_def Let_def tagNumberReserved_def split: if_splits)
qed

lemma wf_element_app:
  "wf_element L (El False tn False False v) \<longleftrightarrow> wf_appValue L v \<and> tn = av_TagNumber v"
  by (cases v) simp

lemma wf_element_context:
  "wf_element L (El True tn False False (ContextValue raw)) \<longleftrightarrow> tn \<noteq> tagNumberReserved
     \<and> int (length raw) \<le> MaxOctetStringLength L \<and> length raw \<le> 0xFFFFFFFF"
  by (simp add: ContextValue_def fitsLimits_def)

lemma wf_element_constructed:
  "wf_element L (El True tn False False (ConstructedValue els)) \<longleftrightarrow>
     tn \<noteq> tagNumberReserved \<and> wf_elements L els"
  by (simp add: ConstructedValue_def)

lemma length_subslice_le: "length (subslice xs i j) \<le> j - i"
  by (simp add: subslice_def)

lemma ParseTag_elim:
  assumes "ParseTag data L = Inr (el, n)"
  obtains (marker) tn op where "el = El True tn op (\<not> op) zeroValue" "tn \<noteq> tagNumberReserved"
  | (bool) b where "el = El False TagBoolean False False (BoolValue b)"
  | (ctx) tn raw where "el = El True tn False False (ContextValue raw)" "tn \<noteq> tagNumberReserved"
      "int (length raw) \<le> MaxOctetStringLength (Normalize L)" "length raw \<le> 0xFFFFFFFF"
  | (app) tn raw lvt v where "el = El False tn False False v" "length raw \<le> 0xFFFFFFFF"
      "decodeApplicationValue tn raw lvt (Normalize L) = Inr v"
proof -
  let ?N = "Normalize L"
  obtain tn off where t: "parseTagNumber data = Inr (tn, off)"
    using assms by (auto simp: ParseTag_def Let_def rbind_eq_Inr split: if_splits)
  then have tn: "tn \<noteq> tagNumberReserved" by (rule parseTagNumber_not_reserved)
  let ?ctx = "data ! 0 AND 8 \<noteq> 0" and ?lvt = "data ! 0 AND 7"
  consider (m) op where "el = El True tn op (\<not> op) zeroValue"
    | (b) "el = El False TagBoolean False False (BoolValue (?lvt = 1))"
    | (p) len k raw where "parseLength (drop off data) ?lvt = Inr (len, k)"
        "raw = subslice data (off + k) (off + k + len)"
        "if ?ctx then int len \<le> MaxOctetStringLength ?N \<and> el = El True tn False False (ContextValue raw)
         else \<exists>v. decodeApplicationValue tn raw ?lvt ?N = Inr v \<and> el = El False tn False False v"
    using assms unfolding ParseTag_def
    by (auto simp: t Let_def rbind_eq_Inr not_less split: if_splits)
  then show thesis
  proof cases
    case m
    then show thesis using tn by (rule marker)
  next
    case b
    then show thesis by (rule bool)
  next
    case p
    have "length raw \<le> len" using length_subslice_le [of data "off + k" "off + k + len"] p(2) by simp
    moreover have "len \<le> 0xFFFFFFFF" using p(1) by (rule parseLength_u32)
    ultimately show thesis
      using p(3) tn app [of tn _ raw ?lvt] by (auto split: if_splits intro: ctx)
  qed
qed

lemma ParseTag_wf:
  assumes "ParseTag data L = Inr (el, n)" "\<not> Opening el" "\<not> Closing el" "Context el \<or> TagNumber el \<le> 12"
  shows "wf_element (Normalize L) el"
  using assms(1)
proof (cases rule: ParseTag_elim)
  case (app tn raw lvt v)
  then show ?thesis using decodeApplicationValue_wf [of tn raw lvt "Normalize L" v] assms(4)
    by (simp add: wf_element_app)
qed (use assms in \<open>auto simp: wf_element_context wf_element_app BoolValue_def wf_appValue_def
    canonicalValue_def fitsLimits_def av_TagNumber_def\<close>)

lemma decodeApplicationValue_Elements:
  "decodeApplicationValue tn raw lvt N = Inr v \<Longrightarrow> Elements v = [] \<and> Kind v \<noteq> ValueConstructed"
  by (auto simp: decodeApplicationValue_def value_defs rbind_eq_Inr Let_def split: if_splits)

lemma ParseTag_flat:
  assumes "ParseTag data L = Inr (el, n)"
  shows "el_count el = 1" "el_depth el = 0"
  using assms
  by (cases rule: ParseTag_elim;
    cases "Value el"; use decodeApplicationValue_Elements in \<open>force simp: value_defs zeroValue_def\<close>)+


lemma els_append [simp]:
  "els_count (xs @ ys) = els_count xs + els_count ys"
  "els_depth (xs @ ys) = max (els_depth xs) (els_depth ys)"
  "wf_elements L (xs @ ys) \<longleftrightarrow> wf_elements L xs \<and> wf_elements L ys"
  "standardTags (xs @ ys) \<longleftrightarrow> standardTags xs \<and> standardTags ys"
  by (induction xs) auto

lemma parseSequence_bounded:
  "parseSequence data L ct d b = Inr (els, n, b') \<Longrightarrow> Normalize L = L \<Longrightarrow> 0 \<le> b \<Longrightarrow>
     boundedParse L (length data) d ct b 0 els n b'"
  "parseSequence_loop data L ct d b acc off = Inr (els, n, b') \<Longrightarrow> Normalize L = L \<Longrightarrow> 0 \<le> b \<Longrightarrow>
     d \<le> MaxConstructedDepth L \<Longrightarrow> off \<le> length data \<Longrightarrow>
     \<exists>new. els = acc @ new \<and> boundedParse L (length data) d ct b off new n b'"
proof (induction data L ct d b and data L ct d b acc off arbitrary: els n b' and els n b'
    rule: parseSequence_parseSequence_loop.induct [case_names seq loop])
  case (seq data L ct d b)
  then show ?case by (auto simp: parseSequence.simps split: if_splits)
next
  case (loop data L ct d b acc off)
  show ?case
  proof (cases "off < length data")
    case False
    with loop.prems show ?thesis
      by (auto simp: parseSequence_loop.simps [of data L ct d b acc off] boundedParse_def split: if_splits)
  next
    case True
    with loop.prems(1) obtain el k where b: "0 < b" and pt: "ParseTag (drop off data) L = Inr (el, k)"
      by (auto simp: parseSequence_loop.simps [of data L ct d b acc off] split: if_splits sum.splits)
    have k: "0 < k" "off + k \<le> length data" using ParseTag_consumes [OF pt] True by auto
    note eq = loop.prems(1) [unfolded parseSequence_loop.simps [of data L ct d b acc off] pt]
    consider (close) "Closing el" | (opn) "\<not> Closing el" "Opening el" | (prim) "\<not> Closing el" "\<not> Opening el" by blast
    then show ?thesis
    proof cases
      case close
      then show ?thesis using eq True b k loop.prems by (auto simp: boundedParse_def split: if_splits)
    next
      case prim
      then have "parseSequence_loop data L ct d (b - 1) (acc @ [el]) (off + k) = Inr (els, n, b')"
        using eq True b by simp
      from loop.IH(3) [OF True _ pt refl prim this] obtain new where
        new: "els = (acc @ [el]) @ new" "boundedParse L (length data) d ct (b - 1) (off + k) new n b'"
        using b k loop.prems by auto
      have "wf_element L el" if "standardTag el"
        using ParseTag_wf [OF pt] prim that loop.prems(2) by (cases el; cases "Value el") auto
      then show ?thesis
        using new k ParseTag_flat [OF pt] loop.prems(4)
        by (intro exI [of _ "el # new"]) (auto simp: boundedParse_def)
    next
      case opn
      then obtain inner m b1 where
        i: "parseSequence (drop (off + k) data) L (int (unat (TagNumber el))) (d + 1) b = Inr (inner, m, b1)"
        and r: "parseSequence_loop data L ct d (b1 - 1)
            (acc @ [El True (TagNumber el) False False (ConstructedValue inner)]) (off + k + m) = Inr (els, n, b')"
        using eq True b by (auto split: sum.splits)
      from loop.IH(1) [OF True _ pt refl opn i] b loop.prems(2)
      have inb: "boundedParse L (length (drop (off + k) data)) (d + 1) (int (unat (TagNumber el))) b 0 inner m b1" by simp
      then have "0 < b1" "off + k + m \<le> length data" using k by (auto simp: boundedParse_def)
      with loop.IH(2) [OF True _ pt refl opn i refl refl r] b loop.prems obtain new where
        new: "els = acc @ El True (TagNumber el) False False (ConstructedValue inner) # new"
        "boundedParse L (length data) d ct (b1 - 1) (off + k + m) new n b'" by auto
      have "TagNumber el \<noteq> tagNumberReserved"
        using pt by (cases rule: ParseTag_elim) (use opn in auto)
      then show ?thesis
        using new inb by (intro exI [of _ "El True (TagNumber el) False False (ConstructedValue inner) # new"])
          (auto simp: boundedParse_def ConstructedValue_def)
    qed
  qed
qed
section \<open>Elements and their content\<close>

lemma Normalize_depth_nonneg: "0 \<le> MaxConstructedDepth (Normalize L)"
  using wf_limits_Normalize [of L] by (simp add: wf_limits_def)

lemma encoded_sequence_parses:
  assumes "wf_elements (Normalize L) els" "int (els_count els) \<le> MaxElements (Normalize L)"
    "int (els_depth els) \<le> MaxConstructedDepth (Normalize L)"
  shows "\<exists>bs. AppendTags [] els = Inr bs \<and> ParseSequence bs L (-1) = Inr (els, length bs)"
  using wf_element_roundtrip(2) [of "Normalize L" els] assms seqRoundTrip_ParseSequence by fastforce

lemma appendContextPrimitive_AppendTag: "appendContextPrimitive dst tn raw = AppendTag dst (ctxEl tn raw)"
  by (simp add: ctxEl_def ContextValue_def contextContentOctets_def appendContextPrimitive_def)

lemma AppendApplicationValue_AppendTag: "AppendApplicationValue dst v = AppendTag dst (appEl v)"
  by (cases v) (simp add: appEl_def)

lemma AppendContextTagged_AppendTag: "AppendContextTagged dst tn els = AppendTag dst (conEl tn els)"
  by (simp add: conEl_def ConstructedValue_def)

lemma AppendTag_AppendTags: "AppendTag dst e = AppendTags dst [e]"
  by (cases "AppendTag dst e") simp_all

lemma AppendTags_append: "AppendTags dst (xs @ ys) = rbind (AppendTags dst xs) (\<lambda>d. AppendTags d ys)"
  by (induction xs arbitrary: dst) (simp_all add: rbind_assoc)

lemma el_sel [simp]:
  "Context (ctxEl tn raw)" "TagNumber (ctxEl tn raw) = tn" "\<not> Opening (ctxEl tn raw)" "\<not> Closing (ctxEl tn raw)"
  "Value (ctxEl tn raw) = ContextValue raw"
  "\<not> Context (appEl v)" "TagNumber (appEl v) = av_TagNumber v" "\<not> Opening (appEl v)" "\<not> Closing (appEl v)"
  "Value (appEl v) = v"
  "Context (conEl tn els)" "TagNumber (conEl tn els) = tn" "\<not> Opening (conEl tn els)" "\<not> Closing (conEl tn els)"
  "Value (conEl tn els) = ConstructedValue els"
  by (simp_all add: ctxEl_def appEl_def conEl_def)

lemma el_measure [simp]:
  "el_count (ctxEl tn raw) = 1" "el_depth (ctxEl tn raw) = 0"
  "el_count (appEl v) = Suc (els_count (Elements v))" "Kind v \<noteq> ValueConstructed \<Longrightarrow> el_depth (appEl v) = 0"
  "el_count (conEl tn els) = Suc (els_count els)" "el_depth (conEl tn els) = Suc (els_depth els)"
  by (simp_all add: ctxEl_def appEl_def conEl_def ContextValue_def ConstructedValue_def) (cases v; simp)+

lemma wf_el [simp]:
  "wf_element L (ctxEl tn raw) \<longleftrightarrow> tn \<noteq> tagNumberReserved
     \<and> int (length raw) \<le> MaxOctetStringLength L \<and> length raw \<le> 0xFFFFFFFF"
  "wf_element L (appEl v) \<longleftrightarrow> wf_appValue L v"
  "wf_element L (conEl tn els) \<longleftrightarrow> tn \<noteq> tagNumberReserved \<and> wf_elements L els"
  by (simp_all add: ctxEl_def appEl_def conEl_def wf_element_context wf_element_app wf_element_constructed)

lemma value_sel [simp]:
  "Kind (ContextValue raw) = ValueContext" "Fields (ContextValue raw) = zeroFields\<lparr>OctetString := raw\<rparr>"
  "Kind (ConstructedValue els) = ValueConstructed" "Elements (ConstructedValue els) = els"
  "Kind (EnumValue e) = ValueEnumerated" "Fields (EnumValue e) = zeroFields\<lparr>Enumerated := e\<rparr>" "Elements (EnumValue e) = []"
  "Kind (UnsignedValue u) = ValueUnsigned" "Fields (UnsignedValue u) = zeroFields\<lparr>Unsigned := u\<rparr>" "Elements (UnsignedValue u) = []"
  "Kind (ObjectIDValue i) = ValueObjectID" "Fields (ObjectIDValue i) = zeroFields\<lparr>ObjectID := i\<rparr>" "Elements (ObjectIDValue i) = []"
  "Kind (CharacterValue c) = ValueCharacterString" "Fields (CharacterValue c) = zeroFields\<lparr>Character := c\<rparr>" "Elements (CharacterValue c) = []"
  "Kind (BoolValue b) = ValueBoolean" "Fields (BoolValue b) = zeroFields\<lparr>Boolean := b\<rparr>" "Elements (BoolValue b) = []"
  by (simp_all add: value_defs)

lemma wf_appValue_simps [simp]:
  "wf_appValue N (EnumValue e)" "wf_appValue N (UnsignedValue u)" "wf_appValue N (BoolValue b)"
  "wf_appValue N (ObjectIDValue i) \<longleftrightarrow> oType i \<le> 0x3FF \<and> Instance i \<le> MaxObjectInstance"
  "wf_appValue N (CharacterValue c) \<longleftrightarrow> int (length (cs_Value c)) \<le> MaxCharacterLength N
     \<and> length (cs_Value c) < 0xFFFFFFFF"
  by (simp_all add: wf_appValue_def value_defs canonicalValue_def fitsLimits_def)

lemma av_TagNumber_simps [simp]:
  "av_TagNumber (EnumValue e) = TagEnumerated" "av_TagNumber (UnsignedValue u) = TagUnsigned"
  "av_TagNumber (BoolValue b) = TagBoolean" "av_TagNumber (ObjectIDValue i) = TagObjectIdentifier"
  "av_TagNumber (CharacterValue c) = TagCharacterString"
  by (simp_all add: av_TagNumber_def value_defs)

lemma IsContextConstructed_el [simp]:
  "\<not> IsContextConstructed (ctxEl tn raw)" "\<not> IsContextConstructed (appEl v)" "IsContextConstructed (conEl tn els)"
  by (simp_all add: IsContextConstructed_def)

lemma ContextObjectID_Uint32: "ContextObjectID el = (let b = OctetString (Fields (Value el)) in
    if notContextPrimitive el \<or> length b \<noteq> 4 then Inl ErrMalformed else Inr (DecodeObjectIdentifier (Uint32 b)))"
  by (simp add: ContextObjectID_def Uint32_def Let_def)

lemma context_extract [simp]:
  "ContextUnsigned (ctxEl tn (encodeUnsigned u)) = Inr u"
  "ContextUnsigned32 (ctxEl tn (encodeUnsigned (ucast w))) = Inr w"
  "ContextSigned (ctxEl tn (encodeSigned u)) = Inr u"
  "ContextReal (ctxEl tn (put32 w)) = Inr w"
  "ContextObjectID (ctxEl tn (put32 e)) = Inr (DecodeObjectIdentifier e)"
  "ContextCharacterString (ctxEl tn (c # cs)) = Inr \<lparr>Encoding = c, cs_Value = cs\<rparr>"
  "ContextTime (ctxEl tn [h, m, s, hu]) = Inr \<lparr>Hour = h, Minute = m, Second = s, Hundredths = hu\<rparr>"
  by (simp_all add: ContextUnsigned_def ContextUnsigned32_def ContextSigned_def ContextReal_def ContextObjectID_Uint32
     ContextCharacterString_def ContextTime_def notContextPrimitive_def)

lemma errorFieldUint_Enum [simp]: "errorFieldUint (appEl (EnumValue (ucast c))) = Inr c" for c :: u16
proof -
  have "\<not> 0xFFFF < (ucast (ucast c :: u32) :: u64)"
    using unsigned_less [of c, where ?'a = nat] by (simp add: word_less_nat_alt unat_ucast)
  moreover have "(ucast (ucast c :: u32) :: u16) = c"
    by (rule bit_word_eqI) (auto simp: bit_simps)
  ultimately show ?thesis by (simp add: errorFieldUint_def)
qed

lemma encoded_error_parses:
  assumes "2 \<le> MaxElements (Normalize L)"
  shows "\<exists>bs. EncodeBACnetError [] class code = Inr bs \<and>
    ParseSequence bs L (-1) = Inr ([appEl (EnumValue (ucast class)), appEl (EnumValue (ucast code))], length bs)"
proof -
  let ?els = "[appEl (EnumValue (ucast class)), appEl (EnumValue (ucast code))]"
  obtain bs where "AppendTags [] ?els = Inr bs" "ParseSequence bs L (-1) = Inr (?els, length bs)"
    using encoded_sequence_parses [of L ?els] assms Normalize_depth_nonneg [of L]
    by (auto simp del: AppendTags.simps)
  then show ?thesis
    by (simp add: EncodeBACnetError_def AppendApplicationValue_AppendTag)
qed

lemma DecodeBACnetError_application [simp]:
  "DecodeBACnetError [appEl (EnumValue (ucast class)), appEl (EnumValue (ucast code))] = Inr (class, code)"
  by (simp add: DecodeBACnetError_def decodeBACnetErrorApplication_def)

section \<open>Properties\<close>

text \<open>C12. Every well-formed sequence within the limits is encoded without an error, and
  \<^verbatim>\<open>ParseSequence\<close> reads exactly that sequence back, consuming all octets.\<close>

theorem ParseSequence_AppendTags:
  assumes "wf_elements (Normalize L) els" "int (els_count els) \<le> MaxElements (Normalize L)"
    "int (els_depth els) \<le> MaxConstructedDepth (Normalize L)"
  shows "\<exists>bs. AppendTags [] els = Inr bs \<and> ParseSequence bs L (-1) = Inr (els, length bs)"
  using encoded_sequence_parses [OF assms] .

theorem ParseSequence_AppendTags_witness:
  "wf_elements (Normalize DefaultDecodeLimits) [conEl 3 [appEl (UnsignedValue 300)], ctxEl 1 [1, 2]] \<and>
    (\<exists>bs. AppendTags [] [conEl 3 [appEl (UnsignedValue 300)], ctxEl 1 [1, 2]] = Inr bs \<and>
      ParseSequence bs DefaultDecodeLimits (-1) = Inr ([conEl 3 [appEl (UnsignedValue 300)], ctxEl 1 [1, 2]], length bs))"
  using ParseSequence_AppendTags [of DefaultDecodeLimits "[conEl 3 [appEl (UnsignedValue 300)], ctxEl 1 [1, 2]]"]
  by (simp add: DefaultDecodeLimits_def Normalize_def withDefaults_def tagNumberReserved_def Let_def del: AppendTags.simps)

text \<open>C16. Whatever octets arrive, a successful parse stays inside its input and builds at most
  \<^verbatim>\<open>MaxElements\<close> elements, nested at most \<^verbatim>\<open>MaxConstructedDepth\<close> deep, nested ones included.\<close>

theorem ParseSequence_bounded:
  assumes "ParseSequence data L closeTag = Inr (els, n)"
  shows "n \<le> length data \<and> int (els_count els) \<le> MaxElements (Normalize L)
    \<and> int (els_depth els) \<le> MaxConstructedDepth (Normalize L)"
  using assms parseSequence_bounded(1) [of data "Normalize L" closeTag 0 "MaxElements (Normalize L)" els n]
    wf_limits_Normalize [of L]
  by (auto simp: ParseSequence_def Let_def rmap_eq_Inr boundedParse_def wf_limits_def)

theorem ParseSequence_bounded_witness:
  "ParseSequence [0x3E, 0x21, 7, 0x3F] DefaultDecodeLimits (-1) = Inr ([conEl 3 [appEl (UnsignedValue 7)]], 4) \<and>
    int (els_count [conEl 3 [appEl (UnsignedValue 7)]]) \<le> MaxElements (Normalize DefaultDecodeLimits)"
proof -
  have "ParseSequence [0x3E, 0x21, 7, 0x3F] DefaultDecodeLimits (-1) = Inr ([conEl 3 [appEl (UnsignedValue 7)]], 4)"
    by code_simp
  with ParseSequence_bounded [OF this] show ?thesis by simp
qed

text \<open>C30. What was parsed can be encoded again, and the encoding parses to the same elements:
  the encoder is a canonical form of the decoder on the standard application tags.\<close>

theorem ParseSequence_reencode:
  assumes "ParseSequence data L closeTag = Inr (els, n)" "standardTags els"
  shows "\<exists>bs. AppendTags [] els = Inr bs \<and> ParseSequence bs L (-1) = Inr (els, length bs)"
  using assms parseSequence_bounded(1) [of data "Normalize L" closeTag 0 "MaxElements (Normalize L)" els n]
    wf_limits_Normalize [of L]
  by (intro encoded_sequence_parses) (auto simp: ParseSequence_def Let_def rmap_eq_Inr boundedParse_def wf_limits_def)

theorem ParseSequence_reencode_witness:
  "ParseSequence [0x25, 1, 7, 0x19, 0xFF] DefaultDecodeLimits (-1) = Inr ([appEl (UnsignedValue 7), ctxEl 1 [0xFF]], 5) \<and>
    (\<exists>bs. AppendTags [] [appEl (UnsignedValue 7), ctxEl 1 [0xFF]] = Inr bs \<and>
      ParseSequence bs DefaultDecodeLimits (-1) = Inr ([appEl (UnsignedValue 7), ctxEl 1 [0xFF]], length bs))"
proof -
  have p: "ParseSequence [0x25, 1, 7, 0x19, 0xFF] DefaultDecodeLimits (-1)
      = Inr ([appEl (UnsignedValue 7), ctxEl 1 [0xFF]], 5)"
    by code_simp
  have "standardTags [appEl (UnsignedValue 7), ctxEl 1 [0xFF]]" by code_simp
  from ParseSequence_reencode [OF p this] p show ?thesis by blast
qed

text \<open>The BACnet Error production survives the wire: the class and code that were encoded are
  the ones the decoder reports, for every 16-bit class and code.\<close>

theorem BACnetError_roundtrip:
  assumes "2 \<le> MaxElements (Normalize L)"
  shows "\<exists>bs els. EncodeBACnetError [] class code = Inr bs \<and> ParseSequence bs L (-1) = Inr (els, length bs)
    \<and> DecodeBACnetError els = Inr (class, code)"
  using encoded_error_parses [OF assms, of "class" code] by fastforce

end
