(* ===== verification/Apdu.thy ===== *)
theory Apdu
  imports Constructed
begin

text \<open>
  Application-layer PDU framing (\<^verbatim>\<open>apdu/codec.go\<close>, \<^verbatim>\<open>apdu/maxapdu.go\<close>): the strict decoder for the
  eight PDU types, their encoders, the capability codes of a confirmed request and the decoding of
  an Error PDU's service payload. Main results: decoder and encoders are inverse in both directions,
  so a frame has exactly one reading and a PDU exactly one frame; capability codes never promise
  more than the configured capacity.
\<close>

section \<open>Capability codes\<close>

definition EncodeMaxAPDUSize :: "u16 \<Rightarrow> u8 option" where
  "EncodeMaxAPDUSize sz =
     (if sz \<ge> 1476 then Some 5
      else if sz \<ge> 1024 then Some 4
      else if sz \<ge> 480 then Some 3
      else if sz \<ge> 206 then Some 2
      else if sz \<ge> 128 then Some 1
      else if sz \<ge> 50 then Some 0
      else None)"

definition DecodeMaxAPDUSize :: "u8 \<Rightarrow> u16 option" where
  "DecodeMaxAPDUSize code =
     (if code = 0 then Some 50
      else if code = 1 then Some 128
      else if code = 2 then Some 206
      else if code = 3 then Some 480
      else if code = 4 then Some 1024
      else if code = 5 then Some 1476
      else None)"

definition EncodeMaxSegments :: "int \<Rightarrow> u8" where
  "EncodeMaxSegments count =
     (if count \<le> 0 then 0
      else if count < 2 then 0
      else if count < 4 then 1
      else if count < 8 then 2
      else if count < 16 then 3
      else if count < 32 then 4
      else if count < 64 then 5
      else if count = 64 then 6
      else 7)"

section \<open>PDUs\<close>

record ConfirmedRequest =
  cr_SegmentedMessage :: bool
  cr_MoreFollows :: bool
  cr_SegmentedResponseAccepted :: bool
  cr_MaxSegments :: u8
  cr_MaxAPDU :: u8
  cr_InvokeID :: u8
  cr_SequenceNumber :: u8
  cr_ProposedWindowSize :: u8
  cr_ServiceChoice :: u8
  cr_Payload :: bytes

record UnconfirmedRequest =
  ur_ServiceChoice :: u8
  ur_Payload :: bytes

record SimpleACK =
  sa_InvokeID :: u8
  sa_ServiceChoice :: u8

record ComplexACK =
  ca_SegmentedMessage :: bool
  ca_MoreFollows :: bool
  ca_InvokeID :: u8
  ca_SequenceNumber :: u8
  ca_ProposedWindowSize :: u8
  ca_ServiceChoice :: u8
  ca_Payload :: bytes

record SegmentACK =
  NegativeACK :: bool
  sg_Server :: bool
  sg_InvokeID :: u8
  sg_SequenceNumber :: u8
  ActualWindowSize :: u8

record ErrorPDU =
  ep_InvokeID :: u8
  ep_ServiceChoice :: u8
  ep_Payload :: bytes

record RejectPDU =
  rp_InvokeID :: u8
  rp_Reason :: u8

record AbortPDU =
  ap_Server :: bool
  ap_InvokeID :: u8
  ap_Reason :: u8

text \<open>The struct \<^verbatim>\<open>PDU\<close> holds the one pointer its \<^verbatim>\<open>Type\<close> selects.\<close>

datatype PDU = PConfirmedRequest ConfirmedRequest | PUnconfirmedRequest UnconfirmedRequest
  | PSimpleACK SimpleACK | PComplexACK ComplexACK | PSegmentACK SegmentACK | PError ErrorPDU
  | PReject RejectPDU | PAbort AbortPDU

abbreviation (input) "TypeConfirmedRequest \<equiv> (0x00 :: u8)"
abbreviation (input) "TypeUnconfirmedRequest \<equiv> (0x10 :: u8)"
abbreviation (input) "TypeSimpleACK \<equiv> (0x20 :: u8)"
abbreviation (input) "TypeComplexACK \<equiv> (0x30 :: u8)"
abbreviation (input) "TypeSegmentACK \<equiv> (0x40 :: u8)"
abbreviation (input) "TypeError \<equiv> (0x50 :: u8)"
abbreviation (input) "TypeReject \<equiv> (0x60 :: u8)"
abbreviation (input) "TypeAbort \<equiv> (0x70 :: u8)"

section \<open>Parsing\<close>

definition checkSegmentFlags :: "bool \<Rightarrow> bool \<Rightarrow> unit result" where
  "checkSegmentFlags segmented moreFollows =
     (if moreFollows \<and> \<not> segmented then Inl ErrMalformed else Inr ())"

definition checkWindowSize :: "u8 \<Rightarrow> unit result" where
  "checkWindowSize window = (if window = 0 \<or> window > 127 then Inl ErrMalformed else Inr ())"

definition parseConfirmed :: "bytes \<Rightarrow> PDU result" where
  "parseConfirmed data =
     (if length data < 4 then Inl ErrMalformed
      else let b0 = data ! 0 in
        if b0 AND 0x01 \<noteq> 0 then Inl ErrMalformed
        else if data ! 1 AND 0x80 \<noteq> 0 then Inl ErrMalformed
        else
          let req = \<lparr>cr_SegmentedMessage = (b0 AND 0x08 \<noteq> 0), cr_MoreFollows = (b0 AND 0x04 \<noteq> 0),
                cr_SegmentedResponseAccepted = (b0 AND 0x02 \<noteq> 0),
                cr_MaxSegments = (drop_bit 4 (data ! 1) AND 0x07), cr_MaxAPDU = data ! 1 AND 0x0F,
                cr_InvokeID = data ! 2, cr_SequenceNumber = 0, cr_ProposedWindowSize = 0,
                cr_ServiceChoice = 0, cr_Payload = []\<rparr> in
          rbind (checkSegmentFlags (cr_SegmentedMessage req) (cr_MoreFollows req)) (\<lambda>_.
          if DecodeMaxAPDUSize (cr_MaxAPDU req) = None then Inl ErrMalformed
          else rbind
            (if cr_SegmentedMessage req then
               (if length data < 5 then Inl ErrMalformed
                else rbind (checkWindowSize (data ! 4)) (\<lambda>_.
                  Inr (req\<lparr>cr_SequenceNumber := data ! 3, cr_ProposedWindowSize := data ! 4\<rparr>, 5)))
             else Inr (req, 3)) (\<lambda>(req, off).
            if off \<ge> length data then Inl ErrMalformed
            else Inr (PConfirmedRequest
              (req\<lparr>cr_ServiceChoice := data ! off, cr_Payload := drop (off + 1) data\<rparr>)))))"

definition parseUnconfirmed :: "bytes \<Rightarrow> PDU result" where
  "parseUnconfirmed data =
     (if length data < 2 then Inl ErrMalformed
      else if data ! 0 AND 0x0F \<noteq> 0 then Inl ErrMalformed
      else Inr (PUnconfirmedRequest \<lparr>ur_ServiceChoice = data ! 1, ur_Payload = drop 2 data\<rparr>))"

definition parseSimpleACK :: "bytes \<Rightarrow> PDU result" where
  "parseSimpleACK data =
     (if length data \<noteq> 3 then Inl ErrMalformed
      else if data ! 0 AND 0x0F \<noteq> 0 then Inl ErrMalformed
      else Inr (PSimpleACK \<lparr>sa_InvokeID = data ! 1, sa_ServiceChoice = data ! 2\<rparr>))"

definition parseComplexACK :: "bytes \<Rightarrow> PDU result" where
  "parseComplexACK data =
     (if length data < 3 then Inl ErrMalformed
      else let b0 = data ! 0 in
        if b0 AND 0x03 \<noteq> 0 then Inl ErrMalformed
        else
          let ack = \<lparr>ca_SegmentedMessage = (b0 AND 0x08 \<noteq> 0), ca_MoreFollows = (b0 AND 0x04 \<noteq> 0),
                ca_InvokeID = data ! 1, ca_SequenceNumber = 0, ca_ProposedWindowSize = 0,
                ca_ServiceChoice = 0, ca_Payload = []\<rparr> in
          rbind (checkSegmentFlags (ca_SegmentedMessage ack) (ca_MoreFollows ack)) (\<lambda>_.
          rbind
            (if ca_SegmentedMessage ack then
               (if length data < 4 then Inl ErrMalformed
                else rbind (checkWindowSize (data ! 3)) (\<lambda>_.
                  Inr (ack\<lparr>ca_SequenceNumber := data ! 2, ca_ProposedWindowSize := data ! 3\<rparr>, 4)))
             else Inr (ack, 2)) (\<lambda>(ack, off).
            if off \<ge> length data then Inl ErrMalformed
            else Inr (PComplexACK
              (ack\<lparr>ca_ServiceChoice := data ! off, ca_Payload := drop (off + 1) data\<rparr>)))))"

definition parseSegmentACK :: "bytes \<Rightarrow> PDU result" where
  "parseSegmentACK data =
     (if length data \<noteq> 4 then Inl ErrMalformed
      else if data ! 0 AND 0x0C \<noteq> 0 then Inl ErrMalformed
      else let window = data ! 3 in
        rbind (checkWindowSize window) (\<lambda>_.
          Inr (PSegmentACK \<lparr>NegativeACK = (data ! 0 AND 0x02 \<noteq> 0), sg_Server = (data ! 0 AND 0x01 \<noteq> 0),
            sg_InvokeID = data ! 1, sg_SequenceNumber = data ! 2, ActualWindowSize = window\<rparr>)))"

definition parseError :: "bytes \<Rightarrow> PDU result" where
  "parseError data =
     (if length data < 3 then Inl ErrMalformed
      else if data ! 0 AND 0x0F \<noteq> 0 then Inl ErrMalformed
      else Inr (PError \<lparr>ep_InvokeID = data ! 1, ep_ServiceChoice = data ! 2, ep_Payload = drop 3 data\<rparr>))"

definition parseReject :: "bytes \<Rightarrow> PDU result" where
  "parseReject data =
     (if length data \<noteq> 3 then Inl ErrMalformed
      else if data ! 0 AND 0x0F \<noteq> 0 then Inl ErrMalformed
      else Inr (PReject \<lparr>rp_InvokeID = data ! 1, rp_Reason = data ! 2\<rparr>))"

definition parseAbort :: "bytes \<Rightarrow> PDU result" where
  "parseAbort data =
     (if length data \<noteq> 3 then Inl ErrMalformed
      else if data ! 0 AND 0x0E \<noteq> 0 then Inl ErrMalformed
      else Inr (PAbort \<lparr>ap_Server = (data ! 0 AND 0x01 \<noteq> 0), ap_InvokeID = data ! 1,
        ap_Reason = data ! 2\<rparr>))"

definition apdu_Parse :: "bytes \<Rightarrow> DecodeLimits \<Rightarrow> PDU result" where
  "apdu_Parse data limits =
     (if length data < 1 then Inl ErrMalformed
      else if int (length data) > MaxAPDUSize (Normalize limits) then Inl ErrLimitExceeded
      else let pduType = data ! 0 AND 0xF0 in
        if pduType = TypeConfirmedRequest then parseConfirmed data
        else if pduType = TypeUnconfirmedRequest then parseUnconfirmed data
        else if pduType = TypeSimpleACK then parseSimpleACK data
        else if pduType = TypeComplexACK then parseComplexACK data
        else if pduType = TypeSegmentACK then parseSegmentACK data
        else if pduType = TypeError then parseError data
        else if pduType = TypeReject then parseReject data
        else if pduType = TypeAbort then parseAbort data
        else Inl ErrUnsupported)"

section \<open>Encoding\<close>

definition AppendConfirmedRequest :: "bytes \<Rightarrow> ConfirmedRequest \<Rightarrow> bytes" where
  "AppendConfirmedRequest dst req =
     (let b0 = TypeConfirmedRequest;
          b0 = (if cr_SegmentedMessage req then b0 OR 0x08 else b0);
          b0 = (if cr_MoreFollows req then b0 OR 0x04 else b0);
          b0 = (if cr_SegmentedResponseAccepted req then b0 OR 0x02 else b0);
          maxInfo = (push_bit 4 (cr_MaxSegments req AND 0x07) OR (cr_MaxAPDU req AND 0x0F));
          dst = dst @ [b0, maxInfo, cr_InvokeID req];
          dst = (if cr_SegmentedMessage req then dst @ [cr_SequenceNumber req, cr_ProposedWindowSize req]
                 else dst);
          dst = dst @ [cr_ServiceChoice req]
      in dst @ cr_Payload req)"

definition AppendUnconfirmedRequest :: "bytes \<Rightarrow> UnconfirmedRequest \<Rightarrow> bytes" where
  "AppendUnconfirmedRequest dst req = (dst @ [TypeUnconfirmedRequest, ur_ServiceChoice req]) @ ur_Payload req"

definition AppendSimpleACK :: "bytes \<Rightarrow> SimpleACK \<Rightarrow> bytes" where
  "AppendSimpleACK dst ack = dst @ [TypeSimpleACK, sa_InvokeID ack, sa_ServiceChoice ack]"

definition AppendComplexACK :: "bytes \<Rightarrow> ComplexACK \<Rightarrow> bytes" where
  "AppendComplexACK dst ack =
     (let b0 = TypeComplexACK;
          b0 = (if ca_SegmentedMessage ack then b0 OR 0x08 else b0);
          b0 = (if ca_MoreFollows ack then b0 OR 0x04 else b0);
          dst = dst @ [b0, ca_InvokeID ack];
          dst = (if ca_SegmentedMessage ack then dst @ [ca_SequenceNumber ack, ca_ProposedWindowSize ack]
                 else dst);
          dst = dst @ [ca_ServiceChoice ack]
      in dst @ ca_Payload ack)"

definition AppendSegmentACK :: "bytes \<Rightarrow> SegmentACK \<Rightarrow> bytes" where
  "AppendSegmentACK dst ack =
     (let b0 = TypeSegmentACK;
          b0 = (if NegativeACK ack then b0 OR 0x02 else b0);
          b0 = (if sg_Server ack then b0 OR 0x01 else b0)
      in dst @ [b0, sg_InvokeID ack, sg_SequenceNumber ack, ActualWindowSize ack])"

definition AppendAbort :: "bytes \<Rightarrow> AbortPDU \<Rightarrow> bytes" where
  "AppendAbort dst a =
     (let b0 = TypeAbort; b0 = (if ap_Server a then b0 OR 0x01 else b0)
      in dst @ [b0, ap_InvokeID a, ap_Reason a])"

definition AppendReject :: "bytes \<Rightarrow> RejectPDU \<Rightarrow> bytes" where
  "AppendReject dst r = dst @ [TypeReject, rp_InvokeID r, rp_Reason r]"

definition AppendError :: "bytes \<Rightarrow> ErrorPDU \<Rightarrow> bytes" where
  "AppendError dst e = (dst @ [TypeError, ep_InvokeID e, ep_ServiceChoice e]) @ ep_Payload e"

text \<open>The encoder of a PDU's type.\<close>

fun appendPDU :: "bytes \<Rightarrow> PDU \<Rightarrow> bytes" where
  "appendPDU dst (PConfirmedRequest r) = AppendConfirmedRequest dst r"
| "appendPDU dst (PUnconfirmedRequest r) = AppendUnconfirmedRequest dst r"
| "appendPDU dst (PSimpleACK a) = AppendSimpleACK dst a"
| "appendPDU dst (PComplexACK a) = AppendComplexACK dst a"
| "appendPDU dst (PSegmentACK a) = AppendSegmentACK dst a"
| "appendPDU dst (PError e) = AppendError dst e"
| "appendPDU dst (PReject r) = AppendReject dst r"
| "appendPDU dst (PAbort a) = AppendAbort dst a"

section \<open>Error payloads\<close>

record ErrorDetail =
  Class :: u16
  Code :: u16
  Wrapped :: bool
  Parameters :: "Element list"

fun firstFailed :: "Element list \<Rightarrow> u32 option" where
  "firstFailed [] = None"
| "firstFailed (el # els) =
     (if Context el \<and> TagNumber el = 1 \<and> \<not> IsContextConstructed el then
        (case ContextUnsigned32 el of Inl _ \<Rightarrow> None | Inr n \<Rightarrow> Some n)
      else firstFailed els)"

definition FirstFailedElementNumber :: "ErrorDetail \<Rightarrow> u32 option" where
  "FirstFailedElementNumber d = firstFailed (Parameters d)"

text \<open>\<^verbatim>\<open>Clone\<close> copies memory; a value of the model is its own copy.\<close>

definition DecodeError :: "bytes \<Rightarrow> DecodeLimits \<Rightarrow> ErrorDetail result" where
  "DecodeError payload limits =
     rbind (ParseSequence payload limits (-1)) (\<lambda>(elements, n).
       if n \<noteq> length payload then Inl ErrTrailingData
       else if length elements > 0 \<and> TagNumber (elements ! 0) = 0 \<and> IsContextConstructed (elements ! 0) then
         rbind (DecodeBACnetError (Elements (Value (elements ! 0)))) (\<lambda>(class, code).
           Inr \<lparr>Class = class, Code = code, Wrapped = True, Parameters = drop 1 elements\<rparr>)
       else rbind (DecodeBACnetError elements) (\<lambda>(class, code).
         Inr \<lparr>Class = class, Code = code, Wrapped = False, Parameters = []\<rparr>))"

definition DecodeErrorClassCode :: "bytes \<Rightarrow> DecodeLimits \<Rightarrow> (u16 \<times> u16) result" where
  "DecodeErrorClassCode payload limits =
     rbind (DecodeError payload limits) (\<lambda>d. Inr (Class d, Code d))"

section \<open>What the wire form keeps\<close>

text \<open>The PDU a decoder sees: capability fields cut to their bits, segment fields only when segmented.\<close>

fun normPDU :: "PDU \<Rightarrow> PDU" where
  "normPDU (PConfirmedRequest r) = PConfirmedRequest (r\<lparr>cr_MaxSegments := cr_MaxSegments r AND 7,
     cr_MaxAPDU := cr_MaxAPDU r AND 0x0F,
     cr_SequenceNumber := (if cr_SegmentedMessage r then cr_SequenceNumber r else 0),
     cr_ProposedWindowSize := (if cr_SegmentedMessage r then cr_ProposedWindowSize r else 0)\<rparr>)"
| "normPDU (PComplexACK a) = PComplexACK (a\<lparr>
     ca_SequenceNumber := (if ca_SegmentedMessage a then ca_SequenceNumber a else 0),
     ca_ProposedWindowSize := (if ca_SegmentedMessage a then ca_ProposedWindowSize a else 0)\<rparr>)"
| "normPDU p = p"

text \<open>The PDUs the standard allows on the wire, which are the ones the decoder accepts.\<close>

definition windowOk :: "u8 \<Rightarrow> bool" where
  "windowOk w \<longleftrightarrow> 1 \<le> w \<and> w \<le> 127"

fun wf_PDU :: "PDU \<Rightarrow> bool" where
  "wf_PDU (PConfirmedRequest r) \<longleftrightarrow> (cr_MoreFollows r \<longrightarrow> cr_SegmentedMessage r)
     \<and> (cr_SegmentedMessage r \<longrightarrow> windowOk (cr_ProposedWindowSize r))
     \<and> (cr_MaxAPDU r AND 0x0F) \<le> 5"
| "wf_PDU (PComplexACK a) \<longleftrightarrow> (ca_MoreFollows a \<longrightarrow> ca_SegmentedMessage a)
     \<and> (ca_SegmentedMessage a \<longrightarrow> windowOk (ca_ProposedWindowSize a))"
| "wf_PDU (PSegmentACK a) \<longleftrightarrow> windowOk (ActualWindowSize a)"
| "wf_PDU _ \<longleftrightarrow> True"

section \<open>Header octets\<close>

lemma and_zero_sub: "b AND m = 0 \<Longrightarrow> m AND k = k \<Longrightarrow> b AND k = 0" for b :: "'a::len word"
  by (metis and.assoc and_zero_eq and.commute)

lemma octet_bits:
  "b = (b AND 0xF0) OR (if b AND 8 \<noteq> 0 then 8 else 0) OR (if b AND 4 \<noteq> 0 then 4 else 0)
     OR (if b AND 2 \<noteq> 0 then 2 else 0) OR (if b AND 1 \<noteq> 0 then 1 else 0)" for b :: u8
proof -
  have m: "(if b AND 8 \<noteq> 0 then 8 else 0) = b AND 8" "(if b AND 4 \<noteq> 0 then 4 else 0) = b AND 4"
    "(if b AND 2 \<noteq> 0 then 2 else 0) = b AND 2" "(if b AND 1 \<noteq> 0 then 1 else 0) = b AND 1"
    using single_bit_mask [of b 3] single_bit_mask [of b 2] single_bit_mask [of b 1] single_bit_mask [of b 0]
    by (simp_all split: if_splits)
  have "(0xF0 OR 8 OR 4 OR 2 OR 1 :: u8) = -1" by simp
  then have "b = b AND (0xF0 OR 8 OR 4 OR 2 OR 1)" by (simp only: and.right_neutral)
  then show ?thesis unfolding m by (simp only: bit.conj_disj_distrib)
qed

lemma checkWindowSize_ok [simp]: "checkWindowSize w = Inr () \<longleftrightarrow> windowOk w"
  using unat_eq_zero [of w] by (auto simp: checkWindowSize_def windowOk_def word_le_nat_alt word_less_nat_alt Suc_le_eq)

lemma checkWindowSize_windowOk [simp]: "windowOk w \<Longrightarrow> checkWindowSize w = Inr ()"
  by simp

lemma u8_le_5: "w \<le> 5 \<longleftrightarrow> w = 0 \<or> w = 1 \<or> w = 2 \<or> w = 3 \<or> w = 4 \<or> w = 5" for w :: u8
proof
  assume "w \<le> 5"
  then have "w \<in> of_nat ` {0..<6}"
    by (intro image_eqI [of _ _ "unat w"]) (simp_all add: word_le_nat_alt)
  also have "{0..<6::nat} = set [0..<6]" by simp
  finally show "w = 0 \<or> w = 1 \<or> w = 2 \<or> w = 3 \<or> w = 4 \<or> w = 5" by (simp add: upt_rec)
qed auto

lemma DecodeMaxAPDUSize_defined: "DecodeMaxAPDUSize c \<noteq> None \<longleftrightarrow> c \<le> 5"
  by (auto simp: DecodeMaxAPDUSize_def u8_le_5)

lemma DecodeMaxAPDUSize_Some: "DecodeMaxAPDUSize c = Some y \<Longrightarrow> c \<le> 5"
  using DecodeMaxAPDUSize_defined [of c] by simp

lemma octet_masks: "x AND 7 = take_bit 3 x" "x AND 0x0F = take_bit 4 x" "x AND 0x80 = 0 \<longleftrightarrow> \<not> bit x 7" for x :: u8
  using and_exp_eq_0_iff_not_bit [of x 7] by (simp_all add: take_bit_eq_mask mask_eq_exp_minus_1)

lemma maxInfo_fields:
  fixes s a :: u8
  defines "m \<equiv> push_bit 4 (s AND 7) OR (a AND 0x0F)"
  shows "m AND 0x80 = 0" "drop_bit 4 m AND 7 = s AND 7" "m AND 0x0F = a AND 0x0F"
  unfolding m_def octet_masks
  by (auto simp: bit_simps intro!: bit_word_eqI dest: bit_imp_le_length)

lemma maxInfo_split:
  assumes "m AND 0x80 = 0"
  shows "push_bit 4 (drop_bit 4 m AND 7) OR (m AND 0x0F) = (m :: u8)"
proof (rule bit_word_eqI)
  fix n
  assume "n < LENGTH(8)"
  then have "n < 4 \<or> n = 4 \<or> n = 5 \<or> n = 6 \<or> n = 7" by auto
  then show "bit (push_bit 4 (drop_bit 4 m AND 7) OR (m AND 0x0F)) n = bit m n"
    using assms unfolding octet_masks by (auto simp: bit_simps)
qed

lemma parse_append_confirmed:
  assumes "wf_PDU (PConfirmedRequest r)"
  shows "parseConfirmed (AppendConfirmedRequest [] r) = Inr (normPDU (PConfirmedRequest r))"
    "AppendConfirmedRequest [] r ! 0 AND 0xF0 = 0"
  using assms maxInfo_fields [of "cr_MaxSegments r" "cr_MaxAPDU r"] DecodeMaxAPDUSize_defined [of "cr_MaxAPDU r AND 15"]
  by (cases "cr_SegmentedMessage r"; cases "cr_MoreFollows r"; cases "cr_SegmentedResponseAccepted r"; cases r;
      simp add: parseConfirmed_def AppendConfirmedRequest_def checkSegmentFlags_def Let_def)+

lemma parse_append_complex:
  assumes "wf_PDU (PComplexACK a)"
  shows "parseComplexACK (AppendComplexACK [] a) = Inr (normPDU (PComplexACK a))"
    "AppendComplexACK [] a ! 0 AND 0xF0 = 0x30"
  using assms
  by (cases "ca_SegmentedMessage a"; cases "ca_MoreFollows a"; cases a;
      simp add: parseComplexACK_def AppendComplexACK_def checkSegmentFlags_def Let_def)+

lemma apdu_Parse_appendPDU:
  assumes "wf_PDU p" "int (length (appendPDU [] p)) \<le> MaxAPDUSize (Normalize L)"
  shows "apdu_Parse (appendPDU [] p) L = Inr (normPDU p)"
proof (cases p)
  case (PConfirmedRequest r)
  have "length (AppendConfirmedRequest [] r) \<noteq> 0" by (simp add: AppendConfirmedRequest_def Let_def)
  then show ?thesis using parse_append_confirmed [of r] assms PConfirmedRequest by (simp add: apdu_Parse_def)
next
  case (PComplexACK a)
  have "length (AppendComplexACK [] a) \<noteq> 0" by (simp add: AppendComplexACK_def Let_def)
  then show ?thesis using parse_append_complex [of a] assms PComplexACK by (simp add: apdu_Parse_def)
next
  case (PSegmentACK a)
  then show ?thesis using assms
    by (cases "NegativeACK a"; cases "sg_Server a"; cases a) (simp_all add: apdu_Parse_def AppendSegmentACK_def parseSegmentACK_def)
next
  case (PAbort a)
  then show ?thesis using assms
    by (cases "ap_Server a"; cases a) (simp_all add: apdu_Parse_def AppendAbort_def parseAbort_def)
qed (use assms in \<open>simp_all add: apdu_Parse_def AppendUnconfirmedRequest_def AppendSimpleACK_def AppendError_def AppendReject_def
   parseUnconfirmed_def parseSimpleACK_def parseError_def parseReject_def\<close>)

lemma and_idem: "(x AND m) AND m = x AND m" for x :: u8
  by (simp add: and.assoc)

lemma first_two: "\<not> length xs \<le> Suc 0 \<Longrightarrow> xs ! 0 # xs ! Suc 0 # drop 2 xs = xs"
  by (cases xs; cases "tl xs") auto

lemma append_parse_confirmed:
  assumes "parseConfirmed data = Inr p" "data ! 0 AND 0xF0 = 0"
  shows "appendPDU [] p = data \<and> wf_PDU p \<and> normPDU p = p"
proof -
  obtain b m i s rest where data: "data = b # m # i # s # rest"
    using assms(1) by (auto simp: parseConfirmed_def Let_def not_less numeral_eq_Suc Suc_le_length_iff split: if_splits)
  have b: "b AND 1 = 0" "m AND 0x80 = 0"
    using assms(1) by (auto simp: parseConfirmed_def data Let_def split: if_splits)
  have o: "b = (if b AND 8 \<noteq> 0 then 8 else 0) OR (if b AND 4 \<noteq> 0 then 4 else 0) OR (if b AND 2 \<noteq> 0 then 2 else 0)"
    using octet_bits [of b] assms(2) b by (simp add: data)
  show ?thesis
  proof (cases "b AND 8 = 0")
    case True
    then have f: "b AND 4 = 0" using assms(1) b by (auto simp: parseConfirmed_def data Let_def rbind_eq_Inr checkSegmentFlags_def split: if_splits)
    show ?thesis using assms(1) b o f True maxInfo_split [OF b(2)]
      by (auto simp: parseConfirmed_def data Let_def rbind_eq_Inr checkSegmentFlags_def AppendConfirmedRequest_def and_idem first_two split: if_splits dest: DecodeMaxAPDUSize_Some)
  next
    case False
    then show ?thesis using assms(1) b o maxInfo_split [OF b(2)]
      by (auto simp: parseConfirmed_def data Let_def rbind_eq_Inr checkSegmentFlags_def AppendConfirmedRequest_def and_idem first_two split: if_splits dest: DecodeMaxAPDUSize_Some)
  qed
qed

lemma append_parse_complex:
  assumes "parseComplexACK data = Inr p" "data ! 0 AND 0xF0 = 0x30"
  shows "appendPDU [] p = data \<and> wf_PDU p \<and> normPDU p = p"
proof -
  obtain b i s rest where data: "data = b # i # s # rest"
    using assms(1) by (auto simp: parseComplexACK_def Let_def not_less numeral_eq_Suc Suc_le_length_iff split: if_splits)
  have "b AND 3 = 0"
    using assms(1) by (auto simp: parseComplexACK_def data Let_def split: if_splits)
  then have "b AND 1 = 0" "b AND 2 = 0" by (auto elim: and_zero_sub)
  then have o: "b = 0x30 OR (if b AND 8 \<noteq> 0 then 8 else 0) OR (if b AND 4 \<noteq> 0 then 4 else 0)"
    using octet_bits [of b] assms(2) by (simp add: data)
  show ?thesis using assms(1) o
    by (cases "b AND 8 = 0"; cases "b AND 4 = 0")
      (auto simp: parseComplexACK_def data Let_def rbind_eq_Inr checkSegmentFlags_def AppendComplexACK_def first_two split: if_splits)
qed

lemma append_parse_flags:
  assumes "parseSegmentACK data = Inr p \<and> data ! 0 AND 0xF0 = 0x40 \<or> parseAbort data = Inr p \<and> data ! 0 AND 0xF0 = 0x70"
  shows "appendPDU [] p = data \<and> wf_PDU p \<and> normPDU p = p"
proof -
  obtain b rest where data: "data = b # rest"
    using assms by (cases data) (auto simp: parseSegmentACK_def parseAbort_def)
  from assms show ?thesis
  proof (elim disjE conjE)
    assume p: "parseSegmentACK data = Inr p" "data ! 0 AND 0xF0 = 0x40"
    then have "b AND 0x0C = 0" by (auto simp: parseSegmentACK_def data split: if_splits)
    then have "b AND 8 = 0" "b AND 4 = 0" by (auto elim: and_zero_sub)
    then have o: "b = 0x40 OR (if b AND 2 \<noteq> 0 then 2 else 0) OR (if b AND 1 \<noteq> 0 then 1 else 0)"
      using octet_bits [of b] p(2) by (simp add: data)
    with p(1) show ?thesis
      by (cases "b AND 2 = 0"; cases "b AND 1 = 0")
        (auto simp: parseSegmentACK_def data Let_def rbind_eq_Inr AppendSegmentACK_def numeral_eq_Suc length_Suc_conv split: if_splits)
  next
    assume p: "parseAbort data = Inr p" "data ! 0 AND 0xF0 = 0x70"
    then have "b AND 0x0E = 0" by (auto simp: parseAbort_def data split: if_splits)
    then have "b AND 8 = 0" "b AND 4 = 0" "b AND 2 = 0" by (auto elim: and_zero_sub)
    then have o: "b = 0x70 OR (if b AND 1 \<noteq> 0 then 1 else 0)"
      using octet_bits [of b] p(2) by (simp add: data)
    with p(1) show ?thesis
      by (cases "b AND 1 = 0")
        (auto simp: parseAbort_def data Let_def AppendAbort_def numeral_eq_Suc length_Suc_conv split: if_splits)
  qed
qed

lemma low_nibble_zero: "b AND 0x0F = 0 \<Longrightarrow> b = b AND 0xF0" for b :: u8
proof -
  assume a: "b AND 0x0F = 0"
  have "(0xF0 OR 0x0F :: u8) = -1" by simp
  then have "b = b AND (0xF0 OR 0x0F)" by (simp only: and.right_neutral)
  then show "b = b AND 0xF0" using a by (simp only: bit.conj_disj_distrib) simp
qed

lemma apdu_Parse_inv:
  assumes "apdu_Parse data L = Inr p"
  shows "appendPDU [] p = data \<and> wf_PDU p \<and> normPDU p = p"
proof -
  consider "parseConfirmed data = Inr p" "data ! 0 AND 0xF0 = 0" | "parseComplexACK data = Inr p" "data ! 0 AND 0xF0 = 0x30"
    | "parseSegmentACK data = Inr p \<and> data ! 0 AND 0xF0 = 0x40 \<or> parseAbort data = Inr p \<and> data ! 0 AND 0xF0 = 0x70"
    | (plain) "parseUnconfirmed data = Inr p \<and> data ! 0 AND 0xF0 = 0x10 \<or> parseSimpleACK data = Inr p \<and> data ! 0 AND 0xF0 = 0x20
       \<or> parseError data = Inr p \<and> data ! 0 AND 0xF0 = 0x50 \<or> parseReject data = Inr p \<and> data ! 0 AND 0xF0 = 0x60"
    using assms by (auto simp: apdu_Parse_def Let_def split: if_splits)
  then show ?thesis
  proof cases
    case plain
    then obtain b rest where data: "data = b # rest" by (cases data)
      (auto simp: parseUnconfirmed_def parseSimpleACK_def parseError_def parseReject_def)
    with plain have "b AND 0x0F = 0"
      by (auto simp: parseUnconfirmed_def parseSimpleACK_def parseError_def parseReject_def split: if_splits)
    then have "b = b AND 0xF0" by (rule low_nibble_zero)
    then show ?thesis using plain
      by (cases rest; cases "tl rest"; auto simp: data parseUnconfirmed_def parseSimpleACK_def parseError_def parseReject_def AppendUnconfirmedRequest_def AppendSimpleACK_def AppendError_def AppendReject_def
         not_less numeral_eq_Suc length_Suc_conv Suc_le_length_iff split: if_splits)
  qed (simp_all add: append_parse_confirmed append_parse_complex append_parse_flags)
qed

section \<open>Error payloads\<close>

lemma DecodeError_wrapped:
  assumes "3 \<le> MaxElements (Normalize L)"
  shows "\<exists>bs. AppendContextTagged [] 0 [appEl (EnumValue (ucast class)), appEl (EnumValue (ucast code))] = Inr bs \<and>
    DecodeError bs L = Inr \<lparr>Class = class, Code = code, Wrapped = True, Parameters = []\<rparr>"
proof -
  let ?els = "[appEl (EnumValue (ucast class)), appEl (EnumValue (ucast code))]"
  obtain bs where bs: "AppendTags [] [conEl 0 ?els] = Inr bs" "ParseSequence bs L (-1) = Inr ([conEl 0 ?els], length bs)"
    using encoded_sequence_parses [of L "[conEl 0 ?els]"] assms Normalize_depth_nonneg [of L] wf_limits_Normalize [of L]
    by (auto simp: tagNumberReserved_def wf_limits_def simp del: AppendTags.simps)
  then show ?thesis
    by (simp add: DecodeError_def AppendContextTagged_AppendTag
      del: AppendContextTagged.simps)
qed
lemma DecodeError_bare:
  assumes "2 \<le> MaxElements (Normalize L)"
  shows "\<exists>bs. EncodeBACnetError [] class code = Inr bs \<and>
    DecodeError bs L = Inr \<lparr>Class = class, Code = code, Wrapped = False, Parameters = []\<rparr>"
  using encoded_error_parses [OF assms, of "class" code] by (auto simp: DecodeError_def)

section \<open>The codec as an instance of the wire interface\<close>

interpretation apdu_wire: wire_codec "\<lambda>p. Inr (appendPDU [] p)" "\<lambda>bs. apdu_Parse bs L"
  "\<lambda>p. wf_PDU p \<and> int (length (appendPDU [] p)) \<le> MaxAPDUSize (Normalize L)" normPDU for L
  by unfold_locales (auto simp: apdu_Parse_appendPDU)

section \<open>Properties\<close>

text \<open>C21. For every PDU the standard allows, of all eight types, decoding its encoding gives the PDU
  back with its capability fields cut to their bits and unused segment fields zero.\<close>

theorem apdu_Parse_Append:
  assumes "wf_PDU p" "int (length (appendPDU [] p)) \<le> MaxAPDUSize (Normalize L)"
  shows "rbind (Inr (appendPDU [] p)) (\<lambda>bs. apdu_Parse bs L) = Inr (normPDU p)"
  by (rule apdu_wire.roundtrip) (simp add: assms)

theorem apdu_Parse_Append_witness:
  "wf_PDU (PComplexACK \<lparr>ca_SegmentedMessage = True, ca_MoreFollows = True, ca_InvokeID = 7, ca_SequenceNumber = 3,
      ca_ProposedWindowSize = 4, ca_ServiceChoice = 12, ca_Payload = [1, 2]\<rparr>) \<and>
   apdu_Parse [0x3C, 7, 3, 4, 12, 1, 2] DefaultDecodeLimits =
     Inr (PComplexACK \<lparr>ca_SegmentedMessage = True, ca_MoreFollows = True, ca_InvokeID = 7, ca_SequenceNumber = 3,
      ca_ProposedWindowSize = 4, ca_ServiceChoice = 12, ca_Payload = [1, 2]\<rparr>)"
  using apdu_Parse_Append [of "PComplexACK \<lparr>ca_SegmentedMessage = True, ca_MoreFollows = True, ca_InvokeID = 7,
      ca_SequenceNumber = 3, ca_ProposedWindowSize = 4, ca_ServiceChoice = 12, ca_Payload = [1, 2]\<rparr>" DefaultDecodeLimits]
  by (simp add: AppendComplexACK_def windowOk_def DefaultDecodeLimits_def Normalize_def withDefaults_def)

text \<open>The decoder is strict: an accepted frame is exactly the encoding of the PDU it was read as,
  so no octet of it was ignored and the PDU obeys the segmentation and window rules.\<close>

theorem apdu_Append_Parse:
  assumes "apdu_Parse data L = Inr p"
  shows "appendPDU [] p = data \<and> wf_PDU p \<and> normPDU p = p"
  by (rule apdu_Parse_inv [OF assms])

text \<open>The advertised max-APDU code never promises more than the configured capacity, and it is
  the largest such code.\<close>

theorem EncodeMaxAPDUSize_sound:
  assumes "EncodeMaxAPDUSize sz = Some c"
  shows "\<exists>n. DecodeMaxAPDUSize c = Some n \<and> n \<le> sz \<and>
    (\<forall>c' n'. DecodeMaxAPDUSize c' = Some n' \<longrightarrow> n' \<le> sz \<longrightarrow> n' \<le> n)"
  using assms by (auto simp: EncodeMaxAPDUSize_def DecodeMaxAPDUSize_def split: if_splits)

text \<open>An Error PDU's payload gives the same class and code in the bare form every stack sends
  and in the \<^verbatim>\<open>[0]\<close>-wrapped form of the list and object services.\<close>

theorem DecodeErrorClassCode_forms:
  assumes "3 \<le> MaxElements (Normalize L)"
  shows "(\<exists>bs. EncodeBACnetError [] class code = Inr bs \<and> DecodeErrorClassCode bs L = Inr (class, code)) \<and>
    (\<exists>bs. AppendContextTagged [] 0 [appEl (EnumValue (ucast class)), appEl (EnumValue (ucast code))] = Inr bs \<and>
      DecodeErrorClassCode bs L = Inr (class, code))"
  using DecodeError_bare [of L "class" code] DecodeError_wrapped [of L "class" code] assms
  by (fastforce simp: DecodeErrorClassCode_def simp del: AppendContextTagged.simps)

end
