(* ===== verification/Segment.thy ===== *)
theory Segment
  imports Bacnet_Types
begin

text \<open>
  Segmentation arithmetic shared by client and server (\<^verbatim>\<open>internal/segment/segment.go\<close>): window
  sizes, the reassembly of a message received in order, and the division of a payload into segments.
  Main results: the cut segments are the payload, a reassembly fed with them in order completes with
  exactly that payload, and whatever segments arrive it never stores more than its limits nor a
  segment out of order.
\<close>

section \<open>Windows\<close>

definition MaxWindow :: u8 where
  "MaxWindow = 127"

definition ValidWindow :: "u8 \<Rightarrow> bool" where
  "ValidWindow w \<longleftrightarrow> w \<ge> 1 \<and> w \<le> MaxWindow"

definition Window :: "u8 \<Rightarrow> u8 \<Rightarrow> u8" where
  "Window loc proposed =
     (let w = loc; w = (if proposed > 0 \<and> proposed < w then proposed else w) in
      if w = 0 then 1 else w)"

section \<open>Reassembly\<close>

datatype Outcome = Stored | StoredAck | Complete | OutOfOrder | TooManySegments | TooLong

record Reassembly =
  window :: u8
  expected :: u8
  inWindow :: u8
  segments :: int
  maxSegments :: int
  maxOctets :: int
  buf :: bytes

definition NewReassembly :: "u8 \<Rightarrow> int \<Rightarrow> int \<Rightarrow> Reassembly" where
  "NewReassembly win maxSegs maxOcts =
     \<lparr>window = (if win = 0 then 1 else win), expected = 0, inWindow = 0, segments = 0,
      maxSegments = maxSegs, maxOctets = maxOcts, buf = []\<rparr>"

definition Add :: "Reassembly \<Rightarrow> u8 \<Rightarrow> bool \<Rightarrow> bytes \<Rightarrow> Outcome \<times> Reassembly" where
  "Add r seq mf payload =
     (if seq \<noteq> expected r then (OutOfOrder, r)
      else if segments r + 1 > maxSegments r then (TooManySegments, r)
      else if int (length (buf r) + length payload) > maxOctets r then (TooLong, r)
      else
        let r = r\<lparr>buf := buf r @ payload, segments := segments r + 1\<rparr>;
            first = (segments r = 1);
            r = r\<lparr>expected := expected r + 1, inWindow := inWindow r + 1\<rparr> in
        if \<not> mf then (Complete, r\<lparr>inWindow := 0\<rparr>)
        else if first \<or> inWindow r \<ge> window r then (StoredAck, r\<lparr>inWindow := 0\<rparr>)
        else (Stored, r))"

definition Last :: "Reassembly \<Rightarrow> u8" where
  "Last r = expected r - 1"

section \<open>Division into segments\<close>

text \<open>Go's division truncates towards zero, which on these positive operands is \<open>div\<close>.\<close>

definition Count :: "int \<Rightarrow> int \<Rightarrow> int" where
  "Count n sz = (if sz < 1 then 0 else if n \<le> 0 then 1 else (n + sz - 1) div sz)"

definition Bounds :: "int \<Rightarrow> int \<Rightarrow> int \<Rightarrow> int \<times> int" where
  "Bounds i sz n = (let start = min (i * sz) n; fin = min (start + sz) n in (start, fin))"

section \<open>Specification\<close>

text \<open>Segment \<open>i\<close> of a payload, as the senders slice it.\<close>

definition segmentAt :: "bytes \<Rightarrow> int \<Rightarrow> nat \<Rightarrow> bytes" where
  "segmentAt payload sz i =
     (let (start, fin) = Bounds (int i) sz (int (length payload)) in subslice payload (nat start) (nat fin))"

definition segmentList :: "bytes \<Rightarrow> int \<Rightarrow> bytes list" where
  "segmentList payload sz = map (segmentAt payload sz) [0..<nat (Count (int (length payload)) sz)]"

text \<open>Feeding segments with consecutive sequence numbers; the last one has no more-follows flag.\<close>

fun feed :: "Reassembly \<Rightarrow> u8 \<Rightarrow> bytes list \<Rightarrow> Outcome \<times> Reassembly" where
  "feed r seq [] = (OutOfOrder, r)"
| "feed r seq [s] = Add r seq False s"
| "feed r seq (s # t # ss) = feed (snd (Add r seq True s)) (seq + 1) (t # ss)"

definition wf_Reassembly :: "Reassembly \<Rightarrow> bool" where
  "wf_Reassembly r \<longleftrightarrow> 1 \<le> window r \<and> inWindow r < window r \<and> 0 \<le> segments r
     \<and> segments r \<le> maxSegments r \<and> int (length (buf r)) \<le> maxOctets r
     \<and> expected r = of_int (segments r)"

text \<open>One arriving segment: sequence number, more-follows flag, octets.\<close>

definition offer :: "Reassembly \<Rightarrow> u8 \<times> bool \<times> bytes \<Rightarrow> Reassembly" where
  "offer r = (\<lambda>(seq, mf, payload). snd (Add r seq mf payload))"

section \<open>Windows stay in range\<close>

lemma Window_bounds:
  assumes "1 \<le> loc"
  shows "1 \<le> Window loc proposed \<and> Window loc proposed \<le> loc \<and> (proposed > 0 \<longrightarrow> Window loc proposed \<le> proposed)"
  using assms unat_eq_zero [of loc] unat_eq_zero [of proposed]
  by (auto simp: Window_def Let_def word_less_nat_alt word_le_nat_alt Suc_le_eq)

section \<open>The reassembly invariant\<close>

lemma wf_NewReassembly: "0 \<le> ms \<Longrightarrow> 0 \<le> mo \<Longrightarrow> wf_Reassembly (NewReassembly w ms mo)"
  using unat_eq_zero [of w] by (auto simp: wf_Reassembly_def NewReassembly_def word_less_nat_alt word_le_nat_alt Suc_le_eq)

lemma word_ge_1: "1 \<le> w \<Longrightarrow> 0 < w" for w :: u8
  by (simp add: word_less_nat_alt word_le_nat_alt Suc_le_eq)

lemma wf_Add: "wf_Reassembly r \<Longrightarrow> wf_Reassembly (snd (Add r seq mf payload))"
  by (auto simp: wf_Reassembly_def Add_def Let_def not_le word_ge_1)

lemma Add_expected:
  assumes "segments r < maxSegments r" "int (length (buf r) + length s) \<le> maxOctets r"
  shows "buf (snd (Add r (expected r) mf s)) = buf r @ s"
    "segments (snd (Add r (expected r) mf s)) = segments r + 1"
    "expected (snd (Add r (expected r) mf s)) = expected r + 1"
    "maxSegments (snd (Add r (expected r) mf s)) = maxSegments r"
    "maxOctets (snd (Add r (expected r) mf s)) = maxOctets r"
    "fst (Add r (expected r) False s) = Complete"
  using assms by (auto simp: Add_def Let_def)

lemma feed_complete:
  assumes "ss \<noteq> []" "segments r + int (length ss) \<le> maxSegments r"
    "int (length (buf r) + length (concat ss)) \<le> maxOctets r"
  shows "fst (feed r (expected r) ss) = Complete \<and> buf (snd (feed r (expected r) ss)) = buf r @ concat ss
    \<and> segments (snd (feed r (expected r) ss)) = segments r + int (length ss)"
  using assms
proof (induction ss arbitrary: r rule: induct_list012)
  case (2 s)
  then show ?case using Add_expected [of r s] by simp
next
  case (3 s t ss)
  let ?r = "snd (Add r (expected r) True s)"
  have a: "segments r < maxSegments r" "int (length (buf r) + length s) \<le> maxOctets r" using 3 by auto
  note e = Add_expected(1-5) [OF a, of True]
  have "fst (feed ?r (expected ?r) (t # ss)) = Complete \<and> buf (snd (feed ?r (expected ?r) (t # ss))) = buf ?r @ concat (t # ss)
    \<and> segments (snd (feed ?r (expected ?r) (t # ss))) = segments ?r + int (length (t # ss))"
    by (rule 3(2)) (use 3 e in auto)
  then show ?case by (simp add: e)
qed simp

section \<open>Division\<close>

lemma segmentAt_eq:
  assumes "1 \<le> sz"
  shows "segmentAt payload sz i = take (nat sz) (drop (i * nat sz) payload)"
proof -
  obtain k where k: "sz = int k" using assms by (metis nonneg_int_cases order.trans zero_le_one)
  have e: "int i * int k = int (i * k)" "int (i * k) + int k = int (i * k + k)" by simp_all
  show ?thesis
    unfolding segmentAt_def Bounds_def k Let_def e of_nat_min [symmetric] prod.case
    by (cases "i * k \<le> length payload") (auto simp: subslice_def min_def simp flip: of_nat_add of_nat_mult)
qed

lemma concat_chunks: "concat (map (\<lambda>i. take k (drop (i * k) xs)) [0..<m]) = take (m * k) xs"
proof (induction m)
  case (Suc m)
  have "take (Suc m * k) xs = take (m * k) xs @ take k (drop (m * k) xs)"
    using take_add [of "m * k" k xs] by (simp add: add.commute)
  with Suc show ?case by simp
qed simp

lemma Count_covers:
  assumes "1 \<le> sz" "0 \<le> n"
  shows "n \<le> Count n sz * sz" "1 \<le> Count n sz" "0 < n \<Longrightarrow> (Count n sz - 1) * sz < n"
proof -
  define q r where "q = (n + sz - 1) div sz" and "r = (n + sz - 1) mod sz"
  have e: "q * sz + r = n + sz - 1" unfolding q_def r_def by (rule div_mult_mod_eq)
  have m: "0 \<le> r" "r < sz" unfolding r_def using assms by auto
  have c: "Count n sz = (if n = 0 then 1 else q)" using assms by (simp add: Count_def q_def)
  show "n \<le> Count n sz * sz" using e m assms by (simp add: c)
  show "0 < n \<Longrightarrow> (Count n sz - 1) * sz < n" using e m assms by (simp add: c left_diff_distrib)
  have "n \<noteq> 0 \<Longrightarrow> 1 \<le> q" unfolding q_def using assms zdiv_mono1 [of sz "n + sz - 1" sz] by simp
  then show "1 \<le> Count n sz" by (simp add: c)
qed

lemma concat_segments:
  assumes "1 \<le> sz"
  shows "concat (segmentList payload sz) = payload"
proof -
  let ?n = "int (length payload)"
  obtain k where k: "sz = int k" using assms by (metis nonneg_int_cases order.trans zero_le_one)
  have "?n \<le> Count ?n sz * sz" "1 \<le> Count ?n sz" using Count_covers [OF assms, of ?n] by auto
  then obtain c where "Count ?n sz = int c" "?n \<le> int c * int k" using k by (metis nonneg_int_cases order.trans zero_le_one)
  then have "Count ?n sz = int c" "length payload \<le> c * k" by (simp_all flip: of_nat_mult)
  moreover have "segmentAt payload sz = (\<lambda>i. take k (drop (i * k) payload))"
    using segmentAt_eq [OF assms] k by auto
  ultimately show ?thesis
    using concat_chunks [of k payload c] by (simp add: segmentList_def)
qed

lemma length_segments: "1 \<le> sz \<Longrightarrow> s \<in> set (segmentList payload sz) \<Longrightarrow> int (length s) \<le> sz"
  by (auto simp: segmentList_def segmentAt_eq)

section \<open>The reassembly as a machine\<close>

interpretation reassembly: invariant_machine offer wf_Reassembly "\<lambda>_. True"
  by unfold_locales (auto simp: offer_def wf_Add)

section \<open>Properties\<close>

text \<open>Cutting a payload into segments and offering them in order to a fresh reassembly completes
  it with exactly the payload, whatever the window, if the limits admit it; sequence numbers wrap
  modulo 256 on the way.\<close>

theorem segmentation_roundtrip:
  assumes "1 \<le> sz" "Count (int (length payload)) sz \<le> maxSegs" "int (length payload) \<le> maxOcts"
  shows "fst (feed (NewReassembly win maxSegs maxOcts) 0 (segmentList payload sz)) = Complete \<and>
    buf (snd (feed (NewReassembly win maxSegs maxOcts) 0 (segmentList payload sz))) = payload"
proof -
  have c: "1 \<le> Count (int (length payload)) sz" using Count_covers(2) [OF assms(1), of "int (length payload)"] by simp
  then have "segmentList payload sz \<noteq> []" "int (length (segmentList payload sz)) = Count (int (length payload)) sz"
    by (auto simp: segmentList_def)
  then show ?thesis
    using feed_complete [of "segmentList payload sz" "NewReassembly win maxSegs maxOcts"] concat_segments [OF assms(1), of payload] assms
    by (simp add: NewReassembly_def)
qed

text \<open>Whatever segments arrive, in any order and any number, a reassembly stays within its segment
  and octet limits and expects the number of the next segment modulo 256.\<close>

theorem reassembly_bounded:
  assumes "0 \<le> maxSegs" "0 \<le> maxOcts"
  shows "wf_Reassembly (foldl offer (NewReassembly win maxSegs maxOcts) arrivals)"
  by (rule reassembly.run_inv) (use assms in \<open>auto simp: wf_NewReassembly list_all_iff\<close>)

text \<open>A segment that is out of order, one too many or too long changes nothing; an accepted one is
  appended and acknowledged at once when it is the first, closes the window or is the last.\<close>

theorem Add_cases:
  "case Add r seq mf payload of (out, r') \<Rightarrow>
     (if out \<in> {OutOfOrder, TooManySegments, TooLong} then r' = r
      else seq = expected r \<and> buf r' = buf r @ payload \<and> segments r' = segments r + 1 \<and>
        (out = Complete \<longleftrightarrow> \<not> mf) \<and> (out = StoredAck \<longleftrightarrow> mf \<and> (segments r = 0 \<or> inWindow r + 1 \<ge> window r)))"
  by (auto simp: Add_def Let_def)

text \<open>The division is tight and fits: segments have at most the segment size, their number is the
  least that carries the payload.\<close>

theorem Count_tight:
  assumes "1 \<le> sz" "0 < n"
  shows "n \<le> Count n sz * sz \<and> (Count n sz - 1) * sz < n"
  using Count_covers [of sz n] assms by simp

text \<open>The actual window is at least one and never exceeds what either side can take.\<close>

theorem Window_in_range:
  assumes "1 \<le> loc"
  shows "1 \<le> Window loc proposed \<and> Window loc proposed \<le> loc \<and> (proposed > 0 \<longrightarrow> Window loc proposed \<le> proposed)"
  by (rule Window_bounds [OF assms])

end
