(* ===== verification/Npdu.thy ===== *)
theory Npdu
  imports Bacnet_Types
begin

text \<open>
  Network-layer PDUs (\<^verbatim>\<open>npdu/codec.go\<close>): the strict framing decoder \<^verbatim>\<open>Parse\<close>, the network message
  validators and the encoder \<^verbatim>\<open>Append\<close>, with the address blocks of both as definitions of their own.
  Main results: \<open>npdu_Parse\<close> recovers what \<open>npdu_Append\<close> wrote up to the fields the wire form
  canonicalises, the encoder never emits a frame its decoder rejects, and every parsed frame has
  well-formed addresses.
\<close>

section \<open>Control octet and message types\<close>

abbreviation (input) "Version1 \<equiv> (1 :: u8)"
abbreviation (input) "ControlNetworkMessage \<equiv> (0x80 :: u8)"
abbreviation (input) "ControlDestinationSpec \<equiv> (0x20 :: u8)"
abbreviation (input) "ControlSourceSpec \<equiv> (0x08 :: u8)"
abbreviation (input) "ControlExpectingReply \<equiv> (0x04 :: u8)"
abbreviation (input) "ControlPriorityMask \<equiv> (0x03 :: u8)"
abbreviation (input) "ControlReservedBits \<equiv> (0x50 :: u8)"

abbreviation (input) "NetMsgIAmRouterToNetwork \<equiv> (0x01 :: u8)"
abbreviation (input) "NetMsgICouldBeRouterToNetwork \<equiv> (0x02 :: u8)"
abbreviation (input) "NetMsgRejectMessageToNetwork \<equiv> (0x03 :: u8)"
abbreviation (input) "NetMsgRouterBusyToNetwork \<equiv> (0x04 :: u8)"
abbreviation (input) "NetMsgRouterAvailableToNetwork \<equiv> (0x05 :: u8)"
abbreviation (input) "NetMsgNetworkNumberIs \<equiv> (0x13 :: u8)"

record NPDU =
  Version :: u8
  Control :: u8
  Destination :: Address
  Source :: Address
  HopCount :: u8
  NetworkMessage :: bool
  NetMsgType :: u8
  NetMsgData :: bytes
  np_APDU :: bytes
  ExpectingReply :: bool
  np_Priority :: u8

definition zeroNPDU :: NPDU where
  "zeroNPDU = \<lparr>Version = 0, Control = 0, Destination = zeroAddress, Source = zeroAddress, HopCount = 0,
     NetworkMessage = False, NetMsgType = 0, NetMsgData = [], np_APDU = [], ExpectingReply = False,
     np_Priority = 0\<rparr>"

section \<open>Network message data\<close>

fun decodeNetworks :: "bytes \<Rightarrow> u16 list result" where
  "decodeNetworks (a # b # data) =
     (let netn = Uint16 [a, b] in
      if netn = 0 then Inl ErrMalformed
      else rbind (decodeNetworks data) (\<lambda>out. Inr (netn # out)))"
| "decodeNetworks _ = Inr []"

definition DecodeNetworkList :: "bytes \<Rightarrow> u16 list result" where
  "DecodeNetworkList data =
     (if length data mod 2 \<noteq> 0 then Inl ErrMalformed else decodeNetworks data)"

definition DecodeRejectMessageToNetwork :: "bytes \<Rightarrow> (u8 \<times> u16) result" where
  "DecodeRejectMessageToNetwork data =
     (if length data < 3 then Inl ErrMalformed
      else if length data > 3 then Inl ErrTrailingData
      else Inr (data ! 0, Uint16 (subslice data 1 3)))"

definition DecodeICouldBeRouterToNetwork :: "bytes \<Rightarrow> (u16 \<times> u8) result" where
  "DecodeICouldBeRouterToNetwork data =
     (if length data < 3 then Inl ErrMalformed
      else if length data > 3 then Inl ErrTrailingData
      else Inr (Uint16 data, data ! 2))"

definition validateNetworkMessageData :: "u8 \<Rightarrow> bytes \<Rightarrow> unit result" where
  "validateNetworkMessageData msgType data =
     (if msgType = NetMsgIAmRouterToNetwork \<or> msgType = NetMsgRouterAvailableToNetwork
         \<or> msgType = NetMsgRouterBusyToNetwork then rbind (DecodeNetworkList data) (\<lambda>_. Inr ())
      else if msgType = NetMsgRejectMessageToNetwork then
        rbind (DecodeRejectMessageToNetwork data) (\<lambda>_. Inr ())
      else if msgType = NetMsgICouldBeRouterToNetwork then
        rbind (DecodeICouldBeRouterToNetwork data) (\<lambda>_. Inr ())
      else if msgType = NetMsgNetworkNumberIs then
        (if length data < 2 then Inl ErrMalformed else Inr ())
      else Inr ())"

section \<open>Parsing\<close>

text \<open>The DNET/DLEN/DADR block: the destination and the offset behind it.\<close>

definition parseDestination :: "bytes \<Rightarrow> nat \<Rightarrow> (Address \<times> nat) result" where
  "parseDestination data off =
     (if off + 2 > length data then Inl ErrMalformed
      else let dnet = Uint16 (drop off data); off = off + 2 in
        if off \<ge> length data then Inl ErrMalformed
        else let dlen = unat (data ! off); off = off + 1 in
          if dlen > MaxMACLength then Inl ErrMalformed
          else if off + dlen > length data then Inl ErrMalformed
          else rbind (NewMAC (subslice data off (off + dlen))) (\<lambda>mac.
            let off = off + dlen in
            if dnet = 0xFFFF then
              (if dlen \<noteq> 0 then Inl ErrMalformed else Inr (GlobalBroadcast, off))
            else if dlen = 0 then
              (if dnet = 0 then Inl ErrMalformed else Inr (RemoteBroadcast dnet, off))
            else if dnet = 0 then Inl ErrMalformed
            else Inr (RemoteStation dnet mac, off)))"

text \<open>The SNET/SLEN/SADR block.\<close>

definition parseSource :: "bytes \<Rightarrow> nat \<Rightarrow> (Address \<times> nat) result" where
  "parseSource data off =
     (if off + 2 > length data then Inl ErrMalformed
      else let snet = Uint16 (drop off data); off = off + 2 in
        if off \<ge> length data then Inl ErrMalformed
        else let slen = unat (data ! off); off = off + 1 in
          if slen = 0 \<or> slen > MaxMACLength then Inl ErrMalformed
          else if off + slen > length data then Inl ErrMalformed
          else rbind (NewMAC (subslice data off (off + slen))) (\<lambda>mac.
            let off = off + slen in
            if snet = 0xFFFF then Inl ErrMalformed
            else if snet = 0 then Inr (LocalStation mac, off)
            else Inr (RemoteStation snet mac, off)))"

text \<open>Everything behind the checked control octet: addresses, hop count, message or APDU.\<close>

definition parseFields :: "bytes \<Rightarrow> u8 \<Rightarrow> (NPDU \<times> nat) result" where
  "parseFields data control =
     (let n = zeroNPDU\<lparr>Version := data ! 0, Control := control,
            NetworkMessage := (control AND ControlNetworkMessage \<noteq> 0),
            ExpectingReply := (control AND ControlExpectingReply \<noteq> 0),
            np_Priority := control AND ControlPriorityMask\<rparr>;
          hasDst = (control AND ControlDestinationSpec \<noteq> 0);
          hasSrc = (control AND ControlSourceSpec \<noteq> 0) in
      rbind (if hasDst then parseDestination data 2 else Inr (zeroAddress, 2)) (\<lambda>(dest, off).
      rbind (if hasSrc then parseSource data off else Inr (zeroAddress, off)) (\<lambda>(src, off).
      rbind (if hasDst then (if off \<ge> length data then Inl ErrMalformed else Inr (data ! off, off + 1))
             else Inr (0, off)) (\<lambda>(hop, off).
        let n = n\<lparr>Destination := dest, Source := src, HopCount := hop\<rparr> in
        if NetworkMessage n then
          (if off \<ge> length data then Inl ErrMalformed
           else let msgType = data ! off; msgData = drop (off + 1) data in
             rbind (validateNetworkMessageData msgType msgData) (\<lambda>_.
               Inr (n\<lparr>NetMsgType := msgType, NetMsgData := msgData\<rparr>, length data)))
        else Inr (n\<lparr>np_APDU := drop off data\<rparr>, length data)))))"

definition npdu_Parse :: "bytes \<Rightarrow> DecodeLimits \<Rightarrow> (NPDU \<times> nat) result" where
  "npdu_Parse data limits =
     (if int (length data) > MaxDatagramSize (Normalize limits) then Inl ErrLimitExceeded
      else if length data < 2 then Inl ErrMalformed
      else if data ! 0 \<noteq> Version1 then Inl ErrUnsupported
      else if data ! 1 AND ControlReservedBits \<noteq> 0 then Inl ErrMalformed
      else parseFields data (data ! 1))"

section \<open>Encoding\<close>

definition validateRemoteNetwork :: "u16 \<Rightarrow> unit result" where
  "validateRemoteNetwork net = (if net = 0 \<or> net = 0xFFFF then Inl ErrMalformed else Inr ())"

text \<open>The \<^verbatim>\<open>n < 0\<close> branch of \<^verbatim>\<open>macLength\<close> is about a slice length and cannot be taken.\<close>

definition macLength :: "bytes \<Rightarrow> u8 result" where
  "macLength mac = (if length mac > MaxMACLength then Inl ErrMalformed else Inr (of_nat (length mac)))"

text \<open>The first switch of \<^verbatim>\<open>Append\<close>: whether a destination is encoded, after its checks.\<close>

definition hasDestination :: "Address \<Rightarrow> bool result" where
  "hasDestination a = (case scope a of
      AddressRemoteStation \<Rightarrow> rbind (validateRemoteNetwork (network a)) (\<lambda>_.
        if MAC_IsZero (addr_mac a) then Inl ErrMalformed else Inr True)
    | AddressRemoteBroadcast \<Rightarrow> rbind (validateRemoteNetwork (network a)) (\<lambda>_. Inr True)
    | AddressGlobalBroadcast \<Rightarrow> Inr True
    | _ \<Rightarrow> Inr False)"

definition hasSource :: "Address \<Rightarrow> bool result" where
  "hasSource a =
     (if scope a = AddressLocalStation \<or> scope a = AddressRemoteStation then
        if \<not> MAC_IsZero (addr_mac a) then
          if scope a = AddressRemoteStation then rbind (validateRemoteNetwork (network a)) (\<lambda>_. Inr True)
          else Inr True
        else Inr False
      else Inr False)"

definition appendDestination :: "bytes \<Rightarrow> Address \<Rightarrow> bytes result" where
  "appendDestination dst a = (case scope a of
      AddressGlobalBroadcast \<Rightarrow> Inr (dst @ [0xFF, 0xFF, 0])
    | AddressRemoteBroadcast \<Rightarrow> Inr ((dst @ put16 (network a)) @ [0])
    | AddressRemoteStation \<Rightarrow>
        (let mac = MAC_Bytes (addr_mac a) in
         rbind (macLength mac) (\<lambda>dlen. Inr ((dst @ put16 (network a)) @ [dlen] @ mac)))
    | _ \<Rightarrow> Inr dst)"

definition appendSource :: "bytes \<Rightarrow> Address \<Rightarrow> bytes result" where
  "appendSource dst a =
     (let mac = MAC_Bytes (addr_mac a); snet = (if scope a = AddressLocalStation then 0 else network a) in
      rbind (macLength mac) (\<lambda>slen. Inr ((dst @ put16 snet) @ [slen] @ mac)))"

definition controlOctet :: "NPDU \<Rightarrow> bool \<Rightarrow> bool \<Rightarrow> u8" where
  "controlOctet n hasDst hasSrc =
     ((if NetworkMessage n then ControlNetworkMessage else 0)
      OR (if ExpectingReply n \<or> Control n AND ControlExpectingReply \<noteq> 0 then ControlExpectingReply else 0)
      OR (np_Priority n AND ControlPriorityMask)
      OR (if hasDst then ControlDestinationSpec else 0)
      OR (if hasSrc then ControlSourceSpec else 0))"

definition npdu_Append :: "bytes \<Rightarrow> NPDU \<Rightarrow> bytes result" where
  "npdu_Append dst n0 =
     (let n = (if Version n0 = 0 then n0\<lparr>Version := Version1\<rparr> else n0) in
      rbind (hasDestination (Destination n)) (\<lambda>hasDst.
      rbind (hasSource (Source n)) (\<lambda>hasSrc.
        let dst = dst @ [Version n, controlOctet n hasDst hasSrc] in
        rbind (if hasDst then appendDestination dst (Destination n) else Inr dst) (\<lambda>dst.
        rbind (if hasSrc then appendSource dst (Source n) else Inr dst) (\<lambda>dst.
          let dst = (if hasDst then dst @ [if HopCount n = 0 then 255 else HopCount n] else dst) in
          if NetworkMessage n then Inr ((dst @ [NetMsgType n]) @ NetMsgData n)
          else Inr (dst @ np_APDU n))))))"

section \<open>What the wire form keeps\<close>

text \<open>
  The NPDU a decoder sees: absent addresses become the zero address, a zero hop count 255, the
  control octet is the computed one, and only the payload of the message's kind survives.
\<close>

definition normNPDU :: "NPDU \<Rightarrow> NPDU" where
  "normNPDU n = (let d = (hasDestination (Destination n) = Inr True); s = (hasSource (Source n) = Inr True) in
     \<lparr>Version = Version1, Control = controlOctet n d s,
      Destination = (if d then Destination n else zeroAddress),
      Source = (if s then Source n else zeroAddress),
      HopCount = (if d then if HopCount n = 0 then 255 else HopCount n else 0),
      NetworkMessage = NetworkMessage n,
      NetMsgType = (if NetworkMessage n then NetMsgType n else 0),
      NetMsgData = (if NetworkMessage n then NetMsgData n else []),
      np_APDU = (if NetworkMessage n then [] else np_APDU n),
      ExpectingReply = (ExpectingReply n \<or> Control n AND ControlExpectingReply \<noteq> 0),
      np_Priority = np_Priority n AND ControlPriorityMask\<rparr>)"

text \<open>The NPDUs \<^verbatim>\<open>Append\<close> encodes and \<^verbatim>\<open>Parse\<close> accepts.\<close>

definition wf_NPDU :: "NPDU \<Rightarrow> bool" where
  "wf_NPDU n \<longleftrightarrow> (Version n = 0 \<or> Version n = Version1) \<and> wf_Address (Destination n) \<and> wf_Address (Source n)
     \<and> is_ok (hasDestination (Destination n)) \<and> is_ok (hasSource (Source n))
     \<and> (NetworkMessage n \<longrightarrow> is_ok (validateNetworkMessageData (NetMsgType n) (NetMsgData n)))"

definition fitsDatagram :: "DecodeLimits \<Rightarrow> bytes result \<Rightarrow> bool" where
  "fitsDatagram L r = (case r of Inl _ \<Rightarrow> False | Inr bs \<Rightarrow> int (length bs) \<le> MaxDatagramSize (Normalize L))"

section \<open>Address blocks\<close>

lemma mac_octet:
  assumes "wf_MAC m"
  shows "macLength (MAC_Bytes m) = Inr (mac_length m)" "length (MAC_Bytes m) = unat (mac_length m)"
    "unat (mac_length m) \<le> MaxMACLength"
  using assms length_MAC_Bytes [OF assms] by (auto simp: macLength_def wf_MAC_def)

lemma macBlock:
  assumes m: "wf_MAC m"
  shows "subslice (pre @ put16 v @ mac_length m # MAC_Bytes m @ rest) (Suc (Suc (Suc (length pre))))
      (Suc (Suc (Suc (length pre + unat (mac_length m))))) = MAC_Bytes m"
    "(pre @ put16 v @ mac_length m # MAC_Bytes m @ rest) ! Suc (Suc (length pre)) = mac_length m"
proof -
  have "pre @ put16 v @ mac_length m # MAC_Bytes m @ rest = (pre @ put16 v @ [mac_length m]) @ MAC_Bytes m @ rest"
    by simp
  then show "subslice (pre @ put16 v @ mac_length m # MAC_Bytes m @ rest) (Suc (Suc (Suc (length pre))))
      (Suc (Suc (Suc (length pre + unat (mac_length m))))) = MAC_Bytes m"
    using subslice_append_mid [of "pre @ put16 v @ [mac_length m]" "Suc (Suc (Suc (length pre)))"
      "Suc (Suc (Suc (length pre + unat (mac_length m))))" "MAC_Bytes m" rest] mac_octet(2) [OF m]
    by simp
  show "(pre @ put16 v @ mac_length m # MAC_Bytes m @ rest) ! Suc (Suc (length pre)) = mac_length m"
    by (simp add: nth_append)
qed

lemma destination_roundtrip:
  assumes wf: "wf_Address a" and has: "hasDestination a = Inr True"
  obtains ds where "\<And>dst. appendDestination dst a = Inr (dst @ ds)" "0 < length ds"
    "\<And>pre rest. parseDestination (pre @ ds @ rest) (length pre) = Inr (a, length pre + length ds)"
proof -
  from wf has consider (glob) "a = GlobalBroadcast"
    | (bc) n where "a = RemoteBroadcast n" "n \<noteq> 0" "n \<noteq> 0xFFFF"
    | (st) n m where "a = RemoteStation n m" "n \<noteq> 0" "n \<noteq> 0xFFFF" "wf_MAC m" "\<not> MAC_IsZero m"
    by (auto simp: wf_Address_def hasDestination_def validateRemoteNetwork_def LocalStation_def LocalBroadcast_def
      RemoteStation_def RemoteBroadcast_def GlobalBroadcast_def split: if_splits)
  then show thesis
  proof cases
    case glob
    show thesis
      by (rule that [of "[0xFF, 0xFF, 0]"])
        (simp_all add: glob appendDestination_def parseDestination_def GlobalBroadcast_def nth_append Uint16_def NewMAC_def)
  next
    case bc
    show thesis
      by (rule that [of "put16 n @ [0]"])
        (use bc in \<open>simp_all add: appendDestination_def parseDestination_def RemoteBroadcast_def nth_append NewMAC_def\<close>)
  next
    case st
    note mac = mac_octet [OF st(4)] macBlock [OF st(4)] NewMAC_Bytes [OF st(4)]
    have nz: "unat (mac_length m) \<noteq> 0" using st(5) by (simp add: MAC_IsZero_def unat_eq_zero)
    show thesis
      by (rule that [of "put16 n @ mac_length m # MAC_Bytes m"])
        (use st mac nz in \<open>simp_all add: appendDestination_def parseDestination_def RemoteStation_def Let_def\<close>)
  qed
qed

lemma source_roundtrip:
  assumes wf: "wf_Address a" and has: "hasSource a = Inr True"
  obtains ds where "\<And>dst. appendSource dst a = Inr (dst @ ds)" "0 < length ds"
    "\<And>pre rest. parseSource (pre @ ds @ rest) (length pre) = Inr (a, length pre + length ds)"
proof -
  from wf has obtain n m where a: "wf_MAC m" "\<not> MAC_IsZero m"
     "a = LocalStation m \<and> n = 0 \<or> a = RemoteStation n m \<and> n \<noteq> 0 \<and> n \<noteq> 0xFFFF"
    by (auto simp: wf_Address_def hasSource_def validateRemoteNetwork_def LocalStation_def LocalBroadcast_def
      RemoteStation_def RemoteBroadcast_def GlobalBroadcast_def split: if_splits)
  note mac = mac_octet [OF a(1)] macBlock [OF a(1)] NewMAC_Bytes [OF a(1)]
  have nz: "unat (mac_length m) \<noteq> 0" using a(2) by (simp add: MAC_IsZero_def unat_eq_zero)
  show thesis
    by (rule that [of "put16 n @ mac_length m # MAC_Bytes m"])
      (use a mac nz in \<open>auto simp: appendSource_def parseSource_def RemoteStation_def LocalStation_def Let_def\<close>)
qed

lemma controlOctet_bits:
  "controlOctet n d s AND 0x50 = 0"
  "controlOctet n d s AND 0x80 \<noteq> 0 \<longleftrightarrow> NetworkMessage n"
  "controlOctet n d s AND 0x20 \<noteq> 0 \<longleftrightarrow> d"
  "controlOctet n d s AND 0x08 \<noteq> 0 \<longleftrightarrow> s"
  "controlOctet n d s AND 0x04 \<noteq> 0 \<longleftrightarrow> ExpectingReply n \<or> Control n AND 4 \<noteq> 0"
  "controlOctet n d s AND 3 = np_Priority n AND 3"
  by (cases "NetworkMessage n"; cases d; cases s; cases "ExpectingReply n \<or> Control n AND 4 \<noteq> 0";
      simp add: controlOctet_def and.assoc bit.conj_disj_distrib2)+

lemma destination_block:
  assumes "wf_Address a" "hasDestination a = Inr d"
  obtains ds where "\<And>dst. (if d then appendDestination dst a else Inr dst) = Inr (dst @ ds)"
    "\<And>pre rest. (if d then parseDestination (pre @ ds @ rest) (length pre) else Inr (zeroAddress, length pre))
      = Inr (if d then a else zeroAddress, length pre + length ds)"
proof (cases d)
  case True
  show thesis
    by (rule destination_roundtrip [OF assms(1)]) (use assms(2) True in \<open>auto intro: that\<close>)
qed (rule that [of "[]"], simp_all)

lemma source_block:
  assumes "wf_Address a" "hasSource a = Inr d"
  obtains ds where "\<And>dst. (if d then appendSource dst a else Inr dst) = Inr (dst @ ds)"
    "\<And>pre rest. (if d then parseSource (pre @ ds @ rest) (length pre) else Inr (zeroAddress, length pre))
      = Inr (if d then a else zeroAddress, length pre + length ds)"
proof (cases d)
  case True
  show thesis
    by (rule source_roundtrip [OF assms(1)]) (use assms(2) True in \<open>auto intro: that\<close>)
qed (rule that [of "[]"], simp_all)

lemma controlOctet_Version: "controlOctet (n\<lparr>Version := v\<rparr>) d s = controlOctet n d s"
  by (simp add: controlOctet_def)

lemma npdu_Parse_blocks:
  assumes data: "data = [Version1, c] @ db @ sb @ hb @ pay" and len: "int (length data) \<le> MaxDatagramSize (Normalize L)"
    and d: "d \<longleftrightarrow> c AND ControlDestinationSpec \<noteq> 0" and s: "s \<longleftrightarrow> c AND ControlSourceSpec \<noteq> 0"
    and r: "c AND ControlReservedBits = 0"
    and dest: "(if d then parseDestination data 2 else Inr (zeroAddress, 2)) = Inr (da, 2 + length db)"
    and src: "(if s then parseSource data (2 + length db) else Inr (zeroAddress, 2 + length db))
       = Inr (sa, 2 + length db + length sb)"
    and hb: "hb = (if d then [hop] else [])" "d \<or> hop = 0"
  shows "npdu_Parse data L =
    (let n = zeroNPDU\<lparr>Version := Version1, Control := c, NetworkMessage := (c AND ControlNetworkMessage \<noteq> 0),
           ExpectingReply := (c AND ControlExpectingReply \<noteq> 0), np_Priority := c AND ControlPriorityMask,
           Destination := da, Source := sa, HopCount := hop\<rparr> in
     if c AND ControlNetworkMessage \<noteq> 0 then
       (case pay of [] \<Rightarrow> Inl ErrMalformed
        | t # p \<Rightarrow> rbind (validateNetworkMessageData t p) (\<lambda>_. Inr (n\<lparr>NetMsgType := t, NetMsgData := p\<rparr>, length data)))
     else Inr (n\<lparr>np_APDU := pay\<rparr>, length data))"
proof -
  let ?off = "2 + length db + length sb"
  have h: "(if d then if ?off \<ge> length data then Inl ErrMalformed else Inr (data ! ?off, ?off + 1) else Inr (0, ?off))
      = (Inr (hop, ?off + length hb) :: (u8 \<times> nat) result)"
    using hb by (auto simp: data nth_append)
  have p: "drop (?off + length hb) data = pay" "drop (?off + length hb + 1) data = drop 1 pay"
    "length data \<le> ?off + length hb \<longleftrightarrow> pay = []"
    by (auto simp: data)
  have n: "pay \<noteq> [] \<Longrightarrow> data ! (?off + length hb) = hd pay"
    using p(1,3) hd_drop_conv_nth [of "?off + length hb" data] by simp
  have hd: "data ! 0 = 1" "data ! 1 = c" "length data < 2 \<longleftrightarrow> False" "MaxDatagramSize (Normalize L) < int (length data) \<longleftrightarrow> False"
    using len by (simp_all add: data)
  show ?thesis
    unfolding npdu_Parse_def parseFields_def Let_def hd d [symmetric] s [symmetric] dest rbind.simps prod.case src h p
    using n by (cases pay) (simp_all add: r)
qed

lemma npdu_roundtrip:
  assumes wf: "wf_NPDU n"
  obtains bs where "\<And>dst. npdu_Append dst n = Inr (dst @ bs)"
    "int (length bs) \<le> MaxDatagramSize (Normalize L) \<Longrightarrow> npdu_Parse bs L = Inr (normNPDU n, length bs)"
proof -
  obtain d s where ds: "hasDestination (Destination n) = Inr d" "hasSource (Source n) = Inr s"
    using wf by (auto simp: wf_NPDU_def is_ok_iff)
  have wfa: "wf_Address (Destination n)" "wf_Address (Source n)" using wf by (simp_all add: wf_NPDU_def)
  obtain db where
    db: "\<And>dst. (if d then appendDestination dst (Destination n) else Inr dst) = Inr (dst @ db)"
      "\<And>pre rest. (if d then parseDestination (pre @ db @ rest) (length pre) else Inr (zeroAddress, length pre))
        = Inr (if d then Destination n else zeroAddress, length pre + length db)"
    by (rule destination_block [OF wfa(1) ds(1)]) blast
  obtain sb where
    sb: "\<And>dst. (if s then appendSource dst (Source n) else Inr dst) = Inr (dst @ sb)"
      "\<And>pre rest. (if s then parseSource (pre @ sb @ rest) (length pre) else Inr (zeroAddress, length pre))
        = Inr (if s then Source n else zeroAddress, length pre + length sb)"
    by (rule source_block [OF wfa(2) ds(2)]) blast
  define hop where "hop = (if d then if HopCount n = 0 then 255 else HopCount n else 0)"
  define hb where "hb = (if d then [hop] else [])"
  define pay where "pay = (if NetworkMessage n then NetMsgType n # NetMsgData n else np_APDU n)"
  let ?c = "controlOctet n d s"
  let ?bs = "[Version1, ?c] @ db @ sb @ hb @ pay"
  show thesis
  proof (rule that [of ?bs])
    show "npdu_Append dst n = Inr (dst @ ?bs)" for dst
    proof -
      have "(if Version n = 0 then n\<lparr>Version := 1\<rparr> else n) = n\<lparr>Version := 1\<rparr>"
        using wf by (auto simp: wf_NPDU_def)
      then show ?thesis
        using db(1) sb(1)
        by (cases d; cases s) (simp_all add: npdu_Append_def Let_def ds controlOctet_Version hb_def hop_def pay_def)
    qed
    assume len: "int (length ?bs) \<le> MaxDatagramSize (Normalize L)"
    have "NetworkMessage n \<Longrightarrow> validateNetworkMessageData (NetMsgType n) (NetMsgData n) = Inr ()"
      using wf by (auto simp: wf_NPDU_def is_ok_iff)
    moreover have "(if d then parseDestination ?bs 2 else Inr (zeroAddress, 2)) =
        Inr (if d then Destination n else zeroAddress, 2 + length db)"
      using db(2) [of "[Version1, ?c]" "sb @ hb @ pay"] by (cases d) (simp_all add: numeral_2_eq_2)
    moreover have "(if s then parseSource ?bs (2 + length db) else Inr (zeroAddress, 2 + length db))
       = Inr (if s then Source n else zeroAddress, 2 + length db + length sb)"
      using sb(2) [of "[Version1, ?c] @ db" "hb @ pay"] by (cases s) (simp_all add: numeral_2_eq_2)
    ultimately show "npdu_Parse ?bs L = Inr (normNPDU n, length ?bs)"
      using npdu_Parse_blocks [OF refl len, of d s "if d then Destination n else zeroAddress"
         "if s then Source n else zeroAddress" hop]
      by (simp add: controlOctet_bits hb_def hop_def pay_def normNPDU_def ds zeroNPDU_def Let_def)
  qed
qed

lemma addressBlock_elim:
  assumes "off + 3 \<le> length (data :: bytes)"
  obtains pre x y l rest where "data = pre @ x # y # l # rest" "off = length pre"
proof -
  have "length (drop off data) \<ge> 3" using assms by simp
  then obtain x y l rest where "drop off data = x # y # l # rest"
    by (auto simp: numeral_3_eq_3 Suc_le_length_iff simp del: length_drop)
  then have "data = take off data @ x # y # l # rest" by (metis append_take_drop_id)
  then show thesis using that assms by simp
qed

lemma addressBlock_simps:
  "Uint16 (x # y # l # rest) = Uint16 [x, y]"
  "(pre @ x # y # l # rest) ! Suc (Suc (length pre)) = l"
  "subslice (pre @ x # y # l # rest) (Suc (Suc (Suc (length pre)))) (Suc (Suc (Suc (length pre + n)))) = take n rest"
  "subslice (pre @ x # y # l # rest) (Suc (Suc (Suc (length pre)))) (Suc (Suc (Suc (length pre)))) = []"
  "subslice (pre @ x # y # l # rest) (length pre) (Suc (Suc (Suc (length pre + n)))) = x # y # l # take n rest"
  "subslice (pre @ x # y # l # rest) (length pre) (Suc (Suc (Suc (length pre)))) = [x, y, l]"
  by (simp_all add: subslice_def Uint16_def nth_append numeral_3_eq_3)

lemma NewMAC_take:
  assumes "NewMAC (take (unat l) rest) = Inr m" "unat l \<le> length rest" "unat l \<noteq> 0"
  shows "wf_MAC m \<and> \<not> MAC_IsZero m \<and> macLength (MAC_Bytes m) = Inr l \<and> MAC_Bytes m = take (unat l) rest"
proof -
  have "length (take (unat l) rest) \<le> MaxMACLength" using assms(1) by (auto simp: NewMAC_def Let_def split: if_splits)
  then have "MAC_Bytes m = take (unat l) rest" using MAC_Bytes_NewMAC assms(1) by fastforce
  moreover have "wf_MAC m" by (rule wf_MAC_NewMAC [OF assms(1)])
  moreover have "mac_length m = l"
    using assms by (auto simp: NewMAC_def Let_def of_nat_unat split: if_splits)
  ultimately show ?thesis using assms mac_octet [of m] by (auto simp: MAC_IsZero_def)
qed

lemmas address_defs = LocalStation_def LocalBroadcast_def RemoteStation_def RemoteBroadcast_def GlobalBroadcast_def

lemma broadcast_distinct [simp]: "GlobalBroadcast \<noteq> RemoteBroadcast n"
  by (simp add: address_defs)

lemma parseDestination_inv:
  assumes p: "parseDestination data off = Inr (a, off')"
  shows "hasDestination a = Inr True \<and> wf_Address a \<and> off \<le> off' \<and> off' \<le> length data \<and>
    appendDestination dst a = Inr (dst @ subslice data off off')"
proof -
  have "off + 3 \<le> length data" using p by (auto simp: parseDestination_def Let_def split: if_splits)
  then obtain pre x y l rest where d: "data = pre @ x # y # l # rest" "off = length pre" by (rule addressBlock_elim)
  consider (glob) "Uint16 [x, y] = 0xFFFF" "unat l = 0" "a = GlobalBroadcast" "off' = Suc (Suc (Suc off))"
    | (bc) "Uint16 [x, y] \<noteq> 0xFFFF" "Uint16 [x, y] \<noteq> 0" "unat l = 0" "a = RemoteBroadcast (Uint16 [x, y])" "off' = Suc (Suc (Suc off))"
    | (st) m where "Uint16 [x, y] \<noteq> 0xFFFF" "Uint16 [x, y] \<noteq> 0" "unat l \<noteq> 0" "a = RemoteStation (Uint16 [x, y]) m"
        "off' = Suc (Suc (Suc (off + unat l)))" "NewMAC (take (unat l) rest) = Inr m" "unat l \<le> length rest"
    using p by (auto simp: parseDestination_def rbind_eq_Inr Let_def d addressBlock_simps split: if_splits)
  then show ?thesis
  proof cases
    case glob
    have "put16 0xFFFF = [x, y]" using put16_Uint16 [of x y "[]"] glob(1) by simp
    with glob show ?thesis
      by (auto simp: d addressBlock_simps hasDestination_def appendDestination_def address_defs wf_Address_def unat_eq_zero put16_def intro: exI [of _ zeroMAC])
  next
    case bc
    then show ?thesis
      by (auto simp: d addressBlock_simps hasDestination_def validateRemoteNetwork_def appendDestination_def address_defs wf_Address_def unat_eq_zero intro: exI [of _ zeroMAC])
  next
    case st
    then show ?thesis
      using NewMAC_take [OF st(6,7,3)]
      by (auto simp: d addressBlock_simps hasDestination_def validateRemoteNetwork_def appendDestination_def address_defs wf_Address_def)
  qed
qed

lemma parseSource_inv:
  assumes p: "parseSource data off = Inr (a, off')"
  shows "hasSource a = Inr True \<and> wf_Address a \<and> off \<le> off' \<and> off' \<le> length data \<and>
    appendSource dst a = Inr (dst @ subslice data off off')"
proof -
  have "off + 3 \<le> length data" using p by (auto simp: parseSource_def Let_def split: if_splits)
  then obtain pre x y l rest where d: "data = pre @ x # y # l # rest" "off = length pre" by (rule addressBlock_elim)
  obtain m where m: "unat l \<noteq> 0" "NewMAC (take (unat l) rest) = Inr m" "unat l \<le> length rest" "off' = Suc (Suc (Suc (off + unat l)))"
    and a: "Uint16 [x, y] \<noteq> 0xFFFF" "a = (if Uint16 [x, y] = 0 then LocalStation m else RemoteStation (Uint16 [x, y]) m)"
    using p by (auto simp: parseSource_def rbind_eq_Inr Let_def d addressBlock_simps split: if_splits)
  have "Uint16 [x, y] = 0 \<Longrightarrow> put16 0 = [x, y]" using put16_Uint16 [of x y "[]"] by simp
  then show ?thesis
    using NewMAC_take [OF m(2,3,1)] m(3,4) a
    by (auto simp: d addressBlock_simps hasSource_def validateRemoteNetwork_def appendSource_def address_defs wf_Address_def)
qed

lemma controlOctet_parsed:
  assumes "c AND ControlReservedBits = 0" "NetworkMessage n \<longleftrightarrow> c AND ControlNetworkMessage \<noteq> 0" "Control n = c"
    "ExpectingReply n \<longleftrightarrow> c AND ControlExpectingReply \<noteq> 0" "np_Priority n = c AND ControlPriorityMask"
    "d \<longleftrightarrow> c AND ControlDestinationSpec \<noteq> 0" "s \<longleftrightarrow> c AND ControlSourceSpec \<noteq> 0"
  shows "controlOctet n d s = c"
proof -
  have m: "(if c AND 0x80 \<noteq> 0 then 0x80 else 0) = c AND 0x80" "(if c AND 4 \<noteq> 0 then 4 else 0) = c AND 4"
    "(if c AND 0x20 \<noteq> 0 then 0x20 else 0) = c AND 0x20" "(if c AND 8 \<noteq> 0 then 8 else 0) = c AND 8"
    using single_bit_mask [of c 7] single_bit_mask [of c 2] single_bit_mask [of c 5] single_bit_mask [of c 3]
    by (simp_all split: if_splits)
  have "(0x80 OR 4 OR 3 OR 0x20 OR 8 OR 0x50 :: u8) = -1" by simp
  then have "c = c AND (0x80 OR 4 OR 3 OR 0x20 OR 8 OR 0x50)" by (simp only: word_bw_same and.right_neutral)
  also have "\<dots> = c AND 0x80 OR c AND 4 OR c AND 3 OR c AND 0x20 OR c AND 8"
    using assms(1) by (simp only: bit.conj_disj_distrib) simp
  also have "\<dots> = controlOctet n d s"
    unfolding controlOctet_def assms(2-7) disj_absorb m by (simp add: and.assoc)
  finally show ?thesis ..
qed

lemma hasAddress_zero [simp]: "hasDestination zeroAddress = Inr False" "hasSource zeroAddress = Inr False"
  by (simp_all add: hasDestination_def hasSource_def zeroAddress_def LocalStation_def MAC_IsZero_def zeroMAC_def)

lemma wf_Address_zero [simp]: "wf_Address zeroAddress"
  unfolding wf_Address_def zeroAddress_def using wf_MAC_zero by blast

lemma parseDestination_opt:
  assumes "(if d then parseDestination data off else Inr (zeroAddress, off)) = Inr (a, off')" "off \<le> length data"
  shows "hasDestination a = Inr d \<and> wf_Address a \<and> off \<le> off' \<and> off' \<le> length data
    \<and> (\<forall>dst. (if d then appendDestination dst a else Inr dst) = Inr (dst @ subslice data off off'))"
proof (cases d)
  case True
  then show ?thesis using parseDestination_inv [of data off a off'] assms by simp
qed (use assms in \<open>auto simp: subslice_def\<close>)

lemma parseSource_opt:
  assumes "(if d then parseSource data off else Inr (zeroAddress, off)) = Inr (a, off')" "off \<le> length data"
  shows "hasSource a = Inr d \<and> wf_Address a \<and> off \<le> off' \<and> off' \<le> length data
    \<and> (\<forall>dst. (if d then appendSource dst a else Inr dst) = Inr (dst @ subslice data off off'))"
proof (cases d)
  case True
  then show ?thesis using parseSource_inv [of data off a off'] assms by simp
qed (use assms in \<open>auto simp: subslice_def\<close>)

lemma npdu_Parse_elim:
  assumes "npdu_Parse data L = Inr (n, k)"
  obtains c where "data = [1, c] @ drop 2 data" "c AND ControlReservedBits = 0" "parseFields data c = Inr (n, k)"
proof -
  have "data ! 0 = 1" "2 \<le> length data" "data ! 1 AND 0x50 = 0" "parseFields data (data ! 1) = Inr (n, k)"
    using assms by (auto simp: npdu_Parse_def split: if_splits)
  moreover from this have "data = [1, data ! 1] @ drop 2 data"
    by (auto simp: numeral_2_eq_2 Suc_le_length_iff)
  ultimately show thesis using that by blast
qed

lemma parseFields_elim:
  assumes p: "parseFields data c = Inr (n, k)"
  obtains dest off1 src off2 hop off3 where
    "(if c AND 0x20 \<noteq> 0 then parseDestination data 2 else Inr (zeroAddress, 2)) = Inr (dest, off1)"
    "(if c AND 8 \<noteq> 0 then parseSource data off1 else Inr (zeroAddress, off1)) = Inr (src, off2)"
    "if c AND 0x20 \<noteq> 0 then off2 < length data \<and> hop = data ! off2 \<and> off3 = off2 + 1 else hop = 0 \<and> off3 = off2"
    "k = length data" "Version n = data ! 0" "Control n = c" "Destination n = dest" "Source n = src" "HopCount n = hop"
    "NetworkMessage n \<longleftrightarrow> c AND 0x80 \<noteq> 0" "ExpectingReply n \<longleftrightarrow> c AND 4 \<noteq> 0" "np_Priority n = c AND 3"
    "if NetworkMessage n then off3 < length data \<and> NetMsgType n = data ! off3 \<and> NetMsgData n = drop (off3 + 1) data
       \<and> is_ok (validateNetworkMessageData (NetMsgType n) (NetMsgData n)) else np_APDU n = drop off3 data"
proof -
  note p' = p [unfolded parseFields_def Let_def rbind_pair_eq_Inr]
  from p' show thesis
    apply (elim exE conjE)
    apply (rule that)
    apply assumption
    apply assumption
    by (auto split: if_splits simp: rbind_eq_Inr)
qed

lemma npdu_Parse_inv:
  assumes p: "npdu_Parse data L = Inr (n, k)"
  shows "wf_NPDU n \<and> k = length data \<and> (HopCount n \<noteq> 0 \<or> hasDestination (Destination n) = Inr False
    \<longrightarrow> npdu_Append dst n = Inr (dst @ data))"
proof -
  obtain c where data: "data = [1, c] @ drop 2 data" and c: "c AND ControlReservedBits = 0"
    and f: "parseFields data c = Inr (n, k)" using npdu_Parse_elim [OF p] .
  have len: "2 \<le> length data" by (subst data) simp
  show ?thesis
  proof (rule parseFields_elim [OF f])
    fix dest off1 src off2 hop off3
    let ?d = "c AND 0x20 \<noteq> 0" and ?s = "c AND 8 \<noteq> 0"
    assume d: "(if ?d then parseDestination data 2 else Inr (zeroAddress, 2)) = Inr (dest, off1)"
      and s: "(if ?s then parseSource data off1 else Inr (zeroAddress, off1)) = Inr (src, off2)"
      and h: "if ?d then off2 < length data \<and> hop = data ! off2 \<and> off3 = off2 + 1 else hop = 0 \<and> off3 = off2"
      and k: "k = length data"
      and n: "Version n = data ! 0" "Control n = c" "Destination n = dest" "Source n = src" "HopCount n = hop"
        "NetworkMessage n \<longleftrightarrow> c AND 0x80 \<noteq> 0" "ExpectingReply n \<longleftrightarrow> c AND 4 \<noteq> 0" "np_Priority n = c AND 3"
      and pay: "if NetworkMessage n then off3 < length data \<and> NetMsgType n = data ! off3 \<and> NetMsgData n = drop (off3 + 1) data
         \<and> is_ok (validateNetworkMessageData (NetMsgType n) (NetMsgData n)) else np_APDU n = drop off3 data"
    have dd: "hasDestination dest = Inr ?d" "wf_Address dest" "2 \<le> off1" "off1 \<le> length data"
      "\<And>dst. (if ?d then appendDestination dst dest else Inr dst) = Inr (dst @ subslice data 2 off1)"
      using parseDestination_opt [OF d len] by blast+
    have ss: "hasSource src = Inr ?s" "wf_Address src" "off1 \<le> off2" "off2 \<le> length data"
      "\<And>dst. (if ?s then appendSource dst src else Inr dst) = Inr (dst @ subslice data off1 off2)"
      using parseSource_opt [OF s dd(4)] by blast+
    have v: "Version n = 1" by (simp add: n(1)) (subst data, simp)
    have "wf_NPDU n" using pay by (auto simp: wf_NPDU_def v n(3,4) dd(1,2) ss(1,2))
    moreover have "npdu_Append dst n = Inr (dst @ data)" if hop: "HopCount n \<noteq> 0 \<or> hasDestination (Destination n) = Inr False"
    proof -
      have co: "controlOctet n ?d ?s = c" by (rule controlOctet_parsed) (use c n in auto)
      define hb where "hb = (if ?d then [hop] else [])"
      define pl where "pl = (if NetworkMessage n then NetMsgType n # NetMsgData n else np_APDU n)"
      have "pl = drop off3 data" using pay by (auto simp: pl_def Cons_nth_drop_Suc)
      moreover have "hb @ drop off3 data = drop off2 data" using h by (auto simp: hb_def Cons_nth_drop_Suc)
      ultimately have "hb @ pl = drop off2 data" by simp
      then have tl: "[1, c] @ subslice data 2 off1 @ subslice data off1 off2 @ hb @ pl = data"
        by (simp only: subslice_glue [OF ss(3,4)] subslice_glue [OF dd(3,4)] data [symmetric])
      have hz: "?d \<Longrightarrow> hop \<noteq> 0" using hop n(3,5) dd(1) by auto
      have ver: "(if Version n = 0 then n\<lparr>Version := 1\<rparr> else n) = n" by (simp add: v)
      have "npdu_Append dst n = Inr (dst @ [1, c] @ subslice data 2 off1 @ subslice data off1 off2 @ hb @ pl)"
        unfolding npdu_Append_def Let_def unfolding ver unfolding n(3,4) dd(1) ss(1) rbind.simps co v dd(5) ss(5)
        using hz n(5) by (simp add: hb_def pl_def)
      then show ?thesis unfolding tl .
    qed
    ultimately show ?thesis using k by blast
  qed
qed
section \<open>The codec as an instance of the wire interface\<close>

interpretation npdu_wire: wire_codec "npdu_Append []" "\<lambda>bs. rmap fst (npdu_Parse bs L)"
  "\<lambda>n. wf_NPDU n \<and> fitsDatagram L (npdu_Append [] n)" normNPDU for L
proof
  fix n bs
  assume n: "wf_NPDU n \<and> fitsDatagram L (npdu_Append [] n)"
  then show "is_ok (npdu_Append [] n)" by (auto simp: fitsDatagram_def split: sum.splits)
  assume "npdu_Append [] n = Inr bs"
  then show "rmap fst (npdu_Parse bs L) = Inr (normNPDU n)"
    using n npdu_roundtrip [of n L] by (fastforce simp: fitsDatagram_def)
qed

section \<open>Properties\<close>

text \<open>C20. \<^verbatim>\<open>Parse\<close> recovers from the octets of \<^verbatim>\<open>Append\<close> the NPDU with its canonical control octet, hop
  count and addresses, and consumes the whole frame.\<close>

theorem npdu_Parse_Append:
  assumes "wf_NPDU n" "npdu_Append [] n = Inr bs" "int (length bs) \<le> MaxDatagramSize (Normalize L)"
  shows "npdu_Parse bs L = Inr (normNPDU n, length bs)"
  using npdu_roundtrip [OF assms(1), of L] assms(2,3) by fastforce

theorem npdu_Parse_Append_witness:
  "npdu_Append [] (zeroNPDU\<lparr>Destination := RemoteBroadcast 5, np_APDU := [0x10, 0x08]\<rparr>)
     = Inr [1, 0x20, 0, 5, 0, 255, 0x10, 0x08] \<and>
   npdu_Parse [1, 0x20, 0, 5, 0, 255, 0x10, 0x08] DefaultDecodeLimits
     = Inr (normNPDU (zeroNPDU\<lparr>Destination := RemoteBroadcast 5, np_APDU := [0x10, 0x08]\<rparr>), 8)"
proof -
  let ?n = "zeroNPDU\<lparr>Destination := RemoteBroadcast 5, np_APDU := [0x10, 0x08]\<rparr>"
  have a: "npdu_Append [] ?n = Inr [1, 0x20, 0, 5, 0, 255, 0x10, 0x08]" by code_simp
  have "wf_Address (RemoteBroadcast 5)" unfolding wf_Address_def using wf_MAC_zero by blast
  moreover have "hasDestination (RemoteBroadcast 5) = Inr True" by code_simp
  ultimately have "wf_NPDU ?n" by (simp add: wf_NPDU_def zeroNPDU_def)
  from npdu_Parse_Append [OF this a, of DefaultDecodeLimits] a show ?thesis
    by (simp add: DefaultDecodeLimits_def Normalize_def withDefaults_def Let_def)
qed

text \<open>Every frame \<^verbatim>\<open>Parse\<close> accepts carries well-formed addresses, and encoding the parsed NPDU gives
  the frame back octet for octet, unless it arrived with a spent hop count.\<close>

theorem npdu_Append_Parse:
  assumes "npdu_Parse data L = Inr (n, k)" "HopCount n \<noteq> 0 \<or> hasDestination (Destination n) = Inr False"
  shows "wf_NPDU n \<and> k = length data \<and> npdu_Append dst n = Inr (dst @ data)"
  using npdu_Parse_inv [OF assms(1), of dst] assms(2) by blast

text \<open>Two NPDUs with the same octets on the wire are the same message for every decoder.\<close>

theorem npdu_Append_inj:
  assumes "wf_NPDU n" "wf_NPDU m" "fitsDatagram L (npdu_Append [] n)" "npdu_Append [] n = npdu_Append [] m"
  shows "normNPDU n = normNPDU m"
  using npdu_wire.enc_inj [of n L m] assms by simp

end
