(* ===== verification/Bvlc.thy ===== *)
theory Bvlc
  imports Bacnet_Types
begin

text \<open>
  BACnet/IP endpoints (\<^verbatim>\<open>bip/endpoint.go\<close>) and BACnet Virtual Link Control (\<^verbatim>\<open>bvlc/codec.go\<close>,
  \<^verbatim>\<open>bvlc/tables.go\<close>): the framing of a datagram, and the octets of the Broadcast Distribution and
  Foreign Device Tables. Main results: framing is inverse in both directions, the declared length
  is the datagram's, tables survive the wire, and the mask check accepts exactly the subnet masks.
\<close>

section \<open>Endpoints\<close>

text \<open>
  \<^verbatim>\<open>netip.AddrPort\<close> as far as the sources use it: an address that is absent, IPv4 or IPv6, and a port.
  \<open>As4\<close> panics on an address that has no four-octet form: \<open>None\<close>. IPv6 zones do not occur.
\<close>

type_synonym ip4 = "u8 \<times> u8 \<times> u8 \<times> u8"

datatype AddrPort = NoAddr u16 | V4 ip4 u16 | V6 bytes u16

record Endpoint =
  Addr :: AddrPort

definition zeroEndpoint :: Endpoint where
  "zeroEndpoint = \<lparr>Addr = NoAddr 0\<rparr>"

definition NewEndpoint :: "AddrPort \<Rightarrow> Endpoint" where
  "NewEndpoint ap = \<lparr>Addr = ap\<rparr>"

fun addr_IsValid :: "AddrPort \<Rightarrow> bool" where
  "addr_IsValid (NoAddr _) = False"
| "addr_IsValid _ = True"

fun addr_Is4 :: "AddrPort \<Rightarrow> bool" where
  "addr_Is4 (V4 _ _) = True"
| "addr_Is4 _ = False"

fun addr_As4 :: "AddrPort \<Rightarrow> ip4 option" where
  "addr_As4 (V4 ip _) = Some ip"
| "addr_As4 _ = None"

fun addr_Port :: "AddrPort \<Rightarrow> u16" where
  "addr_Port (NoAddr p) = p"
| "addr_Port (V4 _ p) = p"
| "addr_Port (V6 _ p) = p"

definition ep_IsValid :: "Endpoint \<Rightarrow> bool" where
  "ep_IsValid e \<longleftrightarrow> addr_IsValid (Addr e) \<and> addr_Is4 (Addr e)"

definition ep_Equal :: "Endpoint \<Rightarrow> Endpoint \<Rightarrow> bool" where
  "ep_Equal e f \<longleftrightarrow> Addr e = Addr f"

fun ip4_bytes :: "ip4 \<Rightarrow> bytes" where
  "ip4_bytes (a, b, c, d) = [a, b, c, d]"

definition bytes_ip4 :: "bytes \<Rightarrow> ip4" where
  "bytes_ip4 b = (b ! 0, b ! 1, b ! 2, b ! 3)"

section \<open>Framing\<close>

abbreviation (input) "TypeBACnetIP \<equiv> (0x81 :: u8)"
abbreviation (input) "FunctionResult \<equiv> (0x00 :: u8)"
abbreviation (input) "FunctionWriteBroadcastDistributionTable \<equiv> (0x01 :: u8)"
abbreviation (input) "FunctionReadBroadcastDistributionTable \<equiv> (0x02 :: u8)"
abbreviation (input) "FunctionReadBroadcastDistributionTableAck \<equiv> (0x03 :: u8)"
abbreviation (input) "FunctionForwardedNPDU \<equiv> (0x04 :: u8)"
abbreviation (input) "FunctionRegisterForeignDevice \<equiv> (0x05 :: u8)"
abbreviation (input) "FunctionReadForeignDeviceTable \<equiv> (0x06 :: u8)"
abbreviation (input) "FunctionReadForeignDeviceTableAck \<equiv> (0x07 :: u8)"
abbreviation (input) "FunctionDeleteForeignDeviceTableEntry \<equiv> (0x08 :: u8)"
abbreviation (input) "FunctionDistributeBroadcastToNetwork \<equiv> (0x09 :: u8)"
abbreviation (input) "FunctionOriginalUnicastNPDU \<equiv> (0x0A :: u8)"
abbreviation (input) "FunctionOriginalBroadcastNPDU \<equiv> (0x0B :: u8)"

record Message =
  Function :: u8
  Payload :: bytes
  OriginIP :: ip4
  OriginPort :: u16
  ResultCode :: u16
  TTL :: u16

definition zeroMessage :: Message where
  "zeroMessage = \<lparr>Function = 0, Payload = [], OriginIP = (0, 0, 0, 0), OriginPort = 0, ResultCode = 0, TTL = 0\<rparr>"

text \<open>The functions the last two cases of the switch list all keep their body as the payload.\<close>

definition bvlc_Parse :: "bytes \<Rightarrow> DecodeLimits \<Rightarrow> Message result" where
  "bvlc_Parse data limits =
     (if length data < 4 then Inl ErrMalformed
      else if int (length data) > MaxDatagramSize (Normalize limits) then Inl ErrLimitExceeded
      else if data ! 0 \<noteq> TypeBACnetIP then Inl ErrMalformed
      else let fn = data ! 1; declared = unat (Uint16 (subslice data 2 4)) in
        if declared \<noteq> length data then Inl ErrMalformed
        else let body = drop 4 data in
          if fn = FunctionResult then
            (if length body \<noteq> 2 then Inl ErrMalformed
             else Inr (zeroMessage\<lparr>Function := fn, ResultCode := Uint16 body\<rparr>))
          else if fn = FunctionForwardedNPDU then
            (if length body < 6 then Inl ErrMalformed
             else Inr (zeroMessage\<lparr>Function := fn, OriginIP := bytes_ip4 body,
               OriginPort := Uint16 (subslice body 4 6), Payload := drop 6 body\<rparr>))
          else if fn = FunctionRegisterForeignDevice then
            (if length body \<noteq> 2 then Inl ErrMalformed
             else Inr (zeroMessage\<lparr>Function := fn, TTL := Uint16 body\<rparr>))
          else Inr (zeroMessage\<lparr>Function := fn, Payload := body\<rparr>))"

definition bvlc_Append :: "bytes \<Rightarrow> Message \<Rightarrow> bytes result" where
  "bvlc_Append dst msg =
     (let start = length dst;
          dst = dst @ [TypeBACnetIP, Function msg, 0, 0];
          dst = (if Function msg = FunctionResult then dst @ put16 (ResultCode msg)
                 else if Function msg = FunctionRegisterForeignDevice then dst @ put16 (TTL msg)
                 else if Function msg = FunctionForwardedNPDU then
                   ((dst @ ip4_bytes (OriginIP msg)) @ put16 (OriginPort msg)) @ Payload msg
                 else dst @ Payload msg);
          total = length dst - start in
      if total > 0xFFFF then Inl ErrMalformed
      else Inr (take (start + 2) dst @ put16 (of_nat total) @ drop (start + 4) dst))"

definition OriginAddrPort :: "Message \<Rightarrow> AddrPort option" where
  "OriginAddrPort m =
     (if Function m \<noteq> FunctionForwardedNPDU then None else Some (V4 (OriginIP m) (OriginPort m)))"

section \<open>Broadcast distribution and foreign device tables\<close>

type_synonym IPv4Mask = ip4

text \<open>The bits of an octet from the most significant one, as the inner loop reads them.\<close>

definition octetBits :: "u8 \<Rightarrow> bool list" where
  "octetBits b = map (\<lambda>i. (drop_bit i b) AND 1 = 1) [7, 6, 5, 4, 3, 2, 1, 0]"

definition maskBitList :: "IPv4Mask \<Rightarrow> bool list" where
  "maskBitList m = concat (map octetBits (ip4_bytes m))"

fun contiguous_loop :: "bool \<Rightarrow> bool list \<Rightarrow> bool" where
  "contiguous_loop seenZero [] = True"
| "contiguous_loop seenZero (b # bits) =
     (if \<not> b then contiguous_loop True bits
      else if seenZero then False
      else contiguous_loop seenZero bits)"

definition Contiguous :: "IPv4Mask \<Rightarrow> bool" where
  "Contiguous m = contiguous_loop False (maskBitList m)"

record BDTEntry =
  be_Endpoint :: Endpoint
  be_Mask :: IPv4Mask

record FDTEntry =
  fe_Address :: Endpoint
  fe_TTL :: u16
  fe_Remaining :: u16

definition NewBDTEntry :: "Endpoint \<Rightarrow> IPv4Mask \<Rightarrow> BDTEntry result" where
  "NewBDTEntry ep msk =
     (if \<not> ep_IsValid ep then Inl ErrMalformed
      else if \<not> Contiguous msk then Inl ErrMalformed
      else Inr \<lparr>be_Endpoint = ep, be_Mask = msk\<rparr>)"

text \<open>The six octets of a valid endpoint; \<open>the\<close> is reached only behind an \<open>ep_IsValid\<close> check.\<close>

definition endpointOctets :: "Endpoint \<Rightarrow> bytes" where
  "endpointOctets e = ip4_bytes (the (addr_As4 (Addr e))) @ put16 (addr_Port (Addr e))"

fun EncodeBDTEntries :: "bytes \<Rightarrow> BDTEntry list \<Rightarrow> bytes result" where
  "EncodeBDTEntries dst [] = Inr dst"
| "EncodeBDTEntries dst (e # entries) =
     (if \<not> ep_IsValid (be_Endpoint e) then Inl ErrMalformed
      else if \<not> Contiguous (be_Mask e) then Inl ErrMalformed
      else EncodeBDTEntries ((dst @ endpointOctets (be_Endpoint e)) @ ip4_bytes (be_Mask e)) entries)"

definition octetsEndpoint :: "bytes \<Rightarrow> Endpoint" where
  "octetsEndpoint b = NewEndpoint (V4 (bytes_ip4 b) (Uint16 (subslice b 4 6)))"

text \<open>The loop bodies of the decoders, on one entry of ten octets.\<close>

definition decodeBDTEntry :: "bytes \<Rightarrow> BDTEntry result" where
  "decodeBDTEntry b =
     (let ep = octetsEndpoint b; msk = bytes_ip4 (subslice b 6 10) in
      if \<not> ep_IsValid ep then Inl ErrMalformed else Inr \<lparr>be_Endpoint = ep, be_Mask = msk\<rparr>)"

definition decodeFDTEntry :: "bytes \<Rightarrow> FDTEntry result" where
  "decodeFDTEntry b =
     (let ep = octetsEndpoint b; ttl = Uint16 (subslice b 6 8); rem = Uint16 (subslice b 8 10) in
      if \<not> ep_IsValid ep then Inl ErrMalformed
      else Inr \<lparr>fe_Address = ep, fe_TTL = ttl, fe_Remaining = rem\<rparr>)"

fun decodeEntries :: "(bytes \<Rightarrow> 'a result) \<Rightarrow> bytes \<Rightarrow> nat \<Rightarrow> 'a list result" where
  "decodeEntries f payload 0 = Inr []"
| "decodeEntries f payload (Suc n) =
     rbind (f (take 10 payload)) (\<lambda>e. rbind (decodeEntries f (drop 10 payload) n) (\<lambda>es. Inr (e # es)))"

definition DecodeBDTEntries :: "bytes \<Rightarrow> DecodeLimits \<Rightarrow> BDTEntry list result" where
  "DecodeBDTEntries payload limits =
     (if length payload mod 10 \<noteq> 0 then Inl ErrMalformed
      else let n = length payload div 10 in
        if int n > MaxElements (Normalize limits) then Inl ErrLimitExceeded
        else decodeEntries decodeBDTEntry payload n)"

fun EncodeFDTEntries :: "bytes \<Rightarrow> FDTEntry list \<Rightarrow> bytes result" where
  "EncodeFDTEntries dst [] = Inr dst"
| "EncodeFDTEntries dst (e # entries) =
     (if \<not> ep_IsValid (fe_Address e) then Inl ErrMalformed
      else EncodeFDTEntries
        (((dst @ endpointOctets (fe_Address e)) @ put16 (fe_TTL e)) @ put16 (fe_Remaining e)) entries)"

definition DecodeFDTEntries :: "bytes \<Rightarrow> DecodeLimits \<Rightarrow> FDTEntry list result" where
  "DecodeFDTEntries payload limits =
     (if length payload mod 10 \<noteq> 0 then Inl ErrMalformed
      else let n = length payload div 10 in
        if int n > MaxElements (Normalize limits) then Inl ErrLimitExceeded
        else decodeEntries decodeFDTEntry payload n)"

definition EncodeDeleteFDTEntry :: "bytes \<Rightarrow> Endpoint \<Rightarrow> bytes result" where
  "EncodeDeleteFDTEntry dst ep = (if \<not> ep_IsValid ep then Inl ErrMalformed else Inr (dst @ endpointOctets ep))"

definition DecodeDeleteFDTEntry :: "bytes \<Rightarrow> Endpoint result" where
  "DecodeDeleteFDTEntry payload =
     (if length payload \<noteq> 6 then Inl ErrMalformed
      else let ep = octetsEndpoint payload in if \<not> ep_IsValid ep then Inl ErrMalformed else Inr ep)"

section \<open>What the wire form keeps\<close>

definition normMessage :: "Message \<Rightarrow> Message" where
  "normMessage m =
     (if Function m = FunctionResult then zeroMessage\<lparr>Function := Function m, ResultCode := ResultCode m\<rparr>
      else if Function m = FunctionRegisterForeignDevice then zeroMessage\<lparr>Function := Function m, TTL := TTL m\<rparr>
      else if Function m = FunctionForwardedNPDU then
        zeroMessage\<lparr>Function := Function m, OriginIP := OriginIP m, OriginPort := OriginPort m, Payload := Payload m\<rparr>
      else zeroMessage\<lparr>Function := Function m, Payload := Payload m\<rparr>)"

definition bvlcBody :: "Message \<Rightarrow> bytes" where
  "bvlcBody msg =
     (if Function msg = FunctionResult then put16 (ResultCode msg)
      else if Function msg = FunctionRegisterForeignDevice then put16 (TTL msg)
      else if Function msg = FunctionForwardedNPDU then
        ip4_bytes (OriginIP msg) @ put16 (OriginPort msg) @ Payload msg
      else Payload msg)"

definition bdtOctets :: "BDTEntry \<Rightarrow> bytes" where
  "bdtOctets e = endpointOctets (be_Endpoint e) @ ip4_bytes (be_Mask e)"

definition fdtOctets :: "FDTEntry \<Rightarrow> bytes" where
  "fdtOctets e = endpointOctets (fe_Address e) @ put16 (fe_TTL e) @ put16 (fe_Remaining e)"

section \<open>Datagrams\<close>

lemma bvlc_Append_eq:
  "bvlc_Append dst m = (if 4 + length (bvlcBody m) > 0xFFFF then Inl ErrMalformed
     else Inr (dst @ [TypeBACnetIP, Function m] @ put16 (of_nat (4 + length (bvlcBody m))) @ bvlcBody m))"
  by (cases "OriginIP m") (simp add: bvlc_Append_def bvlcBody_def Let_def)

lemma bytes_ip4_bytes [simp]: "bytes_ip4 (ip4_bytes ip @ r) = ip" "length (ip4_bytes ip) = 4"
    "bytes_ip4 (ip4_bytes ip) = ip"
  by (cases ip; simp add: bytes_ip4_def)+

lemma unat_u16_of_nat: "n \<le> 0xFFFF \<Longrightarrow> unat (of_nat n :: u16) = n"
  by (simp add: unat_of_nat)

lemma bvlc_Parse_frame:
  assumes "4 + length body \<le> 0xFFFF" "int (4 + length body) \<le> MaxDatagramSize (Normalize L)"
  shows "bvlc_Parse ([TypeBACnetIP, fn] @ put16 (of_nat (4 + length body)) @ body) L =
    (if fn = FunctionResult then
            (if length body \<noteq> 2 then Inl ErrMalformed
             else Inr (zeroMessage\<lparr>Function := fn, ResultCode := Uint16 body\<rparr>))
          else if fn = FunctionForwardedNPDU then
            (if length body < 6 then Inl ErrMalformed
             else Inr (zeroMessage\<lparr>Function := fn, OriginIP := bytes_ip4 body,
               OriginPort := Uint16 (subslice body 4 6), Payload := drop 6 body\<rparr>))
          else if fn = FunctionRegisterForeignDevice then
            (if length body \<noteq> 2 then Inl ErrMalformed
             else Inr (zeroMessage\<lparr>Function := fn, TTL := Uint16 body\<rparr>))
          else Inr (zeroMessage\<lparr>Function := fn, Payload := body\<rparr>))"
proof -
  let ?d = "[TypeBACnetIP, fn] @ put16 (of_nat (4 + length body)) @ body"
  have "subslice ?d 2 4 = put16 (of_nat (4 + length body))"
    by (rule subslice_append_mid) simp_all
  then have h: "Uint16 (subslice ?d 2 4) = of_nat (4 + length body)" by simp
  have "length ?d = 4 + length body" "?d ! 0 = 0x81" "?d ! 1 = fn" "drop 4 ?d = body" by simp_all
  then show ?thesis
    using assms unat_u16_of_nat [OF assms(1)]
    unfolding bvlc_Parse_def Let_def h by simp
qed

lemma bvlc_roundtrip:
  assumes "bvlc_Append [] m = Inr bs" "int (length bs) \<le> MaxDatagramSize (Normalize L)"
  shows "bvlc_Parse bs L = Inr (normMessage m)"
proof -
  have len: "4 + length (bvlcBody m) \<le> 0xFFFF"
    and bs: "bs = [TypeBACnetIP, Function m] @ put16 (of_nat (4 + length (bvlcBody m))) @ bvlcBody m"
    using assms(1) unfolding bvlc_Append_eq by (auto split: if_splits)
  have "int (4 + length (bvlcBody m)) \<le> MaxDatagramSize (Normalize L)" using assms(2) by (simp add: bs)
  from bvlc_Parse_frame [OF len this, of "Function m"] show ?thesis
    unfolding bs by (cases "OriginIP m") (simp add: bvlcBody_def normMessage_def bytes_ip4_def subslice_def)
qed

lemma bvlc_Parse_inv:
  assumes "bvlc_Parse data L = Inr m"
  shows "bvlc_Append [] m = Inr data \<and> normMessage m = m"
proof -
  obtain fn c d body where data: "data = 0x81 # fn # c # d # body"
    using assms by (auto simp: bvlc_Parse_def Let_def not_less numeral_eq_Suc Suc_le_length_iff split: if_splits)
  have len: "unat (Uint16 [c, d]) = 4 + length body"
    using assms by (auto simp: bvlc_Parse_def Let_def data subslice_def split: if_splits)
  then have u: "of_nat (4 + length body) = Uint16 [c, d]" by (metis of_nat_unat ucast_id)
  have p: "put16 (of_nat (4 + length body)) = [c, d]" unfolding u by simp
  have b: "4 + length body \<le> 0xFFFF" using unsigned_less [of "Uint16 [c, d]", where ?'a = nat] len by simp
  have l: "int (4 + length body) \<le> MaxDatagramSize (Normalize L)"
    using assms by (auto simp: bvlc_Parse_def Let_def data split: if_splits)
  have m: "bvlc_Parse ([0x81, fn] @ put16 (of_nat (4 + length body)) @ body) L = Inr m" unfolding p using assms by (simp add: data)
  have two: "length body = 2 \<Longrightarrow> put16 (Uint16 body) = body"
    by (auto simp: numeral_eq_Suc length_Suc_conv)
  have six: "6 \<le> length body \<Longrightarrow> ip4_bytes (bytes_ip4 body) @ put16 (Uint16 (subslice body 4 6)) @ drop 6 body = body"
    by (auto simp: numeral_eq_Suc Suc_le_length_iff bytes_ip4_def subslice_def)
  have body: "bvlcBody m = body" "Function m = fn" "normMessage m = m"
    using m two six unfolding bvlc_Parse_frame [OF b l]
    by (auto simp: bvlcBody_def normMessage_def zeroMessage_def not_less split: if_splits)
  show ?thesis unfolding bvlc_Append_eq body p using b by (simp add: data body)
qed

section \<open>Tables\<close>

lemma decodeEntries_concat:
  assumes "\<And>e. e \<in> set es \<Longrightarrow> length (oct e) = 10 \<and> f (oct e) = Inr e"
  shows "decodeEntries f (concat (map oct es) @ r) (length es) = Inr es"
  using assms by (induction es) simp_all

lemma ep_IsValid_elim:
  assumes "ep_IsValid e"
  obtains ip p where "e = \<lparr>Addr = V4 ip p\<rparr>"
  using assms by (cases e; cases "Addr e") (auto simp: ep_IsValid_def)

lemma endpointOctets_length [simp]: "length (endpointOctets e) = 6"
  by (simp add: endpointOctets_def)

lemma octetsEndpoint_octets [simp]: "ep_IsValid e \<Longrightarrow> octetsEndpoint (endpointOctets e @ r) = e"
proof (erule ep_IsValid_elim)
  fix ip p
  assume e: "e = \<lparr>Addr = V4 ip p\<rparr>"
  show "octetsEndpoint (endpointOctets e @ r) = e"
    by (cases ip) (simp add: e endpointOctets_def octetsEndpoint_def NewEndpoint_def bytes_ip4_def subslice_def)
qed

lemma decodeBDTEntry_octets: "ep_IsValid (be_Endpoint e) \<Longrightarrow> length (bdtOctets e) = 10 \<and> decodeBDTEntry (bdtOctets e) = Inr e"
  by (cases e) (simp add: decodeBDTEntry_def bdtOctets_def subslice_def)

lemma decodeFDTEntry_octets: "ep_IsValid (fe_Address e) \<Longrightarrow> length (fdtOctets e) = 10 \<and> decodeFDTEntry (fdtOctets e) = Inr e"
  by (cases e) (simp add: decodeFDTEntry_def fdtOctets_def subslice_def)

lemma length_concat_10: "(\<And>e. e \<in> set es \<Longrightarrow> length (oct e) = 10) \<Longrightarrow> length (concat (map oct es)) = 10 * length es"
  by (induction es) simp_all

lemma EncodeBDTEntries_eq:
  "EncodeBDTEntries dst es = (if \<forall>e\<in>set es. ep_IsValid (be_Endpoint e) \<and> Contiguous (be_Mask e)
     then Inr (dst @ concat (map bdtOctets es)) else Inl ErrMalformed)"
  by (induction es arbitrary: dst) (auto simp: bdtOctets_def)

lemma EncodeFDTEntries_eq:
  "EncodeFDTEntries dst es = (if \<forall>e\<in>set es. ep_IsValid (fe_Address e)
     then Inr (dst @ concat (map fdtOctets es)) else Inl ErrMalformed)"
  by (induction es arbitrary: dst) (auto simp: fdtOctets_def)

lemma BDT_roundtrip:
  assumes "EncodeBDTEntries [] es = Inr bs" "int (length es) \<le> MaxElements (Normalize L)"
  shows "DecodeBDTEntries bs L = Inr es"
proof -
  have e: "\<And>e. e \<in> set es \<Longrightarrow> length (bdtOctets e) = 10 \<and> decodeBDTEntry (bdtOctets e) = Inr e"
    and bs: "bs = concat (map bdtOctets es)"
    using assms(1) decodeBDTEntry_octets by (auto simp: EncodeBDTEntries_eq split: if_splits)
  then have "length bs = 10 * length es" using length_concat_10 [of es bdtOctets] by simp
  then show ?thesis using decodeEntries_concat [OF e, where r = "[]"] assms(2) bs by (simp add: DecodeBDTEntries_def)
qed

lemma FDT_roundtrip:
  assumes "EncodeFDTEntries [] es = Inr bs" "int (length es) \<le> MaxElements (Normalize L)"
  shows "DecodeFDTEntries bs L = Inr es"
proof -
  have e: "\<And>e. e \<in> set es \<Longrightarrow> length (fdtOctets e) = 10 \<and> decodeFDTEntry (fdtOctets e) = Inr e"
    and bs: "bs = concat (map fdtOctets es)"
    using assms(1) decodeFDTEntry_octets by (auto simp: EncodeFDTEntries_eq split: if_splits)
  then have "length bs = 10 * length es" using length_concat_10 [of es fdtOctets] by simp
  then show ?thesis using decodeEntries_concat [OF e, where r = "[]"] assms(2) bs by (simp add: DecodeFDTEntries_def)
qed

lemma contiguous_loop_seen: "contiguous_loop True bits \<longleftrightarrow> bits = replicate (length bits) False"
  by (induction bits) auto

lemma contiguous_loop_iff:
  "contiguous_loop False bits \<longleftrightarrow> (\<exists>k\<le>length bits. bits = replicate k True @ replicate (length bits - k) False)"
proof (induction bits)
  case (Cons b bits)
  show ?case
  proof (cases b)
    case True
    have "(\<exists>k\<le>length (b # bits). b # bits = replicate k True @ replicate (length (b # bits) - k) False) \<longleftrightarrow>
      (\<exists>k\<le>length bits. bits = replicate k True @ replicate (length bits - k) False)" (is "?l = ?r")
    proof
      assume ?l
      then obtain k where k: "k \<le> length (b # bits)" "b # bits = replicate k True @ replicate (length (b # bits) - k) False" by blast
      then obtain j where "k = Suc j" using True by (cases k) auto
      with k show ?r by auto
    next
      assume ?r
      then obtain k where "k \<le> length bits" "bits = replicate k True @ replicate (length bits - k) False" by blast
      then show ?l using True by (intro exI [of _ "Suc k"]) auto
    qed
    then show ?thesis using Cons True by simp
  next
    case False
    have "(\<exists>k\<le>length (b # bits). b # bits = replicate k True @ replicate (length (b # bits) - k) False) \<longleftrightarrow>
      bits = replicate (length bits) False" (is "?l = ?r")
    proof
      assume ?l
      then obtain k where "b # bits = replicate k True @ replicate (length (b # bits) - k) False" by blast
      then show ?r using False by (cases k) auto
    next
      assume ?r
      then show ?l using False by (intro exI [of _ 0]) auto
    qed
    then show ?thesis using False contiguous_loop_seen by simp
  qed
qed simp

lemma length_maskBitList: "length (maskBitList m) = 32"
  by (cases m) (simp add: maskBitList_def octetBits_def)
section \<open>The codec as an instance of the wire interface\<close>

interpretation bvlc_wire: wire_codec "bvlc_Append []" "\<lambda>bs. bvlc_Parse bs L"
  "\<lambda>m. 4 + length (bvlcBody m) \<le> 0xFFFF \<and> int (4 + length (bvlcBody m)) \<le> MaxDatagramSize (Normalize L)"
  normMessage for L
proof
  fix m bs
  assume m: "4 + length (bvlcBody m) \<le> 0xFFFF \<and> int (4 + length (bvlcBody m)) \<le> MaxDatagramSize (Normalize L)"
  then show "is_ok (bvlc_Append [] m)" by (simp add: bvlc_Append_eq)
  assume bs: "bvlc_Append [] m = Inr bs"
  then have "length bs = 4 + length (bvlcBody m)" by (auto simp: bvlc_Append_eq split: if_splits)
  with m show "bvlc_Parse bs L = Inr (normMessage m)" by (intro bvlc_roundtrip [OF bs]) simp
qed

section \<open>Properties\<close>

text \<open>C31. A BVLC message whose body fits a 16-bit length and the datagram limit is framed, and
  \<^verbatim>\<open>Parse\<close> gives back the fields its function carries.\<close>

theorem bvlc_Parse_Append:
  assumes "4 + length (bvlcBody m) \<le> 0xFFFF" "int (4 + length (bvlcBody m)) \<le> MaxDatagramSize (Normalize L)"
  shows "rbind (bvlc_Append [] m) (\<lambda>bs. bvlc_Parse bs L) = Inr (normMessage m)"
  using assms by (intro bvlc_wire.roundtrip) simp

theorem bvlc_Parse_Append_witness:
  "rbind (bvlc_Append [] (zeroMessage\<lparr>Function := 4, OriginIP := (10, 0, 0, 1), OriginPort := 47808, Payload := [1, 0]\<rparr>))
     (\<lambda>bs. bvlc_Parse bs DefaultDecodeLimits) =
   Inr (zeroMessage\<lparr>Function := 4, OriginIP := (10, 0, 0, 1), OriginPort := 47808, Payload := [1, 0]\<rparr>)"
  using bvlc_Parse_Append [of "zeroMessage\<lparr>Function := 4, OriginIP := (10, 0, 0, 1), OriginPort := 47808, Payload := [1, 0]\<rparr>"
      DefaultDecodeLimits]
  by (simp add: zeroMessage_def bvlcBody_def normMessage_def DefaultDecodeLimits_def Normalize_def withDefaults_def)

text \<open>An accepted datagram is exactly the framing of the message it was read as: the declared
  length is the datagram's and no octet is ignored.\<close>

theorem bvlc_Append_Parse:
  assumes "bvlc_Parse data L = Inr m"
  shows "bvlc_Append [] m = Inr data \<and> normMessage m = m"
  by (rule bvlc_Parse_inv [OF assms])

text \<open>Broadcast distribution tables and foreign device tables survive the wire entry by entry,
  up to the decoder's element limit.\<close>

theorem table_roundtrip:
  assumes "int (length bdt) \<le> MaxElements (Normalize L)" "int (length fdt) \<le> MaxElements (Normalize L)"
    "EncodeBDTEntries [] bdt = Inr bs" "EncodeFDTEntries [] fdt = Inr fs"
  shows "DecodeBDTEntries bs L = Inr bdt \<and> DecodeFDTEntries fs L = Inr fdt"
  using BDT_roundtrip [OF assms(3,1)] FDT_roundtrip [OF assms(4,2)] by blast

text \<open>The mask check accepts exactly the left-justified subnet masks: ones, then zeros.\<close>

theorem Contiguous_iff:
  "Contiguous m \<longleftrightarrow> (\<exists>k. k \<le> 32 \<and> maskBitList m = replicate k True @ replicate (32 - k) False)"
  using contiguous_loop_iff [of "maskBitList m"] by (simp add: Contiguous_def length_maskBitList)

end
