(* ===== verification/Link.thy ===== *)
theory Link
  imports Npdu Bvlc
begin

text \<open>
  The BACnet/IP to network layer steps client and server share (\<^verbatim>\<open>internal/link/link.go\<close>): the origin
  of a Forwarded-NPDU, the six-octet MAC of an endpoint and back, and the framing of an outbound APDU.
  Main results: endpoints and MACs are inverse, and an APDU framed for a destination is what the
  receiver's two decoders hand up, with the addressing it was sent with.
\<close>

section \<open>Definitions\<close>

definition MACLen :: nat where
  "MACLen = 6"

definition Origin :: "Message \<Rightarrow> Endpoint \<Rightarrow> Endpoint" where
  "Origin msg immediate = (case OriginAddrPort msg of Some ap \<Rightarrow> NewEndpoint ap | None \<Rightarrow> immediate)"

text \<open>The outer option is the panic of \<open>MustMAC\<close>, the inner one the second result.\<close>

definition link_MAC :: "Endpoint \<Rightarrow> MAC option option" where
  "link_MAC ep =
     (if \<not> ep_IsValid ep then Some None
      else map_option Some (MustMAC (endpointOctets ep)))"

definition link_Endpoint :: "bytes \<Rightarrow> Endpoint option" where
  "link_Endpoint mac =
     (if length mac \<noteq> MACLen then None
      else Some (NewEndpoint (V4 (mac ! 0, mac ! 1, mac ! 2, mac ! 3) (Uint16 (drop 4 mac)))))"

definition link_APDU :: "Address \<Rightarrow> bool \<Rightarrow> u8 \<Rightarrow> bytes \<Rightarrow> NPDU" where
  "link_APDU dest expectingReply hopCount apdu =
     (let n = zeroNPDU\<lparr>Version := Version1, ExpectingReply := expectingReply, HopCount := hopCount,
            np_APDU := apdu\<rparr> in
      if scope dest \<in> {AddressRemoteStation, AddressRemoteBroadcast, AddressGlobalBroadcast}
      then n\<lparr>Destination := dest\<rparr> else n)"

definition Frame :: "u8 \<Rightarrow> NPDU \<Rightarrow> (bytes \<times> bytes) result" where
  "Frame fn n =
     rbind (npdu_Append [] n) (\<lambda>raw.
     rbind (bvlc_Append [] (zeroMessage\<lparr>Function := fn, Payload := raw\<rparr>)) (\<lambda>frame. Inr (raw, frame)))"

section \<open>Lemmas\<close>

lemma endpoint_mac:
  assumes "ep_IsValid ep"
  shows "\<exists>m. link_MAC ep = Some (Some m) \<and> link_Endpoint (MAC_Bytes m) = Some ep"
proof -
  obtain ip p where ep: "ep = \<lparr>Addr = V4 ip p\<rparr>" using assms by (rule ep_IsValid_elim)
  obtain m where m: "NewMAC (endpointOctets ep) = Inr m" "MAC_Bytes m = endpointOctets ep"
    using MAC_Bytes_NewMAC [of "endpointOctets ep"] by (auto simp: MaxMACLength_def)
  then show ?thesis using assms
    by (cases ip) (simp add: link_MAC_def MustMAC_def link_Endpoint_def MACLen_def ep endpointOctets_def NewEndpoint_def
        numeral_eq_Suc)
qed

lemma mac_endpoint:
  assumes "length b = 6"
  shows "\<exists>ep m. link_Endpoint b = Some ep \<and> ep_IsValid ep \<and> link_MAC ep = Some (Some m) \<and> MAC_Bytes m = b"
proof -
  let ?ep = "NewEndpoint (V4 (b ! 0, b ! 1, b ! 2, b ! 3) (Uint16 (drop 4 b)))"
  have "endpointOctets ?ep = b"
    using assms by (auto simp: endpointOctets_def NewEndpoint_def numeral_eq_Suc length_Suc_conv)
  moreover obtain m where "NewMAC b = Inr m" "MAC_Bytes m = b"
    using MAC_Bytes_NewMAC [of b] assms by (auto simp: MaxMACLength_def)
  ultimately show ?thesis using assms
    by (intro exI [of _ ?ep] exI [of _ m])
      (simp add: link_Endpoint_def MACLen_def link_MAC_def ep_IsValid_def MustMAC_def NewEndpoint_def)
qed

lemma hasDestination_remote:
  assumes "is_ok (hasDestination dest)"
  shows "hasDestination dest = Inr (scope dest \<in> {AddressRemoteStation, AddressRemoteBroadcast, AddressGlobalBroadcast})"
  using assms by (auto simp: hasDestination_def validateRemoteNetwork_def split: AddressScope.splits if_splits)

lemma wf_link_APDU:
  assumes "wf_Address dest" "is_ok (hasDestination dest)"
  shows "wf_NPDU (link_APDU dest er hop apdu)"
  using assms by (simp add: wf_NPDU_def link_APDU_def zeroNPDU_def Let_def)

lemma npdu_Append_destination: "npdu_Append dst n = Inr bs \<Longrightarrow> is_ok (hasDestination (Destination n))"
  by (cases "Version n = 0"; cases "hasDestination (Destination n)") (simp_all add: npdu_Append_def Let_def)

section \<open>Properties\<close>

text \<open>Endpoint and B/IP MAC are inverse in both directions, and the conversion never panics.\<close>

theorem endpoint_mac_inverse:
  "(ep_IsValid ep \<longrightarrow> (\<exists>m. link_MAC ep = Some (Some m) \<and> link_Endpoint (MAC_Bytes m) = Some ep)) \<and>
   (length b = 6 \<longrightarrow> (\<exists>e m. link_Endpoint b = Some e \<and> ep_IsValid e \<and> link_MAC e = Some (Some m) \<and> MAC_Bytes m = b)) \<and>
   link_MAC ep \<noteq> None"
  using endpoint_mac [of ep] mac_endpoint [of b] by (auto simp: link_MAC_def)

text \<open>An APDU framed for a destination in a BVLC function that carries an NPDU arrives: the
  receiver's BVLC and NPDU decoders return that APDU, the reply flag and the remote destination.\<close>

theorem Frame_delivers:
  assumes "wf_Address dest" "Frame fn (link_APDU dest er hop apdu) = Inr (raw, frame)" "fn \<notin> {0, 4, 5}"
    "int (length frame) \<le> MaxDatagramSize (Normalize L)"
  shows "\<exists>n. bvlc_Parse frame L = Inr (zeroMessage\<lparr>Function := fn, Payload := raw\<rparr>)
    \<and> npdu_Parse raw L = Inr (n, length raw) \<and> np_APDU n = apdu \<and> ExpectingReply n = er \<and> \<not> NetworkMessage n
    \<and> Destination n = (if scope dest \<in> {AddressRemoteStation, AddressRemoteBroadcast, AddressGlobalBroadcast}
        then dest else zeroAddress)"
proof -
  let ?n = "link_APDU dest er hop apdu" and ?m = "zeroMessage\<lparr>Function := fn, Payload := raw\<rparr>"
  have raw: "npdu_Append [] ?n = Inr raw" and fr: "bvlc_Append [] ?m = Inr frame"
    using assms(2) by (auto simp: Frame_def rbind_eq_Inr)
  have d: "Destination ?n = (if scope dest \<in> {AddressRemoteStation, AddressRemoteBroadcast, AddressGlobalBroadcast} then dest else zeroAddress)"
    by (simp add: link_APDU_def zeroNPDU_def Let_def)
  have ok: "is_ok (hasDestination (Destination ?n))"
    by (rule npdu_Append_destination [OF raw])
  then have okd: "is_ok (hasDestination dest)"
    unfolding d by (cases "scope dest") (auto simp: hasDestination_def is_ok_iff split: if_splits)
  have wf: "wf_NPDU ?n" by (rule wf_link_APDU [OF assms(1) okd])
  have "length frame = 4 + length raw"
    using fr assms(3) by (auto simp: bvlc_Append_eq bvlcBody_def zeroMessage_def split: if_splits)
  then have "int (length raw) \<le> MaxDatagramSize (Normalize L)" using assms(4) by simp
  then have "npdu_Parse raw L = Inr (normNPDU ?n, length raw)"
    using npdu_roundtrip [OF wf, of L] raw by fastforce
  moreover have "bvlc_Parse frame L = Inr ?m"
    using bvlc_roundtrip [OF fr assms(4)] assms(3) by (simp add: normMessage_def zeroMessage_def)
  moreover have "np_APDU (normNPDU ?n) = apdu" "ExpectingReply (normNPDU ?n) = er" "\<not> NetworkMessage (normNPDU ?n)"
    by (simp_all add: normNPDU_def link_APDU_def zeroNPDU_def Let_def)
  moreover have "Destination (normNPDU ?n) = Destination ?n"
    unfolding d using hasDestination_remote [OF okd] by (simp add: normNPDU_def d Let_def)
  ultimately show ?thesis using d by auto
qed

end
