(* ===== verification/Bbmd.thy ===== *)
theory Bbmd
  imports Link Apdu "HOL-Library.Product_Lexorder" "HOL-Library.AList"
begin

text \<open>
  The BACnet/IP Broadcast Management Device (\<^verbatim>\<open>bbmd/bbmd.go\<close>, Annex J): the Broadcast Distribution
  and Foreign Device Tables, the BVLL messages it answers and the broadcasts it forwards.
  Time is an integer number of nanoseconds passed in where the code reads its clock. A sent packet
  is an element of the returned list; the code ignores every send error. A panic of \<open>As4\<close> is \<open>None\<close>.
  Main results: the foreign device table never exceeds its bound, no broadcast is sent back to its
  origin or to this device, unregistered devices are refused, a registration lives exactly for its
  time to live plus the grace period, and the quick test for confirmed requests agrees with the
  NPDU and APDU decoders.
\<close>

section \<open>State\<close>

abbreviation (input) "ResultSuccessfulCompletion \<equiv> (0x0000 :: u16)"
abbreviation (input) "ResultWriteBroadcastDistributionTableNAK \<equiv> (0x0010 :: u16)"
abbreviation (input) "ResultReadBroadcastDistributionTableNAK \<equiv> (0x0020 :: u16)"
abbreviation (input) "ResultRegisterForeignDeviceNAK \<equiv> (0x0030 :: u16)"
abbreviation (input) "ResultReadForeignDeviceTableNAK \<equiv> (0x0040 :: u16)"
abbreviation (input) "ResultDeleteForeignDeviceTableEntryNAK \<equiv> (0x0050 :: u16)"
abbreviation (input) "ResultDistributeBroadcastToNetworkNAK \<equiv> (0x0060 :: u16)"

definition second :: int where
  "second = 1000000000"

definition GracePeriod :: int where
  "GracePeriod = 30 * second"

record foreign =
  ttl :: u16
  expires :: int

text \<open>The map \<^verbatim>\<open>fdt\<close> is an association list with distinct keys; iteration order never shows.\<close>

record BBMD =
  self :: Endpoint
  maxDevices :: int
  reject :: bool
  bdt :: "BDTEntry list"
  fdt :: "(Endpoint \<times> foreign) list"

record Config =
  Self :: Endpoint
  cfg_BDT :: "BDTEntry list"
  MaxForeignDevices :: int
  RejectRegistrations :: bool

record OutboundPacket =
  Data :: bytes
  pkt_Destination :: Endpoint
  Broadcast :: bool

fun addr_IsUnspecified :: "AddrPort \<Rightarrow> bool" where
  "addr_IsUnspecified (NoAddr _) = False"
| "addr_IsUnspecified (V4 ip _) = (ip = (0, 0, 0, 0))"
| "addr_IsUnspecified (V6 b _) = list_all (\<lambda>x. x = 0) b"

definition bbmd_New :: "Config \<Rightarrow> BBMD result" where
  "bbmd_New cfg =
     (if \<not> ep_IsValid (Self cfg) \<or> \<not> addr_Is4 (Addr (Self cfg)) \<or> addr_IsUnspecified (Addr (Self cfg))
      then Inl ErrInvalidConfig
      else if \<exists>e\<in>set (cfg_BDT cfg). \<not> is_ok (NewBDTEntry (be_Endpoint e) (be_Mask e)) then Inl ErrInvalidConfig
      else if MaxForeignDevices cfg < 0 then Inl ErrInvalidConfig
      else Inr \<lparr>self = Self cfg,
        maxDevices = (if MaxForeignDevices cfg = 0 then 128 else MaxForeignDevices cfg),
        reject = RejectRegistrations cfg, bdt = cfg_BDT cfg, fdt = []\<rparr>)"

section \<open>Foreign device table\<close>

text \<open>\<^verbatim>\<open>AddrPort.Compare\<close>: address length, address, port.\<close>

definition octetsNat :: "bytes \<Rightarrow> nat" where
  "octetsNat b = foldl (\<lambda>n x. n * 256 + unat x) 0 b"

fun addr_key :: "AddrPort \<Rightarrow> nat \<times> nat \<times> nat" where
  "addr_key (NoAddr p) = (0, 0, unat p)"
| "addr_key (V4 ip p) = (32, octetsNat (ip4_bytes ip), unat p)"
| "addr_key (V6 b p) = (128, octetsNat b, unat p)"

definition live :: "int \<Rightarrow> foreign \<Rightarrow> bool" where
  "live now f \<longleftrightarrow> \<not> expires f - now \<le> 0"

definition remaining :: "int \<Rightarrow> foreign \<Rightarrow> u16" where
  "remaining now f =
     (let secs = (expires f - now + second - 1) div second in
      of_int (if secs > 0xFFFF then 0xFFFF else secs))"

definition fdtLocked :: "BBMD \<Rightarrow> int \<Rightarrow> FDTEntry list \<times> BBMD" where
  "fdtLocked b now =
     (let alive = filter (\<lambda>(ep, f). live now f) (fdt b);
          out = map (\<lambda>(ep, f). \<lparr>fe_Address = ep, fe_TTL = ttl f, fe_Remaining = remaining now f\<rparr>) alive in
      (sort_key (\<lambda>e. addr_key (Addr (fe_Address e))) out, b\<lparr>fdt := alive\<rparr>))"

definition registered :: "BBMD \<Rightarrow> int \<Rightarrow> Endpoint \<Rightarrow> bool" where
  "registered b now ep = (case map_of (fdt b) ep of None \<Rightarrow> False | Some f \<Rightarrow> now < expires f)"

definition register :: "BBMD \<Rightarrow> int \<Rightarrow> Endpoint \<Rightarrow> u16 \<Rightarrow> u16 \<times> BBMD" where
  "register b now ep t =
     (if reject b then (ResultRegisterForeignDeviceNAK, b)
      else let b = snd (fdtLocked b now) in
        if map_of (fdt b) ep = None \<and> int (length (fdt b)) \<ge> maxDevices b
        then (ResultRegisterForeignDeviceNAK, b)
        else (ResultSuccessfulCompletion,
          b\<lparr>fdt := AList.update ep \<lparr>ttl = t, expires = now + (int (unat t) * second + GracePeriod)\<rparr> (fdt b)\<rparr>))"

definition bbmd_delete :: "BBMD \<Rightarrow> Endpoint \<Rightarrow> bool \<times> BBMD" where
  "bbmd_delete b ep =
     (if map_of (fdt b) ep = None then (False, b) else (True, b\<lparr>fdt := AList.delete ep (fdt b)\<rparr>))"

section \<open>Forwarding\<close>

fun maskIp :: "ip4 \<Rightarrow> IPv4Mask \<Rightarrow> ip4" where
  "maskIp (a, b, c, d) (m0, m1, m2, m3) = (a OR NOT m0, b OR NOT m1, c OR NOT m2, d OR NOT m3)"

definition forwardAddress :: "BDTEntry \<Rightarrow> Endpoint option" where
  "forwardAddress e =
     map_option (\<lambda>ip. NewEndpoint (V4 (maskIp ip (be_Mask e)) (addr_Port (Addr (be_Endpoint e)))))
       (addr_As4 (Addr (be_Endpoint e)))"

definition oneHop :: "BDTEntry \<Rightarrow> bool" where
  "oneHop e \<longleftrightarrow> be_Mask e = (0xFF, 0xFF, 0xFF, 0xFF)"

definition forwarded :: "Endpoint \<Rightarrow> bytes \<Rightarrow> bytes result option" where
  "forwarded origin npdu =
     map_option (\<lambda>ip. bvlc_Append [] (zeroMessage\<lparr>Function := FunctionForwardedNPDU, OriginIP := ip,
         OriginPort := addr_Port (Addr origin), Payload := npdu\<rparr>))
       (addr_As4 (Addr origin))"

fun peerDests :: "BBMD \<Rightarrow> Endpoint \<Rightarrow> BDTEntry list \<Rightarrow> Endpoint list option" where
  "peerDests b origin [] = Some []"
| "peerDests b origin (e # es) =
     Option.bind (forwardAddress e) (\<lambda>to.
       if ep_Equal to (self b) \<or> ep_Equal (be_Endpoint e) (self b) \<or> ep_Equal to origin
       then peerDests b origin es
       else map_option (\<lambda>ds. to # ds) (peerDests b origin es))"

text \<open>The packets sent (none on an encoding error) and the table without its expired entries.\<close>

definition distribute ::
    "BBMD \<Rightarrow> int \<Rightarrow> Endpoint \<Rightarrow> bytes \<Rightarrow> bool \<Rightarrow> (OutboundPacket list \<times> BBMD) option" where
  "distribute b now origin npdu peers =
     Option.bind (forwarded origin npdu) (\<lambda>r. case r of
        Inl _ \<Rightarrow> Some ([], b)
      | Inr frame \<Rightarrow>
          Option.bind (if peers then peerDests b origin (bdt b) else Some []) (\<lambda>dests.
            let (entries, b') = fdtLocked b now;
                foreigns = filter (\<lambda>a. \<not> ep_Equal a origin \<and> \<not> ep_Equal a (self b)) (map fe_Address entries) in
            Some (map (\<lambda>to. \<lparr>Data = frame, pkt_Destination = to, Broadcast = False\<rparr>) (dests @ foreigns), b')))"

definition bbmd_result :: "Endpoint \<Rightarrow> u16 \<Rightarrow> OutboundPacket list" where
  "bbmd_result to code =
     (case bvlc_Append [] (zeroMessage\<lparr>Function := FunctionResult, ResultCode := code\<rparr>) of
        Inl _ \<Rightarrow> []
      | Inr frame \<Rightarrow> [\<lparr>Data = frame, pkt_Destination = to, Broadcast = False\<rparr>])"

definition isPeerOneHop :: "BBMD \<Rightarrow> Endpoint \<Rightarrow> bool" where
  "isPeerOneHop b from \<longleftrightarrow>
     (\<exists>e\<in>set (bdt b). ep_Equal (be_Endpoint e) from \<and> \<not> ep_Equal (be_Endpoint e) (self b) \<and> oneHop e)"

definition confirmedRequest :: "bytes \<Rightarrow> bool" where
  "confirmedRequest npdu =
     (if length npdu < 2 then False
      else let ctl = npdu ! 1 in
        if ctl AND 0x80 \<noteq> 0 then False
        else let off = 2 in
          if ctl AND 0x20 \<noteq> 0 \<and> length npdu < off + 3 then False
          else let off = (if ctl AND 0x20 \<noteq> 0 then off + 3 + unat (npdu ! (off + 2)) else off) in
            if ctl AND 0x08 \<noteq> 0 \<and> length npdu < off + 3 then False
            else let off = (if ctl AND 0x08 \<noteq> 0 then off + 3 + unat (npdu ! (off + 2)) else off);
                     off = (if ctl AND 0x20 \<noteq> 0 then off + 1 else off) in
              off < length npdu \<and> npdu ! off AND 0xF0 = 0x00)"

section \<open>The message handler\<close>

definition frameTo :: "Endpoint \<Rightarrow> u8 \<Rightarrow> bytes result \<Rightarrow> u16 \<Rightarrow> OutboundPacket list" where
  "frameTo to fn body nak =
     (case rbind body (\<lambda>body. bvlc_Append [] (zeroMessage\<lparr>Function := fn, Payload := body\<rparr>)) of
        Inl _ \<Rightarrow> bbmd_result to nak
      | Inr frame \<Rightarrow> [\<lparr>Data = frame, pkt_Destination = to, Broadcast = False\<rparr>])"

type_synonym handled = "((bool \<times> Endpoint) \<times> OutboundPacket list \<times> BBMD) option"

text \<open>
  The three cases of the switch that forward. \<open>now\<close> is the clock of the registration test and of the
  table operations, \<open>later\<close> the second reading inside \<^verbatim>\<open>distribute\<close>. The result: whether the NPDU goes
  up and from whom, the packets, the state.
\<close>

definition onOriginalBroadcast :: "BBMD \<Rightarrow> int \<Rightarrow> Message \<Rightarrow> Endpoint \<Rightarrow> handled" where
  "onOriginalBroadcast b later msg from =
     (if confirmedRequest (Payload msg) then Some ((False, zeroEndpoint), [], b)
      else map_option (\<lambda>(ps, b). ((True, from), ps, b)) (distribute b later from (Payload msg) True))"

definition broadcastOf :: "bytes result \<Rightarrow> OutboundPacket list" where
  "broadcastOf r = (case r of Inl _ \<Rightarrow> []
     | Inr frame \<Rightarrow> [\<lparr>Data = frame, pkt_Destination = zeroEndpoint, Broadcast = True\<rparr>])"

definition onForwarded :: "BBMD \<Rightarrow> int \<Rightarrow> Message \<Rightarrow> Endpoint \<Rightarrow> handled" where
  "onForwarded b later msg from =
     (let oep = NewEndpoint (case OriginAddrPort msg of Some ap \<Rightarrow> ap | None \<Rightarrow> NoAddr 0) in
      if ep_Equal oep (self b) then Some ((False, zeroEndpoint), [], b)
      else Option.bind
        (if isPeerOneHop b from then map_option broadcastOf (forwarded oep (Payload msg)) else Some []) (\<lambda>local.
        map_option (\<lambda>(ps, b). ((True, oep), local @ ps, b)) (distribute b later oep (Payload msg) False)))"

definition onDistribute :: "BBMD \<Rightarrow> int \<Rightarrow> int \<Rightarrow> Message \<Rightarrow> Endpoint \<Rightarrow> handled" where
  "onDistribute b now later msg from =
     (if \<not> registered b now from \<or> confirmedRequest (Payload msg) then
        Some ((False, zeroEndpoint), bbmd_result from ResultDistributeBroadcastToNetworkNAK, b)
      else Option.bind (forwarded from (Payload msg)) (\<lambda>r.
        if \<not> is_ok r then
          Some ((False, zeroEndpoint), bbmd_result from ResultDistributeBroadcastToNetworkNAK, b)
        else map_option (\<lambda>(ps, b). ((True, from), broadcastOf r @ ps, b))
          (distribute b later from (Payload msg) True)))"

definition HandleBVLC :: "BBMD \<Rightarrow> int \<Rightarrow> int \<Rightarrow> Message \<Rightarrow> Endpoint \<Rightarrow> handled" where
  "HandleBVLC b now later msg from =
     (if ep_Equal from (self b) then Some ((False, zeroEndpoint), [], b)
      else if Function msg = FunctionOriginalBroadcastNPDU then onOriginalBroadcast b later msg from
      else if Function msg = FunctionForwardedNPDU then onForwarded b later msg from
      else if Function msg = FunctionDistributeBroadcastToNetwork then onDistribute b now later msg from
      else if Function msg = FunctionRegisterForeignDevice then
        (let (code, b) = register b now from (TTL msg) in Some ((False, zeroEndpoint), bbmd_result from code, b))
      else if Function msg = FunctionReadBroadcastDistributionTable then
        Some ((False, zeroEndpoint), frameTo from FunctionReadBroadcastDistributionTableAck
          (EncodeBDTEntries [] (bdt b)) ResultReadBroadcastDistributionTableNAK, b)
      else if Function msg = FunctionWriteBroadcastDistributionTable then
        Some ((False, zeroEndpoint), bbmd_result from ResultWriteBroadcastDistributionTableNAK, b)
      else if Function msg = FunctionReadForeignDeviceTable then
        (let (entries, b) = fdtLocked b now in
         Some ((False, zeroEndpoint), frameTo from FunctionReadForeignDeviceTableAck
           (EncodeFDTEntries [] entries) ResultReadForeignDeviceTableNAK, b))
      else if Function msg = FunctionDeleteForeignDeviceTableEntry then
        (case DecodeDeleteFDTEntry (Payload msg) of
           Inl _ \<Rightarrow> Some ((False, zeroEndpoint), bbmd_result from ResultDeleteForeignDeviceTableEntryNAK, b)
         | Inr ep \<Rightarrow> (let (ok, b) = bbmd_delete b ep in
             Some ((False, zeroEndpoint),
               bbmd_result from (if ok then ResultSuccessfulCompletion else ResultDeleteForeignDeviceTableEntryNAK), b)))
      else Some ((False, zeroEndpoint), [], b))"

definition bbmd_LocalBroadcast :: "BBMD \<Rightarrow> int \<Rightarrow> bytes \<Rightarrow> (OutboundPacket list \<times> BBMD) option" where
  "bbmd_LocalBroadcast b now npdu = distribute b now (self b) npdu True"

section \<open>Invariant\<close>

text \<open>What \<^verbatim>\<open>New\<close> establishes and every message keeps; keys of the table are IPv4 endpoints.\<close>

definition wf_BBMD :: "BBMD \<Rightarrow> bool" where
  "wf_BBMD b \<longleftrightarrow> ep_IsValid (self b) \<and> 0 < maxDevices b \<and> int (length (fdt b)) \<le> maxDevices b
     \<and> distinct (map fst (fdt b)) \<and> (\<forall>e\<in>set (fdt b). ep_IsValid (fst e))
     \<and> (\<forall>e\<in>set (bdt b). ep_IsValid (be_Endpoint e) \<and> Contiguous (be_Mask e))"

definition bbmd_step :: "BBMD \<Rightarrow> int \<times> int \<times> Message \<times> Endpoint \<Rightarrow> BBMD" where
  "bbmd_step b = (\<lambda>(now, later, msg, from).
     case HandleBVLC b now later msg from of Some (_, _, b') \<Rightarrow> b' | None \<Rightarrow> b)"

section \<open>Lemmas\<close>

lemma ep_Equal_iff [simp]: "ep_Equal a b \<longleftrightarrow> a = b"
  by (cases a; cases b) (simp add: ep_Equal_def)

lemma ep_IsValid_As4: "ep_IsValid e \<Longrightarrow> \<exists>ip. addr_As4 (Addr e) = Some ip"
  by (cases "Addr e") (auto simp: ep_IsValid_def)

lemma fdtLocked_wf: "wf_BBMD b \<Longrightarrow> wf_BBMD (snd (fdtLocked b now))"
  using length_filter_le [of "\<lambda>(ep, f). live now f" "fdt b"]
  by (auto intro: order.trans [rotated] simp: wf_BBMD_def fdtLocked_def Let_def distinct_map_filter)

lemma fdtLocked_sel [simp]: "self (snd (fdtLocked b now)) = self b" "bdt (snd (fdtLocked b now)) = bdt b"
  "maxDevices (snd (fdtLocked b now)) = maxDevices b"
  by (simp_all add: fdtLocked_def Let_def)

lemma length_update: "length (AList.update k v xs) = (if map_of xs k = None then Suc (length xs) else length xs)"
  by (induction xs) auto

lemma set_update: "e \<in> set (AList.update k v xs) \<Longrightarrow> fst e = k \<or> e \<in> set xs"
  by (induction xs) (auto split: if_splits)

lemma register_wf: "wf_BBMD b \<Longrightarrow> ep_IsValid ep \<Longrightarrow> wf_BBMD (snd (register b now ep t))"
proof -
  assume b: "wf_BBMD b" and ep: "ep_IsValid ep"
  let ?b = "snd (fdtLocked b now)"
  have wf: "wf_BBMD ?b" by (rule fdtLocked_wf [OF b])
  have u: "wf_BBMD (?b\<lparr>fdt := AList.update ep f (fdt ?b)\<rparr>)"
    if "\<not> (map_of (fdt ?b) ep = None \<and> int (length (fdt ?b)) \<ge> maxDevices ?b)" for f
    using wf that ep unfolding wf_BBMD_def
    by (auto simp: length_update distinct_update dest!: set_update)
  show ?thesis using b wf u by (auto simp: register_def Let_def)
qed

lemma bbmd_delete_wf: "wf_BBMD b \<Longrightarrow> wf_BBMD (snd (bbmd_delete b ep))"
  using length_filter_le [of "\<lambda>(k, v). ep \<noteq> k" "fdt b"]
  by (auto intro: order.trans [rotated] simp: bbmd_delete_def wf_BBMD_def distinct_map_filter AList.delete_eq)

lemma distribute_cases:
  assumes "distribute b now origin npdu peers = Some (ps, b')"
  shows "ps = [] \<and> b' = b \<or> (\<exists>frame dests. forwarded origin npdu = Some (Inr frame) \<and>
    (if peers then peerDests b origin (bdt b) else Some []) = Some dests \<and> b' = snd (fdtLocked b now) \<and>
    ps = map (\<lambda>to. \<lparr>Data = frame, pkt_Destination = to, Broadcast = False\<rparr>)
      (dests @ filter (\<lambda>a. a \<noteq> origin \<and> a \<noteq> self b) (map fe_Address (fst (fdtLocked b now)))))"
proof -
  obtain r where r: "forwarded origin npdu = Some r"
    using assms by (auto simp: distribute_def Option.bind_eq_Some_conv)
  show ?thesis
  proof (cases r)
    case (Inr frame)
    then show ?thesis using assms r
      by (auto simp: distribute_def Option.bind_eq_Some_conv case_prod_beta Let_def)
  qed (use assms r in \<open>simp add: distribute_def\<close>)
qed

lemma distribute_wf:
  "wf_BBMD b \<Longrightarrow> distribute b now origin npdu peers = Some (ps, b') \<Longrightarrow> wf_BBMD b'"
  using fdtLocked_wf [of b now] by (auto dest!: distribute_cases)

lemma peerDests_Some:
  "\<forall>e\<in>set es. ep_IsValid (be_Endpoint e) \<Longrightarrow> \<exists>ds. peerDests b origin es = Some ds"
  by (induction es) (auto dest!: ep_IsValid_As4 simp: forwardAddress_def)

lemma distribute_Some:
  "wf_BBMD b \<Longrightarrow> ep_IsValid origin \<Longrightarrow> \<exists>ps b'. distribute b now origin npdu peers = Some (ps, b')"
  using peerDests_Some [of "bdt b" b origin] ep_IsValid_As4 [of origin]
  by (auto simp: distribute_def forwarded_def wf_BBMD_def Let_def split: sum.splits prod.splits)

lemma HandleBVLC_Some:
  assumes "wf_BBMD b" "ep_IsValid from"
  shows "\<exists>r ps b'. HandleBVLC b now later msg from = Some (r, ps, b') \<and> wf_BBMD b'"
proof -
  have d: "ep_IsValid o' \<Longrightarrow> \<exists>ps b'. distribute b later o' npdu peers = Some (ps, b') \<and> wf_BBMD b'" for o' npdu peers
    using distribute_Some [OF assms(1)] distribute_wf [OF assms(1)] by metis
  have v: "ep_IsValid (NewEndpoint (case OriginAddrPort msg of Some ap \<Rightarrow> ap | None \<Rightarrow> NoAddr 0))"
    if "Function msg = 4" using that by (simp add: OriginAddrPort_def ep_IsValid_def NewEndpoint_def)
  obtain ip where ip: "addr_As4 (Addr from) = Some ip" using ep_IsValid_As4 [OF assms(2)] ..
  show ?thesis
  proof (cases "ep_Equal from (self b)")
    case False
    note reg = register_wf [OF assms, of now "TTL msg"]
    consider "Function msg = 11" | "Function msg = 4" | "Function msg = 9" | "Function msg = 5" | "Function msg = 6" | "Function msg = 8"
      | (other) "Function msg \<notin> {11, 4, 9, 5, 6, 8}" by blast
    then show ?thesis
    proof cases
      case 1
      then show ?thesis using False d [OF assms(2), of "Payload msg" True] assms by (auto simp: HandleBVLC_def onOriginalBroadcast_def)
    next
      case 2
      show ?thesis using 2 False d [OF v [OF 2], of "Payload msg" False] assms
        by (auto simp: HandleBVLC_def onForwarded_def Let_def forwarded_def OriginAddrPort_def NewEndpoint_def split: sum.splits)
    next
      case 3
      then show ?thesis using False d [OF assms(2), of "Payload msg" True] assms ip
        by (auto simp: HandleBVLC_def onDistribute_def Let_def forwarded_def split: sum.splits)
    next
      case 4
      then show ?thesis using False reg by (auto simp: HandleBVLC_def Let_def case_prod_beta)
    next
      case 5
      then show ?thesis using False fdtLocked_wf [OF assms(1)] by (auto simp: HandleBVLC_def Let_def case_prod_beta)
    next
      case 6
      then show ?thesis using False bbmd_delete_wf [OF assms(1)] assms
        by (auto simp: HandleBVLC_def Let_def case_prod_beta split: sum.splits)
    next
      case other
      then show ?thesis using False assms by (auto simp: HandleBVLC_def)
    qed
  qed (use assms in \<open>auto simp: HandleBVLC_def\<close>)
qed

lemma peerDests_avoid:
  "peerDests b origin es = Some ds \<Longrightarrow> origin \<notin> set ds \<and> self b \<notin> set ds"
  by (induction es arbitrary: ds) (auto simp: Option.bind_eq_Some_conv split: if_splits)

lemma distribute_avoids:
  assumes "distribute b now origin npdu peers = Some (ps, b')" "p \<in> set ps"
  shows "pkt_Destination p \<noteq> origin \<and> pkt_Destination p \<noteq> self b \<and> \<not> Broadcast p \<and>
    forwarded origin npdu = Some (Inr (Data p))"
  using distribute_cases [OF assms(1)] assms(2) peerDests_avoid [of b origin "bdt b"]
  by (auto split: if_splits)

lemma HandleBVLC_up:
  assumes "HandleBVLC b now later msg from = Some ((True, origin), ps, b')"
  obtains local ps' peers where "ps = local @ ps'" "distribute b later origin (Payload msg) peers = Some (ps', b')"
    "\<forall>p\<in>set local. Broadcast p \<and> forwarded origin (Payload msg) = Some (Inr (Data p))"
proof -
  have b: "\<forall>p\<in>set (broadcastOf r). Broadcast p \<and> r = Inr (Data p)" for r by (cases r) (auto simp: broadcastOf_def)
  consider "onOriginalBroadcast b later msg from = Some ((True, origin), ps, b')"
    | "onForwarded b later msg from = Some ((True, origin), ps, b')"
    | "onDistribute b now later msg from = Some ((True, origin), ps, b')"
    using assms by (auto simp: HandleBVLC_def Let_def case_prod_beta split: if_splits sum.splits)
  then show thesis
  proof cases
    case 1
    then have "distribute b later origin (Payload msg) True = Some (ps, b')"
      by (auto simp: onOriginalBroadcast_def split: if_splits)
    then show thesis using that [of "[]" ps] by simp
  next
    case 2
    then obtain local ps' where "distribute b later origin (Payload msg) False = Some (ps', b')" "ps = local @ ps'"
      "(if isPeerOneHop b from then map_option broadcastOf (forwarded origin (Payload msg)) else Some []) = Some local"
      unfolding onForwarded_def Let_def
      by (clarsimp simp: Option.bind_eq_Some_conv simp del: ep_Equal_iff split: if_split_asm)
    then show thesis using b by (intro that [of local ps']) (auto split: if_splits)
  next
    case 3
    then obtain r ps' where "forwarded origin (Payload msg) = Some r" "ps = broadcastOf r @ ps'"
      "distribute b later origin (Payload msg) True = Some (ps', b')"
      by (auto simp: onDistribute_def Option.bind_eq_Some_conv split: if_splits)
    then show thesis using b by (intro that [of "broadcastOf r" ps']) auto
  qed
qed

lemma HandleBVLC_forwards:
  assumes "HandleBVLC b now later msg from = Some ((True, origin), ps, b')" "p \<in> set ps"
  shows "forwarded origin (Payload msg) = Some (Inr (Data p)) \<and>
    (\<not> Broadcast p \<longrightarrow> pkt_Destination p \<noteq> origin \<and> pkt_Destination p \<noteq> self b)"
  using assms(1)
proof (rule HandleBVLC_up)
  fix local ps' peers
  assume "ps = local @ ps'" "distribute b later origin (Payload msg) peers = Some (ps', b')"
    "\<forall>p\<in>set local. Broadcast p \<and> forwarded origin (Payload msg) = Some (Inr (Data p))"
  then show ?thesis using distribute_avoids [of b later origin "Payload msg" peers ps' b' p] assms(2) by auto
qed

lemma map_of_update: "map_of (AList.update k v xs) k' = (if k' = k then Some v else map_of xs k')"
  by (simp add: update_conv')

lemma fdt_live:
  "distinct (map fst (fdt b)) \<Longrightarrow> map_of (fdt (snd (fdtLocked b now))) ep =
     (case map_of (fdt b) ep of None \<Rightarrow> None | Some f \<Rightarrow> if live now f then Some f else None)"
  by (simp add: fdtLocked_def Let_def map_of_filter_snd)

lemma registered_fdtLocked:
  "wf_BBMD b \<Longrightarrow> now \<le> time \<Longrightarrow> registered (snd (fdtLocked b now)) time ep \<longleftrightarrow> registered b time ep"
  by (auto simp: registered_def fdt_live wf_BBMD_def live_def split: option.splits)

lemma register_lifetime:
  assumes "wf_BBMD b" "register b now ep t = (code, b')"
  shows "(code = 0 \<longrightarrow> (registered b' time ep \<longleftrightarrow> time < now + (int (unat t) + 30) * second)) \<and>
    (other \<noteq> ep \<longrightarrow> now \<le> time \<longrightarrow> (registered b' time other \<longleftrightarrow> registered b time other))"
proof -
  let ?b = "snd (fdtLocked b now)"
  let ?f = "\<lparr>ttl = t, expires = now + (int (unat t) * second + GracePeriod)\<rparr>"
  consider "code = 0x30" "b' = b" | "code = 0x30" "b' = ?b" | (ok) "code = 0" "b' = ?b\<lparr>fdt := AList.update ep ?f (fdt ?b)\<rparr>"
    using assms(2) by (auto simp: register_def Let_def split: if_splits)
  then show ?thesis
  proof cases
    case ok
    have "registered b' time ep \<longleftrightarrow> time < now + (int (unat t) + 30) * second"
      by (simp add: ok(2) registered_def map_of_update GracePeriod_def algebra_simps)
    moreover have "other \<noteq> ep \<Longrightarrow> registered b' time other \<longleftrightarrow> registered ?b time other"
      by (simp add: ok(2) registered_def map_of_update)
    ultimately show ?thesis using registered_fdtLocked [OF assms(1), of now time other] by blast
  qed (use registered_fdtLocked [OF assms(1), of now time other] in auto)
qed

lemma parseAddress_off:
  "parseDestination data off = Inr (a, off') \<Longrightarrow> off' = off + 3 + unat (data ! (off + 2)) \<and> off + 3 \<le> length data"
  "parseSource data off = Inr (a, off') \<Longrightarrow> off' = off + 3 + unat (data ! (off + 2)) \<and> off + 3 \<le> length data"
  by (auto simp: parseDestination_def parseSource_def Let_def rbind_eq_Inr split: if_splits)

lemma confirmedRequest_Parse:
  assumes "npdu_Parse data L = Inr (n, k)"
  shows "confirmedRequest data \<longleftrightarrow> \<not> NetworkMessage n \<and> (\<exists>b rest. np_APDU n = b # rest \<and> b AND 0xF0 = 0)"
proof -
  obtain c where data: "data = [1, c] @ drop 2 data" and f: "parseFields data c = Inr (n, k)"
    using npdu_Parse_elim [OF assms] by metis
  have c: "data ! 1 = c" by (subst data) simp
  have len: "\<not> length data < 2" by (subst data) simp
  show ?thesis
  proof (rule parseFields_elim [OF f])
    fix dest off1 src off2 hop off3
    assume d: "(if c AND 0x20 \<noteq> 0 then parseDestination data 2 else Inr (zeroAddress, 2)) = Inr (dest, off1)"
      and s: "(if c AND 8 \<noteq> 0 then parseSource data off1 else Inr (zeroAddress, off1)) = Inr (src, off2)"
      and h: "if c AND 0x20 \<noteq> 0 then off2 < length data \<and> hop = data ! off2 \<and> off3 = off2 + 1 else hop = 0 \<and> off3 = off2"
      and nm: "NetworkMessage n \<longleftrightarrow> c AND 0x80 \<noteq> 0"
      and pay: "if NetworkMessage n then off3 < length data \<and> NetMsgType n = data ! off3 \<and> NetMsgData n = drop (off3 + 1) data
         \<and> is_ok (validateNetworkMessageData (NetMsgType n) (NetMsgData n)) else np_APDU n = drop off3 data"
    have o1: "off1 = (if c AND 0x20 \<noteq> 0 then 2 + 3 + unat (data ! (2 + 2)) else 2)" "c AND 0x20 \<noteq> 0 \<Longrightarrow> 2 + 3 \<le> length data"
      using d parseAddress_off(1) [of data 2] by (auto split: if_splits)
    have o2: "off2 = (if c AND 8 \<noteq> 0 then off1 + 3 + unat (data ! (off1 + 2)) else off1)" "c AND 8 \<noteq> 0 \<Longrightarrow> off1 + 3 \<le> length data"
      using s parseAddress_off(2) [of data off1] by (auto split: if_splits)
    have o3: "off3 = (if c AND 0x20 \<noteq> 0 then off2 + 1 else off2)" using h by (auto split: if_splits)
    have "(\<exists>b rest. drop off3 data = b # rest \<and> b AND 0xF0 = 0) \<longleftrightarrow> off3 < length data \<and> data ! off3 AND 0xF0 = 0"
      by (metis Cons_nth_drop_Suc drop_eq_Nil list.inject list.distinct(1) not_le)
    moreover have "confirmedRequest data \<longleftrightarrow> c AND 0x80 = 0 \<and> off3 < length data \<and> data ! off3 AND 0xF0 = 0"
      unfolding confirmedRequest_def Let_def c o1(1) [symmetric] o2(1) [symmetric] o3 [symmetric]
      using o1(2) o2(2) len by auto
    ultimately show ?thesis using nm pay by (cases "c AND 0x80 = 0") simp_all
  qed
qed

lemma apdu_Parse_confirmed:
  assumes "apdu_Parse data L = Inr pdu"
  shows "(\<exists>q. pdu = PConfirmedRequest q) \<longleftrightarrow> (\<exists>b rest. data = b # rest \<and> b AND 0xF0 = 0)"
proof -
  obtain b rest where data: "data = b # rest" using assms by (cases data) (simp_all add: apdu_Parse_def)
  have "(\<exists>q. pdu = PConfirmedRequest q) \<longleftrightarrow> b AND 0xF0 = 0"
    using assms unfolding data apdu_Parse_def
    by (auto simp: Let_def parseConfirmed_def parseUnconfirmed_def parseSimpleACK_def parseComplexACK_def parseSegmentACK_def
        parseError_def parseReject_def parseAbort_def rbind_eq_Inr split: if_splits)
  then show ?thesis by (simp add: data)
qed

lemma wf_bbmd_New: "bbmd_New cfg = Inr b \<Longrightarrow> wf_BBMD b"
  by (auto simp: bbmd_New_def wf_BBMD_def NewBDTEntry_def split: if_splits)

section \<open>The device as a machine\<close>

interpretation bbmd_machine: invariant_machine bbmd_step wf_BBMD "\<lambda>(_, _, _, from). ep_IsValid from"
proof
  fix b :: BBMD and ev :: "int \<times> int \<times> Message \<times> Endpoint"
  assume wf: "wf_BBMD b" and ok: "case ev of (_, _, _, from) \<Rightarrow> ep_IsValid from"
  obtain now later msg "from" where ev: "ev = (now, later, msg, from)" by (cases ev)
  then obtain r ps b' where "HandleBVLC b now later msg from = Some (r, ps, b')" "wf_BBMD b'"
    using HandleBVLC_Some [OF wf, of "from" now later msg] ok by auto
  then show "wf_BBMD (bbmd_step b ev)" by (simp add: bbmd_step_def ev)
qed

section \<open>Properties\<close>

text \<open>C29. Starting from any accepted configuration, whatever messages arrive from IPv4 peers, the
  foreign device table stays within its bound with one entry per device, and the next message is
  handled without a panic.\<close>

theorem bbmd_invariant:
  assumes "bbmd_New cfg = Inr b" "list_all (\<lambda>(_, _, _, from). ep_IsValid from) evs" "ep_IsValid peer"
  shows "wf_BBMD (foldl bbmd_step b evs) \<and> HandleBVLC (foldl bbmd_step b evs) now later msg peer \<noteq> None"
proof -
  have "wf_BBMD (foldl bbmd_step b evs)"
    by (rule bbmd_machine.run_inv [OF wf_bbmd_New [OF assms(1)] assms(2)])
  then show ?thesis using HandleBVLC_Some [OF _ assms(3)] by fastforce
qed

theorem bbmd_invariant_witness:
  "\<exists>b. bbmd_New \<lparr>Self = \<lparr>Addr = V4 (10, 0, 0, 1) 47808\<rparr>, cfg_BDT = [], MaxForeignDevices = 1, RejectRegistrations = False\<rparr> = Inr b \<and>
    wf_BBMD (foldl bbmd_step b [(0, 0, zeroMessage\<lparr>Function := 5, TTL := 60\<rparr>, \<lparr>Addr = V4 (10, 0, 0, 2) 47808\<rparr>),
      (1, 1, zeroMessage\<lparr>Function := 5, TTL := 60\<rparr>, \<lparr>Addr = V4 (10, 0, 0, 3) 47808\<rparr>)])"
proof -
  let ?c = "\<lparr>Self = \<lparr>Addr = V4 (10, 0, 0, 1) 47808\<rparr>, cfg_BDT = [], MaxForeignDevices = 1, RejectRegistrations = False\<rparr>"
  obtain b where b: "bbmd_New ?c = Inr b" by (simp add: bbmd_New_def ep_IsValid_def)
  from bbmd_invariant [OF b, of "[(0, 0, zeroMessage\<lparr>Function := 5, TTL := 60\<rparr>, \<lparr>Addr = V4 (10, 0, 0, 2) 47808\<rparr>),
      (1, 1, zeroMessage\<lparr>Function := 5, TTL := 60\<rparr>, \<lparr>Addr = V4 (10, 0, 0, 3) 47808\<rparr>)]" "\<lparr>Addr = V4 (10, 0, 0, 2) 47808\<rparr>"]
  show ?thesis using b by (auto simp: ep_IsValid_def)
qed

text \<open>C32. A broadcast that is passed up is forwarded with its origin and payload intact, and never by
  unicast to its origin or to this device: no echo and no self-loop.\<close>

theorem bbmd_no_echo:
  assumes "HandleBVLC b now later msg from = Some ((True, origin), ps, b')" "p \<in> set ps"
  shows "forwarded origin (Payload msg) = Some (Inr (Data p)) \<and>
    (\<not> Broadcast p \<longrightarrow> pkt_Destination p \<noteq> origin \<and> pkt_Destination p \<noteq> self b)"
  by (rule HandleBVLC_forwards [OF assms])

theorem bbmd_no_echo_witness:
  "\<exists>ps b' p. HandleBVLC \<lparr>self = \<lparr>Addr = V4 (10, 0, 0, 1) 47808\<rparr>, maxDevices = 4, reject = False,
      bdt = [\<lparr>be_Endpoint = \<lparr>Addr = V4 (10, 0, 1, 1) 47808\<rparr>, be_Mask = (255, 255, 255, 255)\<rparr>], fdt = []\<rparr> 0 0
      (zeroMessage\<lparr>Function := 11, Payload := [1, 0, 16, 8]\<rparr>) \<lparr>Addr = V4 (10, 0, 0, 9) 47808\<rparr> =
      Some ((True, \<lparr>Addr = V4 (10, 0, 0, 9) 47808\<rparr>), ps, b') \<and> p \<in> set ps \<and>
    pkt_Destination p \<noteq> \<lparr>Addr = V4 (10, 0, 0, 9) 47808\<rparr>"
proof -
  let ?b = "\<lparr>self = \<lparr>Addr = V4 (10, 0, 0, 1) 47808\<rparr>, maxDevices = 4, reject = False,
      bdt = [\<lparr>be_Endpoint = \<lparr>Addr = V4 (10, 0, 1, 1) 47808\<rparr>, be_Mask = (255, 255, 255, 255)\<rparr>], fdt = []\<rparr>"
  let ?m = "zeroMessage\<lparr>Function := 11, Payload := [1, 0, 16, 8]\<rparr>" and ?f = "\<lparr>Addr = V4 (10, 0, 0, 9) 47808\<rparr>"
  obtain fr where fr: "forwarded ?f [1, 0, 16, 8] = Some (Inr fr)"
    by (simp add: forwarded_def bvlc_Append_eq bvlcBody_def zeroMessage_def)
  let ?p = "\<lparr>Data = fr, pkt_Destination = \<lparr>Addr = V4 (10, 0, 1, 1) 47808\<rparr>, Broadcast = False\<rparr>"
  have h: "HandleBVLC ?b 0 0 ?m ?f = Some ((True, ?f), [?p], ?b)"
    by (simp add: HandleBVLC_def onOriginalBroadcast_def distribute_def fr confirmedRequest_def fdtLocked_def forwardAddress_def
        zeroMessage_def NewEndpoint_def)
  from bbmd_no_echo [OF h, of ?p] h show ?thesis by auto
qed

text \<open>A Distribute-Broadcast-To-Network from a device that is not registered is answered with a
  NAK and nothing else; the table is untouched and nothing goes up.\<close>

theorem bbmd_unregistered_refused:
  assumes "Function msg = FunctionDistributeBroadcastToNetwork" "\<not> registered b now from" "from \<noteq> self b"
  shows "HandleBVLC b now later msg from =
    Some ((False, zeroEndpoint), bbmd_result from ResultDistributeBroadcastToNetworkNAK, b)"
  using assms by (simp add: HandleBVLC_def onDistribute_def)

text \<open>An accepted registration is live exactly until its time to live plus the thirty-second
  grace period has passed, and registering one device never changes whether another is registered.\<close>

theorem bbmd_registration_lifetime:
  assumes "wf_BBMD b" "register b now ep t = (code, b')"
  shows "(code = ResultSuccessfulCompletion \<longrightarrow> (registered b' time ep \<longleftrightarrow> time < now + (int (unat t) + 30) * second)) \<and>
    (other \<noteq> ep \<longrightarrow> now \<le> time \<longrightarrow> (registered b' time other \<longleftrightarrow> registered b time other))"
  by (rule register_lifetime [OF assms])

text \<open>C33. The octet-level test that keeps confirmed requests from being broadcast agrees with the decoders. On every frame the NPDU
  decoder accepts, it holds when the frame carries an APDU whose first octet has the type of a confirmed request; so for every
  APDU the APDU decoder accepts, it holds exactly when the decoded PDU is a confirmed request, and never for a network message.\<close>

theorem confirmedRequest_agrees:
  assumes "npdu_Parse data L = Inr (n, k)"
  shows "(confirmedRequest data \<longleftrightarrow> \<not> NetworkMessage n \<and> (\<exists>b rest. np_APDU n = b # rest \<and> b AND 0xF0 = 0))
    \<and> (\<forall>pdu. apdu_Parse (np_APDU n) L' = Inr pdu \<longrightarrow> (confirmedRequest data \<longleftrightarrow> \<not> NetworkMessage n \<and> (\<exists>q. pdu = PConfirmedRequest q)))"
  using confirmedRequest_Parse [OF assms] apdu_Parse_confirmed by blast

theorem confirmedRequest_agrees_witness:
  "\<exists>n pdu. npdu_Parse [1, 0x24, 0, 5, 0, 255, 0x00, 0x05, 0x01, 0x0C] DefaultDecodeLimits = Inr (n, 10) \<and>
    apdu_Parse (np_APDU n) DefaultDecodeLimits = Inr pdu \<and> \<not> NetworkMessage n \<and> (\<exists>q. pdu = PConfirmedRequest q)"
proof -
  let ?d = "[1, 0x24, 0, 5, 0, 255, 0x00, 0x05, 0x01, 0x0C]"
  let ?r = "npdu_Parse ?d DefaultDecodeLimits"
  have "rmap (\<lambda>(n, k). (np_APDU n, k)) ?r = Inr ([0x00, 0x05, 0x01, 0x0C], 10)" by code_simp
  then obtain n where r: "?r = Inr (n, 10)" and n: "np_APDU n = [0x00, 0x05, 0x01, 0x0C]" by (cases ?r) auto
  have "is_ok (apdu_Parse [0x00, 0x05, 0x01, 0x0C] DefaultDecodeLimits)" by code_simp
  then obtain pdu where p: "apdu_Parse (np_APDU n) DefaultDecodeLimits = Inr pdu" by (auto simp: is_ok_iff n)
  have "confirmedRequest ?d" by (simp add: confirmedRequest_def)
  with confirmedRequest_agrees [OF r, of DefaultDecodeLimits] p r show ?thesis by blast
qed

end
