(* ===== verification/Policy.thy ===== *)
theory Policy
  imports Apdu
begin

text \<open>
  The client's confirmed-service policy: \<^verbatim>\<open>client/service_policy.go\<close> (the two registries, the operation
  classes), \<^verbatim>\<open>DefaultRetransmitPolicy\<close> of \<^verbatim>\<open>client/transaction.go\<close>, \<^verbatim>\<open>wrapOutcomeUnknown\<close> and
  \<^verbatim>\<open>maybeUnknown\<close> of \<^verbatim>\<open>client/confirmed.go\<close> and the advertised APDU size of \<^verbatim>\<open>client/maxapdu.go\<close>.
  A client error is a sentinel of the root package, one of the structured errors of \<^verbatim>\<open>errors.go\<close>, a
  context error or a failure of the transport.
\<close>

section \<open>Confirmed service choices\<close>

abbreviation (input) "ServiceAcknowledgeAlarm \<equiv> (0 :: u8)"
abbreviation (input) "ServiceConfirmedCOVNotification \<equiv> (1 :: u8)"
abbreviation (input) "ServiceConfirmedEventNotification \<equiv> (2 :: u8)"
abbreviation (input) "ServiceGetAlarmSummary \<equiv> (3 :: u8)"
abbreviation (input) "ServiceGetEnrollmentSummary \<equiv> (4 :: u8)"
abbreviation (input) "ServiceSubscribeCOV \<equiv> (5 :: u8)"
abbreviation (input) "ServiceAtomicReadFile \<equiv> (6 :: u8)"
abbreviation (input) "ServiceAtomicWriteFile \<equiv> (7 :: u8)"
abbreviation (input) "ServiceAddListElement \<equiv> (8 :: u8)"
abbreviation (input) "ServiceRemoveListElement \<equiv> (9 :: u8)"
abbreviation (input) "ServiceCreateObject \<equiv> (10 :: u8)"
abbreviation (input) "ServiceDeleteObject \<equiv> (11 :: u8)"
abbreviation (input) "ServiceReadProperty \<equiv> (12 :: u8)"
abbreviation (input) "ServiceReadPropertyMultiple \<equiv> (14 :: u8)"
abbreviation (input) "ServiceWriteProperty \<equiv> (15 :: u8)"
abbreviation (input) "ServiceWritePropertyMultiple \<equiv> (16 :: u8)"
abbreviation (input) "ServiceDeviceCommunicationControl \<equiv> (17 :: u8)"
abbreviation (input) "ServiceConfirmedPrivateTransfer \<equiv> (18 :: u8)"
abbreviation (input) "ServiceConfirmedTextMessage \<equiv> (19 :: u8)"
abbreviation (input) "ServiceReinitializeDevice \<equiv> (20 :: u8)"
abbreviation (input) "ServiceVTOpen \<equiv> (21 :: u8)"
abbreviation (input) "ServiceVTClose \<equiv> (22 :: u8)"
abbreviation (input) "ServiceVTData \<equiv> (23 :: u8)"
abbreviation (input) "ServiceReadRange \<equiv> (26 :: u8)"
abbreviation (input) "ServiceLifeSafetyOperation \<equiv> (27 :: u8)"
abbreviation (input) "ServiceSubscribeCOVProperty \<equiv> (28 :: u8)"
abbreviation (input) "ServiceGetEventInformation \<equiv> (29 :: u8)"
abbreviation (input) "ServiceSubscribeCOVPropertyMultiple \<equiv> (30 :: u8)"
abbreviation (input) "ServiceConfirmedCOVNotificationMultiple \<equiv> (31 :: u8)"
abbreviation (input) "ServiceConfirmedAuditNotification \<equiv> (32 :: u8)"
abbreviation (input) "ServiceAuditLogQuery \<equiv> (33 :: u8)"
abbreviation (input) "ServiceAuthRequest \<equiv> (34 :: u8)"

section \<open>Errors a client call returns\<close>

datatype client_error =
    Sentinel bacnet_error
  | OutcomeUnknownError string client_error
  | APDUTooLargeError int int bool \<comment> \<open>encoded size, remote maximum, segmentation supported\<close>
  | ContextError
  | TransportError
  | ErrNetworkManagementDisabled
  | WPMError u16 u16 ObjectIdentifier PropertyReference \<comment> \<open>class, code, first failed write\<close>

section \<open>The registries\<close>

datatype SuccessResponseKind = SuccessSimpleACK | SuccessComplexACK

datatype OperationClass = OperationNormal | OperationWrite | OperationDeviceManagement
  | OperationNetworkManagement | OperationLifeSafety

record ConfirmedServicePolicy =
  Name :: string
  RetransmitSafe :: bool
  SideEffecting :: bool
  OutcomeUnknownAfterSend :: bool
  pol_OperationClass :: OperationClass
  SuccessResponse :: SuccessResponseKind

definition policy ::
  "string \<Rightarrow> bool \<Rightarrow> bool \<Rightarrow> bool \<Rightarrow> OperationClass \<Rightarrow> SuccessResponseKind \<Rightarrow> ConfirmedServicePolicy" where
  "policy n r s u c k = \<lparr>Name = n, RetransmitSafe = r, SideEffecting = s, OutcomeUnknownAfterSend = u,
     pol_OperationClass = c, SuccessResponse = k\<rparr>"

record ConfirmedServiceCapabilities =
  RequestMaySegment :: bool
  ResponseMaySegment :: bool

definition confirmedPolicies :: "(u8 \<times> ConfirmedServicePolicy) list" where
  "confirmedPolicies = [
     (ServiceAcknowledgeAlarm, policy ''AcknowledgeAlarm'' False True True OperationWrite SuccessSimpleACK),
     (ServiceGetAlarmSummary, policy ''GetAlarmSummary'' True False False OperationNormal SuccessComplexACK),
     (ServiceGetEnrollmentSummary, policy ''GetEnrollmentSummary'' True False False OperationNormal SuccessComplexACK),
     (ServiceSubscribeCOV, policy ''SubscribeCOV'' False True True OperationWrite SuccessSimpleACK),
     (ServiceAtomicReadFile, policy ''AtomicReadFile'' True False False OperationNormal SuccessComplexACK),
     (ServiceAtomicWriteFile, policy ''AtomicWriteFile'' False True True OperationWrite SuccessComplexACK),
     (ServiceAddListElement, policy ''AddListElement'' False True True OperationWrite SuccessSimpleACK),
     (ServiceRemoveListElement, policy ''RemoveListElement'' False True True OperationWrite SuccessSimpleACK),
     (ServiceCreateObject, policy ''CreateObject'' False True True OperationWrite SuccessComplexACK),
     (ServiceDeleteObject, policy ''DeleteObject'' False True True OperationWrite SuccessSimpleACK),
     (ServiceReadProperty, policy ''ReadProperty'' True False False OperationNormal SuccessComplexACK),
     (ServiceReadPropertyMultiple, policy ''ReadPropertyMultiple'' True False False OperationNormal SuccessComplexACK),
     (ServiceWriteProperty, policy ''WriteProperty'' False True True OperationWrite SuccessSimpleACK),
     (ServiceWritePropertyMultiple, policy ''WritePropertyMultiple'' False True True OperationWrite SuccessSimpleACK),
     (ServiceDeviceCommunicationControl, policy ''DeviceCommunicationControl'' False True True OperationDeviceManagement SuccessSimpleACK),
     (ServiceConfirmedPrivateTransfer, policy ''ConfirmedPrivateTransfer'' False True True OperationWrite SuccessComplexACK),
     (ServiceConfirmedTextMessage, policy ''ConfirmedTextMessage'' False True True OperationWrite SuccessSimpleACK),
     (ServiceReinitializeDevice, policy ''ReinitializeDevice'' False True True OperationDeviceManagement SuccessSimpleACK),
     (ServiceVTOpen, policy ''VTOpen'' False True True OperationWrite SuccessComplexACK),
     (ServiceVTClose, policy ''VTClose'' False True True OperationWrite SuccessSimpleACK),
     (ServiceVTData, policy ''VTData'' False True True OperationWrite SuccessSimpleACK),
     (ServiceReadRange, policy ''ReadRange'' True False False OperationNormal SuccessComplexACK),
     (ServiceLifeSafetyOperation, policy ''LifeSafetyOperation'' False True True OperationLifeSafety SuccessSimpleACK),
     (ServiceSubscribeCOVProperty, policy ''SubscribeCOVProperty'' False True True OperationWrite SuccessSimpleACK),
     (ServiceGetEventInformation, policy ''GetEventInformation'' True False False OperationNormal SuccessComplexACK),
     (ServiceSubscribeCOVPropertyMultiple, policy ''SubscribeCOVPropertyMultiple'' False True True OperationWrite SuccessSimpleACK),
     (ServiceAuditLogQuery, policy ''AuditLogQuery'' True False False OperationNormal SuccessComplexACK),
     (ServiceAuthRequest, policy ''AuthRequest'' False True True OperationWrite SuccessComplexACK)
   ]"

definition confirmedCapabilities :: "(u8 \<times> ConfirmedServiceCapabilities) list" where
  "confirmedCapabilities = [
     (ServiceAcknowledgeAlarm, \<lparr>RequestMaySegment = False, ResponseMaySegment = False\<rparr>),
     (ServiceGetAlarmSummary, \<lparr>RequestMaySegment = False, ResponseMaySegment = True\<rparr>),
     (ServiceGetEnrollmentSummary, \<lparr>RequestMaySegment = False, ResponseMaySegment = True\<rparr>),
     (ServiceSubscribeCOV, \<lparr>RequestMaySegment = False, ResponseMaySegment = False\<rparr>),
     (ServiceAtomicReadFile, \<lparr>RequestMaySegment = True, ResponseMaySegment = True\<rparr>),
     (ServiceAtomicWriteFile, \<lparr>RequestMaySegment = True, ResponseMaySegment = False\<rparr>),
     (ServiceAddListElement, \<lparr>RequestMaySegment = True, ResponseMaySegment = False\<rparr>),
     (ServiceRemoveListElement, \<lparr>RequestMaySegment = True, ResponseMaySegment = False\<rparr>),
     (ServiceCreateObject, \<lparr>RequestMaySegment = True, ResponseMaySegment = False\<rparr>),
     (ServiceDeleteObject, \<lparr>RequestMaySegment = False, ResponseMaySegment = False\<rparr>),
     (ServiceReadProperty, \<lparr>RequestMaySegment = False, ResponseMaySegment = True\<rparr>),
     (ServiceReadPropertyMultiple, \<lparr>RequestMaySegment = True, ResponseMaySegment = True\<rparr>),
     (ServiceWriteProperty, \<lparr>RequestMaySegment = True, ResponseMaySegment = False\<rparr>),
     (ServiceWritePropertyMultiple, \<lparr>RequestMaySegment = True, ResponseMaySegment = False\<rparr>),
     (ServiceDeviceCommunicationControl, \<lparr>RequestMaySegment = False, ResponseMaySegment = False\<rparr>),
     (ServiceConfirmedPrivateTransfer, \<lparr>RequestMaySegment = True, ResponseMaySegment = True\<rparr>),
     (ServiceConfirmedTextMessage, \<lparr>RequestMaySegment = True, ResponseMaySegment = False\<rparr>),
     (ServiceReinitializeDevice, \<lparr>RequestMaySegment = False, ResponseMaySegment = False\<rparr>),
     (ServiceVTOpen, \<lparr>RequestMaySegment = False, ResponseMaySegment = False\<rparr>),
     (ServiceVTClose, \<lparr>RequestMaySegment = False, ResponseMaySegment = False\<rparr>),
     (ServiceVTData, \<lparr>RequestMaySegment = True, ResponseMaySegment = False\<rparr>),
     (ServiceReadRange, \<lparr>RequestMaySegment = False, ResponseMaySegment = True\<rparr>),
     (ServiceLifeSafetyOperation, \<lparr>RequestMaySegment = False, ResponseMaySegment = False\<rparr>),
     (ServiceSubscribeCOVProperty, \<lparr>RequestMaySegment = False, ResponseMaySegment = False\<rparr>),
     (ServiceGetEventInformation, \<lparr>RequestMaySegment = False, ResponseMaySegment = True\<rparr>),
     (ServiceSubscribeCOVPropertyMultiple, \<lparr>RequestMaySegment = True, ResponseMaySegment = False\<rparr>),
     (ServiceAuditLogQuery, \<lparr>RequestMaySegment = False, ResponseMaySegment = True\<rparr>),
     (ServiceAuthRequest, \<lparr>RequestMaySegment = True, ResponseMaySegment = True\<rparr>)
   ]"

definition ConfirmedServicePolicyFor :: "u8 \<Rightarrow> ConfirmedServicePolicy option" where
  "ConfirmedServicePolicyFor serviceChoice = map_of confirmedPolicies serviceChoice"

definition ConfirmedServiceCapabilitiesFor :: "u8 \<Rightarrow> ConfirmedServiceCapabilities option" where
  "ConfirmedServiceCapabilitiesFor serviceChoice = map_of confirmedCapabilities serviceChoice"

definition requireServicePolicy :: "u8 \<Rightarrow> client_error + ConfirmedServicePolicy" where
  "requireServicePolicy serviceChoice =
     (case ConfirmedServicePolicyFor serviceChoice of
        None \<Rightarrow> Inl (Sentinel ErrUnsupported)
      | Some p \<Rightarrow> Inr p)"

section \<open>Operation classes\<close>

text \<open>The two opt-ins of the client configuration the classes depend on.\<close>

record policy_config =
  deviceManagementEnabled :: bool
  networkManagementEnabled :: bool

fun operationClassEnabled :: "policy_config \<Rightarrow> OperationClass \<Rightarrow> bool" where
  "operationClassEnabled c OperationNormal = True"
| "operationClassEnabled c OperationWrite = True"
| "operationClassEnabled c OperationDeviceManagement = deviceManagementEnabled c"
| "operationClassEnabled c OperationNetworkManagement = networkManagementEnabled c"
| "operationClassEnabled c OperationLifeSafety = True"

definition checkPolicyClass :: "policy_config \<Rightarrow> ConfirmedServicePolicy \<Rightarrow> client_error + unit" where
  "checkPolicyClass c p =
     (if \<not> operationClassEnabled c (pol_OperationClass p) then
        case pol_OperationClass p of
          OperationDeviceManagement \<Rightarrow> Inl (Sentinel ErrDeviceManagementDisabled)
        | OperationNetworkManagement \<Rightarrow> Inl ErrNetworkManagementDisabled
        | _ \<Rightarrow> Inl (Sentinel ErrUnsupported)
      else Inr ())"

definition checkOperationClass :: "policy_config \<Rightarrow> u8 \<Rightarrow> client_error + unit" where
  "checkOperationClass c serviceChoice = rbind (requireServicePolicy serviceChoice) (checkPolicyClass c)"

section \<open>Retransmission and unknown outcomes\<close>

datatype RetransmitPolicy = RetransmitEnabled | RetransmitDisabled

definition DefaultRetransmitPolicy :: "u8 \<Rightarrow> RetransmitPolicy" where
  "DefaultRetransmitPolicy serviceChoice =
     (case ConfirmedServicePolicyFor serviceChoice of
        None \<Rightarrow> RetransmitDisabled
      | Some p \<Rightarrow> if \<not> RetransmitSafe p then RetransmitDisabled else RetransmitEnabled)"

definition wrapOutcomeUnknown :: "u8 \<Rightarrow> client_error \<Rightarrow> client_error" where
  "wrapOutcomeUnknown serviceChoice cause =
     (case ConfirmedServicePolicyFor serviceChoice of
        None \<Rightarrow> cause
      | Some p \<Rightarrow> if \<not> OutcomeUnknownAfterSend p then cause else OutcomeUnknownError (Name p) cause)"

record confirmedOpts =
  opt_policy :: RetransmitPolicy
  segmentedResponseAccepted :: bool
  forceOutcomeUnknown :: bool
  outcomeUnknownName :: string

definition maybeUnknown :: "confirmedOpts \<Rightarrow> u8 \<Rightarrow> client_error \<Rightarrow> bool \<Rightarrow> client_error" where
  "maybeUnknown o' serviceChoice cause sent =
     (if \<not> sent then cause
      else if forceOutcomeUnknown o' then
        OutcomeUnknownError
          (if outcomeUnknownName o' = [] then ''InvokeConfirmed'' else outcomeUnknownName o') cause
      else wrapOutcomeUnknown serviceChoice cause)"

text \<open>The raw escape hatch (\<^verbatim>\<open>client/invoke.go\<close>): the options it hands to the request.\<close>

record ConfirmedInvokeOptions =
  io_SegmentedResponseAccepted :: bool
  Retransmit :: RetransmitPolicy
  io_SideEffecting :: bool

text \<open>The zero value: \<^verbatim>\<open>RetransmitEnabled\<close> is the first constant of the \<^verbatim>\<open>iota\<close> block, hence 0.\<close>

definition zeroInvokeOptions :: ConfirmedInvokeOptions where
  "zeroInvokeOptions = \<lparr>io_SegmentedResponseAccepted = False, Retransmit = RetransmitEnabled, io_SideEffecting = False\<rparr>"

definition InvokeConfirmed_opts :: "ConfirmedInvokeOptions \<Rightarrow> confirmedOpts" where
  "InvokeConfirmed_opts opts =
     \<lparr>opt_policy = (if Retransmit opts \<noteq> RetransmitEnabled then RetransmitDisabled else Retransmit opts),
      segmentedResponseAccepted = io_SegmentedResponseAccepted opts,
      forceOutcomeUnknown = io_SideEffecting opts,
      outcomeUnknownName = ''InvokeConfirmed''\<rparr>"

section \<open>The advertised APDU size\<close>

definition validateAdvertisedMaxAPDU :: "u16 \<Rightarrow> int \<Rightarrow> client_error + unit" where
  "validateAdvertisedMaxAPDU advertised parserMax =
     (if parserMax \<le> 0 then Inl (Sentinel ErrMalformed)
      else if parserMax > 65535 then Inl (Sentinel ErrMalformed)
      else let effective = (if advertised = 0 then word_of_int parserMax else advertised) in
        if effective < 50 then Inl (Sentinel ErrMalformed)
        else if uint effective > parserMax then Inl (Sentinel ErrMalformed)
        else case EncodeMaxAPDUSize effective of None \<Rightarrow> Inl (Sentinel ErrMalformed) | Some _ \<Rightarrow> Inr ())"

definition advertisedMaxAPDU :: "u16 \<Rightarrow> DecodeLimits \<Rightarrow> client_error + u16" where
  "advertisedMaxAPDU advertised limits =
     rbind (if advertised = 0 then
              (if MaxAPDUSize limits > 65535 then Inl (Sentinel ErrMalformed)
               else if MaxAPDUSize limits < 0 then Inl (Sentinel ErrMalformed)
               else Inr (word_of_int (MaxAPDUSize limits)))
            else Inr advertised)
       (\<lambda>localMax. Inr (if localMax = 0 then 1476 else localMax))"

section \<open>Facts about the registries\<close>

lemma map_of_list_all: "list_all (\<lambda>(k, v). P k v) xs \<Longrightarrow> map_of xs k = Some v \<Longrightarrow> P k v"
  by (auto simp: list_all_iff dest: map_of_SomeD)

lemma policies_consistent:
  "list_all (\<lambda>(_, p). (RetransmitSafe p \<longleftrightarrow> \<not> SideEffecting p) \<and> (OutcomeUnknownAfterSend p \<longleftrightarrow> SideEffecting p))
     confirmedPolicies"
  by (simp add: confirmedPolicies_def policy_def)

lemma ConfirmedServicePolicyFor_flags:
  assumes "ConfirmedServicePolicyFor svc = Some p"
  shows "RetransmitSafe p \<longleftrightarrow> \<not> SideEffecting p" "OutcomeUnknownAfterSend p \<longleftrightarrow> SideEffecting p"
  using map_of_list_all [OF policies_consistent, of svc p] assms
  by (auto simp: ConfirmedServicePolicyFor_def)

text \<open>
  The zero options of the escape hatch do retransmit, although the comment on the field says that zero
  means retransmission is disabled.
\<close>

lemma InvokeConfirmed_zero_retransmits:
  "opt_policy (InvokeConfirmed_opts zeroInvokeOptions) = RetransmitEnabled"
  by (simp add: InvokeConfirmed_opts_def zeroInvokeOptions_def)

section \<open>Properties\<close>

text \<open>No side effect is repeated or silently lost: a service the client retransmits by default is
  registered without side effects, and when a side-effecting request ends without an answer after it was
  sent, the caller gets an outcome-unknown error naming the service; if it was not sent, the bare cause.\<close>

theorem policy_side_effects:
  assumes "ConfirmedServicePolicyFor svc = Some p" "\<not> forceOutcomeUnknown opts"
  shows "(DefaultRetransmitPolicy svc = RetransmitEnabled \<longleftrightarrow> \<not> SideEffecting p)
    \<and> maybeUnknown opts svc cause sent
        = (if sent \<and> SideEffecting p then OutcomeUnknownError (Name p) cause else cause)"
  using assms ConfirmedServicePolicyFor_flags [OF assms(1)]
  by (auto simp: DefaultRetransmitPolicy_def maybeUnknown_def wrapOutcomeUnknown_def)

text \<open>A configuration that passes the construction check can always be advertised: the size the
  requests announce exists, has a code, is at least the BACnet minimum and is one the parser accepts.\<close>

theorem advertised_size_accepted:
  assumes "validateAdvertisedMaxAPDU advertised (MaxAPDUSize L) = Inr ()"
  shows "\<exists>n c. advertisedMaxAPDU advertised L = Inr n \<and> EncodeMaxAPDUSize n = Some c
    \<and> 50 \<le> n \<and> uint n \<le> MaxAPDUSize L"
proof -
  let ?n = "if advertised = 0 then word_of_int (MaxAPDUSize L) else advertised"
  have b: "0 < MaxAPDUSize L" "MaxAPDUSize L \<le> 65535" "50 \<le> ?n" "uint ?n \<le> MaxAPDUSize L"
    "EncodeMaxAPDUSize ?n \<noteq> None"
    using assms by (auto simp: validateAdvertisedMaxAPDU_def Let_def not_less not_le split: if_splits option.splits)
  moreover from b(3) have "?n \<noteq> 0" by auto
  ultimately show ?thesis by (auto simp: advertisedMaxAPDU_def)
qed

end
