(* ===== verification/Transactions.thy ===== *)
theory Transactions
  imports Policy Link "HOL-Library.AList"
begin

text \<open>
  The client's transaction table (\<^verbatim>\<open>client/transaction.go\<close>) and the matching of a response to the path
  of its request (\<^verbatim>\<open>client/path.go\<close>, \<^verbatim>\<open>normalizeTarget\<close> of \<^verbatim>\<open>client/confirmed.go\<close>). The table maps invoke IDs to
  shared \<^verbatim>\<open>*pendingTx\<close> objects which the requesting goroutine keeps after the entry is gone, so the
  model has a heap of transactions and the table holds their addresses. A result channel of capacity
  one is an optional value, a non-blocking send stores it if the channel is empty. Each operation is one step of
  the relation \<open>tx_step\<close>, in which a completion and its publication are not interleaved with others; the finer
  relation, in which they are, is in the theory \<open>Tx_Interleaving\<close>.
  Main results: a published result is final; an allocation hands out a free identifier whenever there is one; a
  quarantined identifier is not reused; retransmissions are bounded.
\<close>

section \<open>Sources and targets\<close>

record packetSource =
  bacnetAddress :: Address
  ps_origin :: Endpoint
  ps_immediate :: Endpoint

record Target =
  tgt_Address :: Address
  tgt_Endpoint :: Endpoint
  tgt_Origin :: Endpoint
  tgt_MaxAPDU :: u16

text \<open>The outer option of \<open>bipMACAddress\<close> and \<open>normalizeTarget\<close> is the panic of \<^verbatim>\<open>MustMAC\<close>.\<close>

definition bipMACAddress :: "Endpoint \<Rightarrow> Address option option" where
  "bipMACAddress ep = map_option (map_option LocalStation) (link_MAC ep)"

definition normalizeTarget :: "Target \<Rightarrow> (client_error + Target) option" where
  "normalizeTarget t =
     (if \<not> ep_IsValid (tgt_Endpoint t) then Some (Inl (Sentinel ErrMalformed))
      else if scope (tgt_Address t) = AddressLocalStation \<and> MAC_IsZero (addr_mac (tgt_Address t)) then
        map_option (\<lambda>r. case r of
            None \<Rightarrow> Inl (Sentinel ErrMalformed)
          | Some a \<Rightarrow> Inr (t\<lparr>tgt_Address := a\<rparr>)) (bipMACAddress (tgt_Endpoint t))
      else Some (Inr t))"

definition wrongNextHop :: "Target \<Rightarrow> packetSource \<Rightarrow> bool" where
  "wrongNextHop target src \<longleftrightarrow> ep_IsValid (tgt_Endpoint target) \<and> ep_IsValid (ps_immediate src)
     \<and> \<not> ep_Equal (tgt_Endpoint target) (ps_immediate src)"

definition matchTargetSource :: "Target \<Rightarrow> packetSource \<Rightarrow> bool" where
  "matchTargetSource target src =
     (if scope (tgt_Address target) \<in> {AddressRemoteStation, AddressRemoteBroadcast} then
        if bacnetAddress src \<noteq> tgt_Address target then False
        else \<not> wrongNextHop target src
      else if ep_IsValid (tgt_Origin target) then
        if \<not> ep_IsValid (ps_origin src) \<or> \<not> ep_Equal (tgt_Origin target) (ps_origin src) then False
        else \<not> wrongNextHop target src
      else if scope (bacnetAddress src) \<in> {AddressLocalStation, AddressRemoteStation}
          \<and> bacnetAddress src \<noteq> tgt_Address target then False
      else \<not> wrongNextHop target src)"

section \<open>Transactions and the table\<close>

datatype txPhase = txAwaitingInitial | txReceivingSegments | txSendingSegments

text \<open>A zero \<^verbatim>\<open>apdu.PDU\<close> and a nil error are \<open>None\<close>.\<close>

record txResult =
  res_pdu :: "PDU option"
  res_src :: "packetSource option"
  res_err :: "client_error option"

datatype timer_state = TimerStopped | TimerRunning int

record pendingTx =
  tx_invokeID :: u8
  tx_service :: u8
  tx_address :: Address
  tx_origin :: Endpoint
  tx_immediate :: Endpoint
  encodedAPDU :: bytes
  retriesLeft :: int
  tx_result :: "txResult option"
  tx_timer :: "timer_state option"
  tx_sent :: bool
  tx_phase :: txPhase

record txManager =
  nextID :: u8
  inUse :: "(u8 \<times> nat) list"
  reserved :: "u8 list"
  quarantine :: "(u8 \<times> int) list"
  tx_max :: int

text \<open>The manager beside the heap its pointers lead into: address \<open>p\<close> is \<open>heap s ! p\<close>.\<close>

record txStore =
  mgr :: txManager
  heap :: "pendingTx list"

definition newTxManager :: "int \<Rightarrow> txManager" where
  "newTxManager max' = \<lparr>nextID = 0, inUse = [], reserved = [], quarantine = [],
     tx_max = (if max' \<le> 0 \<or> max' > 255 then 255 else max')\<rparr>"

definition newTxStore :: "int \<Rightarrow> txStore" where
  "newTxStore max' = \<lparr>mgr = newTxManager max', heap = []\<rparr>"

section \<open>Operations\<close>

definition quarantined :: "txManager \<Rightarrow> int \<Rightarrow> u8 \<Rightarrow> bool" where
  "quarantined m now id' = (case map_of (quarantine m) id' of None \<Rightarrow> False | Some until \<Rightarrow> now < until)"

fun alloc_loop :: "nat \<Rightarrow> int \<Rightarrow> txManager \<Rightarrow> u8 option \<times> txManager" where
  "alloc_loop 0 now m = (None, m)"
| "alloc_loop (Suc n) now m =
     (let id' = nextID m; m = m\<lparr>nextID := id' + 1\<rparr> in
      if map_of (inUse m) id' \<noteq> None then alloc_loop n now m
      else if id' \<in> set (reserved m) then alloc_loop n now m
      else if quarantined m now id' then alloc_loop n now m
      else (Some id', m\<lparr>quarantine := AList.delete id' (quarantine m), reserved := id' # reserved m\<rparr>))"

definition tryAllocLocked :: "int \<Rightarrow> txManager \<Rightarrow> u8 option \<times> txManager" where
  "tryAllocLocked now m =
     (if int (length (inUse m)) + int (length (reserved m)) \<ge> tx_max m then (None, m)
      else alloc_loop 256 now m)"

definition tx_register :: "pendingTx \<Rightarrow> txStore \<Rightarrow> txStore" where
  "tx_register tx s = (let m = mgr s in
     \<lparr>mgr = m\<lparr>reserved := removeAll (tx_invokeID tx) (reserved m),
              inUse := AList.update (tx_invokeID tx) (length (heap s)) (inUse m)\<rparr>,
      heap = heap s @ [tx]\<rparr>)"

definition timer_stop :: "pendingTx \<Rightarrow> pendingTx" where
  "timer_stop tx = tx\<lparr>tx_timer := map_option (\<lambda>_. TimerStopped) (tx_timer tx)\<rparr>"

text \<open>\<^verbatim>\<open>select { case tx.result <- res: default: }\<close> on a channel of capacity one.\<close>

definition publish :: "txResult \<Rightarrow> pendingTx \<Rightarrow> pendingTx" where
  "publish res tx = (case tx_result tx of None \<Rightarrow> tx\<lparr>tx_result := Some res\<rparr> | Some _ \<Rightarrow> tx)"

definition heap_upd :: "nat \<Rightarrow> (pendingTx \<Rightarrow> pendingTx) \<Rightarrow> txStore \<Rightarrow> txStore" where
  "heap_upd p f s = s\<lparr>heap := (heap s)[p := f (heap s ! p)]\<rparr>"

text \<open>
  \<^verbatim>\<open>complete\<close> and \<^verbatim>\<open>abortAll\<close> take transactions out of the table under the mutex and publish their results after unlocking
  it. The two parts are separate definitions; a publication is what a goroutine that is between them still has to do.
\<close>

datatype publication = SendResult nat txResult | SendAbort nat client_error

primrec pub_ptr :: "publication \<Rightarrow> nat" where
  "pub_ptr (SendResult p res) = p"
| "pub_ptr (SendAbort p err) = p"

definition abort_result :: "client_error \<Rightarrow> pendingTx \<Rightarrow> txResult" where
  "abort_result err tx = \<lparr>res_pdu = None, res_src = None,
     res_err = Some (if tx_sent tx then wrapOutcomeUnknown (tx_service tx) err else err)\<rparr>"

primrec pub_result :: "publication \<Rightarrow> pendingTx \<Rightarrow> txResult" where
  "pub_result (SendResult p res) tx = res"
| "pub_result (SendAbort p err) tx = abort_result err tx"

definition tx_send :: "publication \<Rightarrow> txStore \<Rightarrow> txStore" where
  "tx_send pub = heap_upd (pub_ptr pub) (\<lambda>tx. publish (pub_result pub tx) (timer_stop tx))"

definition tx_remove :: "u8 \<Rightarrow> int \<Rightarrow> int \<Rightarrow> txStore \<Rightarrow> nat option \<times> txStore" where
  "tx_remove invokeID q now s =
     (case map_of (inUse (mgr s)) invokeID of
        None \<Rightarrow> (None, s)
      | Some p \<Rightarrow>
          (let m = (mgr s)\<lparr>inUse := AList.delete invokeID (inUse (mgr s))\<rparr>;
               m = (if q > 0 then m\<lparr>quarantine := AList.update invokeID (now + q) (quarantine m)\<rparr> else m) in
           (Some p, s\<lparr>mgr := m\<rparr>)))"

definition tx_complete :: "u8 \<Rightarrow> txResult \<Rightarrow> int \<Rightarrow> int \<Rightarrow> txStore \<Rightarrow> bool \<times> txStore" where
  "tx_complete invokeID res q now s =
     (case tx_remove invokeID q now s of
        (None, s) \<Rightarrow> (False, s)
      | (Some p, s) \<Rightarrow> (True, tx_send (SendResult p res) s))"

definition enterPhase :: "txPhase \<Rightarrow> u8 \<Rightarrow> txStore \<Rightarrow> bool \<times> txStore" where
  "enterPhase ph invokeID s =
     (case map_of (inUse (mgr s)) invokeID of
        None \<Rightarrow> (False, s)
      | Some p \<Rightarrow> (True, heap_upd p (\<lambda>tx. timer_stop (tx\<lparr>tx_phase := ph, retriesLeft := 0\<rparr>)) s))"

definition enterSegmented :: "u8 \<Rightarrow> txStore \<Rightarrow> bool \<times> txStore" where
  "enterSegmented = enterPhase txReceivingSegments"

definition enterSendingSegments :: "u8 \<Rightarrow> txStore \<Rightarrow> bool \<times> txStore" where
  "enterSendingSegments = enterPhase txSendingSegments"

definition enterAwaitingResponse :: "u8 \<Rightarrow> int \<Rightarrow> txStore \<Rightarrow> bool \<times> txStore" where
  "enterAwaitingResponse invokeID d s =
     (case map_of (inUse (mgr s)) invokeID of
        None \<Rightarrow> (False, s)
      | Some p \<Rightarrow> (True, heap_upd p (\<lambda>tx. tx\<lparr>tx_phase := txAwaitingInitial,
          tx_timer := (if d > 0 then map_option (\<lambda>_. TimerRunning d) (tx_timer tx) else tx_timer tx)\<rparr>) s))"

datatype timeoutAction = timeoutGone | timeoutIgnoreSegmented | timeoutRetransmit | timeoutFail

definition onTimeout :: "u8 \<Rightarrow> bool \<Rightarrow> txStore \<Rightarrow> timeoutAction \<times> txStore" where
  "onTimeout invokeID retransmitAllowed s =
     (case map_of (inUse (mgr s)) invokeID of
        None \<Rightarrow> (timeoutGone, s)
      | Some p \<Rightarrow>
          (let tx = heap s ! p in
           if tx_phase tx = txReceivingSegments \<or> tx_phase tx = txSendingSegments then (timeoutIgnoreSegmented, s)
           else if retransmitAllowed \<and> retriesLeft tx > 0 then
             (timeoutRetransmit, heap_upd p (\<lambda>tx. tx\<lparr>retriesLeft := retriesLeft tx - 1\<rparr>) s)
           else (timeoutFail, s)))"

definition phase_of :: "u8 \<Rightarrow> txStore \<Rightarrow> txPhase option" where
  "phase_of invokeID s = map_option (\<lambda>p. tx_phase (heap s ! p)) (map_of (inUse (mgr s)) invokeID)"

definition tx_lookup :: "u8 \<Rightarrow> txStore \<Rightarrow> pendingTx option" where
  "tx_lookup invokeID s = map_option (\<lambda>p. heap s ! p) (map_of (inUse (mgr s)) invokeID)"

definition matchSource :: "pendingTx \<Rightarrow> packetSource \<Rightarrow> bool" where
  "matchSource tx src = matchTargetSource
     \<lparr>tgt_Address = tx_address tx, tgt_Endpoint = tx_immediate tx, tgt_Origin = tx_origin tx, tgt_MaxAPDU = 0\<rparr> src"

definition tx_drain :: "client_error \<Rightarrow> txStore \<Rightarrow> publication list \<times> txStore" where
  "tx_drain err s = (map (\<lambda>(_, p). SendAbort p err) (inUse (mgr s)), s\<lparr>mgr := (mgr s)\<lparr>inUse := []\<rparr>\<rparr>)"

definition abortAll :: "client_error \<Rightarrow> txStore \<Rightarrow> txStore" where
  "abortAll err s = (let (pubs, s) = tx_drain err s in foldl (\<lambda>s pub. tx_send pub s) s pubs)"

text \<open>What the requesting goroutine writes to its own transaction: the encoded APDU and the sent flag.\<close>

definition setEncoded :: "nat \<Rightarrow> bytes \<Rightarrow> txStore \<Rightarrow> txStore" where
  "setEncoded p bs = heap_upd p (\<lambda>tx. tx\<lparr>encodedAPDU := bs\<rparr>)"

definition markSent :: "nat \<Rightarrow> txStore \<Rightarrow> txStore" where
  "markSent p = heap_upd p (\<lambda>tx. tx\<lparr>tx_sent := True\<rparr>)"

lemma tx_complete_unfold:
  "tx_complete invokeID res q now s =
     (case map_of (inUse (mgr s)) invokeID of
        None \<Rightarrow> (False, s)
      | Some p \<Rightarrow>
          (let m = (mgr s)\<lparr>inUse := AList.delete invokeID (inUse (mgr s))\<rparr>;
               m = (if q > 0 then m\<lparr>quarantine := AList.update invokeID (now + q) (quarantine m)\<rparr> else m) in
           (True, heap_upd p (\<lambda>tx. publish res (timer_stop tx)) (s\<lparr>mgr := m\<rparr>))))"
  by (simp add: tx_complete_def tx_remove_def tx_send_def Let_def split: option.split)

lemma abortAll_unfold:
  "abortAll err s = foldl (\<lambda>s (_, p). heap_upd p (\<lambda>tx. publish (abort_result err tx) (timer_stop tx)) s)
     (s\<lparr>mgr := (mgr s)\<lparr>inUse := []\<rparr>\<rparr>) (inUse (mgr s))"
  by (simp add: abortAll_def tx_drain_def tx_send_def foldl_map) (rule foldl_cong; simp add: case_prod_beta)

section \<open>The table as a state machine\<close>

text \<open>
  One rule per operation, with the clock reading of the operation in the label. A transaction
  is registered under an identifier that was allocated for it, with an empty result channel; that is the
  only obligation on the callers.
\<close>

datatype tx_event =
    EvAlloc int "u8 option" | EvRegister pendingTx | EvComplete u8 txResult int int
  | EvSegmented u8 | EvSending u8 | EvAwaiting u8 int | EvTimeout u8 bool timeoutAction
  | EvAbortAll client_error | EvEncoded nat bytes | EvSent nat

inductive tx_step :: "txStore \<Rightarrow> tx_event \<Rightarrow> txStore \<Rightarrow> bool" where
  alloc: "tryAllocLocked now (mgr s) = (r, m) \<Longrightarrow> tx_step s (EvAlloc now r) (s\<lparr>mgr := m\<rparr>)"
| register: "tx_invokeID tx \<in> set (reserved (mgr s)) \<Longrightarrow> tx_result tx = None \<Longrightarrow>
    tx_step s (EvRegister tx) (tx_register tx s)"
| complete: "tx_step s (EvComplete invokeID res q now) (snd (tx_complete invokeID res q now s))"
| segmented: "tx_step s (EvSegmented invokeID) (snd (enterSegmented invokeID s))"
| sending: "tx_step s (EvSending invokeID) (snd (enterSendingSegments invokeID s))"
| awaiting: "tx_step s (EvAwaiting invokeID d) (snd (enterAwaitingResponse invokeID d s))"
| timeout: "onTimeout invokeID allowed s = (a, s') \<Longrightarrow> tx_step s (EvTimeout invokeID allowed a) s'"
| abort: "tx_step s (EvAbortAll err) (abortAll err s)"
| encoded: "p < length (heap s) \<Longrightarrow> tx_step s (EvEncoded p bs) (setEncoded p bs s)"
| sent: "p < length (heap s) \<Longrightarrow> tx_step s (EvSent p) (markSent p s)"

inductive_cases tx_step_allocE: "tx_step s (EvAlloc now r) s'"
inductive_cases tx_step_timeoutE: "tx_step s (EvTimeout invokeID allowed a) s'"

inductive tx_run :: "txStore \<Rightarrow> tx_event list \<Rightarrow> txStore \<Rightarrow> bool" where
  Nil: "tx_run s [] s"
| Cons: "tx_step s e t \<Longrightarrow> tx_run t es u \<Longrightarrow> tx_run s (e # es) u"

inductive_simps tx_run_Cons_iff: "tx_run s (e # es) u"

text \<open>
  The invariant. Identifiers in the table, reserved identifiers and addresses in the table are
  distinct, the two groups are disjoint and within the capacity; an entry leads to a transaction of its
  identifier, and exactly the transactions outside the table have a result.
\<close>

definition wf_mgr :: "txManager \<Rightarrow> bool" where
  "wf_mgr m \<longleftrightarrow> distinct (map fst (inUse m)) \<and> distinct (map snd (inUse m)) \<and> distinct (reserved m)
     \<and> set (reserved m) \<inter> fst ` set (inUse m) = {}
     \<and> int (length (inUse m)) + int (length (reserved m)) \<le> tx_max m \<and> 0 < tx_max m \<and> tx_max m \<le> 255"

definition wf_heap :: "txStore \<Rightarrow> bool" where
  "wf_heap s \<longleftrightarrow> (\<forall>(i, p) \<in> set (inUse (mgr s)). p < length (heap s) \<and> tx_invokeID (heap s ! p) = i)
     \<and> (\<forall>p < length (heap s). tx_result (heap s ! p) = None \<longleftrightarrow> p \<in> snd ` set (inUse (mgr s)))"

definition wf_tx :: "txStore \<Rightarrow> bool" where
  "wf_tx s \<longleftrightarrow> wf_mgr (mgr s) \<and> wf_heap s"

section \<open>Allocation\<close>

definition free_id :: "txManager \<Rightarrow> int \<Rightarrow> u8 \<Rightarrow> bool" where
  "free_id m now i \<longleftrightarrow> i \<notin> fst ` set (inUse m) \<and> i \<notin> set (reserved m) \<and> \<not> quarantined m now i"

lemma free_id_nextID [simp]: "free_id (m\<lparr>nextID := k\<rparr>) now i = free_id m now i"
  by (simp add: free_id_def quarantined_def)

lemma alloc_loop_Suc:
  "alloc_loop (Suc n) now m =
     (if free_id m now (nextID m) then
        (Some (nextID m), m\<lparr>nextID := nextID m + 1, quarantine := AList.delete (nextID m) (quarantine m),
            reserved := nextID m # reserved m\<rparr>)
      else alloc_loop n now (m\<lparr>nextID := nextID m + 1\<rparr>))"
  by (simp add: Let_def free_id_def quarantined_def flip: map_of_eq_None_iff)

lemma alloc_loop_result:
  "alloc_loop n now m = (r, m') \<Longrightarrow>
     (case r of
        None \<Rightarrow> (\<forall>k < n. \<not> free_id m now (nextID m + of_nat k)) \<and> (\<exists>j. m' = m\<lparr>nextID := j\<rparr>)
      | Some i \<Rightarrow> free_id m now i \<and>
          m' = m\<lparr>nextID := i + 1, quarantine := AList.delete i (quarantine m), reserved := i # reserved m\<rparr>)"
proof (induction n arbitrary: m)
  case 0
  then show ?case by (auto intro: exI [of _ "nextID m"])
next
  case (Suc n)
  show ?case
  proof (cases "free_id m now (nextID m)")
    case True
    with Suc.prems show ?thesis unfolding alloc_loop_Suc by auto
  next
    case False
    with Suc.prems have "alloc_loop n now (m\<lparr>nextID := nextID m + 1\<rparr>) = (r, m')"
      unfolding alloc_loop_Suc by simp
    from Suc.IH [OF this] False show ?thesis
      by (auto simp: less_Suc_eq_0_disj algebra_simps split: option.splits)
  qed
qed

lemma u8_offset: "\<exists>k < 256. (i :: u8) = j + of_nat k"
  by (rule exI [of _ "unat (i - j)"]) (use unsigned_less [of "i - j"] in simp)

lemma tryAlloc_result:
  assumes "tryAllocLocked now m = (r, m')"
  shows "case r of
      None \<Rightarrow> (tx_max m \<le> int (length (inUse m)) + int (length (reserved m)) \<or> (\<forall>i. \<not> free_id m now i))
        \<and> (\<exists>j. m' = m\<lparr>nextID := j\<rparr>)
    | Some i \<Rightarrow> int (length (inUse m)) + int (length (reserved m)) < tx_max m \<and> free_id m now i \<and>
        m' = m\<lparr>nextID := i + 1, quarantine := AList.delete i (quarantine m), reserved := i # reserved m\<rparr>"
proof (cases "tx_max m \<le> int (length (inUse m)) + int (length (reserved m))")
  case True
  with assms show ?thesis by (auto simp: tryAllocLocked_def intro: exI [of _ "nextID m"])
next
  case False
  with assms have "alloc_loop 256 now m = (r, m')" by (simp add: tryAllocLocked_def)
  from alloc_loop_result [OF this] False show ?thesis
    using u8_offset [of _ "nextID m"] by (cases r) (simp_all, metis)
qed

section \<open>Every operation keeps the invariant\<close>

lemma heap_upd_sel [simp]:
  "mgr (heap_upd p f s) = mgr s" "length (heap (heap_upd p f s)) = length (heap s)"
  "p < length (heap s) \<Longrightarrow> heap (heap_upd p f s) ! k = (if k = p then f (heap s ! p) else heap s ! k)"
  by (simp_all add: heap_upd_def nth_list_update)

text \<open>An update that keeps the identifier and the result of the transaction is invisible to the invariant.\<close>

lemma wf_tx_heap_upd:
  assumes "wf_tx s" "p < length (heap s)"
    "tx_invokeID (f (heap s ! p)) = tx_invokeID (heap s ! p)" "tx_result (f (heap s ! p)) = tx_result (heap s ! p)"
  shows "wf_tx (heap_upd p f s)"
  using assms by (auto simp: wf_tx_def wf_heap_def)

lemma wf_tx_entry: "wf_tx s \<Longrightarrow> map_of (inUse (mgr s)) i = Some p \<Longrightarrow>
    p < length (heap s) \<and> tx_invokeID (heap s ! p) = i \<and> tx_result (heap s ! p) = None"
  unfolding wf_tx_def wf_heap_def by (drule map_of_SomeD) force

lemma wf_tx_new: "wf_tx (newTxStore n)"
  by (simp add: wf_tx_def wf_mgr_def wf_heap_def newTxStore_def newTxManager_def)

lemma wf_mgr_nextID [simp]: "wf_mgr (m\<lparr>nextID := j\<rparr>) = wf_mgr m"
  by (simp add: wf_mgr_def)

lemma wf_heap_mgr: "inUse m = inUse (mgr s) \<Longrightarrow> wf_heap (s\<lparr>mgr := m\<rparr>) = wf_heap s"
  by (simp add: wf_heap_def)

lemma wf_tx_alloc:
  assumes "wf_tx s" "tryAllocLocked now (mgr s) = (r, m)"
  shows "wf_tx (s\<lparr>mgr := m\<rparr>)"
proof (cases r)
  case None
  then obtain j where "m = (mgr s)\<lparr>nextID := j\<rparr>" using tryAlloc_result [OF assms(2)] by auto
  with assms(1) show ?thesis by (simp add: wf_tx_def wf_heap_mgr)
next
  case (Some i)
  with tryAlloc_result [OF assms(2)] assms(1) show ?thesis
    by (simp add: wf_tx_def wf_heap_mgr wf_mgr_def free_id_def)
qed

lemma update_fresh: "k \<notin> fst ` set xs \<Longrightarrow> AList.update k v xs = xs @ [(k, v)]"
  by (induction xs) auto

lemma length_removeAll_distinct: "distinct xs \<Longrightarrow> x \<in> set xs \<Longrightarrow> Suc (length (removeAll x xs)) = length xs"
  by (induction xs) (auto simp: removeAll_id)

lemma wf_tx_register:
  assumes "wf_tx s" "tx_invokeID tx \<in> set (reserved (mgr s))" "tx_result tx = None"
  shows "wf_tx (tx_register tx s)"
proof -
  have f: "tx_invokeID tx \<notin> fst ` set (inUse (mgr s))" and n: "length (heap s) \<notin> snd ` set (inUse (mgr s))"
    using assms by (auto simp: wf_tx_def wf_mgr_def wf_heap_def)
  have l: "Suc (length (removeAll (tx_invokeID tx) (reserved (mgr s)))) = length (reserved (mgr s))"
    using assms by (intro length_removeAll_distinct) (auto simp: wf_tx_def wf_mgr_def)
  have "wf_mgr (mgr (tx_register tx s))"
    using assms(1) f n l by (auto simp: tx_register_def Let_def wf_tx_def wf_mgr_def update_fresh distinct_removeAll)
  moreover have h: "inUse (mgr (tx_register tx s)) = inUse (mgr s) @ [(tx_invokeID tx, length (heap s))]"
      "heap (tx_register tx s) = heap s @ [tx]"
    using f by (simp_all add: tx_register_def Let_def update_fresh)
  have w: "\<forall>(i, p) \<in> set (inUse (mgr s)). p < length (heap s) \<and> tx_invokeID (heap s ! p) = i"
      "\<forall>p < length (heap s). tx_result (heap s ! p) = None \<longleftrightarrow> p \<in> snd ` set (inUse (mgr s))"
    using assms(1) by (simp_all add: wf_tx_def wf_heap_def)
  have "wf_heap (tx_register tx s)"
    unfolding wf_heap_def h using w assms(3) n by (simp add: nth_append less_Suc_eq case_prod_beta)
  ultimately show ?thesis by (simp add: wf_tx_def)
qed

lemma wf_mgr_delete: "wf_mgr m \<Longrightarrow> wf_mgr (m\<lparr>inUse := AList.delete i (inUse m)\<rparr>)"
  using length_delete_le [of i "inUse m"] dom_delete_subset [of i "inUse m"]
    distinct_map_filter [of snd "inUse m" "\<lambda>(k, _). i \<noteq> k"]
  unfolding wf_mgr_def by (auto simp: distinct_delete simp flip: AList.delete_eq)

lemma publish_sel [simp]:
  "tx_invokeID (publish r tx) = tx_invokeID tx" "tx_result (publish r tx) = Some (case tx_result tx of None \<Rightarrow> r | Some q \<Rightarrow> q)"
  by (simp_all add: publish_def split: option.split)

lemma timer_stop_sel [simp]:
  "tx_invokeID (timer_stop tx) = tx_invokeID tx" "tx_result (timer_stop tx) = tx_result tx"
  "retriesLeft (timer_stop tx) = retriesLeft tx" "tx_phase (timer_stop tx) = tx_phase tx"
  by (simp_all add: timer_stop_def)

lemma snd_delete:
  "distinct (map fst xs) \<Longrightarrow> distinct (map snd xs) \<Longrightarrow> (i, p) \<in> set xs \<Longrightarrow>
     snd ` set (AList.delete i xs) = snd ` set xs - {p}"
  by (induction xs) (auto simp: image_iff rev_image_eqI; force)+

lemma wf_tx_complete: "wf_tx s \<Longrightarrow> wf_tx (snd (tx_complete i res q now s))"
proof (cases "map_of (inUse (mgr s)) i")
  case None
  then show "wf_tx s \<Longrightarrow> ?thesis" by (simp add: tx_complete_unfold)
next
  case (Some p)
  assume wf: "wf_tx s"
  note e = wf_tx_entry [OF wf Some] map_of_SomeD [OF Some]
  let ?s = "snd (tx_complete i res q now s)"
  have u: "inUse (mgr ?s) = AList.delete i (inUse (mgr s))" "reserved (mgr ?s) = reserved (mgr s)" "tx_max (mgr ?s) = tx_max (mgr s)"
    and h: "length (heap ?s) = length (heap s)"
      "\<And>k. heap ?s ! k = (if k = p then publish res (timer_stop (heap s ! p)) else heap s ! k)"
    using Some e by (auto simp: tx_complete_unfold Let_def)
  have "wf_mgr (mgr ?s)"
    using wf_mgr_delete [of "mgr s" i] wf u by (simp add: wf_tx_def wf_mgr_def)
  moreover have "snd ` set (AList.delete i (inUse (mgr s))) = snd ` set (inUse (mgr s)) - {p}"
    using wf e by (intro snd_delete) (simp_all add: wf_tx_def wf_mgr_def)
  with wf e have "wf_heap ?s"
    by (auto simp: wf_tx_def wf_heap_def u h AList.delete_eq)
  ultimately show ?thesis by (simp add: wf_tx_def)
qed

lemma wf_tx_enterPhase: "wf_tx s \<Longrightarrow> wf_tx (snd (enterPhase ph i s))"
  by (auto simp: enterPhase_def wf_tx_entry intro!: wf_tx_heap_upd split: option.split)

lemma wf_tx_awaiting: "wf_tx s \<Longrightarrow> wf_tx (snd (enterAwaitingResponse i d s))"
  by (auto simp: enterAwaitingResponse_def wf_tx_entry intro!: wf_tx_heap_upd split: option.split)

lemma wf_tx_timeout: "wf_tx s \<Longrightarrow> wf_tx (snd (onTimeout i allowed s))"
  by (auto simp: onTimeout_def Let_def wf_tx_entry intro!: wf_tx_heap_upd split: option.split)

lemma foldl_heap_upd:
  assumes "distinct (map snd xs)" "\<And>p. p \<in> snd ` set xs \<Longrightarrow> p < length (heap s)"
  shows "mgr (foldl (\<lambda>s (_, p). heap_upd p f s) s xs) = mgr s"
    "length (heap (foldl (\<lambda>s (_, p). heap_upd p f s) s xs)) = length (heap s)"
    "heap (foldl (\<lambda>s (_, p). heap_upd p f s) s xs) ! k = (if k \<in> snd ` set xs then f (heap s ! k) else heap s ! k)"
  using assms by (induction xs arbitrary: s) (auto simp: image_iff split: prod.splits)

lemma abortAll_sel:
  assumes "wf_tx s"
  shows "mgr (abortAll err s) = (mgr s)\<lparr>inUse := []\<rparr>" "length (heap (abortAll err s)) = length (heap s)"
    "heap (abortAll err s) ! k = (if k \<in> snd ` set (inUse (mgr s))
       then publish (abort_result err (heap s ! k)) (timer_stop (heap s ! k)) else heap s ! k)"
proof -
  let ?s = "s\<lparr>mgr := (mgr s)\<lparr>inUse := []\<rparr>\<rparr>"
  have d: "distinct (map snd (inUse (mgr s)))" and b: "\<And>p. p \<in> snd ` set (inUse (mgr s)) \<Longrightarrow> p < length (heap ?s)"
    using assms by (auto simp: wf_tx_def wf_mgr_def wf_heap_def)
  note f = foldl_heap_upd [OF d b, where f = "\<lambda>tx. publish (abort_result err tx) (timer_stop tx)"]
  show "mgr (abortAll err s) = (mgr s)\<lparr>inUse := []\<rparr>" "length (heap (abortAll err s)) = length (heap s)"
    "heap (abortAll err s) ! k = (if k \<in> snd ` set (inUse (mgr s))
       then publish (abort_result err (heap s ! k)) (timer_stop (heap s ! k)) else heap s ! k)"
    unfolding abortAll_unfold by (simp_all add: f)
qed

lemma wf_tx_abortAll: "wf_tx s \<Longrightarrow> wf_tx (abortAll err s)"
  using abortAll_sel [of s err] by (simp add: wf_tx_def wf_mgr_def wf_heap_def flip: not_None_eq)

lemma tx_step_wf: "tx_step s e t \<Longrightarrow> wf_tx s \<Longrightarrow> wf_tx t"
proof (induction rule: tx_step.induct)
  case (timeout i allowed s a s')
  then show ?case using wf_tx_timeout [of s i allowed] by simp
qed (auto intro: wf_tx_alloc wf_tx_register wf_tx_complete wf_tx_abortAll wf_tx_enterPhase wf_tx_awaiting wf_tx_heap_upd
    simp: enterSegmented_def enterSendingSegments_def setEncoded_def markSent_def)

lemma tx_run_wf: "tx_run s es t \<Longrightarrow> wf_tx s \<Longrightarrow> wf_tx t"
  by (induction rule: tx_run.induct) (auto dest: tx_step_wf)

section \<open>Results are final\<close>

text \<open>No step takes a transaction out of the heap, changes its identifier or replaces a published result.\<close>

lemma tx_complete_heap:
  assumes "wf_tx s" "p < length (heap s)" "tx_result (heap s ! p) = Some r"
  shows "p < length (heap (snd (tx_complete i res q now s))) \<and> tx_result (heap (snd (tx_complete i res q now s)) ! p) = Some r"
  using assms wf_tx_entry [OF assms(1), of i] by (auto simp: tx_complete_unfold Let_def split: option.split)

lemma tx_step_result:
  "tx_step s e t \<Longrightarrow> wf_tx s \<Longrightarrow> p < length (heap s) \<Longrightarrow> tx_result (heap s ! p) = Some r \<Longrightarrow>
     p < length (heap t) \<and> tx_result (heap t ! p) = Some r"
proof (induction rule: tx_step.induct)
  case (timeout i allowed s a s')
  then show ?case using wf_tx_entry [of s i]
    by (auto simp: onTimeout_def Let_def split: option.splits if_splits)
next
  case (complete s i res q now)
  then show ?case by (intro tx_complete_heap)
next
  case (segmented s i)
  then show ?case using wf_tx_entry [of s i] by (auto simp: enterSegmented_def enterPhase_def split: option.split)
next
  case (sending s i)
  then show ?case using wf_tx_entry [of s i] by (auto simp: enterSendingSegments_def enterPhase_def split: option.split)
next
  case (awaiting s i d)
  then show ?case using wf_tx_entry [of s i] by (auto simp: enterAwaitingResponse_def split: option.split)
qed (auto simp: tx_register_def Let_def nth_append abortAll_sel setEncoded_def markSent_def)

lemma tx_run_result:
  "tx_run s es t \<Longrightarrow> wf_tx s \<Longrightarrow> p < length (heap s) \<Longrightarrow> tx_result (heap s ! p) = Some r \<Longrightarrow>
     p < length (heap t) \<and> tx_result (heap t ! p) = Some r"
proof (induction rule: tx_run.induct)
  case (Cons s e t es u)
  then show ?case using tx_step_result [OF Cons.hyps(1)] tx_step_wf [OF Cons.hyps(1)] by blast
qed simp

section \<open>Quarantine\<close>

text \<open>The identifier is out of circulation until \<open>until\<close>.\<close>

definition held_back :: "u8 \<Rightarrow> int \<Rightarrow> txStore \<Rightarrow> bool" where
  "held_back i until s \<longleftrightarrow> map_of (quarantine (mgr s)) i = Some until
     \<and> i \<notin> set (reserved (mgr s)) \<and> i \<notin> fst ` set (inUse (mgr s))"

fun before :: "int \<Rightarrow> tx_event \<Rightarrow> bool" where
  "before until (EvAlloc now _) \<longleftrightarrow> now < until"
| "before until _ \<longleftrightarrow> True"

lemma complete_held_back:
  assumes "wf_tx s" "fst (tx_complete i res q now s)" "0 < q"
  shows "held_back i (now + q) (snd (tx_complete i res q now s))"
proof -
  obtain p where p: "map_of (inUse (mgr s)) i = Some p" using assms(2) by (auto simp: tx_complete_unfold split: option.splits)
  with assms(1) have "i \<notin> set (reserved (mgr s))" by (force simp: wf_tx_def wf_mgr_def disjoint_iff dest!: map_of_SomeD)
  with p assms(3) show ?thesis
    using delete_notin_dom [of i "inUse (mgr s)"] by (simp add: tx_complete_unfold held_back_def Let_def update_conv')
qed

lemma held_back_heap_upd [simp]: "held_back i until (heap_upd p f s) = held_back i until s"
  by (simp add: held_back_def)

lemma held_back_alloc:
  assumes "held_back i until s" "tryAllocLocked now (mgr s) = (r, m)" "now < until"
  shows "held_back i until (s\<lparr>mgr := m\<rparr>)"
proof (cases r)
  case None
  with tryAlloc_result [OF assms(2)] assms(1) show ?thesis by (auto simp: held_back_def)
next
  case (Some j)
  with tryAlloc_result [OF assms(2)] have j: "free_id (mgr s) now j"
    "m = (mgr s)\<lparr>nextID := j + 1, quarantine := AList.delete j (quarantine (mgr s)), reserved := j # reserved (mgr s)\<rparr>"
    by auto
  have "j \<noteq> i" using j(1) assms(1,3) by (auto simp: free_id_def held_back_def quarantined_def)
  with j(2) assms(1) show ?thesis by (simp add: held_back_def)
qed

lemma held_back_step:
  "tx_step s e t \<Longrightarrow> held_back i until s \<Longrightarrow> before until e \<Longrightarrow> wf_tx s \<Longrightarrow> held_back i until t"
proof (induction rule: tx_step.induct)
  case (alloc now s r m)
  then show ?case by (intro held_back_alloc) simp_all
next
  case (timeout j allowed s a s')
  then show ?case by (auto simp: onTimeout_def Let_def split: option.splits if_splits)
next
  case (complete s j res q now)
  then have "map_of (inUse (mgr s)) i = None" by (simp add: held_back_def map_of_eq_None_iff)
  with complete show ?case using dom_delete_subset [of j "inUse (mgr s)"]
    by (cases "j = i") (auto simp: tx_complete_unfold held_back_def Let_def update_conv' split: option.split)
qed (auto simp: held_back_def tx_register_def Let_def dom_update abortAll_sel enterSegmented_def enterSendingSegments_def
    enterPhase_def enterAwaitingResponse_def setEncoded_def markSent_def split: option.split)

lemma held_back_run:
  "tx_run s es t \<Longrightarrow> held_back i until s \<Longrightarrow> list_all (before until) es \<Longrightarrow> wf_tx s \<Longrightarrow> held_back i until t"
  by (induction rule: tx_run.induct) (auto dest: held_back_step tx_step_wf)

section \<open>Retransmissions\<close>

definition retry_budget :: "txStore \<Rightarrow> nat" where
  "retry_budget s = sum_list (map (\<lambda>tx. nat (retriesLeft tx)) (heap s))"

fun granted :: "tx_event \<Rightarrow> nat" where
  "granted (EvRegister tx) = nat (retriesLeft tx)"
| "granted _ = 0"

fun retransmission :: "tx_event \<Rightarrow> nat" where
  "retransmission (EvTimeout _ _ timeoutRetransmit) = 1"
| "retransmission _ = 0"

lemma sum_list_upd_mono:
  "p < length xs \<Longrightarrow> f y + k \<le> f (xs ! p) \<Longrightarrow> sum_list (map f (xs[p := y])) + k \<le> (sum_list (map f xs) :: nat)"
  by (induction xs arbitrary: p) (auto simp: nth_Cons split: nat.splits; force)+

lemma retry_budget_upd:
  "p < length (heap s) \<Longrightarrow> nat (retriesLeft (f (heap s ! p))) + k \<le> nat (retriesLeft (heap s ! p)) \<Longrightarrow>
     retry_budget (heap_upd p f s) + k \<le> retry_budget s"
  unfolding retry_budget_def heap_upd_def by (simp add: sum_list_upd_mono)

lemma publish_retries [simp]: "retriesLeft (publish r tx) = retriesLeft tx"
  by (simp add: publish_def split: option.split)

lemma retry_budget_abortAll:
  assumes "wf_tx s"
  shows "retry_budget (abortAll err s) = retry_budget s"
proof -
  have "map (\<lambda>tx. nat (retriesLeft tx)) (heap (abortAll err s)) = map (\<lambda>tx. nat (retriesLeft tx)) (heap s)"
    by (rule nth_equalityI) (simp_all add: abortAll_sel [OF assms])
  then show ?thesis by (simp add: retry_budget_def)
qed

lemma retry_budget_mgr [simp]: "retry_budget (s\<lparr>mgr := m\<rparr>) = retry_budget s"
  by (simp add: retry_budget_def)

lemma retry_budget_same:
  "p < length (heap s) \<Longrightarrow> nat (retriesLeft (f (heap s ! p))) \<le> nat (retriesLeft (heap s ! p)) \<Longrightarrow>
     retry_budget (heap_upd p f s) \<le> retry_budget s"
  using retry_budget_upd [of p s f 0] by simp

lemma tx_step_budget:
  "tx_step s e t \<Longrightarrow> wf_tx s \<Longrightarrow> retransmission e + retry_budget t \<le> granted e + retry_budget s"
proof (induction rule: tx_step.induct)
  case (timeout i allowed s a s')
  then show ?case using wf_tx_entry [of s i] retry_budget_upd [of _ s "\<lambda>tx. tx\<lparr>retriesLeft := retriesLeft tx - 1\<rparr>" 1]
    by (auto simp: onTimeout_def Let_def split: option.splits if_splits)
next
  case (register tx s)
  then show ?case by (simp add: tx_register_def Let_def retry_budget_def)
next
  case (complete s i res q now)
  then show ?case using wf_tx_entry [of s i]
    by (auto simp: tx_complete_unfold Let_def split: option.split intro!: order.trans [OF retry_budget_same])
qed (auto simp: retry_budget_abortAll enterSegmented_def enterSendingSegments_def enterPhase_def enterAwaitingResponse_def
    setEncoded_def markSent_def wf_tx_entry intro!: retry_budget_same split: option.split)

lemma tx_run_budget:
  "tx_run s es t \<Longrightarrow> wf_tx s \<Longrightarrow>
     sum_list (map retransmission es) + retry_budget t \<le> sum_list (map granted es) + retry_budget s"
proof (induction rule: tx_run.induct)
  case (Cons s e t es u)
  then show ?case using tx_step_budget [OF Cons.hyps(1)] tx_step_wf [OF Cons.hyps(1)] by fastforce
qed simp

section \<open>A free identifier exists below the capacity\<close>

lemma free_identifier:
  assumes "wf_mgr m" "int (length (inUse m)) + int (length (reserved m)) < tx_max m" "\<forall>i. \<not> quarantined m now i"
  shows "\<exists>i. free_id m now i"
proof -
  let ?U = "fst ` set (inUse m) \<union> set (reserved m)"
  have "card ?U \<le> length (inUse m) + length (reserved m)"
    by (rule order.trans [OF card_Un_le])
      (metis add_mono card_image_le card_length finite_set order.trans)
  also have "\<dots> < CARD(u8)" using assms by (simp add: wf_mgr_def card_word)
  finally have "?U \<noteq> UNIV" by auto
  then obtain i where "i \<notin> ?U" by blast
  with assms(3) have "free_id m now i" by (auto simp: free_id_def)
  then show ?thesis ..
qed

section \<open>A sample run\<close>

text \<open>A read request with two retries, allocated, registered, timed out once and answered.\<close>

definition sampleTx :: pendingTx where
  "sampleTx = \<lparr>tx_invokeID = 0, tx_service = 12, tx_address = zeroAddress, tx_origin = zeroEndpoint,
     tx_immediate = zeroEndpoint, encodedAPDU = [], retriesLeft = 2, tx_result = None,
     tx_timer = Some (TimerRunning 3), tx_sent = False, tx_phase = txAwaitingInitial\<rparr>"

definition sampleResult :: txResult where
  "sampleResult = \<lparr>res_pdu = None, res_src = None, res_err = Some (Sentinel ErrTimeout)\<rparr>"

definition sampleEvents :: "tx_event list" where
  "sampleEvents = [EvAlloc 1 (Some 0), EvRegister sampleTx, EvTimeout 0 True timeoutRetransmit]"

definition samplePending :: txStore where
  "samplePending = \<lparr>mgr = (newTxManager 4)\<lparr>nextID := 1, inUse := [(0, 0)]\<rparr>, heap = [sampleTx\<lparr>retriesLeft := 1\<rparr>]\<rparr>"

lemma tryAlloc_new: "tryAllocLocked now (newTxManager 4) = (Some 0, (newTxManager 4)\<lparr>nextID := 1, reserved := [0]\<rparr>)"
  by (simp add: tryAllocLocked_def newTxManager_def quarantined_def numeral_eq_Suc)

lemma sample_run: "tx_run (newTxStore 4) sampleEvents samplePending"
  unfolding sampleEvents_def
proof (intro tx_run.intros)
  let ?a = "(newTxStore 4)\<lparr>mgr := (newTxManager 4)\<lparr>nextID := 1, reserved := [0]\<rparr>\<rparr>"
  show "tx_step (newTxStore 4) (EvAlloc 1 (Some 0)) ?a"
    by (rule tx_step.alloc) (simp add: newTxStore_def tryAlloc_new)
  show "tx_step ?a (EvRegister sampleTx) (tx_register sampleTx ?a)"
    by (rule tx_step.register) (simp_all add: sampleTx_def)
  show "tx_step (tx_register sampleTx ?a) (EvTimeout 0 True timeoutRetransmit) samplePending"
    by (rule tx_step.timeout)
      (simp add: onTimeout_def tx_register_def Let_def sampleTx_def newTxStore_def newTxManager_def samplePending_def heap_upd_def)
qed (rule tx_run.Nil)

lemma tx_run_single: "tx_step s e t \<Longrightarrow> tx_run s [e] t"
  by (rule tx_run.Cons [OF _ tx_run.Nil])

section \<open>Properties\<close>

text \<open>An allocation below the capacity with no identifier in quarantine always succeeds, and the identifier
  it returns was neither in the table nor reserved before and is reserved afterwards, whatever the position of the
  rotating counter; the table itself is not changed.\<close>

theorem tryAlloc_succeeds:
  assumes "tx_run (newTxStore n) es s" "\<forall>i. \<not> quarantined (mgr s) now i"
    "int (length (inUse (mgr s))) + int (length (reserved (mgr s))) < tx_max (mgr s)"
  shows "\<exists>i m. tryAllocLocked now (mgr s) = (Some i, m) \<and> tx_lookup i s = None \<and> i \<notin> set (reserved (mgr s))
    \<and> reserved m = i # reserved (mgr s) \<and> inUse m = inUse (mgr s)"
proof -
  obtain r m where r: "tryAllocLocked now (mgr s) = (r, m)" by force
  have "\<exists>i. free_id (mgr s) now i"
    using free_identifier assms(2,3) tx_run_wf [OF assms(1) wf_tx_new] by (simp add: wf_tx_def)
  with tryAlloc_result [OF r] assms(3) obtain i where "r = Some i" by (cases r) auto
  with tryAlloc_result [OF r] r show ?thesis by (auto simp: free_id_def tx_lookup_def map_of_eq_None_iff)
qed

text \<open>C34. Completion happens once: when \<open>tx_complete\<close> wins, the transaction it removed has the result it was
  given, and no later step of any run changes that result, whoever else tries to complete it.\<close>

theorem tx_result_final:
  assumes "tx_run (newTxStore n) es s" "map_of (inUse (mgr s)) i = Some p" "tx_run (snd (tx_complete i res q now s)) es' t"
  shows "fst (tx_complete i res q now s) \<and> tx_result (heap t ! p) = Some res"
proof -
  have wf: "wf_tx s" using tx_run_wf [OF assms(1) wf_tx_new] .
  let ?s = "snd (tx_complete i res q now s)"
  have "p < length (heap ?s)" "tx_result (heap ?s ! p) = Some res" "fst (tx_complete i res q now s)"
    using wf_tx_entry [OF wf assms(2)] assms(2) by (simp_all add: tx_complete_unfold Let_def)
  with tx_run_result [OF assms(3) wf_tx_complete [OF wf]] show ?thesis by blast
qed

theorem tx_result_final_witness:
  "tx_result (heap (snd (tx_complete 0 sampleResult 5 7 (snd (tx_complete 0 sampleResult 5 7 samplePending)))) ! 0) = Some sampleResult"
proof -
  let ?s = "snd (tx_complete 0 sampleResult 5 7 samplePending)"
  have r: "tx_run ?s [EvComplete 0 sampleResult 5 7] (snd (tx_complete 0 sampleResult 5 7 ?s))"
    by (intro tx_run_single tx_step.complete)
  show ?thesis using tx_result_final [OF sample_run, of 0 0, OF _ r] by (simp add: samplePending_def)
qed

text \<open>C35. A completed identifier with a quarantine is not handed out again before the quarantine has passed: no
  run whose allocations read an earlier clock reserves it or puts it back into the table, so a late response to
  the old request cannot reach a new one.\<close>

theorem quarantine_respected:
  assumes "tx_run (newTxStore n) es s" "fst (tx_complete i res q now s)" "0 < q"
    "tx_run (snd (tx_complete i res q now s)) es' t" "list_all (before (now + q)) es'"
  shows "i \<notin> set (reserved (mgr t)) \<and> tx_lookup i t = None"
  using held_back_run [OF assms(4) complete_held_back assms(5)] wf_tx_complete tx_run_wf [OF assms(1) wf_tx_new] assms(2,3)
  by (simp add: held_back_def tx_lookup_def map_of_eq_None_iff)

theorem quarantine_respected_witness:
  "\<exists>t. tx_run (snd (tx_complete 0 sampleResult 5 7 samplePending)) [EvAlloc 11 (Some 1)] t
     \<and> 0 \<notin> set (reserved (mgr t)) \<and> tx_lookup 0 t = None"
proof -
  let ?s = "snd (tx_complete 0 sampleResult 5 7 samplePending)"
  have "fst (tryAllocLocked 11 (mgr ?s)) = Some 1"
    by (simp add: samplePending_def tx_complete_unfold Let_def tryAllocLocked_def newTxManager_def quarantined_def numeral_eq_Suc)
  then obtain m where "tryAllocLocked 11 (mgr ?s) = (Some 1, m)" by (metis prod.collapse)
  then have r: "tx_run ?s [EvAlloc 11 (Some 1)] (?s\<lparr>mgr := m\<rparr>)" by (intro tx_run_single tx_step.alloc)
  have "fst (tx_complete 0 sampleResult 5 7 samplePending)" by (simp add: samplePending_def tx_complete_unfold Let_def)
  from quarantine_respected [OF sample_run this _ r] show ?thesis by (intro exI [of _ "?s\<lparr>mgr := m\<rparr>"] conjI r) simp_all
qed

text \<open>C36. Retransmission is bounded: over any run, the retransmissions the APDU timer orders do not exceed the
  retries the registered transactions were given, and a transaction that sends or receives segments orders none.\<close>

theorem retransmissions_bounded:
  assumes "tx_run (newTxStore n) es s"
  shows "sum_list (map retransmission es) \<le> sum_list (map granted es)
    \<and> (\<forall>i allowed. phase_of i s \<in> {Some txReceivingSegments, Some txSendingSegments} \<longrightarrow>
          onTimeout i allowed s = (timeoutIgnoreSegmented, s))"
proof
  show "sum_list (map retransmission es) \<le> sum_list (map granted es)"
    using tx_run_budget [OF assms wf_tx_new] by (simp add: retry_budget_def newTxStore_def)
qed (auto simp: phase_of_def onTimeout_def Let_def)

theorem retransmissions_bounded_witness:
  "sum_list (map retransmission sampleEvents) = 1 \<and> sum_list (map granted sampleEvents) = 2
     \<and> sum_list (map retransmission sampleEvents) \<le> sum_list (map granted sampleEvents)"
  using retransmissions_bounded [OF sample_run] by (simp add: sampleEvents_def sampleTx_def)

end
