(* ===== verification/Segment_Send.thy ===== *)
theory Segment_Send
  imports Transactions Segment
begin

text \<open>
  Segmented confirmed requests, client side (\<^verbatim>\<open>client/segment_send.go\<close>): the registry that routes
  SegmentACKs to the sending goroutine, the division of a request into segment APDUs, and the sending
  loop. The loop is a machine over what its blocking operations return: a send that succeeds or fails,
  the context, the close channel, the segment timer, a SegmentACK. Its state has the loop variables and
  two logs, the indices of the segments handed to the transport and the reasons of the Aborts sent.
  Main results: the segments reassemble to the request on the receiving side; the loop keeps its window,
  returns success only when every segment was sent in order and acknowledged, and whatever the peer
  answers transmits a bounded number of segments.
\<close>

section \<open>The registry of senders\<close>

record segSendState =
  ss_invokeID :: u8
  ss_address :: Address
  ss_origin :: Endpoint
  ss_immediate :: Endpoint
  ss_ch :: "SegmentACK list"

type_synonym segmentSender = "(u8 \<times> segSendState) list"

definition ss_register :: "pendingTx \<Rightarrow> segmentSender \<Rightarrow> segmentSender" where
  "ss_register tx = AList.update (tx_invokeID tx)
     \<lparr>ss_invokeID = tx_invokeID tx, ss_address = tx_address tx, ss_origin = tx_origin tx,
      ss_immediate = tx_immediate tx, ss_ch = []\<rparr>"

definition ss_unregister :: "u8 \<Rightarrow> segmentSender \<Rightarrow> segmentSender" where
  "ss_unregister invokeID = AList.delete invokeID"

definition ss_abortAll :: "segmentSender \<Rightarrow> segmentSender" where
  "ss_abortAll s = []"

text \<open>The channel has room for 128 acknowledgements; a full channel drops the newest.\<close>

definition ss_deliver :: "SegmentACK \<Rightarrow> packetSource \<Rightarrow> segmentSender \<Rightarrow> segmentSender" where
  "ss_deliver ack src s =
     (if \<not> sg_Server ack then s
      else case map_of s (sg_InvokeID ack) of
          None \<Rightarrow> s
        | Some st \<Rightarrow>
            if \<not> matchTargetSource \<lparr>tgt_Address = ss_address st, tgt_Endpoint = ss_immediate st,
                tgt_Origin = ss_origin st, tgt_MaxAPDU = 0\<rparr> src then s
            else if length (ss_ch st) < 128 then AList.update (sg_InvokeID ack) (st\<lparr>ss_ch := ss_ch st @ [ack]\<rparr>) s
            else s)"

section \<open>Building the segments\<close>

definition confirmedSeg0Overhead :: int where
  "confirmedSeg0Overhead = 6"

definition defaultSegmentSendWindow :: u8 where
  "defaultSegmentSendWindow = 16"

definition confirmedSegment :: "ConfirmedRequest \<Rightarrow> u8 \<Rightarrow> int \<Rightarrow> int \<Rightarrow> nat \<Rightarrow> ConfirmedRequest" where
  "confirmedSegment req proposedWindow sz count i =
     (let payload = cr_Payload req; (start, end') = Bounds (int i) sz (int (length payload)) in
      \<lparr>cr_SegmentedMessage = True, cr_MoreFollows = int i < count - 1,
       cr_SegmentedResponseAccepted = cr_SegmentedResponseAccepted req,
       cr_MaxSegments = cr_MaxSegments req, cr_MaxAPDU = cr_MaxAPDU req,
       cr_InvokeID = cr_InvokeID req, cr_SequenceNumber = of_nat i, cr_ProposedWindowSize = proposedWindow,
       cr_ServiceChoice = cr_ServiceChoice req, cr_Payload = subslice payload (nat start) (nat end')\<rparr>)"

fun build_loop :: "ConfirmedRequest \<Rightarrow> int \<Rightarrow> u8 \<Rightarrow> int \<Rightarrow> int \<Rightarrow> nat list \<Rightarrow> bytes list result" where
  "build_loop req remoteMax w sz count [] = Inr []"
| "build_loop req remoteMax w sz count (i # is) =
     (let seg = AppendConfirmedRequest [] (confirmedSegment req w sz count i) in
      if int (length seg) > remoteMax then Inl ErrAPDUTooLarge
      else rmap ((#) seg) (build_loop req remoteMax w sz count is))"

definition buildConfirmedSegments :: "ConfirmedRequest \<Rightarrow> int \<Rightarrow> u8 \<Rightarrow> bytes list result" where
  "buildConfirmedSegments req remoteMax proposedWindow =
     (let w = (if ValidWindow proposedWindow then proposedWindow else defaultSegmentSendWindow);
          sz = remoteMax - confirmedSeg0Overhead in
      if sz < 1 then Inl ErrAPDUTooLarge
      else let count = Count (int (length (cr_Payload req))) sz in
        if count > 256 then Inl ErrAPDUTooLarge
        else build_loop req remoteMax w sz count [0..<nat count])"

section \<open>The sending loop\<close>

text \<open>
  What the loop's blocking points yield: the outcome of one \<^verbatim>\<open>sendAPDU\<close>, or the case of the \<^verbatim>\<open>select\<close>
  that is ready. The program counter says which of the two it is waiting for, or what it returned.
\<close>

datatype send_event = SendOk | SendErr client_error | CtxDone | CloseSignal | SegTimer | AckIn SegmentACK

datatype send_pc = Sending | Waiting | Returned "client_error option"

record sendLoop =
  pc :: send_pc
  sl_window :: u8
  nextToSend :: int
  highestAcked :: int
  inFlight :: int
  nakRounds :: int
  sl_log :: "int list" \<comment> \<open>indices handed to the transport\<close>
  sl_aborts :: "u8 list" \<comment> \<open>reasons of the Aborts sent\<close>

text \<open>The constants of one call: invoke ID and service of the transaction, \<^verbatim>\<open>retryCount\<close>, \<^verbatim>\<open>len(segments)\<close>.\<close>

record send_args =
  sa_invokeID :: u8
  sa_service :: u8
  sa_retryCount :: int
  sa_count :: int

abbreviation (input) "AbortReasonOther \<equiv> (0 :: u8)"
abbreviation (input) "AbortReasonInvalidAPDUInThisState \<equiv> (2 :: u8)"
abbreviation (input) "AbortReasonTSMTimeout \<equiv> (10 :: u8)"

text \<open>The head of the inner \<^verbatim>\<open>for\<close> that fills the window, and the head of the outer one.\<close>

definition fillHead :: "send_args \<Rightarrow> sendLoop \<Rightarrow> sendLoop" where
  "fillHead a s = s\<lparr>pc := (if inFlight s < uint (sl_window s) \<and> nextToSend s < sa_count a then Sending else Waiting)\<rparr>"

definition loopHead :: "send_args \<Rightarrow> sendLoop \<Rightarrow> sendLoop" where
  "loopHead a s = (if highestAcked s + 1 < sa_count a then fillHead a s else s\<lparr>pc := Returned None\<rparr>)"

definition sendStart :: "send_args \<Rightarrow> sendLoop" where
  "sendStart a = loopHead a \<lparr>pc = Waiting, sl_window = 1, nextToSend = 0, highestAcked = -1, inFlight = 0,
     nakRounds = 0, sl_log = [], sl_aborts = []\<rparr>"

definition giveUp :: "u8 \<Rightarrow> client_error \<Rightarrow> sendLoop \<Rightarrow> sendLoop" where
  "giveUp reason err s = s\<lparr>pc := Returned (Some err), sl_aborts := sl_aborts s @ [reason]\<rparr>"

definition onNegativeACK :: "send_args \<Rightarrow> SegmentACK \<Rightarrow> sendLoop \<Rightarrow> sendLoop" where
  "onNegativeACK a ack s =
     (let s = s\<lparr>nakRounds := nakRounds s + 1\<rparr> in
      if nakRounds s > sa_retryCount a + 3 then
        giveUp AbortReasonTSMTimeout (wrapOutcomeUnknown (sa_service a) (Sentinel ErrTimeout)) s
      else
        let resume = uint (sg_SequenceNumber ack + 1) mod 256;
            resume = (if resume = 0 \<and> highestAcked s \<ge> 0 then 256 else resume) in
        if resume > nextToSend s then giveUp AbortReasonInvalidAPDUInThisState (Sentinel ErrProtocolViolation) s
        else if resume \<le> highestAcked s then s
        else loopHead a (s\<lparr>nextToSend := resume, highestAcked := resume - 1, inFlight := 0\<rparr>))"

definition onPositiveACK :: "send_args \<Rightarrow> SegmentACK \<Rightarrow> sendLoop \<Rightarrow> sendLoop" where
  "onPositiveACK a ack s =
     (let acked = uint (sg_SequenceNumber ack) in
      if acked \<le> highestAcked s then s
      else if acked \<ge> nextToSend s then giveUp AbortReasonInvalidAPDUInThisState (Sentinel ErrProtocolViolation) s
      else let newly = acked - highestAcked s in
        loopHead a (s\<lparr>highestAcked := acked, inFlight := max 0 (inFlight s - newly), nakRounds := 0\<rparr>))"

definition onSegmentACK :: "send_args \<Rightarrow> SegmentACK \<Rightarrow> sendLoop \<Rightarrow> sendLoop" where
  "onSegmentACK a ack s =
     (if sg_InvokeID ack \<noteq> sa_invokeID a \<or> \<not> sg_Server ack then s
      else
        let s = (if ValidWindow (ActualWindowSize ack) then s\<lparr>sl_window := ActualWindowSize ack\<rparr> else s) in
        if NegativeACK ack then onNegativeACK a ack s else onPositiveACK a ack s)"

definition onSend :: "send_args \<Rightarrow> send_event \<Rightarrow> sendLoop \<Rightarrow> sendLoop" where
  "onSend a e s =
     (let s = s\<lparr>sl_log := sl_log s @ [nextToSend s]\<rparr> in
      case e of
        SendErr err \<Rightarrow> s\<lparr>pc := Returned (Some (wrapOutcomeUnknown (sa_service a) err))\<rparr>
      | _ \<Rightarrow> fillHead a (s\<lparr>nextToSend := nextToSend s + 1, inFlight := inFlight s + 1\<rparr>))"

definition onSelect :: "send_args \<Rightarrow> send_event \<Rightarrow> sendLoop \<Rightarrow> sendLoop" where
  "onSelect a e s =
     (case e of
        CtxDone \<Rightarrow> giveUp AbortReasonOther (wrapOutcomeUnknown (sa_service a) ContextError) s
      | CloseSignal \<Rightarrow> s\<lparr>pc := Returned (Some (wrapOutcomeUnknown (sa_service a) (Sentinel ErrClosed)))\<rparr>
      | SegTimer \<Rightarrow> giveUp AbortReasonTSMTimeout
          (wrapOutcomeUnknown (sa_service a) (Sentinel (AbortError (sa_invokeID a) False AbortReasonTSMTimeout))) s
      | AckIn ack \<Rightarrow> onSegmentACK a ack s
      | _ \<Rightarrow> s)"

fun sendEvent :: "send_pc \<Rightarrow> send_event \<Rightarrow> bool" where
  "sendEvent Sending e \<longleftrightarrow> (case e of SendOk \<Rightarrow> True | SendErr _ \<Rightarrow> True | _ \<Rightarrow> False)"
| "sendEvent Waiting e \<longleftrightarrow> (case e of SendOk \<Rightarrow> False | SendErr _ \<Rightarrow> False | _ \<Rightarrow> True)"
| "sendEvent (Returned _) e \<longleftrightarrow> False"

text \<open>One step of \<^verbatim>\<open>sendConfirmedSegments\<close>; an event the loop is not waiting for has no effect.\<close>

definition sendStep :: "send_args \<Rightarrow> sendLoop \<Rightarrow> send_event \<Rightarrow> sendLoop" where
  "sendStep a s e =
     (if \<not> sendEvent (pc s) e then s
      else case pc s of Sending \<Rightarrow> onSend a e s | _ \<Rightarrow> onSelect a e s)"

definition sendConfirmedSegments :: "send_args \<Rightarrow> send_event list \<Rightarrow> sendLoop" where
  "sendConfirmedSegments a es = foldl (sendStep a) (sendStart a) es"

section \<open>What the loop keeps\<close>

text \<open>Every segment goes out after all its predecessors.\<close>

definition in_order :: "int list \<Rightarrow> bool" where
  "in_order xs \<longleftrightarrow> (\<forall>i < length xs. \<forall>k. 0 \<le> k \<and> k < xs ! i \<longrightarrow> k \<in> set (take i xs))"

definition wf_loop :: "send_args \<Rightarrow> sendLoop \<Rightarrow> bool" where
  "wf_loop a s \<longleftrightarrow> 1 \<le> sl_window s \<and> sl_window s \<le> 127
     \<and> -1 \<le> highestAcked s \<and> highestAcked s < nextToSend s \<and> nextToSend s \<le> sa_count a
     \<and> inFlight s = nextToSend s - highestAcked s - 1
     \<and> {0..<nextToSend s} \<subseteq> set (sl_log s) \<and> set (sl_log s) \<subseteq> {0..<sa_count a} \<and> in_order (sl_log s)"

text \<open>
  The remaining progress the peer can extract: an acknowledgement moves \<open>highestAcked\<close>, a negative one
  uses up a round; and the transmissions that leaves room for.
\<close>

definition rounds :: "send_args \<Rightarrow> int" where
  "rounds a = sa_retryCount a + 3"

definition progress_left :: "send_args \<Rightarrow> sendLoop \<Rightarrow> int" where
  "progress_left a s = (sa_count a - 1 - highestAcked s) * (rounds a + 1) + (rounds a - nakRounds s)"

definition sends_left :: "send_args \<Rightarrow> sendLoop \<Rightarrow> int" where
  "sends_left a s = (sa_count a - nextToSend s) + sa_count a * progress_left a s"

definition sends_bound :: "send_args \<Rightarrow> int" where
  "sends_bound a = sa_count a + sa_count a * (sa_count a * (rounds a + 1) + rounds a)"

definition budget_ok :: "send_args \<Rightarrow> sendLoop \<Rightarrow> bool" where
  "budget_ok a s \<longleftrightarrow> 0 \<le> nakRounds s \<and> nakRounds s \<le> rounds a \<and> int (length (sl_log s)) + sends_left a s \<le> sends_bound a"

fun pc_ok :: "send_args \<Rightarrow> sendLoop \<Rightarrow> send_pc \<Rightarrow> bool" where
  "pc_ok a s Sending \<longleftrightarrow> budget_ok a s \<and> nextToSend s < sa_count a \<and> inFlight s < uint (sl_window s) \<and> sl_aborts s = []"
| "pc_ok a s Waiting \<longleftrightarrow> budget_ok a s \<and> sl_aborts s = []"
| "pc_ok a s (Returned r) \<longleftrightarrow> int (length (sl_log s)) \<le> sends_bound a
     \<and> (r = None \<longrightarrow> highestAcked s + 1 = sa_count a \<and> sl_aborts s = [])"

definition wf_send :: "send_args \<Rightarrow> sendLoop \<Rightarrow> bool" where
  "wf_send a s \<longleftrightarrow> 1 \<le> sa_count a \<and> 0 \<le> sa_retryCount a \<and> wf_loop a s \<and> pc_ok a s (pc s)"

lemma progress_nonneg: "0 \<le> sa_retryCount a \<Longrightarrow> highestAcked s < sa_count a \<Longrightarrow> nakRounds s \<le> rounds a \<Longrightarrow> 0 \<le> progress_left a s"
  by (simp add: progress_left_def rounds_def)

lemma sends_nonneg: "0 \<le> sa_retryCount a \<Longrightarrow> wf_loop a s \<Longrightarrow> budget_ok a s \<Longrightarrow> sa_count a - nextToSend s \<le> sends_left a s"
  by (simp add: sends_left_def wf_loop_def budget_ok_def progress_nonneg)

lemma in_order_snoc:
  assumes "in_order xs" "{0..<k} \<subseteq> set xs"
  shows "in_order (xs @ [k])"
  unfolding in_order_def
proof (intro allI impI)
  fix i j assume a: "i < length (xs @ [k])" "0 \<le> j \<and> j < (xs @ [k]) ! i"
  show "j \<in> set (take i (xs @ [k]))"
  proof (cases "i < length xs")
    case True
    with a assms(1) show ?thesis by (auto simp: in_order_def nth_append)
  next
    case False
    with a have "i = length xs" by simp
    with a assms(2) show ?thesis by auto
  qed
qed

lemma wf_fillHead: "1 \<le> sa_count a \<Longrightarrow> 0 \<le> sa_retryCount a \<Longrightarrow> wf_loop a s \<Longrightarrow> budget_ok a s \<Longrightarrow> sl_aborts s = [] \<Longrightarrow>
    wf_send a (fillHead a s)"
  by (auto simp: wf_send_def fillHead_def wf_loop_def budget_ok_def sends_left_def progress_left_def)

lemma wf_loopHead:
  assumes "1 \<le> sa_count a" "0 \<le> sa_retryCount a" "wf_loop a s" "budget_ok a s" "sl_aborts s = []"
  shows "wf_send a (loopHead a s)"
proof (cases "highestAcked s + 1 < sa_count a")
  case True
  with assms wf_fillHead show ?thesis by (simp add: loopHead_def)
next
  case False
  have "int (length (sl_log s)) \<le> sends_bound a"
    using sends_nonneg [OF assms(2-4)] assms(3,4) by (simp add: budget_ok_def wf_loop_def)
  with False assms show ?thesis by (simp add: loopHead_def wf_send_def wf_loop_def)
qed

lemma wf_sendStart:
  assumes "1 \<le> sa_count a" "0 \<le> sa_retryCount a"
  shows "wf_send a (sendStart a)"
  unfolding sendStart_def
  by (rule wf_loopHead [OF assms])
    (use assms in \<open>simp_all add: wf_loop_def budget_ok_def in_order_def sends_left_def sends_bound_def progress_left_def rounds_def\<close>)

lemma wf_giveUp:
  assumes "1 \<le> sa_count a" "0 \<le> sa_retryCount a" "wf_loop a s" "int (length (sl_log s)) \<le> sends_bound a"
  shows "wf_send a (giveUp r e s)"
  using assms by (simp add: giveUp_def wf_send_def wf_loop_def)

lemma log_bound: "0 \<le> sa_retryCount a \<Longrightarrow> wf_loop a s \<Longrightarrow> budget_ok a s \<Longrightarrow> int (length (sl_log s)) \<le> sends_bound a"
  using sends_nonneg [of a s] by (simp add: budget_ok_def wf_loop_def)

lemma wf_onSend:
  assumes "wf_send a s" "pc s = Sending"
  shows "wf_send a (onSend a e s)"
proof -
  have w: "1 \<le> sa_count a" "0 \<le> sa_retryCount a" "wf_loop a s" "budget_ok a s" "nextToSend s < sa_count a"
    "inFlight s < uint (sl_window s)" "sl_aborts s = []"
    using assms by (simp_all add: wf_send_def)
  let ?l = "s\<lparr>sl_log := sl_log s @ [nextToSend s]\<rparr>"
  have l: "wf_loop a ?l" and o: "in_order (sl_log s @ [nextToSend s])"
    using w(3,5) in_order_snoc [of "sl_log s" "nextToSend s"] by (auto simp: wf_loop_def)
  have "{0..<nextToSend s + 1} = insert (nextToSend s) {0..<nextToSend s}" using w(3) by (auto simp: wf_loop_def)
  then have "wf_loop a (?l\<lparr>nextToSend := nextToSend s + 1, inFlight := inFlight s + 1\<rparr>)"
    using w(3,5) o by (auto simp: wf_loop_def)
  moreover have "budget_ok a (?l\<lparr>nextToSend := nextToSend s + 1, inFlight := inFlight s + 1\<rparr>)"
    using w(4) by (simp add: budget_ok_def sends_left_def progress_left_def)
  ultimately have ok: "wf_send a (fillHead a (?l\<lparr>nextToSend := nextToSend s + 1, inFlight := inFlight s + 1\<rparr>))"
    using w by (intro wf_fillHead) simp_all
  have "int (length (sl_log s)) + 1 \<le> sends_bound a"
    using sends_nonneg [OF w(2-4)] w(4,5) by (simp add: budget_ok_def)
  with l w have "wf_send a (?l\<lparr>pc := Returned (Some err)\<rparr>)" for err by (simp add: wf_send_def wf_loop_def)
  with ok show ?thesis by (auto simp: onSend_def Let_def split: send_event.split)
qed

text \<open>A progress event lowers \<open>progress_left\<close>; that pays for a rewind of at most all the segments.\<close>

lemma budget_progress:
  assumes "1 \<le> sa_count a" "budget_ok a s" "wf_loop a s" "sl_log t = sl_log s" "0 \<le> nextToSend t"
    "progress_left a t + 1 \<le> progress_left a s" "0 \<le> nakRounds t" "nakRounds t \<le> rounds a"
  shows "budget_ok a t"
proof -
  have "sa_count a * (progress_left a t + 1) \<le> sa_count a * progress_left a s"
    using assms by (intro mult_left_mono) simp_all
  then have "sends_left a t \<le> sends_left a s"
    using assms(3,5) by (simp add: sends_left_def distrib_left wf_loop_def)
  with assms show ?thesis by (simp add: budget_ok_def)
qed

lemma wf_onPositiveACK:
  assumes "1 \<le> sa_count a" "0 \<le> sa_retryCount a" "wf_loop a s" "budget_ok a s" "sl_aborts s = []" "pc s = Waiting"
  shows "wf_send a (onPositiveACK a ack s)"
proof -
  let ?k = "uint (sg_SequenceNumber ack)"
  let ?t = "s\<lparr>highestAcked := ?k, inFlight := max 0 (inFlight s - (?k - highestAcked s)), nakRounds := 0\<rparr>"
  have "wf_send a (loopHead a ?t)" if k: "highestAcked s < ?k" "?k < nextToSend s"
  proof (rule wf_loopHead [OF assms(1,2)])
    show "wf_loop a ?t" using assms(3) k by (auto simp: wf_loop_def)
    show "sl_aborts ?t = []" using assms(5) by simp
    have "(sa_count a - 1 - ?k) * (rounds a + 1) + (rounds a + 1) \<le> (sa_count a - 1 - highestAcked s) * (rounds a + 1)"
      using mult_right_mono [of "sa_count a - 1 - ?k + 1" "sa_count a - 1 - highestAcked s" "rounds a + 1"] k assms(2)
      unfolding distrib_right mult_1 by (simp add: rounds_def)
    then have "progress_left a ?t + 1 \<le> progress_left a s"
      using assms(4) by (simp add: progress_left_def budget_ok_def)
    then show "budget_ok a ?t"
      by (rule budget_progress [OF assms(1,4,3), rotated 2]) (use assms(2,3) in \<open>simp_all add: wf_loop_def rounds_def\<close>)
  qed
  moreover have "wf_send a s" using assms by (simp add: wf_send_def)
  moreover have "wf_send a (giveUp r e s)" for r e using assms by (intro wf_giveUp log_bound)
  ultimately show ?thesis by (simp add: onPositiveACK_def Let_def not_le)
qed

definition resumeAt :: "SegmentACK \<Rightarrow> sendLoop \<Rightarrow> int" where
  "resumeAt ack s = (let resume = uint (sg_SequenceNumber ack + 1) mod 256 in
     if resume = 0 \<and> highestAcked s \<ge> 0 then 256 else resume)"

lemma resumeAt_nonneg: "0 \<le> resumeAt ack s"
  by (simp add: resumeAt_def Let_def)

lemma onNegativeACK_eq:
  "onNegativeACK a ack s =
     (if nakRounds s + 1 > rounds a then
        giveUp AbortReasonTSMTimeout (wrapOutcomeUnknown (sa_service a) (Sentinel ErrTimeout)) (s\<lparr>nakRounds := nakRounds s + 1\<rparr>)
      else if resumeAt ack s > nextToSend s then
        giveUp AbortReasonInvalidAPDUInThisState (Sentinel ErrProtocolViolation) (s\<lparr>nakRounds := nakRounds s + 1\<rparr>)
      else if resumeAt ack s \<le> highestAcked s then s\<lparr>nakRounds := nakRounds s + 1\<rparr>
      else loopHead a (s\<lparr>nakRounds := nakRounds s + 1, nextToSend := resumeAt ack s,
        highestAcked := resumeAt ack s - 1, inFlight := 0\<rparr>))"
  by (simp add: onNegativeACK_def resumeAt_def rounds_def Let_def)

lemma wf_onNegativeACK:
  assumes "1 \<le> sa_count a" "0 \<le> sa_retryCount a" "wf_loop a s" "budget_ok a s" "sl_aborts s = []" "pc s = Waiting"
  shows "wf_send a (onNegativeACK a ack s)"
proof -
  let ?s = "s\<lparr>nakRounds := nakRounds s + 1\<rparr>" and ?k = "resumeAt ack s"
  let ?t = "?s\<lparr>nextToSend := ?k, highestAcked := ?k - 1, inFlight := 0\<rparr>"
  have w: "wf_loop a ?s" using assms(3) by (simp add: wf_loop_def)
  have "int (length (sl_log ?s)) \<le> sends_bound a" using log_bound [OF assms(2-4)] by simp
  then have g: "wf_send a (giveUp r e ?s)" for r e using assms w by (intro wf_giveUp)
  have b: "budget_ok a u" if "nakRounds s + 1 \<le> rounds a" "sl_log u = sl_log s" "0 \<le> nextToSend u"
    "nakRounds u = nakRounds s + 1" "highestAcked s \<le> highestAcked u" for u
  proof (rule budget_progress [OF assms(1,4,3) that(2,3)])
    have "(sa_count a - 1 - highestAcked u) * (rounds a + 1) \<le> (sa_count a - 1 - highestAcked s) * (rounds a + 1)"
      using that(5) assms(2) by (intro mult_right_mono) (simp_all add: rounds_def)
    then show "progress_left a u + 1 \<le> progress_left a s" using that(4) by (simp add: progress_left_def)
  qed (use that assms(4) in \<open>simp_all add: budget_ok_def\<close>)
  have "wf_send a (loopHead a ?t)" if "nakRounds s + 1 \<le> rounds a" "?k \<le> nextToSend s" "highestAcked s < ?k"
  proof (rule wf_loopHead [OF assms(1,2)])
    show "wf_loop a ?t" using that(2,3) w resumeAt_nonneg [of ack s] by (auto simp: wf_loop_def)
    show "budget_ok a ?t" by (rule b) (use that resumeAt_nonneg [of ack s] in simp_all)
  qed (use assms(5) in simp)
  moreover have "wf_send a ?s" if "nakRounds s + 1 \<le> rounds a"
    using b [of ?s] that assms w by (simp add: wf_send_def wf_loop_def)
  ultimately show ?thesis using g by (simp add: onNegativeACK_eq not_le not_less)
qed

lemma wf_onSegmentACK:
  assumes "wf_send a s" "pc s = Waiting"
  shows "wf_send a (onSegmentACK a ack s)"
proof -
  let ?s = "if ValidWindow (ActualWindowSize ack) then s\<lparr>sl_window := ActualWindowSize ack\<rparr> else s"
  have "1 \<le> sa_count a" "0 \<le> sa_retryCount a" "wf_loop a ?s" "budget_ok a ?s" "sl_aborts ?s = []" "pc ?s = Waiting"
    using assms by (auto simp: wf_send_def wf_loop_def ValidWindow_def MaxWindow_def budget_ok_def sends_left_def progress_left_def)
  then have "wf_send a (onNegativeACK a ack ?s)" "wf_send a (onPositiveACK a ack ?s)"
    by (auto intro: wf_onNegativeACK wf_onPositiveACK)
  with assms(1) show ?thesis by (simp add: onSegmentACK_def Let_def)
qed

lemma wf_onSelect:
  assumes "wf_send a s" "pc s = Waiting"
  shows "wf_send a (onSelect a e s)"
proof -
  have w: "1 \<le> sa_count a" "0 \<le> sa_retryCount a" "wf_loop a s" "budget_ok a s" using assms by (simp_all add: wf_send_def)
  then have "wf_send a (giveUp r x s)" "wf_send a (s\<lparr>pc := Returned (Some x)\<rparr>)" for r x
    using wf_giveUp log_bound [of a s] by (simp_all add: wf_send_def wf_loop_def)
  with assms wf_onSegmentACK show ?thesis by (simp add: onSelect_def split: send_event.split)
qed

lemma wf_sendStep: "wf_send a s \<Longrightarrow> wf_send a (sendStep a s e)"
  by (cases "pc s") (simp_all add: sendStep_def wf_onSend wf_onSelect)

interpretation send_machine: invariant_machine "sendStep a" "wf_send a" "\<lambda>_. True" for a
  by unfold_locales (rule wf_sendStep)

lemma sendConfirmedSegments_wf:
  "1 \<le> sa_count a \<Longrightarrow> 0 \<le> sa_retryCount a \<Longrightarrow> wf_send a (sendConfirmedSegments a es)"
  unfolding sendConfirmedSegments_def
  by (rule send_machine.run_inv [OF wf_sendStart]) (simp_all add: list_all_iff)

section \<open>The segments on the receiving side\<close>

text \<open>A receiver that parses each segment and offers it to a reassembly.\<close>

fun receiveSegments :: "DecodeLimits \<Rightarrow> Reassembly \<Rightarrow> bytes list \<Rightarrow> Outcome \<times> Reassembly" where
  "receiveSegments L r [] = (OutOfOrder, r)"
| "receiveSegments L r (bs # bss) =
     (case apdu_Parse bs L of
        Inr (PConfirmedRequest q) \<Rightarrow>
          if \<not> cr_SegmentedMessage q then (OutOfOrder, r)
          else (let (o', r) = Add r (cr_SequenceNumber q) (cr_MoreFollows q) (cr_Payload q) in
            if bss = [] then (o', r) else receiveSegments L r bss)
      | _ \<Rightarrow> (OutOfOrder, r))"

lemma confirmedSegment_payload: "cr_Payload (confirmedSegment req w sz c i) = segmentAt (cr_Payload req) sz i"
  by (simp add: confirmedSegment_def segmentAt_def Let_def case_prod_beta)

lemma confirmedSegment_sel [simp]:
  "cr_SegmentedMessage (confirmedSegment req w sz c i)" "cr_MoreFollows (confirmedSegment req w sz c i) \<longleftrightarrow> int i < c - 1"
  "cr_SequenceNumber (confirmedSegment req w sz c i) = of_nat i" "cr_ProposedWindowSize (confirmedSegment req w sz c i) = w"
  "cr_MaxAPDU (confirmedSegment req w sz c i) = cr_MaxAPDU req"
  by (simp_all add: confirmedSegment_def Let_def case_prod_beta)

lemma length_confirmedSegment:
  assumes "1 \<le> sz"
  shows "int (length (AppendConfirmedRequest [] (confirmedSegment req w sz c i))) \<le> sz + 6"
proof -
  have "int (length (segmentAt (cr_Payload req) sz i)) \<le> sz" using assms by (simp add: segmentAt_eq)
  then show ?thesis by (simp add: AppendConfirmedRequest_def Let_def confirmedSegment_payload)
qed

lemma build_loop_eq:
  assumes "1 \<le> sz" "remoteMax = sz + 6"
  shows "build_loop req remoteMax w sz c is = Inr (map (\<lambda>i. AppendConfirmedRequest [] (confirmedSegment req w sz c i)) is)"
proof (induction "is")
  case (Cons i "is")
  have "\<not> int (length (AppendConfirmedRequest [] (confirmedSegment req w sz c i))) > remoteMax"
    using length_confirmedSegment [OF assms(1), of req w c i] assms(2) by simp
  with Cons show ?case by (simp only: build_loop.simps Let_def if_False rmap.simps list.map)
qed simp

lemma parse_confirmedSegment:
  assumes "windowOk w" "cr_MaxAPDU req AND 0x0F \<le> 5" "1 \<le> sz" "sz + 6 \<le> MaxAPDUSize (Normalize L)"
  shows "\<exists>q. apdu_Parse (AppendConfirmedRequest [] (confirmedSegment req w sz c i)) L = Inr (PConfirmedRequest q)
    \<and> cr_SegmentedMessage q \<and> cr_SequenceNumber q = of_nat i \<and> cr_MoreFollows q = (int i < c - 1)
    \<and> cr_Payload q = segmentAt (cr_Payload req) sz i"
  using apdu_Parse_appendPDU [of "PConfirmedRequest (confirmedSegment req w sz c i)" L] assms
    length_confirmedSegment [OF assms(3), of req w c i]
  by (simp add: confirmedSegment_payload)

lemma receive_feed:
  assumes "windowOk w" "cr_MaxAPDU req AND 0x0F \<le> 5" "1 \<le> sz" "sz + 6 \<le> MaxAPDUSize (Normalize L)" "k < n"
  shows "receiveSegments L r (map (\<lambda>i. AppendConfirmedRequest [] (confirmedSegment req w sz (int n) i)) [k..<n])
    = feed r (of_nat k) (map (segmentAt (cr_Payload req) sz) [k..<n])"
  using assms(5)
proof (induction "n - k" arbitrary: k r)
  case (Suc m)
  obtain q where q: "apdu_Parse (AppendConfirmedRequest [] (confirmedSegment req w sz (int n) k)) L = Inr (PConfirmedRequest q)"
    "cr_SegmentedMessage q" "cr_SequenceNumber q = of_nat k" "cr_MoreFollows q = (int k < int n - 1)"
    "cr_Payload q = segmentAt (cr_Payload req) sz k"
    using parse_confirmedSegment [OF assms(1-4), of "int n" k] by blast
  show ?case
  proof (cases "Suc k < n")
    case True
    have u: "[k..<n] = k # [Suc k..<n]" "[Suc k..<n] = Suc k # [Suc (Suc k)..<n]" using True by (simp_all add: upt_conv_Cons)
    have "feed r (of_nat k) (map (segmentAt (cr_Payload req) sz) [k..<n])
      = feed (snd (Add r (of_nat k) True (segmentAt (cr_Payload req) sz k))) (of_nat (Suc k)) (map (segmentAt (cr_Payload req) sz) [Suc k..<n])"
      unfolding u by (simp add: add.commute)
    moreover have "[Suc k..<n] \<noteq> []" using True by simp
    ultimately show ?thesis
      using Suc.hyps(1) [of "Suc k" "snd (Add r (of_nat k) True (segmentAt (cr_Payload req) sz k))"] Suc.hyps(2) True q
      by (simp add: u(1) case_prod_beta Let_def)
  next
    case False
    with Suc.prems have "[k..<n] = [k]" by (simp add: upt_conv_Cons)
    with False q show ?thesis by (simp add: case_prod_beta Let_def)
  qed
qed simp

lemma buildConfirmedSegments_eq:
  assumes "buildConfirmedSegments req remoteMax w = Inr segs"
  shows "\<exists>sz v n. 1 \<le> sz \<and> remoteMax = sz + 6 \<and> windowOk v \<and> 0 < n \<and> n \<le> 256 \<and> int n = Count (int (length (cr_Payload req))) sz
    \<and> segs = map (\<lambda>i. AppendConfirmedRequest [] (confirmedSegment req v sz (int n) i)) [0..<n]"
proof -
  define sz where "sz = remoteMax - 6"
  define v where "v = (if ValidWindow w then w else defaultSegmentSendWindow)"
  define c where "c = Count (int (length (cr_Payload req))) sz"
  have s: "1 \<le> sz" and r: "remoteMax = sz + 6" and c: "c \<le> 256"
    using assms by (auto simp: buildConfirmedSegments_def Let_def sz_def confirmedSeg0Overhead_def c_def split: if_splits)
  have c1: "1 \<le> c" using Count_covers(2) [OF s, of "int (length (cr_Payload req))"] by (simp add: c_def)
  then obtain n where n: "c = int n" "0 < n" by (metis nonneg_int_cases order.trans zero_le_one of_nat_0_less_iff zero_less_one less_le_trans)
  have e: "segs = map (\<lambda>i. AppendConfirmedRequest [] (confirmedSegment req v sz (int n) i)) [0..<n]"
    using assms s c n build_loop_eq [OF s r, of req v c "[0..<n]"]
    by (auto simp: buildConfirmedSegments_def Let_def confirmedSeg0Overhead_def v_def [symmetric] c_def [symmetric] sz_def [symmetric])
  have v: "windowOk v" by (simp add: v_def windowOk_def ValidWindow_def MaxWindow_def defaultSegmentSendWindow_def)
  show ?thesis using s r v n c e by (intro exI [of _ sz] exI [of _ v] exI [of _ n]) (auto simp: c_def)
qed

section \<open>A cooperating peer\<close>

text \<open>A peer and transport that cooperate: every send succeeds and the last segment sent is acknowledged.\<close>

definition goodAck :: "send_args \<Rightarrow> u8 \<Rightarrow> sendLoop \<Rightarrow> SegmentACK" where
  "goodAck a w s = \<lparr>NegativeACK = False, sg_Server = True, sg_InvokeID = sa_invokeID a,
     sg_SequenceNumber = of_int (nextToSend s - 1), ActualWindowSize = w\<rparr>"

fun cooperate :: "nat \<Rightarrow> send_args \<Rightarrow> u8 \<Rightarrow> sendLoop \<Rightarrow> sendLoop" where
  "cooperate 0 a w s = s"
| "cooperate (Suc n) a w s =
     cooperate n a w (sendStep a s (if pc s = Sending then SendOk else AckIn (goodAck a w s)))"

definition work_left :: "send_args \<Rightarrow> sendLoop \<Rightarrow> int" where
  "work_left a s = (sa_count a - nextToSend s) + (sa_count a - 1 - highestAcked s)"

text \<open>While the loop waits, a segment is in flight.\<close>

definition awaits_ack :: "send_args \<Rightarrow> sendLoop \<Rightarrow> bool" where
  "awaits_ack a s \<longleftrightarrow> (case pc s of Returned r \<Rightarrow> r = None | Sending \<Rightarrow> highestAcked s + 1 < sa_count a
     | Waiting \<Rightarrow> highestAcked s + 1 < nextToSend s)"

lemma awaits_fillHead: "wf_loop a s \<Longrightarrow> highestAcked s + 1 < sa_count a \<Longrightarrow> awaits_ack a (fillHead a s)"
  using uint_lt_0 [of "sl_window s"] word_le_def [of 1 "sl_window s"]
  by (auto simp: awaits_ack_def fillHead_def wf_loop_def)

lemma cooperate_step:
  fixes w
  assumes "wf_send a s" "awaits_ack a s" "sa_count a \<le> 256" "pc s \<noteq> Returned None"
  defines "t \<equiv> sendStep a s (if pc s = Sending then SendOk else AckIn (goodAck a w s))"
  shows "awaits_ack a t \<and> (pc t = Returned None \<or> work_left a t + 1 \<le> work_left a s)"
proof (cases "pc s")
  case Sending
  let ?u = "s\<lparr>sl_log := sl_log s @ [nextToSend s], nextToSend := nextToSend s + 1, inFlight := inFlight s + 1\<rparr>"
  have t: "t = fillHead a ?u" using Sending by (simp add: t_def sendStep_def onSend_def Let_def)
  have "1 \<le> sl_window s" "inFlight ?u = nextToSend ?u - highestAcked ?u - 1" "highestAcked s < nextToSend s"
    using assms(1) by (auto simp: wf_send_def wf_loop_def)
  then show ?thesis using t Sending assms(2) by (auto simp: awaits_ack_def fillHead_def work_left_def)
next
  case Waiting
  let ?s = "if ValidWindow w then s\<lparr>sl_window := w\<rparr> else s"
  have wl: "wf_loop a ?s" "highestAcked s + 1 < nextToSend s" "0 \<le> nextToSend s - 1" "nextToSend s - 1 < 256"
    using assms Waiting by (auto simp: wf_send_def wf_loop_def ValidWindow_def MaxWindow_def awaits_ack_def)
  then have k: "uint (of_int (nextToSend s - 1) :: u8) = nextToSend s - 1" by (intro uint_word_of_int_eq [THEN trans]) (simp add: take_bit_int_eq_self)
  let ?u = "?s\<lparr>highestAcked := nextToSend s - 1, inFlight := max 0 (inFlight s - (nextToSend s - 1 - highestAcked s)), nakRounds := 0\<rparr>"
  have t: "t = loopHead a ?u"
    using Waiting wl(2) k by (auto simp: t_def sendStep_def onSelect_def onSegmentACK_def Let_def goodAck_def onPositiveACK_def)
  have "wf_loop a ?u" using wl by (cases "ValidWindow w") (auto simp: wf_loop_def)
  then have "highestAcked ?u + 1 < sa_count a \<Longrightarrow> awaits_ack a (fillHead a ?u)" by (rule awaits_fillHead)
  then show ?thesis using t wl by (auto simp: loopHead_def awaits_ack_def work_left_def fillHead_def)
next
  case (Returned r)
  with assms show ?thesis by (simp add: awaits_ack_def)
qed

lemma cooperate_done:
  "wf_send a s \<Longrightarrow> awaits_ack a s \<Longrightarrow> sa_count a \<le> 256 \<Longrightarrow> work_left a s \<le> int n \<Longrightarrow> pc (cooperate n a w s) = Returned None"
proof (induction n arbitrary: s)
  case 0
  then have "highestAcked s + 1 = sa_count a" "nextToSend s = sa_count a" by (auto simp: work_left_def wf_send_def wf_loop_def)
  with 0 show ?case by (auto simp: awaits_ack_def split: send_pc.splits)
next
  case (Suc n)
  let ?t = "sendStep a s (if pc s = Sending then SendOk else AckIn (goodAck a w s))"
  have fin: "pc (cooperate m a w u) = Returned None" if "pc u = Returned None" for m u
    using that by (induction m arbitrary: u) (simp_all add: sendStep_def)
  show ?case
  proof (cases "pc s = Returned None")
    case True
    then show ?thesis by (rule fin)
  next
    case False
    from cooperate_step [OF Suc.prems(1-3) False, of w] Suc.prems Suc.IH [of ?t] wf_sendStep fin [of ?t n]
    show ?thesis by auto
  qed
qed

section \<open>A sample transmission\<close>

definition sampleArgs :: send_args where
  "sampleArgs = \<lparr>sa_invokeID = 7, sa_service = 15, sa_retryCount = 1, sa_count = 3\<rparr>"

definition sampleAck :: "bool \<Rightarrow> u8 \<Rightarrow> send_event" where
  "sampleAck neg k = AckIn \<lparr>NegativeACK = neg, sg_Server = True, sg_InvokeID = 7, sg_SequenceNumber = k, ActualWindowSize = 2\<rparr>"

section \<open>Properties\<close>

text \<open>C24. A request that buildConfirmedSegments divides arrives whole: at most 256 segments, none longer than the
  peer's limit, and a receiver that parses them in order and reassembles within its limits ends with exactly
  the service request that was divided.\<close>

theorem confirmed_segments_reassemble:
  assumes "buildConfirmedSegments req remoteMax w = Inr segs" "cr_MaxAPDU req AND 0x0F \<le> 5"
    "remoteMax \<le> MaxAPDUSize (Normalize L)" "int (length segs) \<le> maxSegs" "int (length (cr_Payload req)) \<le> maxOcts"
  shows "length segs \<le> 256 \<and> list_all (\<lambda>s. int (length s) \<le> remoteMax) segs
    \<and> fst (receiveSegments L (NewReassembly win maxSegs maxOcts) segs) = Complete
    \<and> buf (snd (receiveSegments L (NewReassembly win maxSegs maxOcts) segs)) = cr_Payload req"
proof -
  obtain sz v n where s: "1 \<le> sz" and r: "remoteMax = sz + 6" and v: "windowOk v" and n: "0 < n" "n \<le> 256"
    and c: "int n = Count (int (length (cr_Payload req))) sz"
    and e: "segs = map (\<lambda>i. AppendConfirmedRequest [] (confirmedSegment req v sz (int n) i)) [0..<n]"
    using buildConfirmedSegments_eq [OF assms(1)] by blast
  have l: "map (segmentAt (cr_Payload req) sz) [0..<n] = segmentList (cr_Payload req) sz"
    using c by (simp add: segmentList_def flip: c)
  have "receiveSegments L (NewReassembly win maxSegs maxOcts) segs
      = feed (NewReassembly win maxSegs maxOcts) 0 (segmentList (cr_Payload req) sz)"
    using receive_feed [OF v assms(2) s _ n(1), of L "NewReassembly win maxSegs maxOcts"] assms(3) r l by (simp add: e)
  moreover have "segmentList (cr_Payload req) sz \<noteq> []" "length (segmentList (cr_Payload req) sz) = n"
    using n by (auto simp flip: l)
  ultimately show ?thesis
    using feed_complete [of "segmentList (cr_Payload req) sz" "NewReassembly win maxSegs maxOcts"]
      concat_segments [OF s, of "cr_Payload req"] assms(4,5) c n length_confirmedSegment [OF s] r
    by (simp add: NewReassembly_def e list_all_iff)
qed

theorem confirmed_segments_reassemble_witness:
  "\<exists>segs. buildConfirmedSegments \<lparr>cr_SegmentedMessage = False, cr_MoreFollows = False, cr_SegmentedResponseAccepted = True,
       cr_MaxSegments = 0, cr_MaxAPDU = 3, cr_InvokeID = 7, cr_SequenceNumber = 0, cr_ProposedWindowSize = 0,
       cr_ServiceChoice = 15, cr_Payload = [1, 2, 3, 4, 5]\<rparr> 8 4 = Inr segs \<and> length segs = 3
     \<and> buf (snd (receiveSegments DefaultDecodeLimits (NewReassembly 4 64 100) segs)) = [1, 2, 3, 4, 5]"
proof -
  let ?q = "\<lparr>cr_SegmentedMessage = False, cr_MoreFollows = False, cr_SegmentedResponseAccepted = True,
       cr_MaxSegments = 0, cr_MaxAPDU = 3, cr_InvokeID = 7, cr_SequenceNumber = 0, cr_ProposedWindowSize = 0,
       cr_ServiceChoice = 15, cr_Payload = [1, 2, 3, 4, 5]\<rparr>"
  have b: "buildConfirmedSegments ?q 8 4 = Inr [[14, 3, 7, 0, 4, 15, 1, 2], [14, 3, 7, 1, 4, 15, 3, 4], [10, 3, 7, 2, 4, 15, 5]]"
    by code_simp
  show ?thesis
    using confirmed_segments_reassemble [OF b, of DefaultDecodeLimits 64 100 4] b
    by (simp add: DefaultDecodeLimits_def Normalize_def withDefaults_def Let_def)
qed

text \<open>C17. The sending loop reports success only when it is earned: whatever the sequence of sends, acknowledgements
  and timeouts, if it returns without error then every segment was handed to the transport, each after all its
  predecessors, all are acknowledged and no Abort was sent.\<close>

theorem send_success_complete:
  assumes "1 \<le> sa_count a" "0 \<le> sa_retryCount a" "pc (sendConfirmedSegments a es) = Returned None"
  shows "set (sl_log (sendConfirmedSegments a es)) = {0..<sa_count a} \<and> in_order (sl_log (sendConfirmedSegments a es))
    \<and> highestAcked (sendConfirmedSegments a es) = sa_count a - 1 \<and> sl_aborts (sendConfirmedSegments a es) = []"
proof -
  have "wf_send a (sendConfirmedSegments a es)" using assms(1,2) by (rule sendConfirmedSegments_wf)
  with assms(3) show ?thesis by (auto simp: wf_send_def wf_loop_def)
qed

theorem send_success_complete_witness:
  "sl_log (sendConfirmedSegments sampleArgs [SendOk, sampleAck False 0, SendOk, SendOk, sampleAck True 1, SendOk, sampleAck False 2])
     = [0, 1, 2, 2]
   \<and> set (sl_log (sendConfirmedSegments sampleArgs [SendOk, sampleAck False 0, SendOk, SendOk, sampleAck True 1, SendOk, sampleAck False 2]))
     = {0..<3}"
proof -
  let ?r = "sendConfirmedSegments sampleArgs [SendOk, sampleAck False 0, SendOk, SendOk, sampleAck True 1, SendOk, sampleAck False 2]"
  have "pc ?r = Returned None" and l: "sl_log ?r = [0, 1, 2, 2]" by code_simp+
  from send_success_complete [OF _ _ this(1)] l show ?thesis by (simp add: sampleArgs_def)
qed

text \<open>C37. No peer can keep the loop sending: over any sequence of events the number of transmissions is bounded by
  the number of segments and the retry count, because each negative acknowledgement uses up a round and a
  positive one must acknowledge something new.\<close>

theorem send_bounded:
  assumes "1 \<le> sa_count a" "0 \<le> sa_retryCount a"
  shows "int (length (sl_log (sendConfirmedSegments a es)))
    \<le> sa_count a + sa_count a * (sa_count a * (sa_retryCount a + 4) + (sa_retryCount a + 3))"
proof -
  let ?s = "sendConfirmedSegments a es"
  have w: "wf_send a ?s" using assms by (rule sendConfirmedSegments_wf)
  then have "int (length (sl_log ?s)) \<le> sends_bound a"
    by (cases "pc ?s") (auto simp: wf_send_def intro: log_bound)
  then show ?thesis by (simp add: sends_bound_def rounds_def add.commute)
qed

theorem send_bounded_witness:
  "int (length (sl_log (sendConfirmedSegments sampleArgs (replicate 9 (sampleAck True 255))))) \<le> 60"
  using send_bounded [of sampleArgs "replicate 9 (sampleAck True 255)"] by (simp add: sampleArgs_def)

text \<open>C38. With a cooperating peer and transport the loop finishes: for a request of at most 256 segments, after at most
  twice as many steps as there are segments it has returned success, whatever window the peer grants.\<close>

theorem send_cooperative_finishes:
  assumes "1 \<le> sa_count a" "sa_count a \<le> 256" "0 \<le> sa_retryCount a"
  shows "pc (cooperate (nat (2 * sa_count a)) a w (sendStart a)) = Returned None"
proof (rule cooperate_done)
  show "wf_send a (sendStart a)" using assms(1,3) by (rule wf_sendStart)
  show "awaits_ack a (sendStart a)"
    using assms(1) by (simp add: sendStart_def loopHead_def fillHead_def awaits_ack_def)
  show "work_left a (sendStart a) \<le> int (nat (2 * sa_count a))"
    using assms(1) by (simp add: work_left_def sendStart_def loopHead_def fillHead_def)
qed (rule assms(2))

theorem send_cooperative_finishes_witness:
  "pc (cooperate 6 sampleArgs 2 (sendStart sampleArgs)) = Returned None"
  using send_cooperative_finishes [of sampleArgs 2] by (simp add: sampleArgs_def)

end
