(* ===== verification/Tx_Interleaving.thy ===== *)
theory Tx_Interleaving
  imports Transactions
begin

text \<open>
  The transaction table under concurrency. \<^verbatim>\<open>complete\<close> and \<^verbatim>\<open>abortAll\<close> of \<^verbatim>\<open>client/transaction.go\<close> unlock the mutex before
  they send the results, so that other goroutines run in between. The state of the machine here is the store with the
  publications under way; a locked section is one step and the send of a publication another.
  Main result: at every moment each transaction is in exactly one of three situations: in the table, taken out by
  a goroutine that is about to publish its result, or with its one result.
\<close>

section \<open>The machine\<close>

datatype itx_event = Locked tx_event | Removed u8 int int txResult | Drained client_error | Sent publication

fun lockedEvent :: "tx_event \<Rightarrow> bool" where
  "lockedEvent (EvComplete invokeID res q now) = False"
| "lockedEvent (EvAbortAll err) = False"
| "lockedEvent _ = True"

type_synonym itx_state = "txStore \<times> publication list"

inductive itx_step :: "itx_state \<Rightarrow> itx_event \<Rightarrow> itx_state \<Rightarrow> bool" where
  locked: "tx_step s e t \<Longrightarrow> lockedEvent e \<Longrightarrow> itx_step (s, ps) (Locked e) (t, ps)"
| won: "tx_remove i q now s = (Some p, t) \<Longrightarrow> itx_step (s, ps) (Removed i q now res) (t, SendResult p res # ps)"
| lost: "tx_remove i q now s = (None, t) \<Longrightarrow> itx_step (s, ps) (Removed i q now res) (t, ps)"
| drained: "tx_drain err s = (pubs, t) \<Longrightarrow> itx_step (s, ps) (Drained err) (t, pubs @ ps)"
| sent: "pub \<in> set ps \<Longrightarrow> itx_step (s, ps) (Sent pub) (tx_send pub s, remove1 pub ps)"

inductive itx_run :: "itx_state \<Rightarrow> itx_event list \<Rightarrow> itx_state \<Rightarrow> bool" where
  Nil: "itx_run x [] x"
| Cons: "itx_step x e y \<Longrightarrow> itx_run y es z \<Longrightarrow> itx_run x (e # es) z"

text \<open>A completion that is not interleaved is its two steps one after the other.\<close>

lemma complete_two_steps:
  assumes "tx_complete i res q now s = (True, t)"
  shows "\<exists>p. itx_run (s, ps) [Removed i q now res, Sent (SendResult p res)] (t, ps)"
proof -
  obtain p u where "tx_remove i q now s = (Some p, u)" "t = tx_send (SendResult p res) u"
    using assms by (auto simp: tx_complete_def split: prod.splits option.splits)
  then have "itx_step (s, ps) (Removed i q now res) (u, SendResult p res # ps)"
    "itx_step (u, SendResult p res # ps) (Sent (SendResult p res)) (t, ps)"
    using itx_step.won [of i q now s p u ps res] itx_step.sent [of "SendResult p res" "SendResult p res # ps" u] by simp_all
  then show ?thesis by (blast intro: itx_run.intros)
qed

section \<open>The invariant\<close>

text \<open>The store while the results of the transactions at the addresses \<open>P\<close> are being published.\<close>

definition wf_store :: "nat set \<Rightarrow> txStore \<Rightarrow> bool" where
  "wf_store P s \<longleftrightarrow> wf_mgr (mgr s) \<and> (\<forall>(i, p) \<in> set (inUse (mgr s)). p < length (heap s) \<and> tx_invokeID (heap s ! p) = i)
     \<and> P \<subseteq> {..<length (heap s)} \<and> P \<inter> snd ` set (inUse (mgr s)) = {}
     \<and> (\<forall>p < length (heap s). tx_result (heap s ! p) = None \<longleftrightarrow> p \<in> snd ` set (inUse (mgr s)) \<union> P)"

definition wf_itx :: "itx_state \<Rightarrow> bool" where
  "wf_itx = (\<lambda>(s, ps). distinct (map pub_ptr ps) \<and> wf_store (pub_ptr ` set ps) s)"

lemma wf_store_empty: "wf_store {} s = wf_tx s"
  by (auto simp: wf_store_def wf_tx_def wf_heap_def)

lemma wf_store_entry:
  assumes "wf_store P s" "map_of (inUse (mgr s)) i = Some p"
  shows "p < length (heap s)" "tx_invokeID (heap s ! p) = i" "p \<notin> P" "tx_result (heap s ! p) = None"
proof -
  have m: "(i, p) \<in> set (inUse (mgr s))" by (rule map_of_SomeD [OF assms(2)])
  then have "p \<in> snd ` set (inUse (mgr s))" by (simp add: rev_image_eqI)
  with m show "p < length (heap s)" "tx_invokeID (heap s ! p) = i" "p \<notin> P" "tx_result (heap s ! p) = None"
    using assms(1) by (auto simp: wf_store_def)
qed

lemma wf_store_heap_upd:
  assumes "wf_store P s" "p < length (heap s)"
    "tx_invokeID (f (heap s ! p)) = tx_invokeID (heap s ! p)" "tx_result (f (heap s ! p)) = tx_result (heap s ! p)"
  shows "wf_store P (heap_upd p f s)"
  using assms by (auto simp: wf_store_def)

lemma wf_store_mgr: "wf_store P s \<Longrightarrow> inUse m = inUse (mgr s) \<Longrightarrow> wf_mgr m \<Longrightarrow> wf_store P (s\<lparr>mgr := m\<rparr>)"
  by (simp add: wf_store_def)

lemma wf_store_alloc:
  assumes "wf_store P s" "tryAllocLocked now (mgr s) = (r, m)"
  shows "wf_store P (s\<lparr>mgr := m\<rparr>)"
proof (cases r)
  case None
  then obtain j where "m = (mgr s)\<lparr>nextID := j\<rparr>" using tryAlloc_result [OF assms(2)] by auto
  then show ?thesis using assms(1) by (simp add: wf_store_def)
next
  case (Some i)
  then have "free_id (mgr s) now i" "int (length (inUse (mgr s))) + int (length (reserved (mgr s))) < tx_max (mgr s)"
    "m = (mgr s)\<lparr>nextID := i + 1, quarantine := AList.delete i (quarantine (mgr s)), reserved := i # reserved (mgr s)\<rparr>"
    using tryAlloc_result [OF assms(2)] by simp_all
  moreover have "wf_mgr (mgr s)" using assms(1) by (simp add: wf_store_def)
  ultimately show ?thesis by (intro wf_store_mgr [OF assms(1)]) (simp_all add: wf_mgr_def free_id_def)
qed

lemma wf_store_register:
  assumes "wf_store P s" "tx_invokeID tx \<in> set (reserved (mgr s))" "tx_result tx = None"
  shows "wf_store P (tx_register tx s)"
proof -
  have f: "tx_invokeID tx \<notin> fst ` set (inUse (mgr s))" and n: "length (heap s) \<notin> snd ` set (inUse (mgr s))" "length (heap s) \<notin> P"
    using assms by (auto simp: wf_store_def wf_mgr_def)
  have l: "Suc (length (removeAll (tx_invokeID tx) (reserved (mgr s)))) = length (reserved (mgr s))"
    using assms by (intro length_removeAll_distinct) (auto simp: wf_store_def wf_mgr_def)
  have m: "wf_mgr (mgr (tx_register tx s))"
    using assms(1) f n l by (auto simp: tx_register_def Let_def wf_store_def wf_mgr_def update_fresh distinct_removeAll)
  have h: "inUse (mgr (tx_register tx s)) = inUse (mgr s) @ [(tx_invokeID tx, length (heap s))]" "heap (tx_register tx s) = heap s @ [tx]"
    using f by (simp_all add: tx_register_def Let_def update_fresh)
  show ?thesis
    using m assms(1,3) n unfolding wf_store_def h by (auto simp: nth_append less_Suc_eq)
qed

lemma wf_store_locked:
  "tx_step s e t \<Longrightarrow> lockedEvent e \<Longrightarrow> wf_store P s \<Longrightarrow> wf_store P t"
proof (induction rule: tx_step.induct)
  case (timeout i allowed s a s')
  then show ?case using wf_store_entry [of P s i]
    by (auto simp: onTimeout_def Let_def intro!: wf_store_heap_upd split: option.splits if_splits)
qed (auto intro!: wf_store_alloc wf_store_register wf_store_heap_upd simp: wf_store_entry enterSegmented_def enterSendingSegments_def
    enterPhase_def enterAwaitingResponse_def setEncoded_def markSent_def split: option.split)

lemma wf_store_remove:
  assumes "wf_store P s" "tx_remove i q now s = (Some p, t)"
  shows "wf_store (insert p P) t" "p \<notin> P"
proof -
  have e: "map_of (inUse (mgr s)) i = Some p" "heap t = heap s" "inUse (mgr t) = AList.delete i (inUse (mgr s))"
    "reserved (mgr t) = reserved (mgr s)" "tx_max (mgr t) = tx_max (mgr s)"
    using assms(2) by (auto simp: tx_remove_def Let_def split: option.splits if_splits)
  have "wf_mgr (mgr t)" using wf_mgr_delete [of "mgr s" i] assms(1) e by (simp add: wf_store_def wf_mgr_def)
  moreover have "snd ` set (AList.delete i (inUse (mgr s))) = snd ` set (inUse (mgr s)) - {p}"
    using assms(1) map_of_SomeD [OF e(1)] by (intro snd_delete) (simp_all add: wf_store_def wf_mgr_def)
  ultimately show "wf_store (insert p P) t"
    using assms(1) wf_store_entry [OF assms(1) e(1)] map_of_SomeD [OF e(1)]
    unfolding wf_store_def e by (auto simp: AList.delete_eq)
  show "p \<notin> P" by (rule wf_store_entry [OF assms(1) e(1)])
qed

lemma wf_store_drain:
  assumes "wf_store P s" "tx_drain err s = (pubs, t)"
  shows "wf_store (pub_ptr ` set pubs \<union> P) t" "distinct (map pub_ptr pubs)" "pub_ptr ` set pubs \<inter> P = {}"
proof -
  have e: "pubs = map (\<lambda>(_, p). SendAbort p err) (inUse (mgr s))" "t = s\<lparr>mgr := (mgr s)\<lparr>inUse := []\<rparr>\<rparr>"
    using assms(2) by (simp_all add: tx_drain_def)
  have m: "map pub_ptr pubs = map snd (inUse (mgr s))" by (simp add: e(1) comp_def case_prod_beta)
  then have "pub_ptr ` set pubs = snd ` set (inUse (mgr s))" by (metis list.set_map)
  note p = this m
  show "distinct (map pub_ptr pubs)" "pub_ptr ` set pubs \<inter> P = {}" using assms(1) unfolding p by (auto simp: wf_store_def wf_mgr_def)
  show "wf_store (pub_ptr ` set pubs \<union> P) t" using assms(1) unfolding p e(2) by (auto simp: wf_store_def wf_mgr_def)
qed

lemma wf_store_send:
  assumes "wf_store P s" "pub_ptr pub \<in> P"
  shows "wf_store (P - {pub_ptr pub}) (tx_send pub s)"
proof -
  have "pub_ptr pub < length (heap s)" "pub_ptr pub \<notin> snd ` set (inUse (mgr s))" using assms by (auto simp: wf_store_def)
  then show ?thesis using assms by (auto simp: wf_store_def tx_send_def)
qed

lemma itx_step_wf: "itx_step x e y \<Longrightarrow> wf_itx x \<Longrightarrow> wf_itx y"
proof (induction rule: itx_step.induct)
  case (locked s e t ps)
  then show ?case by (simp add: wf_itx_def wf_store_locked)
next
  case (won i q now s p t ps res)
  then show ?case using wf_store_remove [of "pub_ptr ` set ps" s i q now p t] by (simp add: wf_itx_def)
next
  case (lost i q now s t ps res)
  then show ?case by (auto simp: wf_itx_def tx_remove_def Let_def split: option.splits)
next
  case (drained err s pubs t ps)
  then show ?case using wf_store_drain [of "pub_ptr ` set ps" s err pubs t] by (auto simp: wf_itx_def image_Un)
next
  case (sent pub ps s)
  then have d: "distinct (map pub_ptr ps)" "wf_store (pub_ptr ` set ps) s" by (simp_all add: wf_itx_def)
  then have "pub_ptr ` set (remove1 pub ps) = pub_ptr ` set ps - {pub_ptr pub}"
    using sent by (auto simp: distinct_map inj_on_def)
  moreover have "distinct (map pub_ptr (remove1 pub ps))" using d(1) by (auto simp: distinct_map inj_on_def)
  ultimately show ?case using wf_store_send [OF d(2), of pub] sent by (simp add: wf_itx_def)
qed

lemma itx_run_wf: "itx_run x es y \<Longrightarrow> wf_itx x \<Longrightarrow> wf_itx y"
  by (induction rule: itx_run.induct) (auto dest: itx_step_wf)

lemma wf_itx_new: "wf_itx (newTxStore n, [])"
  using wf_tx_new [of n] by (simp add: wf_itx_def wf_store_empty)

section \<open>The transaction of a request\<close>

text \<open>The transaction at \<open>p\<close> has the identifier \<open>i\<close>, and no other transaction is in the table under it.\<close>

definition holds :: "nat \<Rightarrow> u8 \<Rightarrow> txStore \<Rightarrow> bool" where
  "holds p i s \<longleftrightarrow> p < length (heap s) \<and> tx_invokeID (heap s ! p) = i
     \<and> (map_of (inUse (mgr s)) i = None \<or> map_of (inUse (mgr s)) i = Some p)"

fun registers :: "u8 \<Rightarrow> itx_event \<Rightarrow> bool" where
  "registers i (Locked (EvRegister tx)) \<longleftrightarrow> tx_invokeID tx = i"
| "registers i _ \<longleftrightarrow> False"

lemma holds_heap_upd: "holds p i s \<Longrightarrow> (\<And>tx. tx_invokeID (f tx) = tx_invokeID tx) \<Longrightarrow> holds p i (heap_upd k f s)"
  by (cases "k < length (heap s)") (auto simp: holds_def heap_upd_def nth_list_update)

lemma holds_mgr: "holds p i s \<Longrightarrow> inUse m = inUse (mgr s) \<Longrightarrow> holds p i (s\<lparr>mgr := m\<rparr>)"
  by (simp add: holds_def)

lemma holds_alloc:
  assumes "holds p i s" "tryAllocLocked now (mgr s) = (r, m)"
  shows "holds p i (s\<lparr>mgr := m\<rparr>)"
  using tryAlloc_result [OF assms(2)] by (intro holds_mgr [OF assms(1)]) (auto split: option.splits)

lemma holds_register: "holds p i s \<Longrightarrow> tx_invokeID tx \<noteq> i \<Longrightarrow> holds p i (tx_register tx s)"
  by (auto simp: holds_def tx_register_def Let_def nth_append update_conv')

lemma holds_remove: "holds p i s \<Longrightarrow> tx_remove j q now s = (r, t) \<Longrightarrow> holds p i t"
  by (auto simp: holds_def tx_remove_def Let_def delete_conv' split: option.splits if_splits)

lemma holds_locked:
  "tx_step s e t \<Longrightarrow> lockedEvent e \<Longrightarrow> \<not> registers i (Locked e) \<Longrightarrow> holds p i s \<Longrightarrow> holds p i t"
proof (induction rule: tx_step.induct)
  case (timeout j allowed s a s')
  then show ?case by (auto simp: onTimeout_def Let_def intro!: holds_heap_upd split: option.splits if_splits)
qed (auto intro!: holds_alloc holds_register holds_heap_upd simp: enterSegmented_def enterSendingSegments_def
    enterPhase_def enterAwaitingResponse_def setEncoded_def markSent_def split: option.split)

lemma holds_step: "itx_step x e y \<Longrightarrow> \<not> registers i e \<Longrightarrow> holds p i (fst x) \<Longrightarrow> holds p i (fst y)"
proof (induction rule: itx_step.induct)
  case (drained err s pubs t ps)
  then show ?case by (auto simp: tx_drain_def holds_def)
next
  case (sent pub ps s)
  then show ?case by (simp add: tx_send_def holds_heap_upd)
qed (auto intro: holds_locked holds_remove)

lemma holds_run: "itx_run x es y \<Longrightarrow> list_all (\<lambda>e. \<not> registers i e) es \<Longrightarrow> holds p i (fst x) \<Longrightarrow> holds p i (fst y)"
  by (induction rule: itx_run.induct) (auto dest: holds_step)

text \<open>A transaction that has left the table has its result, or a goroutine is about to publish it.\<close>

lemma gone_published:
  assumes "wf_itx (s, ps)" "holds p i s" "map_of (inUse (mgr s)) i = None"
  shows "tx_result (heap s ! p) \<noteq> None \<or> (\<exists>pub \<in> set ps. pub_ptr pub = p)"
proof (rule ccontr)
  assume "\<not> ?thesis"
  then have "p \<in> snd ` set (inUse (mgr s))" using assms(1,2) by (auto simp: wf_itx_def wf_store_def holds_def)
  then obtain j where j: "(j, p) \<in> set (inUse (mgr s))" by auto
  then have "j = i" using assms(1,2) by (auto simp: wf_itx_def wf_store_def holds_def)
  then show False using j assms(3) by (force simp: map_of_eq_None_iff)
qed

lemma publishing_empty:
  assumes "wf_itx (s, ps)" "pub \<in> set ps"
  shows "tx_result (heap s ! pub_ptr pub) = None" "tx_result (heap (tx_send pub s) ! pub_ptr pub) = Some (pub_result pub (heap s ! pub_ptr pub))"
proof -
  have p: "pub_ptr pub < length (heap s)" "tx_result (heap s ! pub_ptr pub) = None"
    using assms by (auto simp: wf_itx_def wf_store_def)
  then show "tx_result (heap s ! pub_ptr pub) = None" "tx_result (heap (tx_send pub s) ! pub_ptr pub) = Some (pub_result pub (heap s ! pub_ptr pub))"
    by (simp_all add: tx_send_def)
qed

section \<open>Properties\<close>

text \<open>C19. However the goroutines of the client interleave, also between the removal of a transaction and the send of its result,
  an invoke ID belongs to at most one request, waiting or reserved, and there are never more than the configured capacity; an
  entry leads to a transaction of that ID; and each transaction is either in the table, or taken out by exactly one
  goroutine that has not sent its result yet, or has its result.\<close>

theorem tx_table_invariant:
  assumes "itx_run (newTxStore n, []) es (s, ps)"
  shows "distinct (map fst (inUse (mgr s)) @ reserved (mgr s))
    \<and> int (length (inUse (mgr s)) + length (reserved (mgr s))) \<le> tx_max (mgr s) \<and> tx_max (mgr s) \<le> 255
    \<and> (\<forall>i tx. tx_lookup i s = Some tx \<longrightarrow> tx_invokeID tx = i)
    \<and> distinct (map pub_ptr ps) \<and> pub_ptr ` set ps \<inter> snd ` set (inUse (mgr s)) = {}
    \<and> (\<forall>p < length (heap s). tx_result (heap s ! p) \<noteq> None \<longleftrightarrow> p \<notin> snd ` set (inUse (mgr s)) \<and> p \<notin> pub_ptr ` set ps)"
proof -
  have wf: "distinct (map pub_ptr ps)" "wf_store (pub_ptr ` set ps) s" using itx_run_wf [OF assms wf_itx_new] by (simp_all add: wf_itx_def)
  then have "\<forall>i tx. tx_lookup i s = Some tx \<longrightarrow> tx_invokeID tx = i" by (auto simp: tx_lookup_def wf_store_entry)
  with wf show ?thesis unfolding wf_store_def wf_mgr_def by (simp add: Int_commute)
qed

text \<open>The sample request, timed out once and then answered, at the moment before the answer is sent to its goroutine.\<close>

lemma tx_run_locked: "tx_run s es t \<Longrightarrow> list_all lockedEvent es \<Longrightarrow> itx_run (s, ps) (map Locked es) (t, ps)"
  by (induction rule: tx_run.induct) (auto intro: itx_run.intros itx_step.locked)

lemma itx_run_snoc: "itx_run x es y \<Longrightarrow> itx_step y e z \<Longrightarrow> itx_run x (es @ [e]) z"
  by (induction rule: itx_run.induct) (auto intro: itx_run.intros)

lemma sample_mid_completion:
  "\<exists>t. itx_run (newTxStore 4, []) (map Locked sampleEvents @ [Removed 0 5 7 sampleResult]) (t, [SendResult 0 sampleResult])
     \<and> inUse (mgr t) = [] \<and> heap t = heap samplePending"
proof -
  have "itx_run (newTxStore 4, []) (map Locked sampleEvents) (samplePending, [])"
    by (rule tx_run_locked [OF sample_run]) (simp add: sampleEvents_def)
  moreover obtain t where t: "tx_remove 0 5 7 samplePending = (Some 0, t)" "inUse (mgr t) = []" "heap t = heap samplePending"
    by (simp add: tx_remove_def samplePending_def Let_def)
  ultimately show ?thesis using itx_run_snoc itx_step.won [OF t(1), of "[]" sampleResult] by blast
qed

theorem tx_table_invariant_witness:
  "\<exists>t. itx_run (newTxStore 4, []) (map Locked sampleEvents @ [Removed 0 5 7 sampleResult]) (t, [SendResult 0 sampleResult])
     \<and> 0 \<notin> snd ` set (inUse (mgr t)) \<and> tx_result (heap t ! 0) = None"
proof -
  obtain t where t: "itx_run (newTxStore 4, []) (map Locked sampleEvents @ [Removed 0 5 7 sampleResult]) (t, [SendResult 0 sampleResult])"
    "inUse (mgr t) = []" "heap t = heap samplePending" using sample_mid_completion by blast
  have "0 < length (heap t)" using t(3) by (simp add: samplePending_def)
  with tx_table_invariant [OF t(1)] have "tx_result (heap t ! 0) = None" by auto
  with t show ?thesis by auto
qed

end
