(* ===== verification/Service_Base.thy ===== *)
theory Service_Base
  imports Constructed Apdu
begin

text \<open>
  What the service codecs of the package \<^verbatim>\<open>service\<close> share: the range-checked narrowings of
  \<^verbatim>\<open>narrow.go\<close>, the prologue of every decoder (parse the whole payload as one sequence), the property
  value wrapper, and the interface all these codecs satisfy. A codec that writes a list of elements and
  reads it back element by element is proved once, in the locale \<open>element_service\<close>; each service
  contributes its list of elements and the two equations about it.
\<close>

section \<open>Narrowing\<close>

definition narrowU8 :: "u64 \<Rightarrow> u8 result" where
  "narrowU8 u = (if u > 0xFF then Inl ErrMalformed else Inr (ucast u))"

definition narrowU16 :: "u64 \<Rightarrow> u16 result" where
  "narrowU16 u = (if u > 0xFFFF then Inl ErrMalformed else Inr (ucast u))"

definition narrowU32 :: "u64 \<Rightarrow> u32 result" where
  "narrowU32 u = (if u > 0xFFFFFFFF then Inl ErrMalformed else Inr (ucast u))"

definition narrowS32 :: "u64 \<Rightarrow> u32 result" where
  "narrowS32 v = (if sint v < -(2 ^ 31) \<or> sint v > 2 ^ 31 - 1 then Inl ErrMalformed else Inr (ucast v))"

section \<open>The common prologue and the property value wrapper\<close>

definition wholeSequence :: "bytes \<Rightarrow> DecodeLimits \<Rightarrow> Element list result" where
  "wholeSequence payload limits =
     rbind (ParseSequence payload limits (-1)) (\<lambda>(elements, n).
       if n \<noteq> length payload then Inl ErrTrailingData else Inr elements)"

text \<open>The content of a value wrapper: one application value, or the elements of a constructed one.\<close>

definition wrapperValue :: "Element list \<Rightarrow> ApplicationValue" where
  "wrapperValue els =
     (if length els = 1 \<and> \<not> Context (els ! 0) then Value (els ! 0) else ConstructedValue els)"

section \<open>Elements a service writes\<close>

definition uEl :: "u8 \<Rightarrow> u64 \<Rightarrow> Element" where
  "uEl tn v = ctxEl tn (encodeUnsigned v)"

definition idEl :: "u8 \<Rightarrow> ObjectIdentifier \<Rightarrow> Element" where
  "idEl tn i = ctxEl tn (put32 (push_bit 22 (ucast (oType i)) OR Instance i))"

definition csEl :: "u8 \<Rightarrow> CharacterString \<Rightarrow> Element" where
  "csEl tn c = ctxEl tn (Encoding c # cs_Value c)"

definition valueEls :: "ApplicationValue \<Rightarrow> Element list" where
  "valueEls v = (if Kind v = ValueConstructed then Elements v else [appEl v])"

definition optEl :: "('a \<Rightarrow> Element) \<Rightarrow> 'a option \<Rightarrow> Element list" where
  "optEl f x = (case x of None \<Rightarrow> [] | Some v \<Rightarrow> [f v])"

definition wf_id :: "ObjectIdentifier \<Rightarrow> bool" where
  "wf_id i \<longleftrightarrow> oType i \<le> 0x3FF \<and> Instance i \<le> MaxObjectInstance"

text \<open>A sequence within the limits a decoder is given.\<close>

definition fitsSequence :: "DecodeLimits \<Rightarrow> Element list \<Rightarrow> bool" where
  "fitsSequence L els \<longleftrightarrow> wf_elements (Normalize L) els \<and> int (els_count els) \<le> MaxElements (Normalize L)
     \<and> int (els_depth els) \<le> MaxConstructedDepth (Normalize L)"

named_theorems service_simps \<open>elements written by a service and what its decoder reads from them\<close>

lemma optEl_simps [simp]: "optEl f None = []" "optEl f (Some v) = [f v]"
  by (simp_all add: optEl_def)

lemma service_el [simp]:
  "Context (uEl tn v)" "TagNumber (uEl tn v) = tn" "\<not> IsContextConstructed (uEl tn v)"
  "Context (idEl tn i)" "TagNumber (idEl tn i) = tn" "\<not> IsContextConstructed (idEl tn i)"
  "Context (csEl tn c)" "TagNumber (csEl tn c) = tn" "\<not> IsContextConstructed (csEl tn c)"
  by (simp_all add: uEl_def idEl_def csEl_def)

lemma EncodeObjectIdentifier_wf:
  "wf_id i \<Longrightarrow> EncodeObjectIdentifier i = Inr (push_bit 22 (ucast (oType i)) OR Instance i)"
  by (simp add: EncodeObjectIdentifier_def wf_id_def not_less)

lemma u32_fits_u64 [simp]: "\<not> (0xFFFFFFFF < (ucast w :: u64))" for w :: u32
proof -
  have "unat w < 2 ^ 32" using unsigned_less [of w] by simp
  then show ?thesis by (simp add: word_less_nat_alt unat_ucast)
qed

lemma u8_fits_u64 [simp]: "\<not> (0xFF < (ucast w :: u64))" for w :: u8
proof -
  have "unat w < 2 ^ 8" using unsigned_less [of w] by simp
  then show ?thesis by (simp add: word_less_nat_alt unat_ucast)
qed

lemma u16_fits_u64 [simp]: "\<not> (0xFFFF < (ucast w :: u64))" for w :: u16
proof -
  have "unat w < 2 ^ 16" using unsigned_less [of w] by simp
  then show ?thesis by (simp add: word_less_nat_alt unat_ucast)
qed

lemma service_extract [simp]:
  "ContextUnsigned (uEl tn v) = Inr v" "ContextUnsigned32 (uEl tn (ucast w)) = Inr w"
  "wf_id i \<Longrightarrow> ContextObjectID (idEl tn i) = Inr i" "ContextCharacterString (csEl tn c) = Inr c"
  by (simp_all add: uEl_def idEl_def csEl_def DecodeObjectIdentifier_Encode [OF EncodeObjectIdentifier_wf])

lemma ucast_back [simp]:
  "(ucast (ucast (w :: u8) :: u64) :: u8) = w" "(ucast (ucast (v :: u16) :: u64) :: u16) = v"
  "(ucast (ucast (x :: u32) :: u64) :: u32) = x"
  by (rule bit_word_eqI; simp add: bit_simps)+

lemma narrow_ucast [simp]:
  "narrowU8 (ucast (w :: u8)) = Inr w" "narrowU16 (ucast (v :: u16)) = Inr v" "narrowU32 (ucast (x :: u32)) = Inr x"
  by (simp_all add: narrowU8_def narrowU16_def narrowU32_def)

text \<open>The writers as elements.\<close>

lemma AppendContextUnsigned_el [service_simps]: "AppendContextUnsigned dst tn v = AppendTag dst (uEl tn v)"
  by (simp add: AppendContextUnsigned_def uEl_def appendContextPrimitive_AppendTag)

lemma AppendContextObjectID_el [service_simps]: "wf_id i \<Longrightarrow> AppendContextObjectID dst tn i = AppendTag dst (idEl tn i)"
  by (simp add: AppendContextObjectID_def idEl_def EncodeObjectIdentifier_wf appendContextPrimitive_AppendTag)

lemma AppendContextCharacterString_el [service_simps]: "AppendContextCharacterString dst tn c = AppendTag dst (csEl tn c)"
  by (simp add: AppendContextCharacterString_def csEl_def appendContextPrimitive_AppendTag)

lemma AppendApplicationValue_els: "AppendApplicationValue dst v = AppendTags dst (valueEls v)"
proof (cases "Kind v = ValueConstructed")
  case True
  then show ?thesis by (cases v) (simp add: valueEls_def)
next
  case False
  then show ?thesis by (simp only: valueEls_def if_False AppendApplicationValue_AppendTag AppendTag_AppendTags)
qed

text \<open>A constructed element is its opening octet, its content and its closing octet.\<close>

lemma AppendTag_conEl:
  "tn \<noteq> tagNumberReserved \<Longrightarrow> AppendTag dst (conEl tn els) =
     rbind (AppendTags (appendContextOpenClose dst tn True) els) (\<lambda>d. Inr (appendContextOpenClose d tn False))"
  by (simp add: conEl_def ConstructedValue_def)

lemma AppendTag_value:
  "tn \<noteq> tagNumberReserved \<Longrightarrow> AppendTag dst (conEl tn (valueEls v)) =
     rbind (AppendApplicationValue [] v) (\<lambda>body. Inr (appendContextOpenClose (appendContextOpenClose dst tn True @ body) tn False))"
  using AppendTags_dst [of "appendContextOpenClose dst tn True" "valueEls v"]
  by (simp add: AppendTag_conEl AppendApplicationValue_els)

lemma wrapperValue_valueEls:
  "Kind v \<noteq> ValueConstructed \<Longrightarrow> wrapperValue (valueEls v) = v"
  "wrapperValue (valueEls (ConstructedValue els)) = wrapperValue els"
  by (simp_all add: wrapperValue_def valueEls_def)

lemma fitsSequence_parses:
  assumes "fitsSequence L els"
  shows "\<exists>bs. AppendTags [] els = Inr bs \<and> wholeSequence bs L = Inr els"
  using encoded_sequence_parses [of L els] assms by (auto simp: fitsSequence_def wholeSequence_def)

text \<open>Deciding that a concrete message fits the default limits.\<close>

named_theorems fits_simps \<open>evaluation of \<open>fitsSequence\<close> on concrete elements\<close>

lemma length_encodeUnsigned_fits [fits_simps]:
  "length (encodeUnsigned u) \<le> 65535" "length (encodeUnsigned u) \<le> 4294967295"
  using length_encodeUnsigned [of u] by simp_all

declare fitsSequence_def [fits_simps] uEl_def [fits_simps] idEl_def [fits_simps] csEl_def [fits_simps]
  valueEls_def [fits_simps] DefaultDecodeLimits_def [fits_simps] Normalize_def [fits_simps] withDefaults_def [fits_simps]
  Let_def [fits_simps] tagNumberReserved_def [fits_simps] wf_id_def [fits_simps] MaxObjectInstance_def [fits_simps]

section \<open>The interface of a service codec\<close>

locale element_service =
  fixes enc :: "'a \<Rightarrow> bytes result"
    and dec :: "Element list \<Rightarrow> 'a result"
    and els_of :: "'a \<Rightarrow> Element list"
    and ok :: "'a \<Rightarrow> bool"
    and norm :: "'a \<Rightarrow> 'a"
  assumes enc_els: "ok x \<Longrightarrow> enc x = AppendTags [] (els_of x)"
    and dec_els: "ok x \<Longrightarrow> dec (els_of x) = Inr (norm x)"
begin

lemma service_roundtrip:
  assumes "ok x" "fitsSequence L (els_of x)"
  shows "\<exists>bs. enc x = Inr bs \<and> rbind (wholeSequence bs L) dec = Inr (norm x)"
  using fitsSequence_parses [OF assms(2)] enc_els [OF assms(1)] dec_els [OF assms(1)] by auto

end

text \<open>Every such service is a wire codec under the limits of its decoder.\<close>

sublocale element_service \<subseteq> service_wire: wire_codec enc "\<lambda>bs. rbind (wholeSequence bs L) dec"
  "\<lambda>x. ok x \<and> fitsSequence L (els_of x)" norm for L
  by unfold_locales (use service_roundtrip in \<open>fastforce simp: is_ok_iff\<close>)+

end
