(* ===== verification/Property_Services.thy ===== *)
theory Property_Services
  imports Service_Base
begin

text \<open>
  The property access services: ReadProperty (\<^verbatim>\<open>service/read_property.go\<close>), WriteProperty
  (\<^verbatim>\<open>service/write_property.go\<close>), ReadPropertyMultiple (\<^verbatim>\<open>service/read_property_multiple.go\<close>) and
  WritePropertyMultiple with its error (\<^verbatim>\<open>service/write_property_multiple.go\<close>). The decoders' loops keep
  one optional value per field, which is the field and its \<^verbatim>\<open>have\<close> flag; every branch of the source that
  sets the flag and fails returns at once. \<^verbatim>\<open>Clone\<close> copies a value and is the identity here.
  Each service is an interpretation of \<open>element_service\<close>.
\<close>

section \<open>ReadProperty\<close>

record ReadPropertyRequest =
  rp_Object :: ObjectIdentifier
  rp_Property :: PropertyReference

definition EncodeReadProperty :: "ReadPropertyRequest \<Rightarrow> bytes result" where
  "EncodeReadProperty req =
     rbind (AppendContextObjectID [] 0 (rp_Object req)) (\<lambda>dst.
     rbind (AppendContextUnsigned dst 1 (ucast (Identifier (rp_Property req)))) (\<lambda>dst.
       case ArrayIndex (rp_Property req) of
         None \<Rightarrow> Inr dst
       | Some i \<Rightarrow> AppendContextUnsigned dst 2 (ucast i)))"

fun readProperty_loop ::
    "ObjectIdentifier option \<Rightarrow> u32 option \<Rightarrow> u32 option \<Rightarrow> Element list \<Rightarrow> ReadPropertyRequest result" where
  "readProperty_loop obj prop idx [] =
     (case (obj, prop) of
        (Some ob, Some p) \<Rightarrow> Inr \<lparr>rp_Object = ob, rp_Property = \<lparr>Identifier = p, ArrayIndex = idx\<rparr>\<rparr>
      | _ \<Rightarrow> Inl ErrMalformed)"
| "readProperty_loop obj prop idx (el # els) =
     (if TagNumber el = 0 then
        if obj \<noteq> None then Inl ErrMalformed
        else rbind (ContextObjectID el) (\<lambda>v. readProperty_loop (Some v) prop idx els)
      else if TagNumber el = 1 then
        if prop \<noteq> None then Inl ErrMalformed
        else rbind (ContextUnsigned el) (\<lambda>u.
          if u > 0xFFFFFFFF then Inl ErrMalformed else readProperty_loop obj (Some (ucast u)) idx els)
      else if TagNumber el = 2 then
        if idx \<noteq> None then Inl ErrMalformed
        else rbind (ContextUnsigned el) (\<lambda>u.
          if u > 0xFFFFFFFF then Inl ErrMalformed else readProperty_loop obj prop (Some (ucast u)) els)
      else Inl ErrMalformed)"

definition DecodeReadProperty :: "bytes \<Rightarrow> DecodeLimits \<Rightarrow> ReadPropertyRequest result" where
  "DecodeReadProperty payload limits = rbind (wholeSequence payload limits) (readProperty_loop None None None)"

record ReadPropertyACK =
  rpa_Object :: ObjectIdentifier
  rpa_Property :: PropertyReference
  rpa_Value :: ApplicationValue

definition EncodeReadPropertyACK :: "ReadPropertyACK \<Rightarrow> bytes result" where
  "EncodeReadPropertyACK ack =
     rbind (AppendContextObjectID [] 0 (rpa_Object ack)) (\<lambda>dst.
     rbind (AppendContextUnsigned dst 1 (ucast (Identifier (rpa_Property ack)))) (\<lambda>dst.
     rbind (case ArrayIndex (rpa_Property ack) of
              None \<Rightarrow> Inr dst | Some i \<Rightarrow> AppendContextUnsigned dst 2 (ucast i)) (\<lambda>dst.
     rbind (AppendApplicationValue [] (rpa_Value ack)) (\<lambda>body.
       Inr (((dst @ [0x3E]) @ body) @ [0x3F])))))"

fun readPropertyACK_loop ::
    "ObjectIdentifier option \<Rightarrow> u32 option \<Rightarrow> u32 option \<Rightarrow> ApplicationValue option \<Rightarrow> Element list \<Rightarrow>
       ReadPropertyACK result" where
  "readPropertyACK_loop obj prop idx val [] =
     (case (obj, prop, val) of
        (Some ob, Some p, Some v) \<Rightarrow>
          Inr \<lparr>rpa_Object = ob, rpa_Property = \<lparr>Identifier = p, ArrayIndex = idx\<rparr>, rpa_Value = v\<rparr>
      | _ \<Rightarrow> Inl ErrMalformed)"
| "readPropertyACK_loop obj prop idx val (el # els) =
     (if TagNumber el = 0 \<and> \<not> IsContextConstructed el then
        if obj \<noteq> None then Inl ErrMalformed
        else rbind (ContextObjectID el) (\<lambda>v. readPropertyACK_loop (Some v) prop idx val els)
      else if TagNumber el = 1 \<and> \<not> IsContextConstructed el then
        if prop \<noteq> None then Inl ErrMalformed
        else rbind (ContextUnsigned32 el) (\<lambda>u. readPropertyACK_loop obj (Some u) idx val els)
      else if TagNumber el = 2 \<and> \<not> IsContextConstructed el then
        if idx \<noteq> None then Inl ErrMalformed
        else rbind (ContextUnsigned32 el) (\<lambda>u. readPropertyACK_loop obj prop (Some u) val els)
      else if TagNumber el = 3 \<and> IsContextConstructed el then
        if val \<noteq> None then Inl ErrMalformed
        else readPropertyACK_loop obj prop idx (Some (wrapperValue (Elements (Value el)))) els
      else Inl ErrMalformed)"

definition DecodeReadPropertyACK :: "bytes \<Rightarrow> DecodeLimits \<Rightarrow> ReadPropertyACK result" where
  "DecodeReadPropertyACK payload limits =
     rbind (wholeSequence payload limits) (readPropertyACK_loop None None None None)"

section \<open>WriteProperty\<close>

record WritePropertyRequest =
  wp_Object :: ObjectIdentifier
  wp_Property :: PropertyReference
  wp_Value :: ApplicationValue
  wp_Priority :: "u8 option"

definition EncodeWriteProperty :: "WritePropertyRequest \<Rightarrow> bytes result" where
  "EncodeWriteProperty req =
     rbind (AppendContextObjectID [] 0 (wp_Object req)) (\<lambda>dst.
     rbind (AppendContextUnsigned dst 1 (ucast (Identifier (wp_Property req)))) (\<lambda>dst.
     rbind (case ArrayIndex (wp_Property req) of
              None \<Rightarrow> Inr dst | Some i \<Rightarrow> AppendContextUnsigned dst 2 (ucast i)) (\<lambda>dst.
     rbind (AppendApplicationValue [] (wp_Value req)) (\<lambda>body.
     let dst = ((dst @ [0x3E]) @ body) @ [0x3F] in
     case wp_Priority req of
       None \<Rightarrow> Inr dst
     | Some p \<Rightarrow> if p < 1 \<or> p > 16 then Inl ErrMalformed else AppendContextUnsigned dst 4 (ucast p)))))"

fun writeProperty_loop ::
    "ObjectIdentifier option \<Rightarrow> u32 option \<Rightarrow> u32 option \<Rightarrow> ApplicationValue option \<Rightarrow> u8 option \<Rightarrow> Element list \<Rightarrow>
       WritePropertyRequest result" where
  "writeProperty_loop obj prop idx val pri [] =
     (case (obj, prop, val) of
        (Some ob, Some p, Some v) \<Rightarrow>
          Inr \<lparr>wp_Object = ob, wp_Property = \<lparr>Identifier = p, ArrayIndex = idx\<rparr>, wp_Value = v, wp_Priority = pri\<rparr>
      | _ \<Rightarrow> Inl ErrMalformed)"
| "writeProperty_loop obj prop idx val pri (el # els) =
     (if TagNumber el = 0 \<and> \<not> IsContextConstructed el then
        if obj \<noteq> None then Inl ErrMalformed
        else rbind (ContextObjectID el) (\<lambda>v. writeProperty_loop (Some v) prop idx val pri els)
      else if TagNumber el = 1 \<and> \<not> IsContextConstructed el then
        if prop \<noteq> None then Inl ErrMalformed
        else rbind (ContextUnsigned32 el) (\<lambda>u. writeProperty_loop obj (Some u) idx val pri els)
      else if TagNumber el = 2 \<and> \<not> IsContextConstructed el then
        if idx \<noteq> None then Inl ErrMalformed
        else rbind (ContextUnsigned32 el) (\<lambda>u. writeProperty_loop obj prop (Some u) val pri els)
      else if TagNumber el = 3 \<and> IsContextConstructed el then
        if val \<noteq> None then Inl ErrMalformed
        else writeProperty_loop obj prop idx (Some (wrapperValue (Elements (Value el)))) pri els
      else if TagNumber el = 4 \<and> \<not> IsContextConstructed el then
        rbind (ContextUnsigned el) (\<lambda>u.
          if u < 1 \<or> u > 16 then Inl ErrMalformed
          else if pri \<noteq> None then Inl ErrMalformed
          else writeProperty_loop obj prop idx val (Some (ucast u)) els)
      else Inl ErrMalformed)"

definition DecodeWriteProperty :: "bytes \<Rightarrow> DecodeLimits \<Rightarrow> WritePropertyRequest result" where
  "DecodeWriteProperty payload limits =
     rbind (wholeSequence payload limits) (writeProperty_loop None None None None None)"

section \<open>ReadPropertyMultiple\<close>

record ReadAccessSpecification =
  ras_Object :: ObjectIdentifier
  ras_Properties :: "PropertyReference list"

fun appendPropertyReferences :: "bytes \<Rightarrow> PropertyReference list \<Rightarrow> bytes result" where
  "appendPropertyReferences dst [] = Inr dst"
| "appendPropertyReferences dst (p # ps) =
     rbind (AppendContextUnsigned dst 0 (ucast (Identifier p))) (\<lambda>dst.
     rbind (case ArrayIndex p of None \<Rightarrow> Inr dst | Some i \<Rightarrow> AppendContextUnsigned dst 1 (ucast i)) (\<lambda>dst.
       appendPropertyReferences dst ps))"

fun appendReadSpecs :: "bytes \<Rightarrow> ReadAccessSpecification list \<Rightarrow> bytes result" where
  "appendReadSpecs dst [] = Inr dst"
| "appendReadSpecs dst (spec # specs) =
     rbind (AppendContextObjectID dst 0 (ras_Object spec)) (\<lambda>dst.
     rbind (appendPropertyReferences (dst @ [0x1E]) (ras_Properties spec)) (\<lambda>dst.
       appendReadSpecs (dst @ [0x1F]) specs))"

definition EncodeReadPropertyMultiple :: "ReadAccessSpecification list \<Rightarrow> bytes result" where
  "EncodeReadPropertyMultiple specs = appendReadSpecs [] specs"

text \<open>Two of the loops update the last element of the list they build.\<close>

definition updLast :: "('a \<Rightarrow> 'a) \<Rightarrow> 'a list \<Rightarrow> 'a list" where
  "updLast f xs = butlast xs @ [f (last xs)]"

fun propertyReferences_loop :: "PropertyReference list \<Rightarrow> Element list \<Rightarrow> PropertyReference list result" where
  "propertyReferences_loop out [] = (if length out = 0 then Inl ErrMalformed else Inr out)"
| "propertyReferences_loop out (el # els) =
     (if IsContextConstructed el \<or> \<not> Context el then Inl ErrMalformed
      else if TagNumber el = 0 then
        rbind (ContextUnsigned32 el) (\<lambda>u. propertyReferences_loop (out @ [\<lparr>Identifier = u, ArrayIndex = None\<rparr>]) els)
      else if TagNumber el = 1 then
        if length out = 0 \<or> ArrayIndex (last out) \<noteq> None then Inl ErrMalformed
        else rbind (ContextUnsigned32 el) (\<lambda>u.
          propertyReferences_loop (updLast (\<lambda>r. r\<lparr>ArrayIndex := Some u\<rparr>) out) els)
      else Inl ErrMalformed)"

definition decodePropertyReferences :: "Element list \<Rightarrow> PropertyReference list result" where
  "decodePropertyReferences elements = propertyReferences_loop [] elements"

text \<open>\<^verbatim>\<open>cur == nil\<close> is the empty list of specifications.\<close>

fun readSpecs_loop :: "ReadAccessSpecification list \<Rightarrow> bool \<Rightarrow> Element list \<Rightarrow> ReadAccessSpecification list result" where
  "readSpecs_loop specs haveProps [] =
     (if length specs = 0 then Inl ErrMalformed else if \<not> haveProps then Inl ErrMalformed else Inr specs)"
| "readSpecs_loop specs haveProps (el # els) =
     (if TagNumber el = 0 \<and> \<not> IsContextConstructed el then
        if specs \<noteq> [] \<and> \<not> haveProps then Inl ErrMalformed
        else rbind (ContextObjectID el) (\<lambda>i.
          readSpecs_loop (specs @ [\<lparr>ras_Object = i, ras_Properties = []\<rparr>]) False els)
      else if TagNumber el = 1 \<and> IsContextConstructed el then
        if specs = [] then Inl ErrMalformed
        else if haveProps then Inl ErrMalformed
        else rbind (decodePropertyReferences (Elements (Value el))) (\<lambda>refs.
          readSpecs_loop (updLast (\<lambda>s. s\<lparr>ras_Properties := refs\<rparr>) specs) True els)
      else Inl ErrMalformed)"

definition DecodeReadPropertyMultiple :: "bytes \<Rightarrow> DecodeLimits \<Rightarrow> ReadAccessSpecification list result" where
  "DecodeReadPropertyMultiple payload limits = rbind (wholeSequence payload limits) (readSpecs_loop [] False)"

text \<open>A property-level outcome: a value, or an error that the encoder takes only as an \<^verbatim>\<open>ErrorResponse\<close>.\<close>

record PropertyResult =
  pr_Property :: PropertyReference
  pr_Value :: ApplicationValue
  pr_Err :: "bacnet_error option"

record ReadAccessResult =
  rar_Object :: ObjectIdentifier
  rar_Properties :: "PropertyResult list"

fun appendPropertyResults :: "bytes \<Rightarrow> PropertyResult list \<Rightarrow> bytes result" where
  "appendPropertyResults dst [] = Inr dst"
| "appendPropertyResults dst (p # ps) =
     rbind (AppendContextUnsigned dst 2 (ucast (Identifier (pr_Property p)))) (\<lambda>dst.
     rbind (case ArrayIndex (pr_Property p) of None \<Rightarrow> Inr dst | Some i \<Rightarrow> AppendContextUnsigned dst 3 (ucast i)) (\<lambda>dst.
     rbind (case pr_Err p of
              Some er \<Rightarrow>
                (case er of
                   ErrorResponse _ _ class code \<Rightarrow>
                     rbind (EncodeBACnetError (dst @ [0x5E]) class code) (\<lambda>dst. Inr (dst @ [0x5F]))
                 | _ \<Rightarrow> Inl ErrMalformed)
            | None \<Rightarrow>
                rbind (AppendApplicationValue (dst @ [0x4E]) (pr_Value p)) (\<lambda>dst. Inr (dst @ [0x4F]))) (\<lambda>dst.
       appendPropertyResults dst ps)))"

fun appendReadResults :: "bytes \<Rightarrow> ReadAccessResult list \<Rightarrow> bytes result" where
  "appendReadResults dst [] = Inr dst"
| "appendReadResults dst (r # rs) =
     rbind (AppendContextObjectID dst 0 (rar_Object r)) (\<lambda>dst.
     rbind (appendPropertyResults (dst @ [0x1E]) (rar_Properties r)) (\<lambda>dst.
       appendReadResults (dst @ [0x1F]) rs))"

definition EncodeReadPropertyMultipleACK :: "ReadAccessResult list \<Rightarrow> bytes result" where
  "EncodeReadPropertyMultipleACK results = appendReadResults [] results"

definition zeroPropertyResult :: PropertyResult where
  "zeroPropertyResult = \<lparr>pr_Property = \<lparr>Identifier = 0, ArrayIndex = None\<rparr>, pr_Value = zeroValue, pr_Err = None\<rparr>"

definition flushResult :: "PropertyResult list \<Rightarrow> PropertyResult \<Rightarrow> bool \<Rightarrow> bool \<Rightarrow>
    (PropertyResult list \<times> PropertyResult \<times> bool \<times> bool) result" where
  "flushResult out cur haveProp haveOutcome =
     (if \<not> haveProp then Inr (out, cur, haveProp, haveOutcome)
      else if \<not> haveOutcome then Inl ErrMalformed
      else Inr (out @ [cur], zeroPropertyResult, False, False))"

fun propertyResults_loop ::
    "PropertyResult list \<Rightarrow> PropertyResult \<Rightarrow> bool \<Rightarrow> bool \<Rightarrow> Element list \<Rightarrow> PropertyResult list result" where
  "propertyResults_loop out cur haveProp haveOutcome [] =
     rbind (flushResult out cur haveProp haveOutcome) (\<lambda>(out, _). Inr out)"
| "propertyResults_loop out cur haveProp haveOutcome (el # els) =
     (if TagNumber el = 2 \<and> \<not> IsContextConstructed el then
        rbind (flushResult out cur haveProp haveOutcome) (\<lambda>(out, cur, haveProp, haveOutcome).
        rbind (ContextUnsigned32 el) (\<lambda>u.
          propertyResults_loop out (cur\<lparr>pr_Property := (pr_Property cur)\<lparr>Identifier := u\<rparr>\<rparr>) True haveOutcome els))
      else if TagNumber el = 3 \<and> \<not> IsContextConstructed el then
        if \<not> haveProp then Inl ErrMalformed
        else rbind (ContextUnsigned32 el) (\<lambda>u.
          propertyResults_loop out (cur\<lparr>pr_Property := (pr_Property cur)\<lparr>ArrayIndex := Some u\<rparr>\<rparr>) haveProp haveOutcome els)
      else if TagNumber el = 4 \<and> IsContextConstructed el then
        if \<not> haveProp then Inl ErrMalformed
        else if haveOutcome then Inl ErrMalformed
        else propertyResults_loop out (cur\<lparr>pr_Value := wrapperValue (Elements (Value el))\<rparr>) haveProp True els
      else if TagNumber el = 5 \<and> IsContextConstructed el then
        if \<not> haveProp then Inl ErrMalformed
        else if haveOutcome then Inl ErrMalformed
        else rbind (DecodeBACnetError (Elements (Value el))) (\<lambda>(class, code).
          propertyResults_loop out (cur\<lparr>pr_Err := Some (ErrorResponse 0 0 class code)\<rparr>) haveProp True els)
      else Inl ErrMalformed)"

definition decodeRPMPropertyResults :: "Element list \<Rightarrow> PropertyResult list result" where
  "decodeRPMPropertyResults elements = propertyResults_loop [] zeroPropertyResult False False elements"

fun readResults_loop :: "ReadAccessResult list \<Rightarrow> Element list \<Rightarrow> ReadAccessResult list result" where
  "readResults_loop results [] = Inr results"
| "readResults_loop results (el # els) =
     (if TagNumber el = 0 \<and> \<not> IsContextConstructed el then
        rbind (ContextObjectID el) (\<lambda>i. readResults_loop (results @ [\<lparr>rar_Object = i, rar_Properties = []\<rparr>]) els)
      else if TagNumber el = 1 \<and> IsContextConstructed el then
        if results = [] then Inl ErrMalformed
        else rbind (decodeRPMPropertyResults (Elements (Value el))) (\<lambda>props.
          readResults_loop (updLast (\<lambda>r. r\<lparr>rar_Properties := props\<rparr>) results) els)
      else Inl ErrMalformed)"

definition DecodeReadPropertyMultipleACK :: "bytes \<Rightarrow> DecodeLimits \<Rightarrow> ReadAccessResult list result" where
  "DecodeReadPropertyMultipleACK payload limits = rbind (wholeSequence payload limits) (readResults_loop [])"

section \<open>WritePropertyMultiple\<close>

record WritePropertyValue =
  wpv_Property :: PropertyReference
  wpv_Value :: ApplicationValue
  wpv_Priority :: "u8 option"

record WriteAccessSpecification =
  was_Object :: ObjectIdentifier
  was_Properties :: "WritePropertyValue list"

fun appendWriteValues :: "bytes \<Rightarrow> WritePropertyValue list \<Rightarrow> bytes result" where
  "appendWriteValues dst [] = Inr dst"
| "appendWriteValues dst (p # ps) =
     rbind (AppendContextUnsigned dst 0 (ucast (Identifier (wpv_Property p)))) (\<lambda>dst.
     rbind (case ArrayIndex (wpv_Property p) of None \<Rightarrow> Inr dst | Some i \<Rightarrow> AppendContextUnsigned dst 1 (ucast i)) (\<lambda>dst.
     rbind (AppendApplicationValue [] (wpv_Value p)) (\<lambda>body.
     rbind (let dst = ((dst @ [0x2E]) @ body) @ [0x2F] in
            case wpv_Priority p of
              None \<Rightarrow> Inr dst
            | Some q \<Rightarrow> if q < 1 \<or> q > 16 then Inl ErrMalformed else AppendContextUnsigned dst 3 (ucast q)) (\<lambda>dst.
       appendWriteValues dst ps))))"

fun appendWriteSpecs :: "bytes \<Rightarrow> WriteAccessSpecification list \<Rightarrow> bytes result" where
  "appendWriteSpecs dst [] = Inr dst"
| "appendWriteSpecs dst (spec # specs) =
     (if length (was_Properties spec) = 0 then Inl ErrMalformed
      else
        rbind (AppendContextObjectID dst 0 (was_Object spec)) (\<lambda>dst.
        rbind (appendWriteValues (dst @ [0x1E]) (was_Properties spec)) (\<lambda>dst.
          appendWriteSpecs (dst @ [0x1F]) specs)))"

definition EncodeWritePropertyMultiple :: "WriteAccessSpecification list \<Rightarrow> bytes result" where
  "EncodeWritePropertyMultiple specs =
     (if length specs = 0 then Inl ErrMalformed else appendWriteSpecs [] specs)"

text \<open>
  The state of \<^verbatim>\<open>decodeWPMPropertyValues\<close>: the values read so far and the one being read, each of whose
  fields is present or not.
\<close>

record wpm_cur =
  wc_prop :: "u32 option"
  wc_idx :: "u32 option"
  wc_val :: "ApplicationValue option"
  wc_pri :: "u8 option"

definition zero_wpm_cur :: wpm_cur where
  "zero_wpm_cur = \<lparr>wc_prop = None, wc_idx = None, wc_val = None, wc_pri = None\<rparr>"

definition flushValue :: "WritePropertyValue list \<Rightarrow> wpm_cur \<Rightarrow> (WritePropertyValue list \<times> wpm_cur) result" where
  "flushValue out cur =
     (case (wc_prop cur, wc_val cur) of
        (None, None) \<Rightarrow> Inr (out, cur)
      | (Some p, Some v) \<Rightarrow>
          Inr (out @ [\<lparr>wpv_Property = \<lparr>Identifier = p, ArrayIndex = wc_idx cur\<rparr>, wpv_Value = v, wpv_Priority = wc_pri cur\<rparr>],
               zero_wpm_cur)
      | _ \<Rightarrow> Inl ErrMalformed)"

fun writeValues_loop :: "WritePropertyValue list \<Rightarrow> wpm_cur \<Rightarrow> Element list \<Rightarrow> WritePropertyValue list result" where
  "writeValues_loop out cur [] = rbind (flushValue out cur) (\<lambda>(out, _). Inr out)"
| "writeValues_loop out cur (el # els) =
     (if TagNumber el = 0 \<and> \<not> IsContextConstructed el then
        rbind (flushValue out cur) (\<lambda>(out, cur).
        rbind (ContextUnsigned el) (\<lambda>u.
          if u > 0xFFFFFFFF then Inl ErrMalformed
          else writeValues_loop out (cur\<lparr>wc_prop := Some (ucast u)\<rparr>) els))
      else if TagNumber el = 1 \<and> \<not> IsContextConstructed el then
        if wc_prop cur = None then Inl ErrMalformed
        else if wc_idx cur \<noteq> None then Inl ErrMalformed
        else if wc_val cur \<noteq> None then Inl ErrMalformed
        else rbind (ContextUnsigned el) (\<lambda>u.
          if u > 0xFFFFFFFF then Inl ErrMalformed
          else writeValues_loop out (cur\<lparr>wc_idx := Some (ucast u)\<rparr>) els)
      else if TagNumber el = 2 \<and> IsContextConstructed el then
        if wc_prop cur = None then Inl ErrMalformed
        else if wc_val cur \<noteq> None then Inl ErrMalformed
        else writeValues_loop out (cur\<lparr>wc_val := Some (wrapperValue (Elements (Value el)))\<rparr>) els
      else if TagNumber el = 3 \<and> \<not> IsContextConstructed el then
        if wc_prop cur = None \<or> wc_val cur = None then Inl ErrMalformed
        else if wc_pri cur \<noteq> None then Inl ErrMalformed
        else rbind (ContextUnsigned el) (\<lambda>u.
          if u < 1 \<or> u > 16 then Inl ErrMalformed
          else writeValues_loop out (cur\<lparr>wc_pri := Some (ucast u)\<rparr>) els)
      else Inl ErrMalformed)"

definition decodeWPMPropertyValues :: "Element list \<Rightarrow> WritePropertyValue list result" where
  "decodeWPMPropertyValues elements = writeValues_loop [] zero_wpm_cur elements"

fun writeSpecs_loop :: "WriteAccessSpecification list \<Rightarrow> bool \<Rightarrow> Element list \<Rightarrow> WriteAccessSpecification list result" where
  "writeSpecs_loop specs haveProps [] =
     (if length specs = 0 then Inl ErrMalformed
      else if \<exists>s \<in> set specs. length (was_Properties s) = 0 then Inl ErrMalformed
      else Inr specs)"
| "writeSpecs_loop specs haveProps (el # els) =
     (if TagNumber el = 0 \<and> \<not> IsContextConstructed el then
        rbind (ContextObjectID el) (\<lambda>i.
          writeSpecs_loop (specs @ [\<lparr>was_Object = i, was_Properties = []\<rparr>]) False els)
      else if TagNumber el = 1 \<and> IsContextConstructed el then
        if specs = [] then Inl ErrMalformed
        else if haveProps then Inl ErrMalformed
        else rbind (decodeWPMPropertyValues (Elements (Value el))) (\<lambda>props.
          writeSpecs_loop (updLast (\<lambda>s. s\<lparr>was_Properties := props\<rparr>) specs) True els)
      else Inl ErrMalformed)"

definition DecodeWritePropertyMultiple :: "bytes \<Rightarrow> DecodeLimits \<Rightarrow> WriteAccessSpecification list result" where
  "DecodeWritePropertyMultiple payload limits = rbind (wholeSequence payload limits) (writeSpecs_loop [] False)"

section \<open>WritePropertyMultiple-Error\<close>

record WritePropertyMultipleError =
  wpme_Class :: u16
  wpme_Code :: u16
  FirstFailed :: ObjectIdentifier
  FirstProperty :: PropertyReference

fun objectProperty_loop ::
    "ObjectIdentifier option \<Rightarrow> u32 option \<Rightarrow> u32 option \<Rightarrow> Element list \<Rightarrow> (ObjectIdentifier \<times> PropertyReference) result" where
  "objectProperty_loop obj prop idx [] =
     (case (obj, prop) of
        (Some ob, Some p) \<Rightarrow> Inr (ob, \<lparr>Identifier = p, ArrayIndex = idx\<rparr>)
      | _ \<Rightarrow> Inl ErrMalformed)"
| "objectProperty_loop obj prop idx (el # els) =
     (if TagNumber el = 0 \<and> \<not> IsContextConstructed el then
        if obj \<noteq> None then Inl ErrMalformed
        else rbind (ContextObjectID el) (\<lambda>v. objectProperty_loop (Some v) prop idx els)
      else if TagNumber el = 1 \<and> \<not> IsContextConstructed el then
        if prop \<noteq> None then Inl ErrMalformed
        else rbind (ContextUnsigned el) (\<lambda>u.
          if u > 0xFFFFFFFF then Inl ErrMalformed else objectProperty_loop obj (Some (ucast u)) idx els)
      else if TagNumber el = 2 \<and> \<not> IsContextConstructed el then
        if idx \<noteq> None then Inl ErrMalformed
        else rbind (ContextUnsigned el) (\<lambda>u.
          if u > 0xFFFFFFFF then Inl ErrMalformed else objectProperty_loop obj prop (Some (ucast u)) els)
      else Inl ErrMalformed)"

definition decodeObjectPropertyReference :: "Element list \<Rightarrow> (ObjectIdentifier \<times> PropertyReference) result" where
  "decodeObjectPropertyReference elements = objectProperty_loop None None None elements"

fun wpmError_loop ::
    "(u16 \<times> u16) option \<Rightarrow> (ObjectIdentifier \<times> PropertyReference) option \<Rightarrow> Element list \<Rightarrow> WritePropertyMultipleError result" where
  "wpmError_loop err first [] =
     (case (err, first) of
        (Some (class, code), Some (obj, prop)) \<Rightarrow>
          Inr \<lparr>wpme_Class = class, wpme_Code = code, FirstFailed = obj, FirstProperty = prop\<rparr>
      | _ \<Rightarrow> Inl ErrMalformed)"
| "wpmError_loop err first (el # els) =
     (if TagNumber el = 0 \<and> IsContextConstructed el then
        if err \<noteq> None then Inl ErrMalformed
        else rbind (DecodeBACnetError (Elements (Value el))) (\<lambda>e. wpmError_loop (Some e) first els)
      else if TagNumber el = 1 \<and> IsContextConstructed el then
        if first \<noteq> None then Inl ErrMalformed
        else rbind (decodeObjectPropertyReference (Elements (Value el))) (\<lambda>f. wpmError_loop err (Some f) els)
      else Inl ErrMalformed)"

definition DecodeWritePropertyMultipleError :: "bytes \<Rightarrow> DecodeLimits \<Rightarrow> WritePropertyMultipleError result" where
  "DecodeWritePropertyMultipleError payload limits = rbind (wholeSequence payload limits) (wpmError_loop None None)"

definition EncodeWritePropertyMultipleError :: "WritePropertyMultipleError \<Rightarrow> bytes result" where
  "EncodeWritePropertyMultipleError e =
     rbind (EncodeBACnetError ([] @ [0x0E]) (wpme_Class e) (wpme_Code e)) (\<lambda>dst.
     rbind (AppendContextObjectID ((dst @ [0x0F]) @ [0x1E]) 0 (FirstFailed e)) (\<lambda>dst.
     rbind (AppendContextUnsigned dst 1 (ucast (Identifier (FirstProperty e)))) (\<lambda>dst.
     rbind (case ArrayIndex (FirstProperty e) of None \<Rightarrow> Inr dst | Some i \<Rightarrow> AppendContextUnsigned dst 2 (ucast i)) (\<lambda>dst.
       Inr (dst @ [0x1F])))))"

section \<open>The elements of each service\<close>

definition refEls :: "u8 \<Rightarrow> u8 \<Rightarrow> PropertyReference \<Rightarrow> Element list" where
  "refEls a b p = uEl a (ucast (Identifier p)) # optEl (\<lambda>i. uEl b (ucast i)) (ArrayIndex p)"

definition readProperty_els :: "ReadPropertyRequest \<Rightarrow> Element list" where
  "readProperty_els r = idEl 0 (rp_Object r) # refEls 1 2 (rp_Property r)"

definition readPropertyACK_els :: "ReadPropertyACK \<Rightarrow> Element list" where
  "readPropertyACK_els r = idEl 0 (rpa_Object r) # refEls 1 2 (rpa_Property r) @ [conEl 3 (valueEls (rpa_Value r))]"

definition priorityOk :: "u8 option \<Rightarrow> bool" where
  "priorityOk p \<longleftrightarrow> (case p of None \<Rightarrow> True | Some q \<Rightarrow> \<not> (q < 1 \<or> q > 16))"

definition writeProperty_els :: "WritePropertyRequest \<Rightarrow> Element list" where
  "writeProperty_els r = idEl 0 (wp_Object r) # refEls 1 2 (wp_Property r)
     @ conEl 3 (valueEls (wp_Value r)) # optEl (\<lambda>p. uEl 4 (ucast p)) (wp_Priority r)"

definition readSpec_els :: "ReadAccessSpecification \<Rightarrow> Element list" where
  "readSpec_els s = [idEl 0 (ras_Object s), conEl 1 (concat (map (refEls 0 1) (ras_Properties s)))]"

definition resultEls :: "PropertyResult \<Rightarrow> Element list" where
  "resultEls r = refEls 2 3 (pr_Property r) @
     (case pr_Err r of
        Some (ErrorResponse _ _ class code) \<Rightarrow> [conEl 5 [appEl (EnumValue (ucast class)), appEl (EnumValue (ucast code))]]
      | _ \<Rightarrow> [conEl 4 (valueEls (pr_Value r))])"

definition readResult_els :: "ReadAccessResult \<Rightarrow> Element list" where
  "readResult_els r = [idEl 0 (rar_Object r), conEl 1 (concat (map resultEls (rar_Properties r)))]"

definition writeValue_els :: "WritePropertyValue \<Rightarrow> Element list" where
  "writeValue_els p = refEls 0 1 (wpv_Property p) @ conEl 2 (valueEls (wpv_Value p)) # optEl (\<lambda>q. uEl 3 (ucast q)) (wpv_Priority p)"

definition writeSpec_els :: "WriteAccessSpecification \<Rightarrow> Element list" where
  "writeSpec_els s = [idEl 0 (was_Object s), conEl 1 (concat (map writeValue_els (was_Properties s)))]"

definition wpmError_els :: "WritePropertyMultipleError \<Rightarrow> Element list" where
  "wpmError_els e = [conEl 0 [appEl (EnumValue (ucast (wpme_Class e))), appEl (EnumValue (ucast (wpme_Code e)))],
     conEl 1 (idEl 0 (FirstFailed e) # refEls 1 2 (FirstProperty e))]"

text \<open>
  The form in which a decoder returns a value: a constructed value of one application element comes back as
  that element's value; a property-level error comes back without invoke ID, service and value.
\<close>

definition normValue :: "ApplicationValue \<Rightarrow> ApplicationValue" where
  "normValue v = wrapperValue (valueEls v)"

definition normResult :: "PropertyResult \<Rightarrow> PropertyResult" where
  "normResult r = (case pr_Err r of
      Some (ErrorResponse _ _ class code) \<Rightarrow> r\<lparr>pr_Value := zeroValue, pr_Err := Some (ErrorResponse 0 0 class code)\<rparr>
    | _ \<Rightarrow> r\<lparr>pr_Value := normValue (pr_Value r)\<rparr>)"

definition okResult :: "PropertyResult \<Rightarrow> bool" where
  "okResult r \<longleftrightarrow> (case pr_Err r of None \<Rightarrow> True | Some e \<Rightarrow> (\<exists>i s c d. e = ErrorResponse i s c d))"

section \<open>Each service satisfies the interface\<close>

lemma priority_bounds [simp]:
  "((ucast q :: u64) = 0) = (q = 0)" "(16 < (ucast q :: u64)) = (16 < q)" for q :: u8
proof -
  have "unat q < 2 ^ 8" using unsigned_less [of q] by simp
  then have e: "unat (ucast q :: u64) = unat q" by (simp add: unat_ucast)
  show "((ucast q :: u64) = 0) = (q = 0)" using e by (simp flip: unat_eq_zero)
  show "(16 < (ucast q :: u64)) = (16 < q)" using e by (simp add: word_less_nat_alt)
qed

lemma tags_not_reserved [simp]:
  "0 \<noteq> tagNumberReserved" "1 \<noteq> tagNumberReserved" "2 \<noteq> tagNumberReserved" "3 \<noteq> tagNumberReserved"
  "4 \<noteq> tagNumberReserved" "5 \<noteq> tagNumberReserved"
  by (simp_all add: tagNumberReserved_def)

lemma EncodeReadProperty_els: "wf_id (rp_Object r) \<Longrightarrow> EncodeReadProperty r = AppendTags [] (readProperty_els r)"
  by (cases "ArrayIndex (rp_Property r)"; simp add: EncodeReadProperty_def readProperty_els_def refEls_def service_simps)

lemma readProperty_loop_els: "wf_id (rp_Object r) \<Longrightarrow> readProperty_loop None None None (readProperty_els r) = Inr r"
  by (cases "ArrayIndex (rp_Property r)"; simp add: readProperty_els_def refEls_def)

interpretation readProperty: element_service EncodeReadProperty "readProperty_loop None None None" readProperty_els
  "\<lambda>r. wf_id (rp_Object r)" "\<lambda>r. r"
  by unfold_locales (rule EncodeReadProperty_els readProperty_loop_els, assumption)+

lemma EncodeReadPropertyACK_els: "wf_id (rpa_Object r) \<Longrightarrow> EncodeReadPropertyACK r = AppendTags [] (readPropertyACK_els r)"
  by (cases "ArrayIndex (rpa_Property r)"; simp add: EncodeReadPropertyACK_def readPropertyACK_els_def refEls_def
      AppendTag_value appendContextOpenClose_def service_simps rbind_assoc)

lemma readPropertyACK_loop_els:
  "wf_id (rpa_Object r) \<Longrightarrow>
     readPropertyACK_loop None None None None (readPropertyACK_els r) = Inr (r\<lparr>rpa_Value := normValue (rpa_Value r)\<rparr>)"
  by (cases "ArrayIndex (rpa_Property r)"; simp add: readPropertyACK_els_def refEls_def normValue_def)

interpretation readPropertyACK: element_service EncodeReadPropertyACK "readPropertyACK_loop None None None None" readPropertyACK_els
  "\<lambda>r. wf_id (rpa_Object r)" "\<lambda>r. r\<lparr>rpa_Value := normValue (rpa_Value r)\<rparr>"
  by unfold_locales (rule EncodeReadPropertyACK_els readPropertyACK_loop_els, assumption)+

lemma EncodeWriteProperty_els:
  "wf_id (wp_Object r) \<and> priorityOk (wp_Priority r) \<Longrightarrow> EncodeWriteProperty r = AppendTags [] (writeProperty_els r)"
  by (cases "ArrayIndex (wp_Property r)"; cases "wp_Priority r"; simp add: EncodeWriteProperty_def writeProperty_els_def refEls_def
      priorityOk_def AppendTag_value appendContextOpenClose_def service_simps rbind_assoc)

lemma writeProperty_loop_els:
  "wf_id (wp_Object r) \<and> priorityOk (wp_Priority r) \<Longrightarrow>
     writeProperty_loop None None None None None (writeProperty_els r) = Inr (r\<lparr>wp_Value := normValue (wp_Value r)\<rparr>)"
  by (cases "ArrayIndex (wp_Property r)"; cases "wp_Priority r"; simp add: writeProperty_els_def refEls_def
      normValue_def priorityOk_def)

interpretation writeProperty: element_service EncodeWriteProperty "writeProperty_loop None None None None None" writeProperty_els
  "\<lambda>r. wf_id (wp_Object r) \<and> priorityOk (wp_Priority r)" "\<lambda>r. r\<lparr>wp_Value := normValue (wp_Value r)\<rparr>"
  by unfold_locales (rule EncodeWriteProperty_els writeProperty_loop_els, assumption)+

subsection \<open>ReadPropertyMultiple requests\<close>

lemma updLast_snoc [simp]: "updLast f (xs @ [x]) = xs @ [f x]"
  by (simp add: updLast_def)

lemma appendPropertyReferences_els: "appendPropertyReferences dst ps = AppendTags dst (concat (map (refEls 0 1) ps))"
proof (induction ps arbitrary: dst)
  case (Cons p ps)
  then show ?case
    by (cases "ArrayIndex p") (simp_all add: refEls_def AppendTags_append service_simps rbind_assoc)
qed simp

lemma appendReadSpecs_els:
  "list_all (\<lambda>s. wf_id (ras_Object s)) ss \<Longrightarrow> appendReadSpecs dst ss = AppendTags dst (concat (map readSpec_els ss))"
proof (induction ss arbitrary: dst)
  case (Cons s ss)
  then show ?case
    by (simp add: readSpec_els_def AppendTag_conEl appendPropertyReferences_els service_simps rbind_assoc)
      (simp add: appendContextOpenClose_def)
qed simp

lemma propertyReferences_loop_els:
  "propertyReferences_loop out (concat (map (refEls 0 1) ps)) = (if out @ ps = [] then Inl ErrMalformed else Inr (out @ ps))"
proof (induction ps arbitrary: out)
  case (Cons p ps)
  have "propertyReferences_loop out (refEls 0 1 p @ els) = propertyReferences_loop (out @ [p]) els" for els
    by (cases p; cases "ArrayIndex p") (simp_all add: refEls_def)
  with Cons show ?case by simp
qed simp

lemma readSpecs_loop_els:
  assumes "list_all (\<lambda>s. wf_id (ras_Object s) \<and> ras_Properties s \<noteq> []) ss" "specs = [] \<or> b" "specs @ ss \<noteq> []"
  shows "readSpecs_loop specs b (concat (map readSpec_els ss)) = Inr (specs @ ss)"
  using assms
proof (induction ss arbitrary: specs b)
  case (Cons s ss)
  have "readSpecs_loop specs b (readSpec_els s @ els) = readSpecs_loop (specs @ [s]) True els" for els
    using Cons.prems by (cases s) (auto simp: readSpec_els_def decodePropertyReferences_def propertyReferences_loop_els)
  with Cons show ?case by simp
qed simp

interpretation readMultiple: element_service EncodeReadPropertyMultiple "readSpecs_loop [] False" "\<lambda>ss. concat (map readSpec_els ss)"
  "\<lambda>ss. ss \<noteq> [] \<and> list_all (\<lambda>s. wf_id (ras_Object s) \<and> ras_Properties s \<noteq> []) ss" "\<lambda>ss. ss"
  by unfold_locales
    (auto simp: EncodeReadPropertyMultiple_def readSpecs_loop_els list.pred_set intro!: appendReadSpecs_els)

subsection \<open>ReadPropertyMultiple acknowledgements\<close>

lemma AppendApplicationValue_wrapped:
  assumes "tn \<noteq> tagNumberReserved"
  shows "rbind (AppendApplicationValue (appendContextOpenClose dst tn True) v) (\<lambda>d. Inr (appendContextOpenClose d tn False))
    = AppendTag dst (conEl tn (valueEls v))"
  by (simp only: AppendTag_conEl [OF assms] AppendApplicationValue_els)

lemma EncodeBACnetError_els:
  "EncodeBACnetError dst class code = AppendTags dst [appEl (EnumValue (ucast class)), appEl (EnumValue (ucast code))]"
  by (simp add: EncodeBACnetError_def AppendApplicationValue_AppendTag)

lemma appendPropertyResults_els:
  "list_all okResult ps \<Longrightarrow> appendPropertyResults dst ps = AppendTags dst (concat (map resultEls ps))"
proof (induction ps arbitrary: dst)
  case (Cons p ps)
  show ?case
  proof (cases "pr_Err p")
    case None
    with Cons show ?thesis
      using AppendApplicationValue_wrapped [of 4 _ "pr_Value p"]
      by (cases "ArrayIndex (pr_Property p)")
        (simp_all add: resultEls_def refEls_def AppendTags_append service_simps rbind_assoc appendContextOpenClose_def)
  next
    case (Some e)
    with Cons.prems obtain i s c d where "pr_Err p = Some (ErrorResponse i s c d)" by (auto simp: okResult_def)
    with Cons show ?thesis
      by (cases "ArrayIndex (pr_Property p)")
        (simp_all add: resultEls_def refEls_def AppendTags_append service_simps rbind_assoc AppendTag_conEl EncodeBACnetError_els
          appendContextOpenClose_def)
  qed
qed simp

lemma appendReadResults_els:
  "list_all (\<lambda>r. wf_id (rar_Object r) \<and> list_all okResult (rar_Properties r)) rs \<Longrightarrow>
     appendReadResults dst rs = AppendTags dst (concat (map readResult_els rs))"
proof (induction rs arbitrary: dst)
  case (Cons r rs)
  then show ?case
    by (simp add: readResult_els_def AppendTag_conEl appendPropertyResults_els service_simps rbind_assoc)
      (simp add: appendContextOpenClose_def)
qed simp

text \<open>The loop state between two results: nothing read, or a complete result that awaits its flush.\<close>

definition pendingResult :: "PropertyResult list \<Rightarrow> Element list \<Rightarrow> PropertyResult list result" where
  "pendingResult out els =
     (if out = [] then propertyResults_loop [] zeroPropertyResult False False els
      else propertyResults_loop (butlast out) (last out) True True els)"

lemma pendingResult_step:
  assumes "okResult r"
  shows "pendingResult out (resultEls r @ els) = pendingResult (out @ [normResult r]) els"
proof -
  have "propertyResults_loop out' zeroPropertyResult False False (resultEls r @ els)
      = propertyResults_loop out' (normResult r) True True els" for out'
    using assms
    by (cases r; cases "pr_Property r"; cases "ArrayIndex (pr_Property r)"; cases "pr_Err r")
      (auto simp: okResult_def resultEls_def refEls_def normResult_def normValue_def flushResult_def zeroPropertyResult_def)
  moreover have "propertyResults_loop (butlast out) (last out) True True (resultEls r @ els)
      = propertyResults_loop out zeroPropertyResult False False (resultEls r @ els)" if "out \<noteq> []"
    using that by (simp add: resultEls_def refEls_def flushResult_def)
  ultimately show ?thesis by (simp add: pendingResult_def)
qed

lemma propertyResults_els:
  "list_all okResult rs \<Longrightarrow> pendingResult out (concat (map resultEls rs)) = Inr (out @ map normResult rs)"
proof (induction rs arbitrary: out)
  case Nil
  then show ?case by (simp add: pendingResult_def flushResult_def)
next
  case (Cons r rs)
  then show ?case by (simp add: pendingResult_step)
qed

lemma decodeRPMPropertyResults_els:
  "list_all okResult rs \<Longrightarrow> decodeRPMPropertyResults (concat (map resultEls rs)) = Inr (map normResult rs)"
  using propertyResults_els [of rs "[]"] by (simp add: decodeRPMPropertyResults_def pendingResult_def)

definition normReadResult :: "ReadAccessResult \<Rightarrow> ReadAccessResult" where
  "normReadResult r = r\<lparr>rar_Properties := map normResult (rar_Properties r)\<rparr>"

definition okReadResult :: "ReadAccessResult \<Rightarrow> bool" where
  "okReadResult r \<longleftrightarrow> wf_id (rar_Object r) \<and> list_all okResult (rar_Properties r)"

lemma readResults_loop_els:
  "list_all okReadResult rs \<Longrightarrow> readResults_loop results (concat (map readResult_els rs)) = Inr (results @ map normReadResult rs)"
proof (induction rs arbitrary: results)
  case (Cons r rs)
  have "readResults_loop results (readResult_els r @ els) = readResults_loop (results @ [normReadResult r]) els" for els
    using Cons.prems by (cases r) (simp add: readResult_els_def okReadResult_def decodeRPMPropertyResults_els normReadResult_def)
  with Cons show ?case by simp
qed simp

interpretation readMultipleACK: element_service EncodeReadPropertyMultipleACK "readResults_loop []"
  "\<lambda>rs. concat (map readResult_els rs)" "list_all okReadResult" "map normReadResult"
  by unfold_locales
    (auto simp: EncodeReadPropertyMultipleACK_def readResults_loop_els list.pred_set okReadResult_def intro!: appendReadResults_els)

subsection \<open>WritePropertyMultiple\<close>

lemma appendWriteValues_els:
  "list_all (\<lambda>p. priorityOk (wpv_Priority p)) ps \<Longrightarrow> appendWriteValues dst ps = AppendTags dst (concat (map writeValue_els ps))"
proof (induction ps arbitrary: dst)
  case (Cons p ps)
  then show ?case
    by (cases "ArrayIndex (wpv_Property p)"; cases "wpv_Priority p")
      (simp_all add: writeValue_els_def refEls_def AppendTags_append priorityOk_def AppendTag_value appendContextOpenClose_def
        service_simps rbind_assoc)
qed simp

definition okWriteSpec :: "WriteAccessSpecification \<Rightarrow> bool" where
  "okWriteSpec s \<longleftrightarrow> wf_id (was_Object s) \<and> was_Properties s \<noteq> [] \<and> list_all (\<lambda>p. priorityOk (wpv_Priority p)) (was_Properties s)"

lemma appendWriteSpecs_els:
  "list_all okWriteSpec ss \<Longrightarrow> appendWriteSpecs dst ss = AppendTags dst (concat (map writeSpec_els ss))"
proof (induction ss arbitrary: dst)
  case (Cons s ss)
  then show ?case
    by (simp add: okWriteSpec_def writeSpec_els_def AppendTag_conEl appendWriteValues_els service_simps rbind_assoc)
      (simp add: appendContextOpenClose_def)
qed simp

definition normWriteValue :: "WritePropertyValue \<Rightarrow> WritePropertyValue" where
  "normWriteValue p = p\<lparr>wpv_Value := normValue (wpv_Value p)\<rparr>"

definition normWriteSpec :: "WriteAccessSpecification \<Rightarrow> WriteAccessSpecification" where
  "normWriteSpec s = s\<lparr>was_Properties := map normWriteValue (was_Properties s)\<rparr>"

text \<open>The value being read, complete, as the loop holds it.\<close>

definition curOf :: "WritePropertyValue \<Rightarrow> wpm_cur" where
  "curOf p = \<lparr>wc_prop = Some (Identifier (wpv_Property p)), wc_idx = ArrayIndex (wpv_Property p), wc_val = Some (wpv_Value p),
     wc_pri = wpv_Priority p\<rparr>"

lemma flushValue_curOf [simp]: "flushValue out (curOf p) = Inr (out @ [p], zero_wpm_cur)"
  by (cases p; cases "wpv_Property p") (simp add: flushValue_def curOf_def)

lemma flushValue_zero [simp]: "flushValue out zero_wpm_cur = Inr (out, zero_wpm_cur)"
  by (simp add: flushValue_def zero_wpm_cur_def)

lemma writeValues_step:
  assumes "priorityOk (wpv_Priority p)" "flushValue out cur = Inr (out', zero_wpm_cur)"
  shows "writeValues_loop out cur (writeValue_els p @ els) = writeValues_loop out' (curOf (normWriteValue p)) els"
  using assms
  by (cases "ArrayIndex (wpv_Property p)"; cases "wpv_Priority p")
    (simp_all add: writeValue_els_def refEls_def priorityOk_def normWriteValue_def normValue_def curOf_def zero_wpm_cur_def)

lemma writeValues_loop_els:
  "list_all (\<lambda>p. priorityOk (wpv_Priority p)) ps \<Longrightarrow> flushValue out cur = Inr (out', zero_wpm_cur) \<Longrightarrow>
     writeValues_loop out cur (concat (map writeValue_els ps)) = Inr (out' @ map normWriteValue ps)"
proof (induction ps arbitrary: out cur out')
  case (Cons p ps)
  have "writeValues_loop out' (curOf (normWriteValue p)) (concat (map writeValue_els ps))
      = Inr ((out' @ [normWriteValue p]) @ map normWriteValue ps)"
    using Cons.prems by (intro Cons.IH) simp_all
  with Cons.prems show ?case by (simp add: writeValues_step)
qed simp

lemma writeSpecs_loop_els:
  assumes "list_all okWriteSpec ss" "\<forall>s \<in> set specs. was_Properties s \<noteq> []" "specs @ ss \<noteq> []"
  shows "writeSpecs_loop specs b (concat (map writeSpec_els ss)) = Inr (specs @ map normWriteSpec ss)"
  using assms
proof (induction ss arbitrary: specs b)
  case (Cons s ss)
  have "writeSpecs_loop specs b (writeSpec_els s @ els) = writeSpecs_loop (specs @ [normWriteSpec s]) True els" for els
    using Cons.prems
    by (cases s) (simp add: okWriteSpec_def writeSpec_els_def decodeWPMPropertyValues_def writeValues_loop_els normWriteSpec_def)
  moreover have "\<forall>t \<in> set (specs @ [normWriteSpec s]). was_Properties t \<noteq> []"
    using Cons.prems by (auto simp: okWriteSpec_def normWriteSpec_def)
  ultimately show ?case using Cons.IH [of "specs @ [normWriteSpec s]" True] Cons.prems by simp
qed simp

interpretation writeMultiple: element_service EncodeWritePropertyMultiple "writeSpecs_loop [] False"
  "\<lambda>ss. concat (map writeSpec_els ss)" "\<lambda>ss. ss \<noteq> [] \<and> list_all okWriteSpec ss" "map normWriteSpec"
  by unfold_locales (simp_all add: EncodeWritePropertyMultiple_def writeSpecs_loop_els appendWriteSpecs_els)

subsection \<open>WritePropertyMultiple-Error\<close>

lemma EncodeWritePropertyMultipleError_els:
  "wf_id (FirstFailed e) \<Longrightarrow> EncodeWritePropertyMultipleError e = AppendTags [] (wpmError_els e)"
  by (cases "ArrayIndex (FirstProperty e)")
    (simp_all add: EncodeWritePropertyMultipleError_def wpmError_els_def refEls_def AppendTag_conEl EncodeBACnetError_els
      service_simps rbind_assoc appendContextOpenClose_def)

lemma wpmError_loop_els: "wf_id (FirstFailed e) \<Longrightarrow> wpmError_loop None None (wpmError_els e) = Inr e"
  by (cases "ArrayIndex (FirstProperty e)") (simp_all add: wpmError_els_def decodeObjectPropertyReference_def refEls_def)

interpretation wpmError: element_service EncodeWritePropertyMultipleError "wpmError_loop None None" wpmError_els
  "\<lambda>e. wf_id (FirstFailed e)" "\<lambda>e. e"
  by unfold_locales (rule EncodeWritePropertyMultipleError_els wpmError_loop_els, assumption)+

section \<open>Properties\<close>

text \<open>Sample messages for the witnesses.\<close>

definition sampleSpecs :: "WriteAccessSpecification list" where
  "sampleSpecs =
     [\<lparr>was_Object = \<lparr>oType = 1, Instance = 1\<rparr>, was_Properties =
        [\<lparr>wpv_Property = \<lparr>Identifier = 85, ArrayIndex = None\<rparr>, wpv_Value = UnsignedValue 9, wpv_Priority = Some 16\<rparr>,
         \<lparr>wpv_Property = \<lparr>Identifier = 87, ArrayIndex = Some 4\<rparr>, wpv_Value = UnsignedValue 2, wpv_Priority = None\<rparr>]\<rparr>]"


theorem read_property_roundtrip:
  assumes "wf_id (rp_Object r)" "fitsSequence L (readProperty_els r)"
  shows "\<exists>bs. EncodeReadProperty r = Inr bs \<and> DecodeReadProperty bs L = Inr r"
  using readProperty.service_roundtrip [OF assms] by (simp add: DecodeReadProperty_def)

theorem read_property_ack_roundtrip:
  assumes "wf_id (rpa_Object r)" "fitsSequence L (readPropertyACK_els r)"
  shows "\<exists>bs. EncodeReadPropertyACK r = Inr bs \<and> DecodeReadPropertyACK bs L = Inr (r\<lparr>rpa_Value := normValue (rpa_Value r)\<rparr>)"
  using readPropertyACK.service_roundtrip [OF assms] by (simp add: DecodeReadPropertyACK_def)

text \<open>A WriteProperty request (object, property, array index, value, priority 1 to 16) that fits the
  decoder's limits is encoded, and decoding the octets gives the same request back; a value that is a
  constructed value of one application element is returned as that element's value.\<close>

theorem write_property_roundtrip:
  assumes "wf_id (wp_Object r)" "priorityOk (wp_Priority r)" "fitsSequence L (writeProperty_els r)"
  shows "\<exists>bs. EncodeWriteProperty r = Inr bs \<and> DecodeWriteProperty bs L = Inr (r\<lparr>wp_Value := normValue (wp_Value r)\<rparr>)"
  using writeProperty.service_roundtrip [of r L] assms by (simp add: DecodeWriteProperty_def)

theorem read_property_multiple_roundtrip:
  assumes "ss \<noteq> []" "list_all (\<lambda>s. wf_id (ras_Object s) \<and> ras_Properties s \<noteq> []) ss"
    and "fitsSequence L (concat (map readSpec_els ss))"
  shows "\<exists>bs. EncodeReadPropertyMultiple ss = Inr bs \<and> DecodeReadPropertyMultiple bs L = Inr ss"
  using readMultiple.service_roundtrip [of ss L] assms by (simp add: DecodeReadPropertyMultiple_def)

text \<open>The results of a ReadPropertyMultiple, values and property-level errors in any mixture over any
  number of objects, come back from their encoding in order, each under its own object, property and array
  index; only an error's invoke ID and service, which are not on the wire, are lost.\<close>

theorem read_property_multiple_ack_roundtrip:
  assumes "list_all okReadResult rs" "fitsSequence L (concat (map readResult_els rs))"
  shows "\<exists>bs. EncodeReadPropertyMultipleACK rs = Inr bs \<and> DecodeReadPropertyMultipleACK bs L = Inr (map normReadResult rs)"
  using readMultipleACK.service_roundtrip [OF assms] by (simp add: DecodeReadPropertyMultipleACK_def)

text \<open>C26. A WritePropertyMultiple request whose objects each have at least one value, every priority
  between 1 and 16, comes back from its encoding with every value under its own object, property, array
  index and priority.\<close>

theorem write_property_multiple_roundtrip:
  assumes "ss \<noteq> []" "list_all okWriteSpec ss" "fitsSequence L (concat (map writeSpec_els ss))"
  shows "\<exists>bs. EncodeWritePropertyMultiple ss = Inr bs \<and> DecodeWritePropertyMultiple bs L = Inr (map normWriteSpec ss)"
  using writeMultiple.service_roundtrip [of ss L] assms by (simp add: DecodeWritePropertyMultiple_def)

theorem write_property_multiple_roundtrip_witness:
  "\<exists>bs. EncodeWritePropertyMultiple sampleSpecs = Inr bs \<and> DecodeWritePropertyMultiple bs DefaultDecodeLimits = Inr sampleSpecs"
proof -
  have "sampleSpecs \<noteq> []" "list_all okWriteSpec sampleSpecs"
    by (simp_all add: sampleSpecs_def okWriteSpec_def priorityOk_def fits_simps)
  moreover have "fitsSequence DefaultDecodeLimits (concat (map writeSpec_els sampleSpecs))"
    by (simp add: sampleSpecs_def writeSpec_els_def writeValue_els_def refEls_def fits_simps)
  moreover have "map normWriteSpec sampleSpecs = sampleSpecs"
    by (simp add: sampleSpecs_def normWriteSpec_def normWriteValue_def normValue_def wrapperValue_valueEls)
  ultimately show ?thesis using write_property_multiple_roundtrip [of sampleSpecs DefaultDecodeLimits] by simp
qed

theorem write_property_multiple_error_roundtrip:
  assumes "wf_id (FirstFailed e)" "fitsSequence L (wpmError_els e)"
  shows "\<exists>bs. EncodeWritePropertyMultipleError e = Inr bs \<and> DecodeWritePropertyMultipleError bs L = Inr e"
  using wpmError.service_roundtrip [OF assms] by (simp add: DecodeWritePropertyMultipleError_def)

end
