(* ===== verification/Device_Registry.thy ===== *)
theory Device_Registry
  imports Transactions
begin

text \<open>
  The client's registry of observed devices (\<^verbatim>\<open>client/registry.go\<close>, \<^verbatim>\<open>client/capabilities.go\<close>): observations
  by path, the index by device instance, expiry, the two retention limits and the merging of capabilities
  by provenance. Go maps are association lists; where the source ranges over a map, in an order the
  language leaves open, the model follows the list. Diagnostics are not modelled.
  Main results: under any sequence of observations the index and the table agree and both limits hold;
  what is known of a device is only replaced by knowledge of at least the same rank.
\<close>

section \<open>Capabilities\<close>

datatype CapabilitySource = CapabilityUnknown | CapabilityFromIAm | CapabilityFromDeviceObject
  | CapabilityUserOverride | CapabilityConservativeFallback

record 'a Capability =
  cap_Value :: 'a
  Known :: bool
  cap_Source :: CapabilitySource

definition zeroCapability :: "'a :: zero Capability" where
  "zeroCapability = \<lparr>cap_Value = 0, Known = False, cap_Source = CapabilityUnknown\<rparr>"

record DeviceCapabilities =
  MaxAPDULengthAccepted :: "u16 Capability"
  Segmentation :: "u8 Capability"
  MaxSegmentsAccepted :: "u8 Capability"
  ProtocolVersion :: "u8 Capability"
  ProtocolRevision :: "u8 Capability"
  VendorID :: "u16 Capability"

definition zeroCapabilities :: DeviceCapabilities where
  "zeroCapabilities = \<lparr>MaxAPDULengthAccepted = zeroCapability, Segmentation = zeroCapability,
     MaxSegmentsAccepted = zeroCapability, ProtocolVersion = zeroCapability, ProtocolRevision = zeroCapability,
     VendorID = zeroCapability\<rparr>"

definition SetIAmFields :: "u16 \<Rightarrow> u8 \<Rightarrow> u16 \<Rightarrow> DeviceCapabilities \<Rightarrow> DeviceCapabilities" where
  "SetIAmFields maxAPDU segmentation vendorID c =
     c\<lparr>MaxAPDULengthAccepted := \<lparr>cap_Value = maxAPDU, Known = True, cap_Source = CapabilityFromIAm\<rparr>,
       Segmentation := \<lparr>cap_Value = segmentation, Known = True, cap_Source = CapabilityFromIAm\<rparr>,
       VendorID := \<lparr>cap_Value = vendorID, Known = True, cap_Source = CapabilityFromIAm\<rparr>\<rparr>"

definition EnsureFallbackMaxAPDU :: "u16 \<Rightarrow> DeviceCapabilities \<Rightarrow> DeviceCapabilities" where
  "EnsureFallbackMaxAPDU v c =
     (if \<not> Known (MaxAPDULengthAccepted c)
      then c\<lparr>MaxAPDULengthAccepted := \<lparr>cap_Value = v, Known = True, cap_Source = CapabilityConservativeFallback\<rparr>\<rparr>
      else c)"

definition MaxAPDUOr :: "u16 \<Rightarrow> DeviceCapabilities \<Rightarrow> u16" where
  "MaxAPDUOr fallback c =
     (if Known (MaxAPDULengthAccepted c) then cap_Value (MaxAPDULengthAccepted c) else fallback)"

fun capabilityRank :: "CapabilitySource \<Rightarrow> int" where
  "capabilityRank CapabilityUserOverride = 4"
| "capabilityRank CapabilityFromDeviceObject = 3"
| "capabilityRank CapabilityFromIAm = 2"
| "capabilityRank CapabilityConservativeFallback = 1"
| "capabilityRank CapabilityUnknown = 0"

definition mergeCap :: "'a Capability \<Rightarrow> 'a Capability \<Rightarrow> 'a Capability" where
  "mergeCap dst src =
     (if \<not> Known src then dst
      else if \<not> Known dst \<or> capabilityRank (cap_Source src) \<ge> capabilityRank (cap_Source dst) then src
      else dst)"

definition mergeCapabilities :: "DeviceCapabilities \<Rightarrow> DeviceCapabilities \<Rightarrow> DeviceCapabilities" where
  "mergeCapabilities dst src =
     \<lparr>MaxAPDULengthAccepted = mergeCap (MaxAPDULengthAccepted dst) (MaxAPDULengthAccepted src),
      Segmentation = mergeCap (Segmentation dst) (Segmentation src),
      MaxSegmentsAccepted = mergeCap (MaxSegmentsAccepted dst) (MaxSegmentsAccepted src),
      ProtocolVersion = mergeCap (ProtocolVersion dst) (ProtocolVersion src),
      ProtocolRevision = mergeCap (ProtocolRevision dst) (ProtocolRevision src),
      VendorID = mergeCap (VendorID dst) (VendorID src)\<rparr>"

section \<open>Observations\<close>

record RegistryOptions =
  MaxObservations :: int
  MaxPathsPerInstance :: int
  ObservationTTL :: int

definition reg_withDefaults :: "RegistryOptions \<Rightarrow> RegistryOptions" where
  "reg_withDefaults opts =
     \<lparr>MaxObservations = (if MaxObservations opts = 0 then 4096 else MaxObservations opts),
      MaxPathsPerInstance = (if MaxPathsPerInstance opts = 0 then 8 else MaxPathsPerInstance opts),
      ObservationTTL = (if ObservationTTL opts = 0 then 30 * 60 * 1000000000 else ObservationTTL opts)\<rparr>"

record DeviceObservation =
  obs_Instance :: u32
  obs_Address :: Address
  obs_Origin :: Endpoint
  ImmediatePeer :: Endpoint
  LastSeen :: int
  Capabilities :: DeviceCapabilities

definition obs_Target :: "DeviceObservation \<Rightarrow> Target" where
  "obs_Target ob =
     (let t = \<lparr>tgt_Address = obs_Address ob, tgt_Endpoint = ImmediatePeer ob, tgt_Origin = zeroEndpoint, tgt_MaxAPDU = 0\<rparr>;
          t = (if ep_IsValid (obs_Origin ob) \<and> \<not> ep_Equal (obs_Origin ob) (ImmediatePeer ob)
                 \<and> scope (obs_Address ob) \<notin> {AddressRemoteStation, AddressRemoteBroadcast}
               then t\<lparr>tgt_Endpoint := obs_Origin ob\<rparr> else t) in
      if Known (MaxAPDULengthAccepted (Capabilities ob))
      then t\<lparr>tgt_MaxAPDU := cap_Value (MaxAPDULengthAccepted (Capabilities ob))\<rparr> else t)"

definition DeviceID :: "DeviceObservation \<Rightarrow> ObjectIdentifier" where
  "DeviceID ob = \<lparr>oType = ObjectTypeDevice, Instance = obs_Instance ob\<rparr>"

text \<open>
  The key holds the printed address and endpoints. What the print of an address shows is its scope, the network
  of a remote one and the MAC of a station; that of an endpoint is empty if it has no address.
\<close>

type_synonym addressText = "AddressScope \<times> u16 \<times> bytes"

definition addressText :: "Address \<Rightarrow> addressText" where
  "addressText a =
     (scope a, (if scope a \<in> {AddressRemoteStation, AddressRemoteBroadcast} then network a else 0),
      (if scope a \<in> {AddressLocalStation, AddressRemoteStation} then MAC_Bytes (addr_mac a) else []))"

definition endpointText :: "Endpoint \<Rightarrow> AddrPort option" where
  "endpointText e = (if addr_IsValid (Addr e) then Some (Addr e) else None)"

record observationKey =
  key_instance :: u32
  key_addr :: addressText
  key_origin :: "AddrPort option"
  key_peer :: "AddrPort option"

definition keyOf :: "DeviceObservation \<Rightarrow> observationKey" where
  "keyOf ob = \<lparr>key_instance = obs_Instance ob, key_addr = addressText (obs_Address ob),
     key_origin = endpointText (obs_Origin ob), key_peer = endpointText (ImmediatePeer ob)\<rparr>"

section \<open>The registry\<close>

record Registry =
  byKey :: "(observationKey \<times> DeviceObservation) list"
  byInstance :: "(u32 \<times> observationKey list) list"
  reg_opts :: RegistryOptions

definition newRegistry :: "RegistryOptions \<Rightarrow> Registry" where
  "newRegistry opts = \<lparr>byKey = [], byInstance = [], reg_opts = reg_withDefaults opts\<rparr>"

text \<open>\<^verbatim>\<open>r.byInstance[i]\<close>; a missing entry is nil.\<close>

definition pathsOf :: "Registry \<Rightarrow> u32 \<Rightarrow> observationKey list" where
  "pathsOf r i = (case map_of (byInstance r) i of None \<Rightarrow> [] | Some ks \<Rightarrow> ks)"

definition removeKeyLocked :: "observationKey \<Rightarrow> Registry \<Rightarrow> Registry" where
  "removeKeyLocked k r =
     (let r = r\<lparr>byKey := AList.delete k (byKey r)\<rparr>; keys = pathsOf r (key_instance k) in
      if length keys = 0 then r
      else
        let out = filter (\<lambda>pk. pk \<noteq> k) keys in
        if length out = 0 then r\<lparr>byInstance := AList.delete (key_instance k) (byInstance r)\<rparr>
        else r\<lparr>byInstance := AList.update (key_instance k) out (byInstance r)\<rparr>)"

definition expireLocked :: "int \<Rightarrow> Registry \<Rightarrow> Registry" where
  "expireLocked now r =
     (let ttl = ObservationTTL (reg_opts r) in
      if ttl \<le> 0 then r
      else foldl (\<lambda>r (k, ob). if now - LastSeen ob \<ge> ttl then removeKeyLocked k r else r) r (byKey r))"

fun lrs_loop :: "Registry \<Rightarrow> (observationKey \<times> int) option \<Rightarrow> observationKey list \<Rightarrow> observationKey option" where
  "lrs_loop r best [] = map_option fst best"
| "lrs_loop r best (k # ks) =
     (case map_of (byKey r) k of
        None \<Rightarrow> lrs_loop r best ks
      | Some ob \<Rightarrow>
          (case best of
             None \<Rightarrow> lrs_loop r (Some (k, LastSeen ob)) ks
           | Some (_, t) \<Rightarrow> if LastSeen ob < t then lrs_loop r (Some (k, LastSeen ob)) ks else lrs_loop r best ks))"

definition leastRecentlySeenLocked :: "observationKey list \<Rightarrow> Registry \<Rightarrow> observationKey option" where
  "leastRecentlySeenLocked keys r = lrs_loop r None keys"

lemma lrs_loop_in: "lrs_loop r best ks = Some k \<Longrightarrow> k \<in> fst ` set_option best \<or> k \<in> set ks \<and> map_of (byKey r) k \<noteq> None"
proof (induction ks arbitrary: best)
  case (Cons l ks)
  then show ?case
    by (cases best; cases "map_of (byKey r) l") (auto split: if_splits dest!: Cons.IH)
qed (auto simp: image_iff)

lemma leastRecentlySeen_in:
  "leastRecentlySeenLocked ks r = Some k \<Longrightarrow> k \<in> set ks \<and> k \<in> fst ` set (byKey r)"
  using lrs_loop_in [of r None ks k] by (auto simp: leastRecentlySeenLocked_def map_of_eq_None_iff)

lemma byKey_removeKey [simp]: "byKey (removeKeyLocked k r) = AList.delete k (byKey r)"
  by (simp add: removeKeyLocked_def Let_def)

lemma opts_removeKey [simp]: "reg_opts (removeKeyLocked k r) = reg_opts r"
  by (simp add: removeKeyLocked_def Let_def)

lemma length_delete_less: "k \<in> fst ` set xs \<Longrightarrow> length (AList.delete k xs) < length xs"
proof (induction xs)
  case (Cons x xs)
  then show ?case using length_delete_le [of k xs] by (cases x; cases "fst x = k") (auto simp: less_Suc_eq_le image_iff)
qed simp

declare lrs_loop.simps [simp del]

text \<open>The two eviction loops; each removes one observation per turn.\<close>

function evictPaths :: "int \<Rightarrow> u32 \<Rightarrow> Registry \<Rightarrow> Registry" where
  "evictPaths maxPaths inst r =
     (if int (length (pathsOf r inst)) \<ge> maxPaths then
        case leastRecentlySeenLocked (pathsOf r inst) r of
          None \<Rightarrow> r
        | Some victim \<Rightarrow> evictPaths maxPaths inst (removeKeyLocked victim r)
      else r)"
  by pat_completeness auto

termination evictPaths
  by (relation "measure (\<lambda>(_, _, r). length (byKey r))") (auto dest!: leastRecentlySeen_in intro: length_delete_less)

function evictGlobal :: "int \<Rightarrow> Registry \<Rightarrow> Registry" where
  "evictGlobal maxObs r =
     (if int (length (byKey r)) \<ge> maxObs then
        case leastRecentlySeenLocked (map fst (byKey r)) r of
          None \<Rightarrow> r
        | Some victim \<Rightarrow> evictGlobal maxObs (removeKeyLocked victim r)
      else r)"
  by pat_completeness auto

termination evictGlobal
  by (relation "measure (\<lambda>(_, r). length (byKey r))") (auto dest!: leastRecentlySeen_in intro: length_delete_less)

declare evictPaths.simps [simp del] evictGlobal.simps [simp del]

definition enforceCapacityLocked :: "u32 \<Rightarrow> Registry \<Rightarrow> Registry" where
  "enforceCapacityLocked inst r =
     (let maxPaths = MaxPathsPerInstance (reg_opts r); maxObs = MaxObservations (reg_opts r);
          r = (if maxPaths > 0 then evictPaths maxPaths inst r else r) in
      if maxObs > 0 then evictGlobal maxObs r else r)"

definition Upsert :: "int \<Rightarrow> DeviceObservation \<Rightarrow> Registry \<Rightarrow> Registry" where
  "Upsert now ob r =
     (let ob = ob\<lparr>LastSeen := now\<rparr>; r = expireLocked now r; k = keyOf ob;
          (ob, r) = (case map_of (byKey r) k of
             Some old \<Rightarrow> (ob\<lparr>Capabilities := mergeCapabilities (Capabilities old) (Capabilities ob)\<rparr>, r)
           | None \<Rightarrow> (ob, enforceCapacityLocked (obs_Instance ob) r));
          r = r\<lparr>byKey := AList.update k ob (byKey r)\<rparr> in
      if k \<notin> set (pathsOf r (obs_Instance ob))
      then r\<lparr>byInstance := AList.update (obs_Instance ob) (pathsOf r (obs_Instance ob) @ [k]) (byInstance r)\<rparr>
      else r)"

definition capable :: "Target \<Rightarrow> DeviceObservation \<Rightarrow> bool" where
  "capable target ob \<longleftrightarrow>
     \<not> (scope (tgt_Address target) \<in> {AddressRemoteStation, AddressLocalStation} \<and> obs_Address ob \<noteq> tgt_Address target) \<and>
     \<not> (ep_IsValid (tgt_Endpoint target) \<and> ep_IsValid (ImmediatePeer ob) \<and> \<not> ep_Equal (ImmediatePeer ob) (tgt_Endpoint target)) \<and>
     \<not> (ep_IsValid (tgt_Origin target) \<and> (\<not> ep_IsValid (obs_Origin ob) \<or> \<not> ep_Equal (obs_Origin ob) (tgt_Origin target)))"

definition ResolveCapabilities :: "Target \<Rightarrow> Registry \<Rightarrow> DeviceCapabilities option" where
  "ResolveCapabilities target r = map_option Capabilities (find (capable target) (map snd (byKey r)))"

definition Observations :: "Registry \<Rightarrow> DeviceObservation list" where
  "Observations r = map snd (byKey r)"

definition ObservationsSince :: "int \<Rightarrow> Registry \<Rightarrow> DeviceObservation list" where
  "ObservationsSince since r = filter (\<lambda>ob. \<not> LastSeen ob < since) (map snd (byKey r))"

definition ByInstance :: "u32 \<Rightarrow> Registry \<Rightarrow> DeviceObservation list" where
  "ByInstance inst r = List.map_filter (map_of (byKey r)) (pathsOf r inst)"

definition resolveRemoteMaxAPDU :: "Registry \<Rightarrow> Target \<Rightarrow> u16" where
  "resolveRemoteMaxAPDU r target =
     (if tgt_MaxAPDU target \<noteq> 0 then tgt_MaxAPDU target
      else case ResolveCapabilities target r of Some caps \<Rightarrow> MaxAPDUOr 480 caps | None \<Rightarrow> 480)"

definition peerAcceptsSegmentedRequests :: "Registry \<Rightarrow> Target \<Rightarrow> bool" where
  "peerAcceptsSegmentedRequests r target =
     (case ResolveCapabilities target r of
        None \<Rightarrow> False
      | Some caps \<Rightarrow> Known (Segmentation caps) \<and> cap_Value (Segmentation caps) \<in> {0, 2})"

section \<open>The invariant\<close>

definition wf_reg :: "Registry \<Rightarrow> bool" where
  "wf_reg r \<longleftrightarrow> distinct (map fst (byKey r)) \<and> (\<forall>k ob. map_of (byKey r) k = Some ob \<longrightarrow> keyOf ob = k)
     \<and> (\<forall>i. distinct (pathsOf r i)) \<and> (\<forall>i k. k \<in> set (pathsOf r i) \<longleftrightarrow> key_instance k = i \<and> map_of (byKey r) k \<noteq> None)"

definition bounded_reg :: "Registry \<Rightarrow> bool" where
  "bounded_reg r \<longleftrightarrow>
     (0 < MaxObservations (reg_opts r) \<longrightarrow> int (length (byKey r)) \<le> MaxObservations (reg_opts r))
     \<and> (0 < MaxPathsPerInstance (reg_opts r) \<longrightarrow> (\<forall>i. int (length (pathsOf r i)) \<le> MaxPathsPerInstance (reg_opts r)))"

lemma pathsOf_byKey [simp]: "pathsOf (r\<lparr>byKey := m\<rparr>) i = pathsOf r i"
  by (simp add: pathsOf_def)

lemma pathsOf_update [simp]: "pathsOf (r\<lparr>byInstance := AList.update j ks (byInstance r)\<rparr>) i = (if i = j then ks else pathsOf r i)"
  by (simp add: pathsOf_def update_conv')

lemma pathsOf_delete [simp]: "pathsOf (r\<lparr>byInstance := AList.delete j (byInstance r)\<rparr>) i = (if i = j then [] else pathsOf r i)"
  by (simp add: pathsOf_def delete_conv')

lemma pathsOf_removeKey [simp]:
  "pathsOf (removeKeyLocked k r) i = (if i = key_instance k then filter (\<lambda>pk. pk \<noteq> k) (pathsOf r i) else pathsOf r i)"
proof -
  let ?r = "r\<lparr>byKey := AList.delete k (byKey r)\<rparr>"
  have "pathsOf (?r\<lparr>byInstance := m (byInstance r)\<rparr>) i = pathsOf (r\<lparr>byInstance := m (byInstance r)\<rparr>) i" for m
    by (simp add: pathsOf_def)
  then show ?thesis
    by (auto simp: removeKeyLocked_def Let_def filter_empty_conv)
qed

lemma keyOf_upd [simp]: "keyOf (ob\<lparr>LastSeen := t\<rparr>) = keyOf ob" "keyOf (ob\<lparr>Capabilities := c\<rparr>) = keyOf ob"
  "key_instance (keyOf ob) = obs_Instance ob"
  by (simp_all add: keyOf_def)

lemma wf_removeKey: "wf_reg r \<Longrightarrow> wf_reg (removeKeyLocked k r)"
  by (auto simp: wf_reg_def delete_conv' distinct_delete)

lemma length_pathsOf_removeKey: "length (pathsOf (removeKeyLocked k r) i) \<le> length (pathsOf r i)"
  by simp

lemma bounded_removeKey:
  assumes "bounded_reg r"
  shows "bounded_reg (removeKeyLocked k r)"
  unfolding bounded_reg_def opts_removeKey byKey_removeKey
proof (intro conjI impI allI)
  show "int (length (AList.delete k (byKey r))) \<le> MaxObservations (reg_opts r)" if "0 < MaxObservations (reg_opts r)"
    using length_delete_le [of k "byKey r"] assms that by (simp add: bounded_reg_def)
  show "int (length (pathsOf (removeKeyLocked k r) i)) \<le> MaxPathsPerInstance (reg_opts r)"
    if "0 < MaxPathsPerInstance (reg_opts r)" for i
    using length_pathsOf_removeKey [of k r i] assms that unfolding bounded_reg_def by (meson of_nat_mono order.trans)
qed

lemma expire_keeps:
  assumes "\<And>r k. P r \<Longrightarrow> P (removeKeyLocked k r)" "P r"
  shows "P (expireLocked now r)"
proof -
  have e: "P s \<Longrightarrow> P (foldl (\<lambda>r (k, ob). if t \<le> now - LastSeen ob then removeKeyLocked k r else r) s xs)" for t s xs
    by (induction xs arbitrary: s) (auto simp: assms(1))
  show ?thesis
    using e [OF assms(2), of "ObservationTTL (reg_opts r)" "byKey r"] assms(2) 
    unfolding expireLocked_def Let_def by (cases "ObservationTTL (reg_opts r) \<le> 0") (simp_all only: if_True if_False)
qed

lemma lrs_loop_None: "lrs_loop r best ks = None \<Longrightarrow> best = None \<and> (\<forall>k \<in> set ks. map_of (byKey r) k = None)"
proof (induction ks arbitrary: best)
  case (Cons l ks)
  from Cons.prems show ?case
    by (cases best; cases "map_of (byKey r) l") (auto simp: lrs_loop.simps split: if_splits dest!: Cons.IH)
qed (simp add: lrs_loop.simps)

text \<open>What both eviction loops keep.\<close>

definition evicted :: "Registry \<Rightarrow> Registry \<Rightarrow> bool" where
  "evicted r r' \<longleftrightarrow> wf_reg r' \<and> bounded_reg r' \<and> reg_opts r' = reg_opts r
     \<and> (\<forall>k. map_of (byKey r) k = None \<longrightarrow> map_of (byKey r') k = None) \<and> (\<forall>i. length (pathsOf r' i) \<le> length (pathsOf r i))"

lemma evicted_removeKey: "evicted r r' \<Longrightarrow> evicted r (removeKeyLocked k r')"
  unfolding evicted_def using length_pathsOf_removeKey [of k r']
  by (simp add: wf_removeKey bounded_removeKey delete_conv' del: pathsOf_removeKey) (meson order.trans)

lemma lrs_None_empty:
  assumes "leastRecentlySeenLocked ks r = None" "\<forall>k \<in> set ks. map_of (byKey r) k \<noteq> None"
  shows "ks = []"
proof (cases ks)
  case (Cons k l)
  have "k \<in> set ks" by (simp add: Cons)
  with lrs_loop_None [OF assms(1) [unfolded leastRecentlySeenLocked_def]] assms(2) show ?thesis by metis
qed

lemma evicted_evictPaths:
  "evicted r0 r \<Longrightarrow> 0 < mx \<Longrightarrow> evicted r0 (evictPaths mx i r) \<and> int (length (pathsOf (evictPaths mx i r) i)) < mx"
proof (induction mx i r rule: evictPaths.induct)
  case (1 mx i r)
  have n: "\<forall>k \<in> set (pathsOf r i). map_of (byKey r) k \<noteq> None" using 1(2) by (simp add: evicted_def wf_reg_def)
  show ?case
  proof (cases "mx \<le> int (length (pathsOf r i))")
    case True
    with 1(3) have "pathsOf r i \<noteq> []" by auto
    then obtain v where v: "leastRecentlySeenLocked (pathsOf r i) r = Some v"
      using lrs_None_empty [OF _ n] by (metis not_None_eq)
    have e: "evictPaths mx i r = evictPaths mx i (removeKeyLocked v r)"
      by (subst evictPaths.simps) (simp add: v True)
    show ?thesis unfolding e by (rule 1(1) [OF True v evicted_removeKey [OF 1(2)] 1(3)])
  next
    case False
    then have "evictPaths mx i r = r" by (subst evictPaths.simps) simp
    with 1(2) False show ?thesis by simp
  qed
qed

lemma evicted_evictGlobal:
  "evicted r0 r \<Longrightarrow> 0 < mx \<Longrightarrow> evicted r0 (evictGlobal mx r) \<and> int (length (byKey (evictGlobal mx r))) < mx
     \<and> (\<forall>i. length (pathsOf (evictGlobal mx r) i) \<le> length (pathsOf r i))"
proof (induction mx r rule: evictGlobal.induct)
  case (1 mx r)
  have n: "\<forall>k \<in> set (map fst (byKey r)). map_of (byKey r) k \<noteq> None" by (simp add: map_of_eq_None_iff)
  show ?case
  proof (cases "mx \<le> int (length (byKey r))")
    case True
    with 1(3) have "map fst (byKey r) \<noteq> []" by auto
    then obtain v where v: "leastRecentlySeenLocked (map fst (byKey r)) r = Some v"
      using lrs_None_empty [OF _ n] by (metis not_None_eq)
    have e: "evictGlobal mx r = evictGlobal mx (removeKeyLocked v r)"
      by (subst evictGlobal.simps) (simp add: v True)
    note ih = 1(1) [OF True v evicted_removeKey [OF 1(2)] 1(3)]
    then have "length (pathsOf (evictGlobal mx r) i) \<le> length (pathsOf r i)" for i
      unfolding e using length_pathsOf_removeKey [of v r i] order.trans by blast
    with ih show ?thesis by (simp add: e)
  next
    case False
    then have "evictGlobal mx r = r" by (subst evictGlobal.simps) simp
    with 1(2) False show ?thesis by simp
  qed
qed


lemma wf_expire: "wf_reg r \<Longrightarrow> wf_reg (expireLocked now r)"
  by (rule expire_keeps [where P = wf_reg, OF wf_removeKey])

lemma bounded_expire: "bounded_reg r \<Longrightarrow> bounded_reg (expireLocked now r)"
  by (rule expire_keeps [where P = bounded_reg, OF bounded_removeKey])

lemma opts_expire [simp]: "reg_opts (expireLocked now r) = reg_opts r"
  by (rule expire_keeps [where P = "\<lambda>s. reg_opts s = reg_opts r"]) simp_all

lemma enforceCapacity_result:
  fixes i :: u32
  assumes "wf_reg r" "bounded_reg r"
  defines "r' \<equiv> enforceCapacityLocked i r"
  shows "evicted r r'" "0 < MaxPathsPerInstance (reg_opts r) \<Longrightarrow> int (length (pathsOf r' i)) < MaxPathsPerInstance (reg_opts r)"
    "0 < MaxObservations (reg_opts r) \<Longrightarrow> int (length (byKey r')) < MaxObservations (reg_opts r)"
proof -
  have r: "evicted r r" using assms by (simp add: evicted_def)
  define s where "s = (if MaxPathsPerInstance (reg_opts r) > 0 then evictPaths (MaxPathsPerInstance (reg_opts r)) i r else r)"
  have s: "evicted r s" "0 < MaxPathsPerInstance (reg_opts r) \<Longrightarrow> int (length (pathsOf s i)) < MaxPathsPerInstance (reg_opts r)"
    using evicted_evictPaths [OF r] r by (auto simp: s_def)
  have e: "r' = (if MaxObservations (reg_opts r) > 0 then evictGlobal (MaxObservations (reg_opts r)) s else s)"
    by (simp add: r'_def enforceCapacityLocked_def s_def Let_def)
  note g = evicted_evictGlobal [OF s(1), of "MaxObservations (reg_opts r)"]
  show "evicted r r'" "0 < MaxObservations (reg_opts r) \<Longrightarrow> int (length (byKey r')) < MaxObservations (reg_opts r)"
    using g s(1) by (simp_all add: e)
  have "length (pathsOf r' i) \<le> length (pathsOf s i)" using g by (simp add: e)
  then show "0 < MaxPathsPerInstance (reg_opts r) \<Longrightarrow> int (length (pathsOf r' i)) < MaxPathsPerInstance (reg_opts r)"
    using s(2) by linarith
qed

text \<open>The last part of \<^verbatim>\<open>Upsert\<close>, on a registry with room for the key.\<close>

definition insertObs :: "DeviceObservation \<Rightarrow> Registry \<Rightarrow> Registry" where
  "insertObs ob r = (let r = r\<lparr>byKey := AList.update (keyOf ob) ob (byKey r)\<rparr> in
     if keyOf ob \<notin> set (pathsOf r (obs_Instance ob))
     then r\<lparr>byInstance := AList.update (obs_Instance ob) (pathsOf r (obs_Instance ob) @ [keyOf ob]) (byInstance r)\<rparr> else r)"

lemma byKey_insertObs: "byKey (insertObs ob r) = AList.update (keyOf ob) ob (byKey r)" "reg_opts (insertObs ob r) = reg_opts r"
  by (simp_all add: insertObs_def Let_def)

lemma pathsOf_insertObs:
  "pathsOf (insertObs ob r) i = (if i = obs_Instance ob \<and> keyOf ob \<notin> set (pathsOf r i) then pathsOf r i @ [keyOf ob] else pathsOf r i)"
  by (simp add: insertObs_def Let_def pathsOf_def update_conv')

lemma wf_insertObs:
  assumes "wf_reg r"
  shows "wf_reg (insertObs ob r)"
  unfolding wf_reg_def
proof (intro conjI allI)
  show "distinct (map fst (byKey (insertObs ob r)))" using assms by (simp add: wf_reg_def byKey_insertObs distinct_update)
  show "map_of (byKey (insertObs ob r)) k = Some ob' \<longrightarrow> keyOf ob' = k" for k ob'
    using assms by (simp add: wf_reg_def byKey_insertObs update_conv')
  show "distinct (pathsOf (insertObs ob r) i)" for i using assms by (simp add: wf_reg_def pathsOf_insertObs)
  have "k \<in> set (pathsOf r i) \<longleftrightarrow> key_instance k = i \<and> map_of (byKey r) k \<noteq> None" for i k
    using assms unfolding wf_reg_def by blast
  then show "k \<in> set (pathsOf (insertObs ob r) i) \<longleftrightarrow> key_instance k = i \<and> map_of (byKey (insertObs ob r)) k \<noteq> None" for i k
    by (cases "k = keyOf ob"; cases "i = obs_Instance ob") (simp_all add: byKey_insertObs pathsOf_insertObs update_conv')
qed

lemma length_update_eq: "length (AList.update k v xs) = (if k \<in> fst ` set xs then length xs else Suc (length xs))"
  by (metis length_append_singleton length_map list.set_map update_keys)

lemma bounded_insertObs:
  assumes "wf_reg r" "bounded_reg r"
    and "map_of (byKey r) (keyOf ob) = None \<Longrightarrow> 0 < MaxPathsPerInstance (reg_opts r) \<Longrightarrow>
      int (length (pathsOf r (obs_Instance ob))) < MaxPathsPerInstance (reg_opts r)"
    and "map_of (byKey r) (keyOf ob) = None \<Longrightarrow> 0 < MaxObservations (reg_opts r) \<Longrightarrow>
      int (length (byKey r)) < MaxObservations (reg_opts r)"
  shows "bounded_reg (insertObs ob r)"
proof (cases "map_of (byKey r) (keyOf ob)")
  case None
  note r = assms(3,4) [OF None] assms(2) [unfolded bounded_reg_def]
  show ?thesis
    unfolding bounded_reg_def byKey_insertObs pathsOf_insertObs length_update_eq
    by (intro conjI impI allI) (use r in \<open>simp_all add: add1_zle_eq\<close>)
next
  case (Some old)
  then have "keyOf ob \<in> fst ` set (byKey r)" by (metis map_of_eq_None_iff option.distinct(1))
  moreover have "keyOf ob \<in> set (pathsOf r (obs_Instance ob))" using assms(1) Some by (simp add: wf_reg_def)
  ultimately show ?thesis using assms(2) by (simp add: bounded_reg_def byKey_insertObs pathsOf_insertObs length_update_eq)
qed

lemma Upsert_eq:
  "Upsert now ob r = (case map_of (byKey (expireLocked now r)) (keyOf ob) of
     Some old \<Rightarrow> insertObs (ob\<lparr>LastSeen := now, Capabilities := mergeCapabilities (Capabilities old) (Capabilities ob)\<rparr>) (expireLocked now r)
   | None \<Rightarrow> insertObs (ob\<lparr>LastSeen := now\<rparr>) (enforceCapacityLocked (obs_Instance ob) (expireLocked now r)))"
  by (simp add: Upsert_def insertObs_def Let_def split: option.split)

lemma Upsert_inv:
  assumes "wf_reg r \<and> bounded_reg r"
  shows "wf_reg (Upsert now ob r) \<and> bounded_reg (Upsert now ob r)"
proof -
  let ?r = "expireLocked now r"
  have r: "wf_reg ?r" "bounded_reg ?r" using assms by (simp_all add: wf_expire bounded_expire)
  show ?thesis
  proof (cases "map_of (byKey ?r) (keyOf ob)")
    case None
    let ?s = "enforceCapacityLocked (obs_Instance ob) ?r"
    note s = enforceCapacity_result [OF r, of "obs_Instance ob"]
    have w: "wf_reg ?s" "bounded_reg ?s" "reg_opts ?s = reg_opts ?r" using s(1) by (simp_all add: evicted_def)
    have "bounded_reg (insertObs (ob\<lparr>LastSeen := now\<rparr>) ?s)"
      by (rule bounded_insertObs [OF w(1,2)]) (use s w(3) in simp_all)
    with None w show ?thesis by (simp add: Upsert_eq wf_insertObs)
  next
    case (Some old)
    have "bounded_reg (insertObs (ob\<lparr>LastSeen := now, Capabilities := c\<rparr>) ?r)" for c
      by (rule bounded_insertObs [OF r]) (use Some in simp_all)
    with Some r show ?thesis by (simp add: Upsert_eq wf_insertObs)
  qed
qed

text \<open>A sighting: the time of an announcement and what it told.\<close>

definition sighting :: "Registry \<Rightarrow> int \<times> DeviceObservation \<Rightarrow> Registry" where
  "sighting r ev = Upsert (fst ev) (snd ev) r"

interpretation registry: invariant_machine sighting "\<lambda>r. wf_reg r \<and> bounded_reg r" "\<lambda>_. True"
  by unfold_locales (simp only: sighting_def, rule Upsert_inv, assumption)

lemma wf_newRegistry: "wf_reg (newRegistry opts) \<and> bounded_reg (newRegistry opts)"
  by (simp add: wf_reg_def bounded_reg_def newRegistry_def pathsOf_def)

lemma registry_reachable: "wf_reg (foldl sighting (newRegistry opts) evs) \<and> bounded_reg (foldl sighting (newRegistry opts) evs)"
  by (rule registry.run_inv [OF wf_newRegistry]) (simp add: list_all_iff)

lemma in_map_filter: "y \<in> set (List.map_filter f xs) \<longleftrightarrow> (\<exists>x \<in> set xs. f x = Some y)"
  by (induction xs) (auto simp: map_filter_simps split: option.splits)

lemma in_ByInstance:
  assumes "wf_reg r"
  shows "ob \<in> set (ByInstance i r) \<longleftrightarrow> ob \<in> set (Observations r) \<and> obs_Instance ob = i"
proof -
  have m: "map_of (byKey r) k = Some ob' \<longleftrightarrow> (k, ob') \<in> set (byKey r)" for k ob'
    using assms by (simp add: wf_reg_def)
  have k: "keyOf ob' = k" if "(k, ob') \<in> set (byKey r)" for k ob' using assms m that unfolding wf_reg_def by blast
  have p: "k \<in> set (pathsOf r i) \<longleftrightarrow> key_instance k = i \<and> map_of (byKey r) k \<noteq> None" for k
    using assms unfolding wf_reg_def by blast
  have "ob \<in> set (ByInstance i r) \<longleftrightarrow> (\<exists>k. key_instance k = i \<and> (k, ob) \<in> set (byKey r))"
    unfolding ByInstance_def in_map_filter m [symmetric] using p by auto
  also have "\<dots> \<longleftrightarrow> ob \<in> set (Observations r) \<and> obs_Instance ob = i"
    unfolding Observations_def using k keyOf_upd(3) by (force simp: image_iff)
  finally show ?thesis .
qed

lemma distinct_keyOf:
  assumes "wf_reg r"
  shows "distinct (map keyOf (Observations r))"
proof -
  have "keyOf (snd x) = fst x" if "x \<in> set (byKey r)" for x
    using assms that unfolding wf_reg_def by (metis map_of_eq_Some_iff prod.collapse)
  then have "map keyOf (Observations r) = map fst (byKey r)" by (simp add: Observations_def)
  with assms show ?thesis by (simp add: wf_reg_def)
qed

section \<open>Provenance\<close>

text \<open>Knowledge that is at least as good: what was known stays known, under a source of no lower rank.\<close>

definition noWorse :: "'a Capability \<Rightarrow> 'a Capability \<Rightarrow> bool" where
  "noWorse c c' \<longleftrightarrow> (Known c \<longrightarrow> Known c' \<and> capabilityRank (cap_Source c) \<le> capabilityRank (cap_Source c'))"

lemma mergeCap_noWorse: "noWorse dst (mergeCap dst src)"
  by (simp add: noWorse_def mergeCap_def)

lemma mergeCap_news: "Known src \<Longrightarrow> capabilityRank (cap_Source dst) \<le> capabilityRank (cap_Source src) \<Longrightarrow> mergeCap dst src = src"
  by (simp add: mergeCap_def)

theorem Upsert_provenance:
  assumes "map_of (byKey (expireLocked now r)) (keyOf ob) = Some old"
  shows "\<exists>new. map_of (byKey (Upsert now ob r)) (keyOf ob) = Some new \<and> LastSeen new = now
    \<and> noWorse (MaxAPDULengthAccepted (Capabilities old)) (MaxAPDULengthAccepted (Capabilities new))
    \<and> noWorse (Segmentation (Capabilities old)) (Segmentation (Capabilities new))
    \<and> noWorse (VendorID (Capabilities old)) (VendorID (Capabilities new))"
  using assms by (simp add: Upsert_eq byKey_insertObs update_conv' mergeCapabilities_def mergeCap_noWorse)

section \<open>Properties\<close>

text \<open>C25. Whatever devices announce, in whatever order and at whatever times, the registry holds each path once,
  the index by instance returns exactly the retained observations of the instance, and neither the number of
  observations nor that of paths per instance exceeds its configured limit.\<close>

theorem registry_invariant:
  fixes opts :: RegistryOptions and evs :: "(int \<times> DeviceObservation) list"
  defines "r \<equiv> foldl sighting (newRegistry opts) evs"
  shows "distinct (map keyOf (Observations r)) \<and> bounded_reg r
    \<and> (\<forall>i ob. ob \<in> set (ByInstance i r) \<longleftrightarrow> ob \<in> set (Observations r) \<and> obs_Instance ob = i)"
  using registry_reachable [of opts evs] distinct_keyOf in_ByInstance unfolding r_def by blast

end
