(* ===== verification/Confirmed.thy ===== *)
theory Confirmed
  imports Segment_Receive Tx_Interleaving Property_Services Device_Registry
begin

text \<open>
  Confirmed requests from end to end, client side (\<^verbatim>\<open>client/confirmed.go\<close>): what
  \<^verbatim>\<open>confirmedRequestOpts\<close> decides before it sends, the transaction it registers, its two ways of sending, its
  loop over the context, the close signal, the APDU timer and the result, and the handling of an arriving
  response. The requesting goroutine is a machine whose steps are the branches its blocking calls take; the
  other goroutines are the steps in between. A receive from the result channel that would block is the
  program counter \<open>Blocked\<close>.
  Main results: a request returns exactly the one result published for its transaction, and waits for it only while
  another goroutine is about to send it; without an answer it ends after its retries; only a response from the addressed
  path with the transaction's identifier and service decides it; and the segments of a response delivered in order
  publish the whole response.
\<close>

section \<open>Preparing a request\<close>

record client_config =
  cc_limits :: DecodeLimits
  cc_advertisedMaxAPDU :: u16
  cc_retryCount :: int
  cc_apduTimeout :: int
  cc_segmentSendWindow :: u8

record request_plan =
  pl_target :: Target
  pl_req :: ConfirmedRequest \<comment> \<open>with invoke ID 0: the probe\<close>
  pl_encodedSize :: int
  pl_remoteMax :: u16
  pl_needSegments :: bool

definition planRequest ::
    "client_config \<Rightarrow> Registry \<Rightarrow> bool \<Rightarrow> Target \<Rightarrow> u8 \<Rightarrow> bytes \<Rightarrow> confirmedOpts \<Rightarrow> (client_error + request_plan) option" where
  "planRequest cfg reg closed target serviceChoice payload opts =
     (if closed then Some (Inl (Sentinel ErrClosed))
      else map_option (\<lambda>t. rbind t (\<lambda>target.
        rbind (advertisedMaxAPDU (cc_advertisedMaxAPDU cfg) (cc_limits cfg)) (\<lambda>localMax.
        case EncodeMaxAPDUSize localMax of
          None \<Rightarrow> Inl (Sentinel ErrMalformed)
        | Some localCode \<Rightarrow>
            let remoteMax = resolveRemoteMaxAPDU reg target;
                req = \<lparr>cr_SegmentedMessage = False, cr_MoreFollows = False,
                  cr_SegmentedResponseAccepted = segmentedResponseAccepted opts,
                  cr_MaxSegments = EncodeMaxSegments (MaxSegments (cc_limits cfg)), cr_MaxAPDU = localCode,
                  cr_InvokeID = 0, cr_SequenceNumber = 0, cr_ProposedWindowSize = 0,
                  cr_ServiceChoice = serviceChoice, cr_Payload = payload\<rparr>;
                probe = AppendConfirmedRequest [] req;
                needSegments = int (length probe) > uint remoteMax;
                peerSeg = peerAcceptsSegmentedRequests reg target in
            if needSegments \<and> \<not> peerSeg then Inl (APDUTooLargeError (int (length probe)) (uint remoteMax) False)
            else Inr \<lparr>pl_target = target, pl_req = req, pl_encodedSize = int (length probe), pl_remoteMax = remoteMax,
              pl_needSegments = needSegments\<rparr>))) (normalizeTarget target))"

text \<open>
  \<^verbatim>\<open>allocateInvokeID\<close>: one element per turn of its loop, the clock reading and, if no identifier was free, the
  branch of the select. \<open>None\<close>: still waiting when the list ends.
\<close>

datatype alloc_event = AllocCtxDone | AllocClosed | AllocRetry

fun allocateInvokeID :: "(int \<times> alloc_event) list \<Rightarrow> txManager \<Rightarrow> (client_error + u8) option \<times> txManager" where
  "allocateInvokeID [] m = (None, m)"
| "allocateInvokeID ((now, e) # es) m =
     (let (r, m) = tryAllocLocked now m in
      case r of
        Some i \<Rightarrow> (Some (Inr i), m)
      | None \<Rightarrow>
          (case e of
             AllocCtxDone \<Rightarrow> (Some (Inl ContextError), m)
           | AllocClosed \<Rightarrow> (Some (Inl (Sentinel ErrClosed)), m)
           | AllocRetry \<Rightarrow> allocateInvokeID es m))"

definition newPendingTx :: "client_config \<Rightarrow> request_plan \<Rightarrow> confirmedOpts \<Rightarrow> u8 \<Rightarrow> pendingTx" where
  "newPendingTx cfg pl opts i =
     \<lparr>tx_invokeID = i, tx_service = cr_ServiceChoice (pl_req pl), tx_address = tgt_Address (pl_target pl),
      tx_origin = tgt_Origin (pl_target pl), tx_immediate = tgt_Endpoint (pl_target pl), encodedAPDU = [],
      retriesLeft = (if opt_policy opts = RetransmitEnabled then cc_retryCount cfg else 0), tx_result = None,
      tx_timer = Some (TimerRunning (cc_apduTimeout cfg)), tx_sent = False, tx_phase = txAwaitingInitial\<rparr>"

section \<open>The requesting goroutine\<close>

text \<open>What the goroutine keeps: its options, its transaction's identifier, service and address in the heap.\<close>

record request =
  rq_opts :: confirmedOpts
  rq_id :: u8
  rq_service :: u8
  rq_ptr :: nat

datatype req_pc = Await | SendSegments "bytes list" | Answered "PDU option" "client_error option" | Blocked

definition errResult :: "client_error \<Rightarrow> txResult" where
  "errResult err = \<lparr>res_pdu = None, res_src = None, res_err = Some err\<rparr>"

text \<open>\<^verbatim>\<open>res := <-tx.result; return res.pdu, res.err\<close>\<close>

definition receiveResult :: "request \<Rightarrow> segClient \<Rightarrow> req_pc" where
  "receiveResult rq c =
     (case tx_result (heap (sc_tx c) ! rq_ptr rq) of
        None \<Rightarrow> Blocked
      | Some res \<Rightarrow> Answered (res_pdu res) (res_err res))"

text \<open>\<^verbatim>\<open>if c.finishTx(id, txResult{err: err}, q) { return apdu.PDU{}, err }\<close> and else the result.\<close>

definition finishOrReceive :: "request \<Rightarrow> client_error \<Rightarrow> int \<Rightarrow> int \<Rightarrow> segClient \<Rightarrow> req_pc \<times> segClient" where
  "finishOrReceive rq err q now c =
     (let (won, c) = finishTx (rq_id rq) (errResult err) q now c in
      if won then (Answered None (Some err), c) else (receiveResult rq c, c))"

text \<open>Registration, then the first part of the segmented or of the plain way. The \<open>bool\<close> is the transport's success.\<close>

definition registerRequest :: "client_config \<Rightarrow> request_plan \<Rightarrow> confirmedOpts \<Rightarrow> u8 \<Rightarrow> segClient \<Rightarrow> request \<times> segClient" where
  "registerRequest cfg pl opts i c =
     (\<lparr>rq_opts = opts, rq_id = i, rq_service = cr_ServiceChoice (pl_req pl), rq_ptr = length (heap (sc_tx c))\<rparr>,
      c\<lparr>sc_tx := tx_register (newPendingTx cfg pl opts i) (sc_tx c)\<rparr>)"

definition startSegmented :: "client_config \<Rightarrow> request_plan \<Rightarrow> request \<Rightarrow> int \<Rightarrow> segClient \<Rightarrow> req_pc \<times> segClient" where
  "startSegmented cfg pl rq now c =
     (let tooLarge = APDUTooLargeError (pl_encodedSize pl) (uint (pl_remoteMax pl)) True in
      case buildConfirmedSegments ((pl_req pl)\<lparr>cr_InvokeID := rq_id rq\<rparr>) (uint (pl_remoteMax pl)) (cc_segmentSendWindow cfg) of
        Inl _ \<Rightarrow> finishOrReceive rq tooLarge 0 now c
      | Inr segs \<Rightarrow>
          if int (length segs) > MaxSegments (cc_limits cfg) then finishOrReceive rq tooLarge 0 now c
          else
            let (ok, t) = enterSendingSegments (rq_id rq) (sc_tx c); c = c\<lparr>sc_tx := t\<rparr> in
            if \<not> ok then (receiveResult rq c, c)
            else (SendSegments segs,
              c\<lparr>sc_seg := (sc_seg c)\<lparr>sr_send := ss_register (heap t ! rq_ptr rq) (sr_send (sc_seg c))\<rparr>\<rparr>))"

text \<open>What follows \<^verbatim>\<open>sendConfirmedSegments\<close> (theory \<open>Segment_Send\<close>), which returned \<open>err\<close>.\<close>

definition segmentsSent :: "client_config \<Rightarrow> request \<Rightarrow> client_error option \<Rightarrow> int \<Rightarrow> segClient \<Rightarrow> req_pc \<times> segClient" where
  "segmentsSent cfg rq err now c =
     (case err of
        Some e \<Rightarrow> finishOrReceive rq e (cc_apduTimeout cfg) now c
      | None \<Rightarrow>
          (let c = c\<lparr>sc_seg := (sc_seg c)\<lparr>sr_send := ss_unregister (rq_id rq) (sr_send (sc_seg c))\<rparr>\<rparr>;
               (ok, t) = enterAwaitingResponse (rq_id rq) (cc_apduTimeout cfg) (sc_tx c); c = c\<lparr>sc_tx := t\<rparr> in
           if \<not> ok then (receiveResult rq c, c) else (Await, c)))"

definition startPlain ::
    "request_plan \<Rightarrow> request \<Rightarrow> client_error option \<Rightarrow> int \<Rightarrow> segClient \<Rightarrow> bytes list \<times> req_pc \<times> segClient" where
  "startPlain pl rq sendErr now c =
     (let encoded = AppendConfirmedRequest [] ((pl_req pl)\<lparr>cr_InvokeID := rq_id rq\<rparr>);
          c = c\<lparr>sc_tx := markSent (rq_ptr rq) (setEncoded (rq_ptr rq) encoded (sc_tx c))\<rparr> in
      case sendErr of
        Some e \<Rightarrow> ([encoded], finishOrReceive rq (maybeUnknown (rq_opts rq) (rq_service rq) e True) 0 now c)
      | None \<Rightarrow> ([encoded], Await, c))"

text \<open>One turn of the final loop. The first component is what is handed to the transport.\<close>

datatype await_event = AwCtxDone client_error | AwClosed | AwTimer | AwResult

definition resetTimer :: "nat \<Rightarrow> int \<Rightarrow> txStore \<Rightarrow> txStore" where
  "resetTimer p d = heap_upd p (\<lambda>tx. tx\<lparr>tx_timer := Some (TimerRunning d)\<rparr>)"

definition awaitStep ::
    "client_config \<Rightarrow> request \<Rightarrow> int \<Rightarrow> await_event \<Rightarrow> segClient \<Rightarrow> bytes list \<times> req_pc \<times> segClient" where
  "awaitStep cfg rq now e c =
     (let tx = heap (sc_tx c) ! rq_ptr rq in
      case e of
        AwCtxDone err \<Rightarrow>
          ([], finishOrReceive rq (maybeUnknown (rq_opts rq) (rq_service rq) err (tx_sent tx)) (cc_apduTimeout cfg) now c)
      | AwClosed \<Rightarrow>
          ([], finishOrReceive rq (maybeUnknown (rq_opts rq) (rq_service rq) (Sentinel ErrClosed) (tx_sent tx)) 0 now c)
      | AwTimer \<Rightarrow>
          (let (a, t) = onTimeout (rq_id rq) (opt_policy (rq_opts rq) = RetransmitEnabled) (sc_tx c); c = c\<lparr>sc_tx := t\<rparr> in
           case a of
             timeoutGone \<Rightarrow> ([], receiveResult rq c, c)
           | timeoutIgnoreSegmented \<Rightarrow> ([], Await, c)
           | timeoutRetransmit \<Rightarrow>
               ([encodedAPDU tx], Await, c\<lparr>sc_tx := resetTimer (rq_ptr rq) (cc_apduTimeout cfg) t\<rparr>)
           | timeoutFail \<Rightarrow>
               ([], finishOrReceive rq (maybeUnknown (rq_opts rq) (rq_service rq) (Sentinel ErrTimeout) (tx_sent tx))
                  (cc_apduTimeout cfg) now c))
      | AwResult \<Rightarrow> ([], receiveResult rq c, c))"

text \<open>The deferred cleanup.\<close>

definition requestCleanup :: "request \<Rightarrow> segClient \<Rightarrow> segClient" where
  "requestCleanup rq c =
     (let r = seg_remove (rq_id rq) (sc_seg c) in
      c\<lparr>sc_tx := heap_upd (rq_ptr rq) timer_stop (sc_tx c), sc_seg := r\<lparr>sr_send := ss_unregister (rq_id rq) (sr_send r)\<rparr>\<rparr>)"

section \<open>Arriving responses\<close>

text \<open>The identifier and, where the PDU carries one, the service choice.\<close>

fun responseOf :: "PDU \<Rightarrow> (u8 \<times> u8 option) option" where
  "responseOf (PSimpleACK a) = Some (sa_InvokeID a, Some (sa_ServiceChoice a))"
| "responseOf (PComplexACK a) = Some (ca_InvokeID a, Some (ca_ServiceChoice a))"
| "responseOf (PError a) = Some (ep_InvokeID a, Some (ep_ServiceChoice a))"
| "responseOf (PReject a) = Some (rp_InvokeID a, None)"
| "responseOf (PAbort a) = Some (ap_InvokeID a, None)"
| "responseOf _ = None"

definition errorOf :: "DecodeLimits \<Rightarrow> u8 \<Rightarrow> ErrorPDU \<Rightarrow> client_error" where
  "errorOf limits txService e =
     (let plain = (case DecodeErrorClassCode (ep_Payload e) limits of
            Inr (class, code) \<Rightarrow> Inr (Sentinel (ErrorResponse (ep_InvokeID e) (ep_ServiceChoice e) class code))
          | Inl err \<Rightarrow> Inl err) in
      if txService = ServiceWritePropertyMultiple \<and> ep_ServiceChoice e = txService then
        case DecodeWritePropertyMultipleError (ep_Payload e) limits of
          Inr w \<Rightarrow> WPMError (wpme_Class w) (wpme_Code w) (FirstFailed w) (FirstProperty w)
        | Inl err \<Rightarrow> (case plain of Inr r \<Rightarrow> r | Inl _ \<Rightarrow> Sentinel err)
      else case plain of Inr r \<Rightarrow> r | Inl err \<Rightarrow> Sentinel err)"

fun responseError :: "DecodeLimits \<Rightarrow> u8 \<Rightarrow> PDU \<Rightarrow> client_error option" where
  "responseError limits txService (PError e) = Some (errorOf limits txService e)"
| "responseError limits txService (PReject r) = Some (Sentinel (RejectError (rp_InvokeID r) (rp_Reason r)))"
| "responseError limits txService (PAbort a) = Some (Sentinel (AbortError (ap_InvokeID a) (ap_Server a) (ap_Reason a)))"
| "responseError limits txService _ = None"

fun isErrorPDU :: "PDU \<Rightarrow> bool" where
  "isErrorPDU (PError _) = True"
| "isErrorPDU _ = False"

text \<open>From the transaction lookup on: an unsegmented or completely reassembled response.\<close>

definition deliverResponse :: "client_config \<Rightarrow> int \<Rightarrow> PDU \<Rightarrow> packetSource \<Rightarrow> segClient \<Rightarrow> segClient" where
  "deliverResponse cfg now pdu src c =
     (case responseOf pdu of
        None \<Rightarrow> c
      | Some (invokeID, svc) \<Rightarrow>
          (case tx_lookup invokeID (sc_tx c) of
             None \<Rightarrow> c
           | Some tx \<Rightarrow>
               if \<not> matchSource tx src then c
               else if svc \<noteq> None \<and> svc \<noteq> Some (tx_service tx) \<and> \<not> isErrorPDU pdu then c
               else snd (finishTx invokeID \<lparr>res_pdu = Some pdu, res_src = Some src,
                   res_err = responseError (cc_limits cfg) (tx_service tx) pdu\<rparr> (cc_apduTimeout cfg) now c)))"

definition handleConfirmedResponse ::
    "client_config \<Rightarrow> int \<Rightarrow> PDU \<Rightarrow> packetSource \<Rightarrow> segClient \<Rightarrow> segOutbound list \<times> segClient" where
  "handleConfirmedResponse cfg now pdu src c =
     (case pdu of
        PComplexACK ack \<Rightarrow>
          if ca_SegmentedMessage ack then
            (case accept ack src c of
               (Failed err, out, c) \<Rightarrow> (out, snd (finishTx (ca_InvokeID ack) (errResult err) (cc_apduTimeout cfg) now c))
             | (NotYet, out, c) \<Rightarrow> (out, c)
             | (Whole full, out, c) \<Rightarrow> (out, deliverResponse cfg now (PComplexACK full) src c))
          else ([], deliverResponse cfg now pdu src c)
      | _ \<Rightarrow> ([], deliverResponse cfg now pdu src c))"

section \<open>Replies to indications\<close>

definition rejectReasonFor :: "bacnet_error \<Rightarrow> u8" where
  "rejectReasonFor err =
     (case err of
        ErrLimitExceeded \<Rightarrow> 1 \<comment> \<open>buffer overflow\<close>
      | ErrTrailingData \<Rightarrow> 7 \<comment> \<open>too many arguments\<close>
      | _ \<Rightarrow> 4 \<comment> \<open>invalid tag\<close>)"

definition responseDestination :: "packetSource \<Rightarrow> Address" where
  "responseDestination src =
     (if scope (bacnetAddress src) \<in> {AddressRemoteStation, AddressRemoteBroadcast} then bacnetAddress src
      else zeroAddress)"

section \<open>The requester and its transaction\<close>

lemma tx_complete_won: "fst (tx_complete i res q now t) \<longleftrightarrow> map_of (inUse (mgr t)) i \<noteq> None"
  by (simp add: tx_complete_unfold Let_def split: option.split)

lemma tx_complete_gone: "map_of (inUse (mgr t)) i = None \<Longrightarrow> tx_complete i res q now t = (False, t)"
  by (simp add: tx_complete_unfold)

lemma tx_complete_publishes:
  assumes "wf_tx t" "map_of (inUse (mgr t)) i = Some p"
  shows "fst (tx_complete i res q now t)" "tx_result (heap (snd (tx_complete i res q now t)) ! p) = Some res"
  using wf_tx_entry [OF assms] assms(2) by (simp_all add: tx_complete_unfold Let_def)

lemma finishTx_sel [simp]:
  "sc_tx (snd (finishTx i res q now c)) = snd (tx_complete i res q now (sc_tx c))"
  "fst (finishTx i res q now c) = fst (tx_complete i res q now (sc_tx c))"
  by (simp_all add: finishTx_def Let_def case_prod_beta)

text \<open>The goroutine's transaction is in the table under its identifier, or has left it and nobody else uses the identifier.\<close>

definition owned :: "request \<Rightarrow> segClient \<Rightarrow> bool" where
  "owned rq c \<longleftrightarrow> wf_tx (sc_tx c) \<and> rq_ptr rq < length (heap (sc_tx c)) \<and> tx_invokeID (heap (sc_tx c) ! rq_ptr rq) = rq_id rq
     \<and> (map_of (inUse (mgr (sc_tx c))) (rq_id rq) = None \<or> map_of (inUse (mgr (sc_tx c))) (rq_id rq) = Some (rq_ptr rq))"

text \<open>
  The same while other goroutines publish \<open>ps\<close>, and what the program counter of the goroutine then says: it has returned the
  published result, or it waits for a result that another goroutine is about to send, and will return that one.
\<close>

definition owns :: "request \<Rightarrow> publication list \<Rightarrow> segClient \<Rightarrow> bool" where
  "owns rq ps c \<longleftrightarrow> wf_itx (sc_tx c, ps) \<and> holds (rq_ptr rq) (rq_id rq) (sc_tx c)"

definition returns :: "request \<Rightarrow> txResult \<Rightarrow> segClient \<Rightarrow> bool" where
  "returns rq res c \<longleftrightarrow> receiveResult rq c = Answered (res_pdu res) (res_err res)"

definition reports :: "request \<Rightarrow> publication list \<Rightarrow> req_pc \<Rightarrow> segClient \<Rightarrow> bool" where
  "reports rq ps st c \<longleftrightarrow>
     (st = Blocked \<longrightarrow> (\<exists>pub \<in> set ps. pub_ptr pub = rq_ptr rq
        \<and> returns rq (pub_result pub (heap (sc_tx c) ! rq_ptr rq)) (c\<lparr>sc_tx := tx_send pub (sc_tx c)\<rparr>)))
     \<and> (\<forall>pdu err. st = Answered pdu err \<longrightarrow>
          (\<exists>res. tx_result (heap (sc_tx c) ! rq_ptr rq) = Some res \<and> res_pdu res = pdu \<and> res_err res = err))"

lemma reports_simps [simp]: "reports rq ps Await c" "reports rq ps (SendSegments segs) c"
  by (simp_all add: reports_def)

lemma receiveResult_reports:
  "tx_result (heap (sc_tx c) ! rq_ptr rq) \<noteq> None \<Longrightarrow> reports rq ps (receiveResult rq c) c"
  by (auto simp: receiveResult_def reports_def)

lemma gone_reports:
  assumes "owns rq ps c" "map_of (inUse (mgr (sc_tx c))) (rq_id rq) = None"
  shows "reports rq ps (receiveResult rq c) c"
proof (cases "tx_result (heap (sc_tx c) ! rq_ptr rq)")
  case None
  then obtain pub where pub: "pub \<in> set ps" "pub_ptr pub = rq_ptr rq"
    using gone_published [of "sc_tx c" ps "rq_ptr rq" "rq_id rq"] assms by (auto simp: owns_def)
  have "receiveResult rq c = Blocked" using None by (simp add: receiveResult_def)
  moreover have "returns rq (pub_result pub (heap (sc_tx c) ! rq_ptr rq)) (c\<lparr>sc_tx := tx_send pub (sc_tx c)\<rparr>)"
    using publishing_empty(2) [of "sc_tx c" ps pub] assms(1) pub by (simp add: owns_def returns_def receiveResult_def)
  ultimately show ?thesis using pub by (auto simp: reports_def)
qed (simp add: receiveResult_reports)

lemma finishOrReceive_reports:
  assumes "owns rq ps c" "finishOrReceive rq err q now c = (st, c')"
  shows "reports rq ps st c'"
proof (cases "map_of (inUse (mgr (sc_tx c))) (rq_id rq)")
  case None
  let ?c = "snd (finishTx (rq_id rq) (errResult err) q now c)"
  have t: "sc_tx ?c = sc_tx c" by (simp add: tx_complete_gone [OF None])
  have "fst (finishTx (rq_id rq) (errResult err) q now c) = False" by (simp add: tx_complete_gone [OF None])
  then have "st = receiveResult rq ?c" "c' = ?c" using assms(2) by (auto simp: finishOrReceive_def Let_def case_prod_beta)
  moreover have "owns rq ps ?c" using assms(1) t by (simp add: owns_def)
  ultimately show ?thesis using gone_reports None t by simp
next
  case (Some p)
  with assms(1) have p: "p = rq_ptr rq" and wf: "wf_store (pub_ptr ` set ps) (sc_tx c)" by (auto simp: owns_def holds_def wf_itx_def)
  note entry = wf_store_entry [OF wf Some]
  let ?c = "snd (finishTx (rq_id rq) (errResult err) q now c)"
  have "fst (finishTx (rq_id rq) (errResult err) q now c)" using Some by (simp add: tx_complete_won)
  then have "st = Answered None (Some err)" "c' = ?c" using assms(2) by (auto simp: finishOrReceive_def Let_def case_prod_beta)
  moreover have "tx_result (heap (sc_tx ?c) ! rq_ptr rq) = Some (errResult err)"
    using entry Some by (simp add: p tx_complete_unfold Let_def)
  ultimately show ?thesis by (simp add: reports_def errResult_def)
qed

lemma enterPhase_gone: "\<not> fst (enterPhase ph i t) \<Longrightarrow> map_of (inUse (mgr t)) i = None \<and> snd (enterPhase ph i t) = t"
  by (simp add: enterPhase_def split: option.splits)

lemma startSegmented_reports:
  assumes "owns rq ps c" "startSegmented cfg pl rq now c = (st, c')"
  shows "reports rq ps st c'"
proof -
  have g: "reports rq ps (receiveResult rq (c\<lparr>sc_tx := t\<rparr>)) (c\<lparr>sc_tx := t\<rparr>)"
    if "enterSendingSegments (rq_id rq) (sc_tx c) = (False, t)" for t
    using gone_reports [OF assms(1)] enterPhase_gone [of txSendingSegments "rq_id rq" "sc_tx c"] that
    by (simp add: enterSendingSegments_def)
  show ?thesis
    using assms(2) finishOrReceive_reports [OF assms(1)] g
    by (auto simp: startSegmented_def Let_def split: sum.splits if_splits prod.splits)
qed

lemma segmentsSent_reports:
  assumes "owns rq ps c" "segmentsSent cfg rq err now c = (st, c')"
  shows "reports rq ps st c'"
proof (cases err)
  case None
  let ?c = "c\<lparr>sc_seg := (sc_seg c)\<lparr>sr_send := ss_unregister (rq_id rq) (sr_send (sc_seg c))\<rparr>\<rparr>"
  have o: "owns rq ps ?c" using assms(1) by (simp add: owns_def)
  have "map_of (inUse (mgr (sc_tx c))) (rq_id rq) = None \<and> t = sc_tx c"
    if "enterAwaitingResponse (rq_id rq) (cc_apduTimeout cfg) (sc_tx c) = (False, t)" for t
    using that by (auto simp: enterAwaitingResponse_def split: option.splits)
  with gone_reports [OF o] None assms(2) show ?thesis
    by (auto simp: segmentsSent_def Let_def split: if_splits prod.splits)
next
  case (Some e)
  with assms show ?thesis by (auto simp: segmentsSent_def intro: finishOrReceive_reports)
qed

lemma owned_heap_upd:
  assumes "owned rq c" "tx_invokeID (f (heap (sc_tx c) ! rq_ptr rq)) = tx_invokeID (heap (sc_tx c) ! rq_ptr rq)"
    "tx_result (f (heap (sc_tx c) ! rq_ptr rq)) = tx_result (heap (sc_tx c) ! rq_ptr rq)"
  shows "owned rq (c\<lparr>sc_tx := heap_upd (rq_ptr rq) f (sc_tx c)\<rparr>)"
  using assms by (auto simp: owned_def intro: wf_tx_heap_upd)

lemma owns_heap_upd:
  assumes "owns rq ps c" "\<And>tx. tx_invokeID (f tx) = tx_invokeID tx" "\<And>tx. tx_result (f tx) = tx_result tx"
  shows "owns rq ps (c\<lparr>sc_tx := heap_upd (rq_ptr rq) f (sc_tx c)\<rparr>)"
  using assms by (auto simp: owns_def wf_itx_def holds_def intro!: wf_store_heap_upd)

lemma startPlain_reports:
  assumes "owns rq ps c" "startPlain pl rq sendErr now c = (out, st, c')"
  shows "reports rq ps st c'"
proof -
  let ?e = "AppendConfirmedRequest [] ((pl_req pl)\<lparr>cr_InvokeID := rq_id rq\<rparr>)"
  let ?c1 = "c\<lparr>sc_tx := setEncoded (rq_ptr rq) ?e (sc_tx c)\<rparr>"
  have "owns rq ps ?c1" unfolding setEncoded_def by (rule owns_heap_upd [OF assms(1)]) simp_all
  then have "owns rq ps (?c1\<lparr>sc_tx := markSent (rq_ptr rq) (sc_tx ?c1)\<rparr>)"
    unfolding markSent_def by (rule owns_heap_upd) simp_all
  then have "owns rq ps (c\<lparr>sc_tx := markSent (rq_ptr rq) (setEncoded (rq_ptr rq) ?e (sc_tx c))\<rparr>)" by simp
  with assms(2) show ?thesis
    by (cases sendErr) (auto simp: startPlain_def Let_def intro: finishOrReceive_reports)
qed

lemma onTimeout_gone: "onTimeout i al t = (timeoutGone, t') \<Longrightarrow> map_of (inUse (mgr t)) i = None \<and> t' = t"
  by (auto simp: onTimeout_def Let_def split: option.splits if_splits)

lemma onTimeout_fail: "onTimeout i al t = (timeoutFail, t') \<Longrightarrow> t' = t"
  by (auto simp: onTimeout_def Let_def split: option.splits if_splits)

lemma awaitStep_reports:
  assumes "owns rq ps c" "e = AwResult \<Longrightarrow> tx_result (heap (sc_tx c) ! rq_ptr rq) \<noteq> None" "awaitStep cfg rq now e c = (out, st, c')"
  shows "reports rq ps st c'"
proof (cases e)
  case AwTimer
  obtain a t where a: "onTimeout (rq_id rq) (opt_policy (rq_opts rq) = RetransmitEnabled) (sc_tx c) = (a, t)" by force
  show ?thesis
  proof (cases a)
    case timeoutGone
    with a have g: "map_of (inUse (mgr (sc_tx c))) (rq_id rq) = None" "t = sc_tx c" by (auto dest: onTimeout_gone)
    then have "c\<lparr>sc_tx := t\<rparr> = c" by simp
    with assms(3) AwTimer a timeoutGone have "st = receiveResult rq c" "c' = c" by (auto simp: awaitStep_def Let_def)
    with gone_reports [OF assms(1) g(1)] show ?thesis by simp
  next
    case timeoutFail
    with a have "c\<lparr>sc_tx := t\<rparr> = c" by (auto dest: onTimeout_fail)
    with assms AwTimer a timeoutFail show ?thesis by (auto simp: awaitStep_def Let_def intro: finishOrReceive_reports)
  qed (use assms(3) AwTimer a in \<open>auto simp: awaitStep_def Let_def\<close>)
qed (use assms in \<open>auto simp: awaitStep_def Let_def intro: finishOrReceive_reports receiveResult_reports\<close>)

section \<open>Unanswered requests\<close>

text \<open>Expiries of the APDU timer in a row.\<close>

fun expiries :: "client_config \<Rightarrow> request \<Rightarrow> int \<Rightarrow> nat \<Rightarrow> segClient \<Rightarrow> bytes list \<times> req_pc \<times> segClient" where
  "expiries cfg rq now 0 c = ([], Await, c)"
| "expiries cfg rq now (Suc n) c =
     (case awaitStep cfg rq now AwTimer c of
        (out, Await, c) \<Rightarrow> (case expiries cfg rq now n c of (out', st, c) \<Rightarrow> (out @ out', st, c))
      | r \<Rightarrow> r)"

definition allowedRetries :: "request \<Rightarrow> segClient \<Rightarrow> nat" where
  "allowedRetries rq c =
     (if opt_policy (rq_opts rq) = RetransmitEnabled then nat (retriesLeft (heap (sc_tx c) ! rq_ptr rq)) else 0)"

lemma expiries_end:
  assumes "owned rq c" "map_of (inUse (mgr (sc_tx c))) (rq_id rq) = Some (rq_ptr rq)"
    and "tx_phase (heap (sc_tx c) ! rq_ptr rq) = txAwaitingInitial" "allowedRetries rq c = k"
  shows "\<exists>c'. expiries cfg rq now (Suc k) c = (replicate k (encodedAPDU (heap (sc_tx c) ! rq_ptr rq)),
      Answered None (Some (maybeUnknown (rq_opts rq) (rq_service rq) (Sentinel ErrTimeout) (tx_sent (heap (sc_tx c) ! rq_ptr rq)))), c')"
  using assms
proof (induction k arbitrary: c)
  case 0
  let ?tx = "heap (sc_tx c) ! rq_ptr rq"
  have a: "onTimeout (rq_id rq) (opt_policy (rq_opts rq) = RetransmitEnabled) (sc_tx c) = (timeoutFail, sc_tx c)"
    using 0 by (auto simp: onTimeout_def Let_def allowedRetries_def split: if_splits)
  have w: "fst (tx_complete (rq_id rq) res q now (sc_tx c))" for res q
    using 0(2) by (simp add: tx_complete_won)
  show ?case
    using w by (simp add: awaitStep_def Let_def a finishOrReceive_def case_prod_beta)
next
  case (Suc k)
  let ?p = "rq_ptr rq" and ?t = "sc_tx c"
  let ?tx = "heap ?t ! ?p"
  have p: "?p < length (heap ?t)" using Suc.prems(1) by (simp add: owned_def)
  define t where "t = heap_upd ?p (\<lambda>tx. tx\<lparr>retriesLeft := retriesLeft tx - 1\<rparr>) ?t"
  define c1 where "c1 = c\<lparr>sc_tx := resetTimer ?p (cc_apduTimeout cfg) t\<rparr>"
  have a: "onTimeout (rq_id rq) (opt_policy (rq_opts rq) = RetransmitEnabled) ?t = (timeoutRetransmit, t)"
    using Suc.prems by (auto simp: onTimeout_def Let_def allowedRetries_def t_def split: if_splits)
  have s: "awaitStep cfg rq now AwTimer c = ([encodedAPDU ?tx], Await, c1)"
    by (simp add: awaitStep_def Let_def a c1_def)
  have h: "heap (sc_tx c1) ! ?p = ?tx\<lparr>retriesLeft := retriesLeft ?tx - 1, tx_timer := Some (TimerRunning (cc_apduTimeout cfg))\<rparr>"
      "mgr (sc_tx c1) = mgr ?t"
    using p by (simp_all add: c1_def resetTimer_def t_def)
  have "owned rq (c\<lparr>sc_tx := t\<rparr>)" unfolding t_def by (rule owned_heap_upd [OF Suc.prems(1)]) simp_all
  then have "owned rq ((c\<lparr>sc_tx := t\<rparr>)\<lparr>sc_tx := resetTimer ?p (cc_apduTimeout cfg) (sc_tx (c\<lparr>sc_tx := t\<rparr>))\<rparr>)"
    unfolding resetTimer_def by (rule owned_heap_upd) simp_all
  then have o: "owned rq c1" by (simp add: c1_def)
  have "allowedRetries rq c1 = k" using Suc.prems(4) h(1) by (auto simp: allowedRetries_def split: if_splits)
  with Suc.IH [OF o] Suc.prems h show ?case by (auto simp: s)
qed

section \<open>Which responses count\<close>

text \<open>What a transaction is matched by; no operation of the table changes it.\<close>

definition sameRequest :: "pendingTx \<Rightarrow> pendingTx \<Rightarrow> bool" where
  "sameRequest tx tx' \<longleftrightarrow> tx_invokeID tx = tx_invokeID tx' \<and> tx_service tx = tx_service tx' \<and> tx_address tx = tx_address tx'
     \<and> tx_origin tx = tx_origin tx' \<and> tx_immediate tx = tx_immediate tx' \<and> tx_result tx = tx_result tx'"

lemma sameRequest_refl [simp]: "sameRequest tx tx"
  by (simp add: sameRequest_def)

lemma sameRequest_matchSource: "sameRequest tx tx' \<Longrightarrow> matchSource tx src = matchSource tx' src"
  by (simp add: sameRequest_def matchSource_def)

lemma enterSegmented_same:
  assumes "wf_tx t"
  shows "inUse (mgr (snd (enterSegmented i t))) = inUse (mgr t)" "length (heap (snd (enterSegmented i t))) = length (heap t)"
    "sameRequest (heap (snd (enterSegmented i t)) ! p) (heap t ! p)"
  using wf_tx_entry [OF assms, of i]
  by (auto simp: enterSegmented_def enterPhase_def sameRequest_def timer_stop_def split: option.split)

lemma onOutcome_tx [simp]: "sc_tx (snd (snd (onOutcome ack src st c))) = sc_tx c"
  by (simp add: onOutcome_def Let_def split: prod.split Outcome.split)

lemma accept_tx:
  assumes "accept ack src c = (r, out, c')"
  shows "sc_tx c' = sc_tx c \<or> sc_tx c' = snd (enterSegmented (ca_InvokeID ack) (sc_tx c))"
    and "r \<noteq> NotYet \<Longrightarrow> \<exists>tx. tx_lookup (ca_InvokeID ack) (sc_tx c) = Some tx \<and> matchSource tx src"
proof -
  have "sc_tx (snd (snd (accept ack src c))) = sc_tx c \<or> sc_tx (snd (snd (accept ack src c))) = snd (enterSegmented (ca_InvokeID ack) (sc_tx c))"
    by (simp add: accept_def Let_def case_prod_beta split: option.split)
  with assms show "sc_tx c' = sc_tx c \<or> sc_tx c' = snd (enterSegmented (ca_InvokeID ack) (sc_tx c))" by simp
  show "\<exists>tx. tx_lookup (ca_InvokeID ack) (sc_tx c) = Some tx \<and> matchSource tx src" if "r \<noteq> NotYet"
    using assms that by (auto simp: accept_def split: option.splits if_splits)
qed

lemma accept_whole:
  assumes "accept ack src c = (Whole full, out, c')"
  shows "ca_InvokeID full = ca_InvokeID ack \<and> ca_SegmentedMessage full = False"
proof -
  have "fst (onOutcome ack src st d) = Whole full \<Longrightarrow> ca_InvokeID full = ca_InvokeID ack \<and> ca_SegmentedMessage full = False" for st d
    by (auto simp: onOutcome_def Let_def split: prod.splits Outcome.splits)
  with assms show ?thesis
    by (auto simp: accept_def Let_def case_prod_beta split: option.splits if_splits) (metis fst_conv)+
qed

lemma complete_other:
  assumes "wf_tx t" "p < length (heap t)" "tx_result (heap t ! p) = None" "tx_result (heap (snd (tx_complete i res q now t)) ! p) = Some r"
  shows "map_of (inUse (mgr t)) i = Some p \<and> r = res"
  using assms wf_tx_entry [OF assms(1), of i] by (auto simp: tx_complete_unfold Let_def split: option.splits if_splits)

lemma deliverResponse_decides:
  assumes "wf_tx (sc_tx c)" "p < length (heap (sc_tx c))" "tx_result (heap (sc_tx c) ! p) = None"
    "tx_result (heap (sc_tx (deliverResponse cfg now pdu src c)) ! p) = Some res"
  defines "tx \<equiv> heap (sc_tx c) ! p"
  shows "\<exists>svc. responseOf pdu = Some (tx_invokeID tx, svc) \<and> matchSource tx src \<and> res_pdu res = Some pdu \<and> res_src res = Some src
    \<and> res_err res = responseError (cc_limits cfg) (tx_service tx) pdu
    \<and> (svc \<noteq> None \<and> \<not> isErrorPDU pdu \<longrightarrow> svc = Some (tx_service tx))"
proof -
  have np: "deliverResponse cfg now pdu src c \<noteq> c" using assms(3,4) by auto
  then obtain i svc u where u: "responseOf pdu = Some (i, svc)" "tx_lookup i (sc_tx c) = Some u" "matchSource u src"
    "svc \<noteq> None \<and> \<not> isErrorPDU pdu \<longrightarrow> svc = Some (tx_service u)"
    by (auto simp: deliverResponse_def split: option.splits prod.splits if_splits)
  define r where "r = \<lparr>res_pdu = Some pdu, res_src = Some src, res_err = responseError (cc_limits cfg) (tx_service u) pdu\<rparr>"
  have e: "deliverResponse cfg now pdu src c = snd (finishTx i r (cc_apduTimeout cfg) now c)"
    using u by (auto simp: deliverResponse_def r_def)
  have d: "map_of (inUse (mgr (sc_tx c))) i = Some p \<and> res = r"
    by (rule complete_other [OF assms(1,2,3)]) (use assms(4) e in simp)
  then have "u = tx" using u(2) by (simp add: tx_lookup_def tx_def)
  moreover have "tx_invokeID tx = i" using wf_tx_entry [OF assms(1)] d unfolding tx_def by blast
  ultimately show ?thesis using u d by (simp add: r_def)
qed

lemma responseError_success: "responseError L svc pdu = None \<Longrightarrow> responseOf pdu = Some (i, s) \<Longrightarrow> s \<noteq> None \<and> \<not> isErrorPDU pdu"
  by (cases pdu) auto

lemma response_decides:
  assumes "wf_tx (sc_tx c)" "p < length (heap (sc_tx c))" "tx_result (heap (sc_tx c) ! p) = None"
    "handleConfirmedResponse cfg now pdu src c = (out, c')" "tx_result (heap (sc_tx c') ! p) = Some res"
  defines "tx \<equiv> heap (sc_tx c) ! p"
  shows "(\<exists>svc. responseOf pdu = Some (tx_invokeID tx, svc)) \<and> matchSource tx src
    \<and> (res_err res = None \<longrightarrow> (\<exists>q. res_pdu res = Some q \<and> responseOf q = Some (tx_invokeID tx, Some (tx_service tx))))"
proof (cases "\<exists>ack. pdu = PComplexACK ack \<and> ca_SegmentedMessage ack")
  case False
  then have "c' = deliverResponse cfg now pdu src c" using assms(4) by (auto simp: handleConfirmedResponse_def split: PDU.splits)
  then obtain svc where s: "responseOf pdu = Some (tx_invokeID tx, svc)" "matchSource tx src" "res_pdu res = Some pdu"
      "res_err res = responseError (cc_limits cfg) (tx_service tx) pdu"
      "svc \<noteq> None \<and> \<not> isErrorPDU pdu \<longrightarrow> svc = Some (tx_service tx)"
    using deliverResponse_decides [OF assms(1,2,3), of cfg now pdu src res] assms(5) unfolding tx_def by metis
  with responseError_success [of "cc_limits cfg" "tx_service tx" pdu] show ?thesis by auto
next
  case True
  then obtain ack where a: "pdu = PComplexACK ack" "ca_SegmentedMessage ack" by blast
  obtain r o' d where r: "accept ack src c = (r, o', d)" using prod_cases3 by blast
  have d: "wf_tx (sc_tx d)" "p < length (heap (sc_tx d))" "sameRequest (heap (sc_tx d) ! p) tx" "inUse (mgr (sc_tx d)) = inUse (mgr (sc_tx c))"
    using accept_tx(1) [OF r] assms(1,2) enterSegmented_same [OF assms(1)] wf_tx_enterPhase [OF assms(1)]
    unfolding tx_def by (auto simp: enterSegmented_def)
  have n: "tx_result (heap (sc_tx d) ! p) = None" using d(3) assms(3) by (simp add: sameRequest_def tx_def)
  show ?thesis
  proof (cases r)
    case NotYet
    with r a assms(4,5) n show ?thesis by (simp add: handleConfirmedResponse_def)
  next
    case (Whole full)
    have c': "c' = deliverResponse cfg now (PComplexACK full) src d" using assms(4) a r Whole by (simp add: handleConfirmedResponse_def)
    obtain svc where s: "responseOf (PComplexACK full) = Some (tx_invokeID (heap (sc_tx d) ! p), svc)" "matchSource (heap (sc_tx d) ! p) src"
        "res_pdu res = Some (PComplexACK full)" "svc \<noteq> None \<longrightarrow> svc = Some (tx_service (heap (sc_tx d) ! p))"
      using deliverResponse_decides [OF d(1,2) n, of cfg now "PComplexACK full" src res] assms(5) c' by auto
    have i: "ca_InvokeID full = ca_InvokeID ack" using accept_whole [OF r [unfolded Whole]] by simp
    have t: "tx_invokeID (heap (sc_tx d) ! p) = tx_invokeID tx" "tx_service (heap (sc_tx d) ! p) = tx_service tx"
      using d(3) by (simp_all add: sameRequest_def)
    with s i a sameRequest_matchSource [OF d(3)] show ?thesis by auto
  next
    case (Failed err)
    then obtain u where u: "tx_lookup (ca_InvokeID ack) (sc_tx c) = Some u" "matchSource u src" using accept_tx(2) [OF r] by auto
    have c': "c' = snd (finishTx (ca_InvokeID ack) (errResult err) (cc_apduTimeout cfg) now d)"
      using assms(4) a r Failed by (simp add: handleConfirmedResponse_def)
    have "map_of (inUse (mgr (sc_tx d))) (ca_InvokeID ack) = Some p \<and> res = errResult err"
      by (rule complete_other [OF d(1,2) n]) (use assms(5) c' in simp)
    then have m: "map_of (inUse (mgr (sc_tx c))) (ca_InvokeID ack) = Some p" "res = errResult err" by (simp_all add: d(4))
    then have "u = tx" using u(1) by (simp add: tx_lookup_def tx_def)
    moreover have "tx_invokeID tx = ca_InvokeID ack" using wf_tx_entry [OF assms(1) m(1)] by (simp add: tx_def)
    ultimately show ?thesis using u a m by (simp add: errResult_def)
  qed
qed

section \<open>Segmented responses, whole\<close>

text \<open>The segments of a response, numbered from \<open>seq\<close>.\<close>

fun ackList :: "u8 \<Rightarrow> u8 \<Rightarrow> u8 \<Rightarrow> u8 \<Rightarrow> bytes list \<Rightarrow> ComplexACK list" where
  "ackList i svc win seq [] = []"
| "ackList i svc win seq (s # ss) =
     \<lparr>ca_SegmentedMessage = True, ca_MoreFollows = (ss \<noteq> []), ca_InvokeID = i, ca_SequenceNumber = seq,
      ca_ProposedWindowSize = win, ca_ServiceChoice = svc, ca_Payload = s\<rparr> # ackList i svc win (seq + 1) ss"

definition respondAll :: "client_config \<Rightarrow> int \<Rightarrow> packetSource \<Rightarrow> segClient \<Rightarrow> ComplexACK list \<Rightarrow> segClient" where
  "respondAll cfg now src = foldl (\<lambda>c a. snd (handleConfirmedResponse cfg now (PComplexACK a) src c))"

definition wholeACK :: "u8 \<Rightarrow> u8 \<Rightarrow> bytes \<Rightarrow> ComplexACK" where
  "wholeACK i svc bs = \<lparr>ca_SegmentedMessage = False, ca_MoreFollows = False, ca_InvokeID = i, ca_SequenceNumber = 0,
     ca_ProposedWindowSize = 0, ca_ServiceChoice = svc, ca_Payload = bs\<rparr>"

definition acceptedResult :: "packetSource \<Rightarrow> ComplexACK \<Rightarrow> txResult" where
  "acceptedResult src ack = \<lparr>res_pdu = Some (PComplexACK ack), res_src = Some src, res_err = None\<rparr>"

text \<open>A transaction in the table that the responses come for.\<close>

definition expects :: "u8 \<Rightarrow> u8 \<Rightarrow> nat \<Rightarrow> packetSource \<Rightarrow> segClient \<Rightarrow> bool" where
  "expects i svc p src c \<longleftrightarrow> wf_tx (sc_tx c) \<and> map_of (inUse (mgr (sc_tx c))) i = Some p
     \<and> matchSource (heap (sc_tx c) ! p) src \<and> tx_service (heap (sc_tx c) ! p) = svc"

lemma expects_lookup: "expects i svc p src c \<Longrightarrow> tx_lookup i (sc_tx c) = Some (heap (sc_tx c) ! p)"
  by (simp add: expects_def tx_lookup_def)

lemma deliver_whole:
  assumes "expects i svc p src c"
  shows "tx_result (heap (sc_tx (deliverResponse cfg now (PComplexACK (wholeACK i svc bs)) src c)) ! p)
      = Some (acceptedResult src (wholeACK i svc bs))"
proof -
  have "deliverResponse cfg now (PComplexACK (wholeACK i svc bs)) src c
      = snd (finishTx i (acceptedResult src (wholeACK i svc bs)) (cc_apduTimeout cfg) now c)"
    using assms expects_lookup [OF assms] by (simp add: deliverResponse_def wholeACK_def acceptedResult_def expects_def)
  with assms show ?thesis by (simp add: expects_def tx_complete_publishes(2))
qed

lemma expects_seg [simp]: "expects i svc p src (c\<lparr>sc_seg := r\<rparr>) = expects i svc p src c"
  by (simp add: expects_def)

lemma map_of_store [simp]: "map_of (sr_active (store st r)) = (map_of (sr_active r))(sr_invokeID st \<mapsto> st)"
  by (simp add: store_def update_conv')

text \<open>The entry under which segments are collected.\<close>

definition collecting :: "u8 \<Rightarrow> u8 \<Rightarrow> u8 \<Rightarrow> bytes \<Rightarrow> nat \<Rightarrow> nat \<Rightarrow> segClient \<Rightarrow> bool" where
  "collecting i svc seq got left octets c \<longleftrightarrow> (\<exists>st. map_of (sr_active (sc_seg c)) i = Some st \<and> sr_invokeID st = i
     \<and> sr_service st = svc \<and> expected (asm st) = seq \<and> buf (asm st) = got
     \<and> segments (asm st) + int left \<le> maxSegments (asm st) \<and> int (length got + octets) \<le> maxOctets (asm st))"

lemma collect_step:
  fixes mf :: bool and win :: u8 and cfg :: client_config and now :: int
  assumes "expects i svc p src c" "collecting i svc seq got (Suc left) (length s + octets) c"
  defines "ack \<equiv> \<lparr>ca_SegmentedMessage = True, ca_MoreFollows = mf, ca_InvokeID = i, ca_SequenceNumber = seq,
      ca_ProposedWindowSize = win, ca_ServiceChoice = svc, ca_Payload = s\<rparr>"
  defines "c' \<equiv> snd (handleConfirmedResponse cfg now (PComplexACK ack) src c)"
  shows "mf \<Longrightarrow> expects i svc p src c' \<and> collecting i svc (seq + 1) (got @ s) left octets c'"
    and "\<not> mf \<Longrightarrow> tx_result (heap (sc_tx c') ! p) = Some (acceptedResult src (wholeACK i svc (got @ s)))"
proof -
  obtain st where st: "map_of (sr_active (sc_seg c)) i = Some st" "sr_invokeID st = i" "sr_service st = svc"
    "expected (asm st) = seq" "buf (asm st) = got" "segments (asm st) + int (Suc left) \<le> maxSegments (asm st)"
    "int (length got + (length s + octets)) \<le> maxOctets (asm st)"
    using assms(2) by (auto simp: collecting_def)
  have room: "segments (asm st) < maxSegments (asm st)" "int (length (buf (asm st)) + length s) \<le> maxOctets (asm st)"
    using st by auto
  note e = Add_expected [OF room]
  have acc: "accept ack src c = onOutcome ack src st c"
    using st(1,3) expects_lookup [OF assms(1)] assms(1) by (simp add: accept_def ack_def expects_def)
  have sg: "ca_SegmentedMessage ack" by (simp add: ack_def)
  have h: "handleConfirmedResponse cfg now (PComplexACK ack) src c = (case onOutcome ack src st c of
       (Failed err, out, c) \<Rightarrow> (out, snd (finishTx (ca_InvokeID ack) (errResult err) (cc_apduTimeout cfg) now c))
     | (NotYet, out, c) \<Rightarrow> (out, c)
     | (Whole full, out, c) \<Rightarrow> (out, deliverResponse cfg now (PComplexACK full) src c))"
    using acc sg by (simp add: handleConfirmedResponse_def)
  obtain ou a where ad: "Add (asm st) seq mf s = (ou, a)" by force
  show "expects i svc p src c' \<and> collecting i svc (seq + 1) (got @ s) left octets c'" if mf
  proof -
    have o: "ou \<in> {Stored, StoredAck}"
      using room st(4) that ad by (auto simp: Add_def Let_def split: if_splits)
    have "\<exists>out. onOutcome ack src st c = (NotYet, out, c\<lparr>sc_seg := store (st\<lparr>asm := a, sr_src := src\<rparr>) (sc_seg c)\<rparr>)"
      using o ad by (auto simp: onOutcome_def ack_def Let_def)
    then have c': "c' = c\<lparr>sc_seg := store (st\<lparr>asm := a, sr_src := src\<rparr>) (sc_seg c)\<rparr>" by (auto simp: c'_def h)
    show ?thesis
      using assms(1) st e(1-5) [of mf] ad by (simp add: c' collecting_def)
  qed
  show "tx_result (heap (sc_tx c') ! p) = Some (acceptedResult src (wholeACK i svc (got @ s)))" if "\<not> mf"
  proof -
    have f: "mf = False" using that by simp
    have "ou = Complete" "buf a = got @ s" using e(6) e(1) [of mf] st(4,5) f ad by simp_all
    then have "\<exists>out. onOutcome ack src st c = (Whole (wholeACK i svc (got @ s)), out, c\<lparr>sc_seg := seg_remove i (sc_seg c)\<rparr>)"
      using st(3) ad by (auto simp: onOutcome_def ack_def wholeACK_def Let_def)
    then have "c' = deliverResponse cfg now (PComplexACK (wholeACK i svc (got @ s))) src (c\<lparr>sc_seg := seg_remove i (sc_seg c)\<rparr>)"
      by (auto simp: c'_def h)
    then show ?thesis using deliver_whole [of i svc p src "c\<lparr>sc_seg := seg_remove i (sc_seg c)\<rparr>"] assms(1) by simp
  qed
qed

lemma collect_all:
  assumes "expects i svc p src c" "collecting i svc seq got (length ss) (length (concat ss)) c" "ss \<noteq> []"
  shows "tx_result (heap (sc_tx (respondAll cfg now src c (ackList i svc win seq ss))) ! p)
      = Some (acceptedResult src (wholeACK i svc (got @ concat ss)))"
  using assms
proof (induction ss arbitrary: c seq got)
  case (Cons s ss)
  have co: "collecting i svc seq got (Suc (length ss)) (length s + length (concat ss)) c" using Cons.prems(2) by simp
  show ?case
  proof (cases ss)
    case Nil
    with collect_step(2) [OF Cons.prems(1) co, where mf = False and win = win and cfg = cfg and now = now] show ?thesis by (simp add: respondAll_def)
  next
    case ne: (Cons t us)
    note step = collect_step(1) [OF Cons.prems(1) co, where mf = True and win = win and cfg = cfg and now = now]
    from Cons.IH [of _ "seq + 1" "got @ s"] step ne show ?thesis by (simp add: respondAll_def)
  qed
qed simp

text \<open>The first segment opens the entry; from then on it is one of the collected ones.\<close>

definition opened :: "ComplexACK \<Rightarrow> packetSource \<Rightarrow> nat \<Rightarrow> segClient \<Rightarrow> segClient" where
  "opened ack src p c = c\<lparr>sc_tx := snd (enterSegmented (ca_InvokeID ack) (sc_tx c)),
     sc_seg := store (newSegState ack src (heap (sc_tx c) ! p) (sc_seg c)) ((sc_seg c)\<lparr>sr_fresh := sr_fresh (sc_seg c) + 1\<rparr>)\<rparr>"

lemma expects_opened:
  assumes "expects (ca_InvokeID ack) svc p src c"
  shows "expects (ca_InvokeID ack) svc p src (opened ack src p c)"
proof -
  have wf: "wf_tx (sc_tx c)" using assms by (simp add: expects_def)
  note s = enterSegmented_same [OF wf, of "ca_InvokeID ack"]
  have "matchSource (heap (snd (enterSegmented (ca_InvokeID ack) (sc_tx c))) ! p) src"
    using sameRequest_matchSource [OF s(3)] assms by (simp add: expects_def)
  moreover have "tx_service (heap (snd (enterSegmented (ca_InvokeID ack) (sc_tx c))) ! p) = svc"
    using s(3) [of p] assms by (simp add: expects_def sameRequest_def)
  moreover have "wf_tx (snd (enterSegmented (ca_InvokeID ack) (sc_tx c)))"
    using wf_tx_enterPhase [OF wf] by (simp add: enterSegmented_def)
  ultimately show ?thesis using assms s(1) by (simp add: expects_def opened_def)
qed

lemma accept_opened:
  assumes "expects (ca_InvokeID ack) (ca_ServiceChoice ack) p src c" "map_of (sr_active (sc_seg c)) (ca_InvokeID ack) = None"
    "ca_SequenceNumber ack = 0"
  shows "accept ack src c = accept ack src (opened ack src p c)"
proof -
  let ?i = "ca_InvokeID ack"
  let ?st = "newSegState ack src (heap (sc_tx c) ! p) (sc_seg c)"
  have ok: "fst (enterSegmented ?i (sc_tx c))"
    using assms(1) by (simp add: expects_def enterSegmented_def enterPhase_def)
  have st: "sr_invokeID ?st = ?i" "sr_service ?st = ca_ServiceChoice ack" by (simp_all add: newSegState_def)
  have "accept ack src c = onOutcome ack src ?st (opened ack src p c)"
    using expects_lookup [OF assms(1)] assms ok by (simp add: accept_def opened_def expects_def Let_def case_prod_beta)
  moreover have "accept ack src (opened ack src p c) = onOutcome ack src ?st (opened ack src p c)"
    using expects_lookup [OF expects_opened [OF assms(1)]] expects_opened [OF assms(1)] st
    by (simp add: accept_def) (simp add: opened_def expects_def)
  ultimately show ?thesis by simp
qed

lemma collecting_opened:
  assumes "int n \<le> MaxSegments (sr_limits (sc_seg c))" "int k \<le> MaxReassembledAPDU (sr_limits (sc_seg c))"
  shows "collecting (ca_InvokeID ack) (ca_ServiceChoice ack) 0 [] n k (opened ack src p c)"
  using assms by (simp add: collecting_def opened_def newSegState_def NewReassembly_def)

lemma segments_delivered:
  assumes "expects i svc p src c" "map_of (sr_active (sc_seg c)) i = None" "ss \<noteq> []"
    "int (length ss) \<le> MaxSegments (sr_limits (sc_seg c))" "int (length (concat ss)) \<le> MaxReassembledAPDU (sr_limits (sc_seg c))"
  shows "tx_result (heap (sc_tx (respondAll cfg now src c (ackList i svc win 0 ss))) ! p)
      = Some (acceptedResult src (wholeACK i svc (concat ss)))"
proof -
  obtain s us where ss: "ss = s # us" using assms(3) by (cases ss) auto
  define ack where "ack = \<lparr>ca_SegmentedMessage = True, ca_MoreFollows = (us \<noteq> []), ca_InvokeID = i, ca_SequenceNumber = 0,
      ca_ProposedWindowSize = win, ca_ServiceChoice = svc, ca_Payload = s\<rparr>"
  have a: "ca_InvokeID ack = i" "ca_ServiceChoice ack = svc" "ca_SequenceNumber ack = 0" by (simp_all add: ack_def)
  let ?c = "opened ack src p c"
  have "accept ack src c = accept ack src ?c" by (rule accept_opened) (use assms a in simp_all)
  then have h: "handleConfirmedResponse cfg now (PComplexACK ack) src c = handleConfirmedResponse cfg now (PComplexACK ack) src ?c"
    by (simp add: handleConfirmedResponse_def ack_def)
  have e: "expects i svc p src ?c" using expects_opened [of ack svc p src c] assms(1) a by simp
  have co: "collecting i svc 0 [] (length ss) (length (concat ss)) ?c" using collecting_opened [OF assms(4,5), of ack src p] a by simp
  have "respondAll cfg now src c (ackList i svc win 0 ss) = respondAll cfg now src ?c (ackList i svc win 0 ss)"
    using h by (simp add: respondAll_def ss ack_def)
  with collect_all [OF e co assms(3)] show ?thesis by simp
qed

section \<open>An exchange\<close>

lemma matchTargetSource_MaxAPDU:
  "matchTargetSource \<lparr>tgt_Address = tgt_Address t, tgt_Endpoint = tgt_Endpoint t, tgt_Origin = tgt_Origin t, tgt_MaxAPDU = m\<rparr> src
     = matchTargetSource t src"
  by (cases t) (simp only: matchTargetSource_def wrongNextHop_def Target.simps)

lemma register_expects:
  assumes "wf_tx (sc_tx c)" "i \<in> set (reserved (mgr (sc_tx c)))" "registerRequest cfg pl opts i c = (rq, c')"
  shows "owned rq c' \<and> map_of (inUse (mgr (sc_tx c'))) i = Some (rq_ptr rq) \<and> heap (sc_tx c') ! rq_ptr rq = newPendingTx cfg pl opts i
    \<and> rq_id rq = i \<and> sc_seg c' = sc_seg c"
proof -
  have wf: "wf_tx (tx_register (newPendingTx cfg pl opts i) (sc_tx c))"
    by (rule wf_tx_register) (use assms in \<open>simp_all add: newPendingTx_def\<close>)
  with assms(3) show ?thesis
    by (auto simp: registerRequest_def owned_def tx_register_def Let_def update_conv' newPendingTx_def)
qed

lemma startPlain_expects:
  fixes pl :: request_plan
  assumes "owned rq c" "map_of (inUse (mgr (sc_tx c))) (rq_id rq) = Some (rq_ptr rq)"
  defines "bs \<equiv> AppendConfirmedRequest [] ((pl_req pl)\<lparr>cr_InvokeID := rq_id rq\<rparr>)"
  shows "\<exists>c'. startPlain pl rq None now c = ([bs], Await, c') \<and> sc_seg c' = sc_seg c
    \<and> wf_tx (sc_tx c') \<and> mgr (sc_tx c') = mgr (sc_tx c)
    \<and> heap (sc_tx c') ! rq_ptr rq = (heap (sc_tx c) ! rq_ptr rq)\<lparr>encodedAPDU := bs, tx_sent := True\<rparr>"
proof -
  have p: "rq_ptr rq < length (heap (sc_tx c))" and wf: "wf_tx (sc_tx c)" using assms(1) by (simp_all add: owned_def)
  let ?t = "markSent (rq_ptr rq) (setEncoded (rq_ptr rq) bs (sc_tx c))"
  have "wf_tx (setEncoded (rq_ptr rq) bs (sc_tx c))" unfolding setEncoded_def by (rule wf_tx_heap_upd [OF wf p]) simp_all
  then have "wf_tx ?t" unfolding markSent_def by (rule wf_tx_heap_upd) (use p in \<open>simp_all add: setEncoded_def\<close>)
  then show ?thesis using p by (auto simp: startPlain_def Let_def bs_def markSent_def setEncoded_def)
qed

section \<open>Samples\<close>

definition sampleConfig :: client_config where
  "sampleConfig = \<lparr>cc_limits = DefaultDecodeLimits, cc_advertisedMaxAPDU = 0, cc_retryCount = 1, cc_apduTimeout = 3,
     cc_segmentSendWindow = 16\<rparr>"

definition sampleOpts :: confirmedOpts where
  "sampleOpts = \<lparr>opt_policy = RetransmitEnabled, segmentedResponseAccepted = True, forceOutcomeUnknown = False, outcomeUnknownName = []\<rparr>"

definition sampleRequest :: request where
  "sampleRequest = \<lparr>rq_opts = sampleOpts, rq_id = 0, rq_service = 12, rq_ptr = 0\<rparr>"

definition sampleClient :: "txStore \<Rightarrow> segClient" where
  "sampleClient t = \<lparr>sc_tx = t, sc_seg = newSegmentReceiver DefaultDecodeLimits 1\<rparr>"

definition sampleSource :: packetSource where
  "sampleSource = \<lparr>bacnetAddress = zeroAddress, ps_origin = zeroEndpoint, ps_immediate = zeroEndpoint\<rparr>"

definition samplePlan :: request_plan where
  "samplePlan = \<lparr>pl_target = \<lparr>tgt_Address = zeroAddress, tgt_Endpoint = zeroEndpoint, tgt_Origin = zeroEndpoint, tgt_MaxAPDU = 480\<rparr>,
     pl_req = \<lparr>cr_SegmentedMessage = False, cr_MoreFollows = False, cr_SegmentedResponseAccepted = True, cr_MaxSegments = 0,
       cr_MaxAPDU = 5, cr_InvokeID = 0, cr_SequenceNumber = 0, cr_ProposedWindowSize = 0, cr_ServiceChoice = 12, cr_Payload = [1]\<rparr>,
     pl_encodedSize = 5, pl_remoteMax = 480, pl_needSegments = False\<rparr>"

definition sampleReserved :: txStore where
  "sampleReserved = (newTxStore 4)\<lparr>mgr := (newTxManager 4)\<lparr>nextID := 1, reserved := [0]\<rparr>\<rparr>"

lemma wf_samplePending: "wf_tx samplePending"
  by (rule tx_run_wf [OF sample_run wf_tx_new])

lemma wf_sampleReserved: "wf_tx sampleReserved"
  unfolding sampleReserved_def by (rule wf_tx_alloc [OF wf_tx_new]) (simp add: newTxStore_def tryAlloc_new)

lemma register_owns:
  assumes "itx_run (newTxStore n, []) es (sc_tx c0, ps0)" "i \<in> set (reserved (mgr (sc_tx c0)))" "registerRequest cfg pl opts i c0 = (rq, c1)"
    and "itx_run (sc_tx c1, ps0) es' (sc_tx c, ps)" "list_all (\<lambda>e. \<not> registers i e) es'"
  shows "owns rq ps c"
proof -
  let ?tx = "newPendingTx cfg pl opts i"
  have wf0: "wf_itx (sc_tx c0, ps0)" by (rule itx_run_wf [OF assms(1) wf_itx_new])
  have c1: "sc_tx c1 = tx_register ?tx (sc_tx c0)" "rq_ptr rq = length (heap (sc_tx c0))" "rq_id rq = i"
    using assms(3) by (auto simp: registerRequest_def)
  have "wf_itx (sc_tx c1, ps0)"
    using wf0 wf_store_register [of "pub_ptr ` set ps0" "sc_tx c0" ?tx] assms(2) by (simp add: wf_itx_def c1(1) newPendingTx_def)
  then have "wf_itx (sc_tx c, ps)" by (rule itx_run_wf [OF assms(4)])
  moreover have "holds (rq_ptr rq) i (sc_tx c1)"
    by (simp add: holds_def c1 tx_register_def Let_def newPendingTx_def update_conv')
  then have "holds (rq_ptr rq) i (sc_tx c)" using holds_run [OF assms(4,5), of "rq_ptr rq"] by simp
  ultimately show ?thesis by (simp add: owns_def c1(3))
qed

lemma sample_owned: "owned sampleRequest (sampleClient samplePending)"
  using wf_samplePending by (simp add: owned_def sampleRequest_def sampleClient_def samplePending_def sampleTx_def)

lemma sample_matches: "matchTargetSource \<lparr>tgt_Address = zeroAddress, tgt_Endpoint = zeroEndpoint, tgt_Origin = zeroEndpoint, tgt_MaxAPDU = m\<rparr> sampleSource"
  by (simp add: matchTargetSource_def sampleSource_def zeroAddress_def wrongNextHop_def ep_IsValid_def zeroEndpoint_def)

section \<open>Properties\<close>

text \<open>C27. A request is registered and the goroutines of the client then run in any interleaving in which no other request
  is registered under its identifier. Whichever way it is sent and whichever event its goroutine takes next, what it
  returns to the caller is exactly the one result published for its transaction, be it its own error or the answer another
  goroutine was faster with; and if it has to wait on its result channel, another goroutine has taken the transaction out of
  the table and is about to send the result, which the request then returns. The result branch of the select is only
  taken when the channel has a result.\<close>

theorem request_returns_published:
  assumes "itx_run (newTxStore n, []) es (sc_tx c0, ps0)" "i \<in> set (reserved (mgr (sc_tx c0)))" "registerRequest cfg pl opts i c0 = (rq, c1)"
    and "itx_run (sc_tx c1, ps0) es' (sc_tx c, ps)" "list_all (\<lambda>e. \<not> registers i e) es'"
    and "e = AwResult \<longrightarrow> tx_result (heap (sc_tx c) ! rq_ptr rq) \<noteq> None"
  shows "(case startPlain pl rq sendErr now c of (_, st, c') \<Rightarrow> reports rq ps st c')
    \<and> (case startSegmented cfg pl rq now c of (st, c') \<Rightarrow> reports rq ps st c')
    \<and> (case segmentsSent cfg rq err now c of (st, c') \<Rightarrow> reports rq ps st c')
    \<and> (case awaitStep cfg rq now e c of (_, st, c') \<Rightarrow> reports rq ps st c')"
proof -
  have o: "owns rq ps c" by (rule register_owns [OF assms(1-5)])
  have "case awaitStep cfg rq now e c of (_, st, c') \<Rightarrow> reports rq ps st c'"
    using awaitStep_reports [OF o, of e] assms(6) by (auto split: prod.split)
  then show ?thesis
    by (auto split: prod.split intro: startPlain_reports [OF o] startSegmented_reports [OF o] segmentsSent_reports [OF o])
qed

text \<open>The context of the sample request ends when an answer has been taken in but not yet sent to it: the request waits for the answer.\<close>

theorem request_returns_published_witness:
  "\<exists>rq c1 c st c'. registerRequest sampleConfig samplePlan sampleOpts 0 (sampleClient sampleReserved) = (rq, c1)
    \<and> itx_run (sc_tx c1, []) [Removed 0 5 7 sampleResult] (sc_tx c, [SendResult 0 sampleResult])
    \<and> awaitStep sampleConfig rq 0 (AwCtxDone ContextError) c = ([], st, c')
    \<and> st = Blocked \<and> reports rq [SendResult 0 sampleResult] st c'"
proof -
  let ?c0 = "sampleClient sampleReserved"
  have "tx_step (newTxStore 4) (EvAlloc 1 (Some 0)) ((newTxStore 4)\<lparr>mgr := (newTxManager 4)\<lparr>nextID := 1, reserved := [0]\<rparr>\<rparr>)"
    by (rule tx_step.alloc) (simp add: newTxStore_def tryAlloc_new)
  then have "tx_step (newTxStore 4) (EvAlloc 1 (Some 0)) (sc_tx ?c0)" by (simp add: sampleClient_def sampleReserved_def)
  from itx_run.Cons [OF itx_step.locked [OF this] itx_run.Nil]
  have r0: "itx_run (newTxStore 4, []) [Locked (EvAlloc 1 (Some 0))] (sc_tx ?c0, [])" by simp
  have m0: "0 \<in> set (reserved (mgr (sc_tx ?c0)))" by (simp add: sampleClient_def sampleReserved_def)
  obtain rq c1 where reg: "registerRequest sampleConfig samplePlan sampleOpts 0 ?c0 = (rq, c1)" by force
  then have c1: "rq_ptr rq = 0" "rq_id rq = 0" "inUse (mgr (sc_tx c1)) = [(0, 0)]"
      "heap (sc_tx c1) = [newPendingTx sampleConfig samplePlan sampleOpts 0]"
    by (auto simp: registerRequest_def sampleClient_def sampleReserved_def newTxStore_def newTxManager_def tx_register_def newPendingTx_def)
  obtain t where t: "tx_remove 0 5 7 (sc_tx c1) = (Some 0, t)" "inUse (mgr t) = []" "heap t = heap (sc_tx c1)"
    by (simp add: tx_remove_def c1 Let_def)
  let ?c = "c1\<lparr>sc_tx := t\<rparr>" and ?ps = "[SendResult 0 sampleResult]"
  have run: "itx_run (sc_tx c1, []) [Removed 0 5 7 sampleResult] (sc_tx ?c, ?ps)"
    using itx_run.Cons [OF itx_step.won [OF t(1), of "[]" sampleResult] itx_run.Nil] by simp
  obtain st c' where st: "awaitStep sampleConfig rq 0 (AwCtxDone ContextError) ?c = ([], st, c')" by (force simp: awaitStep_def Let_def)
  have "st = Blocked"
    using st t c1 by (auto simp: awaitStep_def Let_def finishOrReceive_def finishTx_def tx_complete_gone receiveResult_def newPendingTx_def)
  moreover have "reports rq ?ps st c'"
    using request_returns_published [OF r0 m0 reg run, where e = "AwCtxDone ContextError" and now = 0] st by simp
  ultimately show ?thesis using reg run st by blast
qed

text \<open>C28. A request nobody answers ends: with \<open>k\<close> retries left it is sent again at each of the first \<open>k\<close> expiries of
  the APDU timer, always the octets it was first sent with, and returns the timeout at the next one, marked as of
  unknown outcome when its service has side effects.\<close>

theorem unanswered_request_ends:
  assumes "owned rq c" "map_of (inUse (mgr (sc_tx c))) (rq_id rq) = Some (rq_ptr rq)"
    and "tx_phase (heap (sc_tx c) ! rq_ptr rq) = txAwaitingInitial"
  shows "\<exists>c'. expiries cfg rq now (Suc (allowedRetries rq c)) c =
      (replicate (allowedRetries rq c) (encodedAPDU (heap (sc_tx c) ! rq_ptr rq)),
       Answered None (Some (maybeUnknown (rq_opts rq) (rq_service rq) (Sentinel ErrTimeout) (tx_sent (heap (sc_tx c) ! rq_ptr rq)))), c')"
  by (rule expiries_end [OF assms]) simp

theorem unanswered_request_ends_witness:
  "\<exists>c'. expiries sampleConfig sampleRequest 0 2 (sampleClient samplePending) =
     ([[]], Answered None (Some (Sentinel ErrTimeout)), c')"
  using unanswered_request_ends [OF sample_owned, of sampleConfig 0]
  by (simp add: sampleRequest_def sampleClient_def samplePending_def sampleTx_def allowedRetries_def sampleOpts_def
      maybeUnknown_def numeral_2_eq_2)

text \<open>C9. Only the addressed device answers a request: if an arriving PDU publishes a result for a waiting
  transaction, it carries the transaction's invoke ID and comes over the path the request was sent on, and if the
  result is a success, the answer is an acknowledgement of the requested service.\<close>

theorem response_authentic:
  assumes "wf_tx (sc_tx c)" "p < length (heap (sc_tx c))" "tx_result (heap (sc_tx c) ! p) = None"
    and "handleConfirmedResponse cfg now pdu src c = (out, c')" "tx_result (heap (sc_tx c') ! p) = Some res"
  shows "(\<exists>svc. responseOf pdu = Some (tx_invokeID (heap (sc_tx c) ! p), svc)) \<and> matchSource (heap (sc_tx c) ! p) src
    \<and> (res_err res = None \<longrightarrow> (\<exists>q. res_pdu res = Some q
          \<and> responseOf q = Some (tx_invokeID (heap (sc_tx c) ! p), Some (tx_service (heap (sc_tx c) ! p)))))"
  by (rule response_decides [OF assms])

theorem response_authentic_witness:
  "\<exists>out c' res. handleConfirmedResponse sampleConfig 0 (PComplexACK (wholeACK 0 12 [7])) sampleSource (sampleClient samplePending) = (out, c')
     \<and> tx_result (heap (sc_tx c') ! 0) = Some res \<and> matchSource (heap samplePending ! 0) sampleSource"
proof -
  let ?c = "sampleClient samplePending"
  have x: "expects 0 12 0 sampleSource ?c"
    using wf_samplePending sample_matches [of 0]
    by (simp add: expects_def sampleClient_def samplePending_def sampleTx_def matchSource_def)
  let ?d = "deliverResponse sampleConfig 0 (PComplexACK (wholeACK 0 12 [7])) sampleSource ?c"
  have h: "handleConfirmedResponse sampleConfig 0 (PComplexACK (wholeACK 0 12 [7])) sampleSource ?c = ([], ?d)"
    by (simp add: handleConfirmedResponse_def wholeACK_def)
  have "wf_tx (sc_tx ?c)" "0 < length (heap (sc_tx ?c))" "tx_result (heap (sc_tx ?c) ! 0) = None"
    using wf_samplePending by (simp_all add: sampleClient_def samplePending_def sampleTx_def)
  from response_authentic [OF this h deliver_whole [OF x]] deliver_whole [OF x] h show ?thesis by (auto simp: sampleClient_def)
qed

text \<open>C6. A whole exchange: a request registered under its reserved identifier goes out as one PDU with that
  identifier; when the addressed device answers with a response in any number of segments that fit the decode
  limits, delivered in order, the waiting goroutine returns exactly the reassembled response, without error.\<close>

theorem confirmed_exchange:
  assumes "wf_tx (sc_tx c)" "i \<in> set (reserved (mgr (sc_tx c)))" "registerRequest cfg pl opts i c = (rq, c1)"
    and "map_of (sr_active (sc_seg c)) i = None" "matchTargetSource (pl_target pl) src"
    and "ss \<noteq> []" "int (length ss) \<le> MaxSegments (sr_limits (sc_seg c))"
    and "int (length (concat ss)) \<le> MaxReassembledAPDU (sr_limits (sc_seg c))"
  shows "\<exists>c2 c3. startPlain pl rq None now c1 = ([AppendConfirmedRequest [] ((pl_req pl)\<lparr>cr_InvokeID := i\<rparr>)], Await, c2)
    \<and> respondAll cfg now' src c2 (ackList i (cr_ServiceChoice (pl_req pl)) win 0 ss) = c3
    \<and> awaitStep cfg rq now'' AwResult c3
        = ([], Answered (Some (PComplexACK (wholeACK i (cr_ServiceChoice (pl_req pl)) (concat ss)))) None, c3)"
proof -
  note r = register_expects [OF assms(1-3)]
  obtain c2 where c2: "startPlain pl rq None now c1 = ([AppendConfirmedRequest [] ((pl_req pl)\<lparr>cr_InvokeID := rq_id rq\<rparr>)], Await, c2)"
      "sc_seg c2 = sc_seg c1" "wf_tx (sc_tx c2)" "mgr (sc_tx c2) = mgr (sc_tx c1)"
      "sameRequest (heap (sc_tx c2) ! rq_ptr rq) (newPendingTx cfg pl opts i)"
    using startPlain_expects [of rq c1 pl now] r by (auto simp: sameRequest_def)
  have "matchSource (newPendingTx cfg pl opts i) src"
    using assms(5) by (simp add: matchSource_def newPendingTx_def matchTargetSource_MaxAPDU)
  then have "expects i (cr_ServiceChoice (pl_req pl)) (rq_ptr rq) src c2"
    using c2 r sameRequest_matchSource [OF c2(5)] by (auto simp: expects_def sameRequest_def newPendingTx_def)
  then have "tx_result (heap (sc_tx (respondAll cfg now' src c2 (ackList i (cr_ServiceChoice (pl_req pl)) win 0 ss))) ! rq_ptr rq)
      = Some (acceptedResult src (wholeACK i (cr_ServiceChoice (pl_req pl)) (concat ss)))"
    by (rule segments_delivered) (use assms r c2 in simp_all)
  then show ?thesis using c2(1) r by (auto simp: awaitStep_def receiveResult_def acceptedResult_def)
qed

theorem confirmed_exchange_witness:
  "\<exists>rq c1 c2 c3. registerRequest sampleConfig samplePlan sampleOpts 0 (sampleClient sampleReserved) = (rq, c1)
     \<and> startPlain samplePlan rq None 0 c1 = ([AppendConfirmedRequest [] ((pl_req samplePlan)\<lparr>cr_InvokeID := 0\<rparr>)], Await, c2)
     \<and> respondAll sampleConfig 0 sampleSource c2 (ackList 0 (cr_ServiceChoice (pl_req samplePlan)) 4 0 [[1, 2], [3]]) = c3
     \<and> awaitStep sampleConfig rq 0 AwResult c3
         = ([], Answered (Some (PComplexACK (wholeACK 0 (cr_ServiceChoice (pl_req samplePlan)) [1, 2, 3]))) None, c3)"
proof -
  let ?c = "sampleClient sampleReserved"
  obtain rq c1 where r: "registerRequest sampleConfig samplePlan sampleOpts 0 ?c = (rq, c1)" by force
  have w: "wf_tx (sc_tx ?c)" "0 \<in> set (reserved (mgr (sc_tx ?c)))" "map_of (sr_active (sc_seg ?c)) 0 = None"
    using wf_sampleReserved by (simp_all add: sampleClient_def sampleReserved_def newSegmentReceiver_def)
  have m: "matchTargetSource (pl_target samplePlan) sampleSource" using sample_matches by (simp add: samplePlan_def)
  have l: "int (length [[1, 2], [3 :: u8]]) \<le> MaxSegments (sr_limits (sc_seg ?c))"
      "int (length (concat [[1, 2], [3 :: u8]])) \<le> MaxReassembledAPDU (sr_limits (sc_seg ?c))"
    by (simp_all add: sampleClient_def newSegmentReceiver_def DefaultDecodeLimits_def Normalize_def withDefaults_def Let_def)
  from confirmed_exchange [OF w(1,2) r w(3) m _ l, of 0 0 4 0] r show ?thesis by auto
qed

end
