(* ===== verification/Object_Base.thy ===== *)
theory Object_Base
  imports Constructed "HOL-Library.AList"
begin

text \<open>
  The objects a server holds: the property table every built-in object embeds (\<^verbatim>\<open>server/object/base.go\<close>,
  \<^verbatim>\<open>server/object/object.go\<close>) and command prioritisation (\<^verbatim>\<open>server/object/commandable.go\<close>). The closures
  a property is defined with are functions on the object's own state \<open>'st\<close>; the four that \<^verbatim>\<open>NewBase\<close> defines
  read the table itself and have a constructor each. Every operation runs under the object's lock. The change
  notification is part of what a write returns.
  Main results: the priority array holds, for every priority, the last command given at it, and presents the
  one of the lowest number; array access is consistent with the whole array.
\<close>

section \<open>Errors\<close>

definition Err :: "u16 \<Rightarrow> u16 \<Rightarrow> bacnet_error" where
  "Err class code = ErrorResponse 0 0 class code"

abbreviation (input) "ErrUnknownProperty \<equiv> Err 2 32"
abbreviation (input) "ErrWriteAccessDenied \<equiv> Err 2 40"
abbreviation (input) "ErrInvalidDataType \<equiv> Err 2 9"
abbreviation (input) "ErrValueOutOfRange \<equiv> Err 2 37"
abbreviation (input) "ErrNotAnArray \<equiv> Err 2 50"
abbreviation (input) "ErrInvalidArrayIndex \<equiv> Err 2 42"

section \<open>Property tables\<close>

record Write =
  w_Property :: PropertyReference
  w_Value :: ApplicationValue
  w_Priority :: u8

datatype 'st getter = Stored | OfIdentifier | OfName | OfType | OfPropertyList | GetBy "'st \<Rightarrow> ApplicationValue"

datatype 'st setter = StoreValue | SetBy "Write \<Rightarrow> 'st \<Rightarrow> (PropertyIdentifier list \<times> 'st) result"

record 'st Property =
  p_Value :: ApplicationValue
  p_Get :: "'st getter"
  p_Set :: "'st setter"
  Writable :: bool
  Kinds :: "ValueKind list"
  IsArray :: bool
  Required :: bool

record 'st Base =
  b_id :: ObjectIdentifier
  b_name :: bytes
  props :: "(PropertyIdentifier \<times> 'st Property) list"
  order :: "PropertyIdentifier list"
  deletable :: bool
  own :: 'st

abbreviation (input) "PropertyObjectIdentifier \<equiv> (75 :: u32)"
abbreviation (input) "PropertyObjectName \<equiv> (77 :: u32)"
abbreviation (input) "PropertyObjectType \<equiv> (79 :: u32)"
abbreviation (input) "PropertyPropertyList \<equiv> (371 :: u32)"
abbreviation (input) "PropertyPresentValue \<equiv> (85 :: u32)"
abbreviation (input) "PropertyPriorityArray \<equiv> (87 :: u32)"
abbreviation (input) "PropertyRelinquishDefault \<equiv> (104 :: u32)"
abbreviation (input) "PropertyCurrentCommandPriority \<equiv> (431 :: u32)"

definition Define :: "PropertyIdentifier \<Rightarrow> 'st Property \<Rightarrow> 'st Base \<Rightarrow> 'st Base" where
  "Define i p b =
     b\<lparr>order := (if map_of (props b) i = None then order b @ [i] else order b), props := AList.update i p (props b)\<rparr>"

text \<open>A property literal: the fields that are not named are zero.\<close>

definition computed :: "'st getter \<Rightarrow> bool \<Rightarrow> bool \<Rightarrow> 'st Property" where
  "computed g arr req = \<lparr>p_Value = zeroValue, p_Get = g, p_Set = StoreValue, Writable = False, Kinds = [], IsArray = arr, Required = req\<rparr>"

definition settable :: "('st \<Rightarrow> ApplicationValue) \<Rightarrow> (Write \<Rightarrow> 'st \<Rightarrow> (PropertyIdentifier list \<times> 'st) result) \<Rightarrow> bool \<Rightarrow> 'st Property" where
  "settable g s req = \<lparr>p_Value = zeroValue, p_Get = GetBy g, p_Set = SetBy s, Writable = True, Kinds = [], IsArray = False, Required = req\<rparr>"

definition stored :: "ApplicationValue \<Rightarrow> bool \<Rightarrow> ValueKind list \<Rightarrow> bool \<Rightarrow> bool \<Rightarrow> 'st Property" where
  "stored v wr ks arr req = \<lparr>p_Value = v, p_Get = Stored, p_Set = StoreValue, Writable = wr, Kinds = ks, IsArray = arr, Required = req\<rparr>"

definition NewBase :: "ObjectIdentifier \<Rightarrow> bytes \<Rightarrow> 'st \<Rightarrow> 'st Base" where
  "NewBase i name st =
     Define PropertyPropertyList (computed OfPropertyList True True)
      (Define PropertyObjectType (computed OfType False True)
       (Define PropertyObjectName (computed OfName False True)
        (Define PropertyObjectIdentifier (computed OfIdentifier False True)
          \<lparr>b_id = i, b_name = name, props = [], order = [], deletable = False, own = st\<rparr>)))"

definition charString :: "bytes \<Rightarrow> ApplicationValue" where
  "charString s = CharacterValue \<lparr>Encoding = 0, cs_Value = s\<rparr>"

definition appElement :: "ApplicationValue \<Rightarrow> Element" where
  "appElement v = El False 0 False False v"

definition propertyList :: "'st Base \<Rightarrow> ApplicationValue" where
  "propertyList b = ConstructedValue (map (\<lambda>i. appElement (EnumValue i))
     (filter (\<lambda>i. i \<notin> {PropertyObjectIdentifier, PropertyObjectName, PropertyObjectType, PropertyPropertyList}) (order b)))"

definition Properties :: "'st Base \<Rightarrow> PropertyIdentifier list \<times> PropertyIdentifier list" where
  "Properties b = (order b, map fst (filter (\<lambda>(_, p). Required p) (props b)))"

definition getValue :: "'st Base \<Rightarrow> 'st Property \<Rightarrow> ApplicationValue" where
  "getValue b p = (case p_Get p of
      Stored \<Rightarrow> p_Value p
    | OfIdentifier \<Rightarrow> ObjectIDValue (b_id b)
    | OfName \<Rightarrow> charString (b_name b)
    | OfType \<Rightarrow> EnumValue (ucast (oType (b_id b)))
    | OfPropertyList \<Rightarrow> propertyList b
    | GetBy g \<Rightarrow> g (own b))"

text \<open>\<^verbatim>\<open>uint32(len(v.Elements))\<close> truncates.\<close>

definition arrayItem :: "ApplicationValue \<Rightarrow> u32 \<Rightarrow> ApplicationValue result" where
  "arrayItem v idx =
     (let n = (if Kind v \<noteq> ValueConstructed then 0 else word_of_nat (length (Elements v))) in
      if idx = 0 then Inr (UnsignedValue (ucast n))
      else if idx > n then Inl ErrInvalidArrayIndex
      else let el = Elements v ! (unat idx - 1) in
        if Context el then Inr (ConstructedValue [el]) else Inr (Value el))"

definition readLocked :: "'st Base \<Rightarrow> PropertyReference \<Rightarrow> ApplicationValue result" where
  "readLocked b ref =
     (case map_of (props b) (Identifier ref) of
        None \<Rightarrow> Inl ErrUnknownProperty
      | Some p \<Rightarrow>
          (let v = getValue b p in
           case ArrayIndex ref of
             None \<Rightarrow> Inr v
           | Some i \<Rightarrow> if \<not> IsArray p then Inl ErrNotAnArray else arrayItem v i))"

definition kindAllowed :: "ValueKind list \<Rightarrow> ValueKind \<Rightarrow> bool" where
  "kindAllowed kinds k \<longleftrightarrow> k \<in> set kinds"

definition setStored :: "PropertyIdentifier \<Rightarrow> 'st Property \<Rightarrow> ApplicationValue \<Rightarrow> 'st Base \<Rightarrow> (PropertyIdentifier list \<times> 'st Base) result" where
  "setStored i p v b = Inr ([i], b\<lparr>props := AList.update i (p\<lparr>p_Value := v\<rparr>) (props b)\<rparr>)"

definition writeStored :: "Write \<Rightarrow> 'st Property \<Rightarrow> 'st Base \<Rightarrow> (PropertyIdentifier list \<times> 'st Base) result" where
  "writeStored w p b =
     (let i = Identifier (w_Property w); v = w_Value w in
      case ArrayIndex (w_Property w) of
        Some idx \<Rightarrow>
          if \<not> IsArray p then Inl ErrNotAnArray
          else if idx = 0 \<or> idx > word_of_nat (length (Elements (p_Value p))) then Inl ErrInvalidArrayIndex
          else if \<not> kindAllowed (Kinds p) (Kind v) then Inl ErrInvalidDataType
          else setStored i p (ConstructedValue ((Elements (p_Value p))[unat idx - 1 := appElement v])) b
      | None \<Rightarrow>
          if IsArray p then
            if Kind v \<noteq> ValueConstructed then Inl ErrInvalidDataType
            else if \<exists>el \<in> set (Elements v). Context el \<or> \<not> kindAllowed (Kinds p) (Kind (Value el)) then Inl ErrInvalidDataType
            else setStored i p v b
          else if \<not> kindAllowed (Kinds p) (Kind v) then Inl ErrInvalidDataType
          else setStored i p v b)"

definition writeLocked :: "Write \<Rightarrow> 'st Base \<Rightarrow> (PropertyIdentifier list \<times> 'st Base) result" where
  "writeLocked w b =
     (case map_of (props b) (Identifier (w_Property w)) of
        None \<Rightarrow> Inl ErrUnknownProperty
      | Some p \<Rightarrow>
          if \<not> Writable p then Inl ErrWriteAccessDenied
          else case p_Set p of
              SetBy s \<Rightarrow> rmap (\<lambda>(changed, st). (changed, b\<lparr>own := st\<rparr>)) (s w (own b))
            | StoreValue \<Rightarrow> writeStored w p b)"

text \<open>\<^verbatim>\<open>WriteProperty\<close>: the error, the properties it notifies (none: no notification) and the object afterwards.\<close>

definition WriteProperty :: "Write \<Rightarrow> 'st Base \<Rightarrow> bacnet_error option \<times> PropertyIdentifier list \<times> 'st Base" where
  "WriteProperty w b =
     (case writeLocked w b of
        Inl e \<Rightarrow> (Some e, [], b)
      | Inr (changed, b) \<Rightarrow> (None, changed, b))"

section \<open>Bit strings\<close>

definition statusFlags :: "bool \<Rightarrow> bool \<Rightarrow> bool \<Rightarrow> bool \<Rightarrow> ApplicationValue" where
  "statusFlags inAlarm fault overridden outOfService =
     (let b = (if inAlarm then 0x80 else 0) OR (if fault then 0x40 else 0) OR (if overridden then 0x20 else 0)
            OR (if outOfService then 0x10 else 0) in
      BitStringValue \<lparr>UnusedBits = 4, bs_Bytes = [b]\<rparr>)"

definition bitAt :: "ApplicationValue \<Rightarrow> nat \<Rightarrow> bool" where
  "bitAt v i =
     (if Kind v \<noteq> ValueBitString \<or> i div 8 \<ge> length (bs_Bytes (av_BitString (Fields v))) then False
      else bs_Bytes (av_BitString (Fields v)) ! (i div 8) AND drop_bit (i mod 8) 0x80 \<noteq> 0)"

definition bitString :: "nat \<Rightarrow> (nat \<Rightarrow> bool) \<Rightarrow> ApplicationValue" where
  "bitString n f =
     (let nbytes = (if n = 0 then 1 else (n + 7) div 8);
          bs = foldl (\<lambda>bs i. if f i then bs[i div 8 := bs ! (i div 8) OR drop_bit (i mod 8) 0x80] else bs) (replicate nbytes 0) [0..<n] in
      BitStringValue (if n = 0 then \<lparr>UnusedBits = 0, bs_Bytes = []\<rparr> else \<lparr>UnusedBits = word_of_nat (nbytes * 8 - n), bs_Bytes = bs\<rparr>))"

definition maskBits :: "nat \<Rightarrow> u8 \<Rightarrow> ApplicationValue" where
  "maskBits n m = bitString n (\<lambda>i. m AND push_bit i 1 \<noteq> 0)"

definition bitsOf :: "BitString \<Rightarrow> nat \<Rightarrow> u8" where
  "bitsOf bs n =
     foldl (\<lambda>v i. if i div 8 < length (bs_Bytes bs) \<and> bs_Bytes bs ! (i div 8) AND drop_bit (i mod 8) 0x80 \<noteq> 0
                 then v OR push_bit i 1 else v) 0 [0..<n]"

section \<open>Floats\<close>

text \<open>
  \<^verbatim>\<open>float32\<close> values are held as their bits. A finite one is an integral multiple of \<open>2 ^ -149\<close>, which is how they are
  compared and added; the sum is rounded to 24 significant bits, halves to even. Infinities compare beyond all.
\<close>

definition f32_exp :: "u32 \<Rightarrow> nat" where
  "f32_exp f = unat (drop_bit 23 f AND 0xFF)"

definition f32_isNaN :: "u32 \<Rightarrow> bool" where
  "f32_isNaN f \<longleftrightarrow> f32_exp f = 255 \<and> f AND 0x7FFFFF \<noteq> 0"

definition f32_isInf :: "u32 \<Rightarrow> bool" where
  "f32_isInf f \<longleftrightarrow> f32_exp f = 255 \<and> f AND 0x7FFFFF = 0"

definition f32_units :: "u32 \<Rightarrow> int" where
  "f32_units f =
     (let m = int (unat (f AND 0x7FFFFF));
          v = (if f32_exp f = 0 then m else (m + 2 ^ 23) * 2 ^ (f32_exp f - 1)) in
      if bit f 31 then - v else v)"

definition f32_eq :: "u32 \<Rightarrow> u32 \<Rightarrow> bool" where
  "f32_eq a b \<longleftrightarrow> \<not> f32_isNaN a \<and> \<not> f32_isNaN b \<and> f32_units a = f32_units b"

definition f32_less :: "u32 \<Rightarrow> u32 \<Rightarrow> bool" where
  "f32_less a b \<longleftrightarrow> \<not> f32_isNaN a \<and> \<not> f32_isNaN b \<and> f32_units a < f32_units b"

section \<open>Command prioritisation\<close>

record priorityArray =
  slots :: "ApplicationValue option list"
  relinquish :: ApplicationValue

definition newPriorityArray :: "ApplicationValue \<Rightarrow> priorityArray" where
  "newPriorityArray v = \<lparr>slots = replicate 16 None, relinquish = v\<rparr>"

definition defaultPriority :: u8 where
  "defaultPriority = 16"

fun firstSlot :: "nat \<Rightarrow> ApplicationValue option list \<Rightarrow> (nat \<times> ApplicationValue) option" where
  "firstSlot i [] = None"
| "firstSlot i (None # ss) = firstSlot (Suc i) ss"
| "firstSlot i (Some v # ss) = Some (i, v)"

definition pa_present :: "priorityArray \<Rightarrow> ApplicationValue" where
  "pa_present pa = (case firstSlot 0 (slots pa) of Some (_, v) \<Rightarrow> v | None \<Rightarrow> relinquish pa)"

definition pa_active :: "priorityArray \<Rightarrow> u8 option" where
  "pa_active pa = map_option (\<lambda>(i, _). word_of_nat (i + 1)) (firstSlot 0 (slots pa))"

definition pa_write :: "ApplicationValue \<Rightarrow> u8 \<Rightarrow> priorityArray \<Rightarrow> priorityArray result" where
  "pa_write v priority pa =
     (let priority = (if priority = 0 then defaultPriority else priority) in
      if priority < 1 \<or> priority > 16 then Inl ErrValueOutOfRange
      else Inr (pa\<lparr>slots := (slots pa)[unat priority - 1 := (if Kind v = ValueNull then None else Some v)]\<rparr>))"

definition pa_value :: "priorityArray \<Rightarrow> ApplicationValue" where
  "pa_value pa = ConstructedValue (map (\<lambda>s. appElement (case s of None \<Rightarrow> NullValue | Some v \<Rightarrow> v)) (slots pa))"

definition currentPriority :: "priorityArray \<Rightarrow> ApplicationValue" where
  "currentPriority pa = (case pa_active pa of Some p \<Rightarrow> UnsignedValue (ucast p) | None \<Rightarrow> NullValue)"

definition sameValue :: "ApplicationValue \<Rightarrow> ApplicationValue \<Rightarrow> bool" where
  "sameValue a b =
     (if Kind a \<noteq> Kind b then False
      else case Kind a of
          ValueReal \<Rightarrow> f32_eq (Real (Fields a)) (Real (Fields b))
        | ValueEnumerated \<Rightarrow> Enumerated (Fields a) = Enumerated (Fields b)
        | ValueUnsigned \<Rightarrow> Unsigned (Fields a) = Unsigned (Fields b)
        | ValueBoolean \<Rightarrow> Boolean (Fields a) = Boolean (Fields b)
        | ValueNull \<Rightarrow> True
        | _ \<Rightarrow> is_ok (AppendApplicationValue [] a) \<and> AppendApplicationValue [] a = AppendApplicationValue [] b)"

text \<open>
  The two setters \<^verbatim>\<open>defineCommandable\<close> installs, over a state in which \<open>get\<close> finds the priority array and \<open>upd\<close>
  replaces it; \<open>onChange\<close> is the list its callback returns.
\<close>

definition setRelinquishDefault ::
    "('st \<Rightarrow> priorityArray) \<Rightarrow> (priorityArray \<Rightarrow> 'st \<Rightarrow> 'st) \<Rightarrow> ('st \<Rightarrow> ApplicationValue \<Rightarrow> unit result) \<Rightarrow> PropertyIdentifier list \<Rightarrow>
       Write \<Rightarrow> 'st \<Rightarrow> (PropertyIdentifier list \<times> 'st) result" where
  "setRelinquishDefault get upd check onChange w st =
     (if ArrayIndex (w_Property w) \<noteq> None then Inl ErrNotAnArray
      else rbind (check st (w_Value w)) (\<lambda>_.
        let pa = get st; pa' = pa\<lparr>relinquish := w_Value w\<rparr> in
        Inr (PropertyRelinquishDefault # (if \<not> sameValue (pa_present pa) (pa_present pa') then onChange else []), upd pa' st)))"

definition setPresentValue ::
    "('st \<Rightarrow> priorityArray) \<Rightarrow> (priorityArray \<Rightarrow> 'st \<Rightarrow> 'st) \<Rightarrow> ('st \<Rightarrow> ApplicationValue \<Rightarrow> unit result) \<Rightarrow> PropertyIdentifier list \<Rightarrow>
       Write \<Rightarrow> 'st \<Rightarrow> (PropertyIdentifier list \<times> 'st) result" where
  "setPresentValue get upd check onChange w st =
     (if ArrayIndex (w_Property w) \<noteq> None then Inl ErrNotAnArray
      else rbind (if Kind (w_Value w) \<noteq> ValueNull then check st (w_Value w) else Inr ()) (\<lambda>_.
      rbind (pa_write (w_Value w) (w_Priority w) (get st)) (\<lambda>pa'.
        Inr ([PropertyPriorityArray, PropertyCurrentCommandPriority]
               @ (if \<not> sameValue (pa_present (get st)) (pa_present pa') then onChange else []), upd pa' st))))"

definition defineCommandable ::
    "('st \<Rightarrow> priorityArray) \<Rightarrow> (priorityArray \<Rightarrow> 'st \<Rightarrow> 'st) \<Rightarrow> ('st \<Rightarrow> ApplicationValue \<Rightarrow> unit result) \<Rightarrow> PropertyIdentifier list \<Rightarrow>
       'st Base \<Rightarrow> 'st Base" where
  "defineCommandable get upd check onChange b =
     Define PropertyPresentValue (settable (pa_present \<circ> get) (setPresentValue get upd check onChange) True)
      (Define PropertyCurrentCommandPriority (computed (GetBy (currentPriority \<circ> get)) False True)
       (Define PropertyRelinquishDefault (settable (relinquish \<circ> get) (setRelinquishDefault get upd check onChange) True)
        (Define PropertyPriorityArray (computed (GetBy (pa_value \<circ> get)) True True) b)))"

section \<open>Property tables as maps\<close>

lemma Define_props [simp]: "map_of (props (Define i p b)) = (map_of (props b))(i \<mapsto> p)"
  by (simp add: Define_def update_conv')

lemma Define_sel [simp]: "own (Define i p b) = own b" "b_id (Define i p b) = b_id b" "b_name (Define i p b) = b_name b"
  by (simp_all add: Define_def)

lemma NewBase_own [simp]: "own (NewBase i n st) = st" "b_id (NewBase i n st) = i"
  by (simp_all add: NewBase_def)

lemma defineCommandable_own [simp]: "own (defineCommandable get upd check onChange b) = own b"
  by (simp add: defineCommandable_def)

text \<open>
  A relation on the object's own state holds across every write when each setter of the table keeps it; storing a
  value in the table changes no setter. The relation may depend on the property.
\<close>

definition keeps :: "('st \<Rightarrow> 'st \<Rightarrow> bool) \<Rightarrow> 'st setter \<Rightarrow> bool" where
  "keeps R s \<longleftrightarrow> (\<forall>f w st ch st'. s = SetBy f \<longrightarrow> f w st = Inr (ch, st') \<longrightarrow> R st st')"

definition table_keeps :: "(PropertyIdentifier \<Rightarrow> 'st \<Rightarrow> 'st \<Rightarrow> bool) \<Rightarrow> 'st Base \<Rightarrow> bool" where
  "table_keeps R b \<longleftrightarrow> (\<forall>i p. map_of (props b) i = Some p \<longrightarrow> keeps (R i) (p_Set p))"

lemma keeps_StoreValue [simp]: "keeps R StoreValue"
  by (simp add: keeps_def)

lemma keeps_SetBy: "(\<And>w st ch st'. f w st = Inr (ch, st') \<Longrightarrow> R st st') \<Longrightarrow> keeps R (SetBy f)"
  by (auto simp: keeps_def)

lemma literal_sel [simp]:
  "p_Set (computed gg a r) = StoreValue" "p_Set (stored v wr ks a r) = StoreValue" "p_Set (settable g s r) = SetBy s"
  "p_Get (settable g s r) = GetBy g" "p_Get (computed gg a r) = gg" "p_Get (stored v wr ks a r) = Stored"
  "IsArray (settable g s r) = False" "IsArray (computed gg a r) = a" "IsArray (stored v wr ks a r) = a"
  "Writable (settable g s r)" "\<not> Writable (computed gg a r)" "Writable (stored v wr ks a r) = wr"
  by (simp_all add: computed_def stored_def settable_def)

lemma table_keeps_Define: "keeps (R i) (p_Set p) \<Longrightarrow> table_keeps R b \<Longrightarrow> table_keeps R (Define i p b)"
  by (auto simp: table_keeps_def)

lemma table_keeps_NewBase [simp]: "table_keeps R (NewBase i n st)"
  unfolding NewBase_def by (intro table_keeps_Define) (simp_all add: table_keeps_def)

lemma table_keeps_own [simp]: "table_keeps R (b\<lparr>own := st\<rparr>) = table_keeps R b"
  by (simp add: table_keeps_def)

text \<open>A write leaves the table alone except for the value of a writable property without a setter.\<close>

lemma writeLocked_props:
  assumes "writeLocked w b = Inr (ch, b')"
  shows "b_id b' = b_id b \<and> b_name b' = b_name b \<and> order b' = order b
    \<and> (\<forall>i. map_of (props b') i = map_of (props b) i
         \<or> (\<exists>p v. map_of (props b) i = Some p \<and> p_Set p = StoreValue \<and> Writable p \<and> map_of (props b') i = Some (p\<lparr>p_Value := v\<rparr>)))"
proof -
  obtain p where p: "map_of (props b) (Identifier (w_Property w)) = Some p" "Writable p"
    using assms by (auto simp: writeLocked_def split: option.splits if_splits)
  show ?thesis
  proof (cases "p_Set p")
    case StoreValue
    then have "writeStored w p b = Inr (ch, b')" using assms p by (auto simp: writeLocked_def split: if_splits)
    then have "\<exists>v. setStored (Identifier (w_Property w)) p v b = Inr (ch, b')"
      by (auto simp: writeStored_def Let_def split: option.splits if_splits)
    then show ?thesis using p StoreValue by (auto simp: setStored_def update_conv') blast
  next
    case (SetBy s)
    then show ?thesis using assms p by (auto simp: writeLocked_def result_simps split: if_splits)
  qed
qed

lemma writeLocked_entry:
  assumes "writeLocked w b = Inr (ch, b')" "map_of (props b) i = Some p" "p_Set p \<noteq> StoreValue \<or> \<not> Writable p"
  shows "map_of (props b') i = Some p"
  using writeLocked_props [OF assms(1)] assms(2,3) by (metis option.inject)

lemma writeLocked_keeps:
  assumes "writeLocked w b = Inr (ch, b')" "table_keeps R b" "\<And>i st. R i st st"
  shows "table_keeps R b' \<and> R (Identifier (w_Property w)) (own b) (own b')"
proof
  show "table_keeps R b'"
    using writeLocked_props [OF assms(1)] assms(2) unfolding table_keeps_def
    by (metis (no_types, lifting) Property.select_convs(3) Property.surjective Property.update_convs(1) option.inject)
  show "R (Identifier (w_Property w)) (own b) (own b')"
    using assms unfolding writeLocked_def table_keeps_def keeps_def
    by (auto simp: writeStored_def setStored_def Let_def result_simps split: option.splits if_splits setter.splits)
qed

text \<open>Index 0 of an array is its length and the other indices are its items, in order.\<close>

lemma arrayItem_items:
  assumes "Kind v = ValueConstructed" "length (Elements v) < 2 ^ 32" "list_all (\<lambda>el. \<not> Context el) (Elements v)"
  shows "arrayItem v 0 = Inr (UnsignedValue (word_of_nat (length (Elements v))))"
    and "i < length (Elements v) \<Longrightarrow> arrayItem v (word_of_nat (i + 1)) = Inr (Value (Elements v ! i))"
    and "length (Elements v) < unat idx \<Longrightarrow> arrayItem v idx = Inl ErrInvalidArrayIndex"
proof -
  have l: "unat (word_of_nat (length (Elements v)) :: u32) = length (Elements v)"
    using assms(2) by (simp add: unat_of_nat)
  have "ucast (word_of_nat (length (Elements v)) :: u32) = (word_of_nat (length (Elements v)) :: u64)"
    using l assms(2) by (simp add: word_unat_eq_iff unat_ucast unat_of_nat)
  then show "arrayItem v 0 = Inr (UnsignedValue (word_of_nat (length (Elements v))))"
    using assms(1) by (simp add: arrayItem_def Let_def)
  show "arrayItem v (word_of_nat (i + 1)) = Inr (Value (Elements v ! i))" if "i < length (Elements v)"
  proof -
    have u: "unat (word_of_nat (i + 1) :: u32) = i + 1" using that assms(2) by (simp add: unat_of_nat del: of_nat_add of_nat_Suc)
    then have "(word_of_nat (i + 1) :: u32) \<noteq> 0" by (metis add_is_0 one_neq_zero unsigned_0)
    moreover have "\<not> (word_of_nat (i + 1) :: u32) > word_of_nat (length (Elements v))"
      using that u l by (simp add: word_less_nat_alt del: of_nat_add of_nat_Suc)
    moreover have "\<not> Context (Elements v ! i)" using assms(3) that by (simp add: list_all_length)
    ultimately show ?thesis using assms(1) u by (simp add: arrayItem_def Let_def del: of_nat_add of_nat_Suc)
  qed
  show "arrayItem v idx = Inl ErrInvalidArrayIndex" if "length (Elements v) < unat idx"
    using that assms(1) l by (auto simp: arrayItem_def Let_def word_less_nat_alt)
qed

section \<open>The priority array against its specification\<close>

definition effective :: "u8 \<Rightarrow> u8" where
  "effective q = (if q = 0 then defaultPriority else q)"

text \<open>The command in force at a priority: the last one given at it, unless that was NULL.\<close>

definition commandAt :: "(ApplicationValue \<times> u8) list \<Rightarrow> nat \<Rightarrow> ApplicationValue option" where
  "commandAt ws p =
     (case find (\<lambda>(_, q). unat (effective q) = p) (rev ws) of
        None \<Rightarrow> None
      | Some (v, _) \<Rightarrow> if Kind v = ValueNull then None else Some v)"

definition commandInForce :: "(ApplicationValue \<times> u8) list \<Rightarrow> nat option" where
  "commandInForce ws = find (\<lambda>p. commandAt ws p \<noteq> None) [1..<17]"

text \<open>The array after a sequence of commands; one with a priority out of range is refused.\<close>

definition command :: "priorityArray \<Rightarrow> ApplicationValue \<times> u8 \<Rightarrow> priorityArray" where
  "command pa c = (case pa_write (fst c) (snd c) pa of Inr pa' \<Rightarrow> pa' | Inl _ \<Rightarrow> pa)"

lemma commandAt_snoc:
  "commandAt (ws @ [(v, q)]) p = (if unat (effective q) = p then (if Kind v = ValueNull then None else Some v) else commandAt ws p)"
  by (simp add: commandAt_def)

lemma effective_range: "\<not> (effective q < 1 \<or> effective q > 16) \<longleftrightarrow> 1 \<le> unat (effective q) \<and> unat (effective q) \<le> 16"
  using unat_eq_zero [of "effective q"] by (auto simp: word_less_nat_alt not_less Suc_le_eq)

lemma pa_write_eq:
  "pa_write v q pa = (if 1 \<le> unat (effective q) \<and> unat (effective q) \<le> 16
     then Inr (pa\<lparr>slots := (slots pa)[unat (effective q) - 1 := (if Kind v = ValueNull then None else Some v)]\<rparr>)
     else Inl ErrValueOutOfRange)"
proof -
  have "(effective q < 1 \<or> effective q > 16) \<longleftrightarrow> \<not> (1 \<le> unat (effective q) \<and> unat (effective q) \<le> 16)"
    using effective_range by blast
  then show ?thesis unfolding pa_write_def Let_def effective_def [symmetric] by simp
qed

lemma command_slots:
  "length (slots (foldl command (newPriorityArray rd) ws)) = 16 \<and> relinquish (foldl command (newPriorityArray rd) ws) = rd
    \<and> (\<forall>i < 16. slots (foldl command (newPriorityArray rd) ws) ! i = commandAt ws (i + 1))"
proof (induction ws rule: rev_induct)
  case Nil
  then show ?case by (simp add: newPriorityArray_def commandAt_def)
next
  case (snoc w ws)
  obtain v q where w: "w = (v, q)" by force
  from snoc show ?case
    by (auto simp: w command_def pa_write_eq commandAt_snoc nth_list_update)
qed

lemma firstSlot_enumerate: "firstSlot k ss = map_option (\<lambda>(i, s). (i, the s)) (find (\<lambda>(_, s). s \<noteq> None) (List.enumerate k ss))"
  by (induction k ss rule: firstSlot.induct) simp_all

lemma find_map: "find P (map f xs) = map_option f (find (\<lambda>x. P (f x)) xs)"
  by (induction xs) simp_all

lemma firstSlot_command:
  "firstSlot 0 (slots (foldl command (newPriorityArray rd) ws)) = map_option (\<lambda>p. (p - 1, the (commandAt ws p))) (commandInForce ws)"
proof -
  let ?ss = "slots (foldl command (newPriorityArray rd) ws)"
  have "?ss = map (\<lambda>i. commandAt ws (Suc i)) [0..<16]"
    using command_slots [of rd ws] by (intro nth_equalityI) simp_all
  then have e: "List.enumerate 0 ?ss = map (\<lambda>i. (i, commandAt ws (Suc i))) [0..<16]"
    by (intro nth_equalityI) (simp_all add: nth_enumerate_eq)
  have "[1..<17] = map Suc [0..<16]" by (simp add: map_Suc_upt)
  then have "commandInForce ws = map_option Suc (find (\<lambda>i. commandAt ws (Suc i) \<noteq> None) [0..<16])"
    by (simp only: commandInForce_def find_map)
  then show ?thesis
    unfolding firstSlot_enumerate e find_map by (simp add: option.map_comp comp_def)
qed

lemma priority_array_commands:
  defines "pa rd ws \<equiv> foldl command (newPriorityArray rd) ws"
  shows "1 \<le> p \<Longrightarrow> p \<le> 16 \<Longrightarrow> slots (pa rd ws) ! (p - 1) = commandAt ws p"
    and "pa_present (pa rd ws) = (case commandInForce ws of None \<Rightarrow> rd | Some p \<Rightarrow> the (commandAt ws p))"
    and "pa_active (pa rd ws) = map_option word_of_nat (commandInForce ws)"
proof -
  show "slots (pa rd ws) ! (p - 1) = commandAt ws p" if "1 \<le> p" "p \<le> 16"
  proof -
    have "p - 1 < 16" "p - 1 + 1 = p" using that by auto
    then show ?thesis using command_slots [of rd ws] unfolding pa_def by metis
  qed
  have f: "firstSlot 0 (slots (pa rd ws)) = map_option (\<lambda>p. (p - 1, the (commandAt ws p))) (commandInForce ws)"
    unfolding pa_def by (rule firstSlot_command)
  show "pa_present (pa rd ws) = (case commandInForce ws of None \<Rightarrow> rd | Some p \<Rightarrow> the (commandAt ws p))"
    unfolding pa_present_def f using command_slots [of rd ws] by (simp add: pa_def split: option.split)
  have "0 < q" if "commandInForce ws = Some q" for q
    using that by (auto simp: commandInForce_def find_Some_iff)
  then show "pa_active (pa rd ws) = map_option word_of_nat (commandInForce ws)"
    unfolding pa_active_def f by (cases "commandInForce ws") auto
qed

section \<open>Commandable objects\<close>

text \<open>
  An object whose state has a priority array: reading and replacing it obey the laws of a field. The getter may be
  total on states that have none; \<open>has\<close> says which ones do.
\<close>

locale commandable_object =
  fixes get :: "'st \<Rightarrow> priorityArray"
    and upd :: "priorityArray \<Rightarrow> 'st \<Rightarrow> 'st"
    and check :: "'st \<Rightarrow> ApplicationValue \<Rightarrow> unit result"
    and has :: "'st \<Rightarrow> bool"
  assumes get_upd: "has st \<Longrightarrow> get (upd pa st) = pa"
    and has_upd: "has st \<Longrightarrow> has (upd pa st)"
    and check_upd: "has st \<Longrightarrow> check (upd pa st) v = check st v"
begin

text \<open>The invariant of the family: every value the array holds passes the check.\<close>

definition sound :: "'st \<Rightarrow> bool" where
  "sound st \<longleftrightarrow> has st \<and> length (slots (get st)) = 16 \<and> check st (relinquish (get st)) = Inr ()
     \<and> (\<forall>v. Some v \<in> set (slots (get st)) \<longrightarrow> check st v = Inr ())"

lemma sound_present:
  assumes "sound st"
  shows "check st (pa_present (get st)) = Inr ()"
proof -
  have "firstSlot k ss = Some (i, v) \<Longrightarrow> Some v \<in> set ss" for k ss i v
    by (induction k ss rule: firstSlot.induct) auto
  with assms show ?thesis by (auto simp: pa_present_def sound_def split: option.split)
qed

lemma sound_write:
  assumes "sound st" "Kind v \<noteq> ValueNull \<Longrightarrow> check st v = Inr ()" "pa_write v q (get st) = Inr pa"
  shows "sound (upd pa st)"
proof -
  have pa: "pa = (get st)\<lparr>slots := (slots (get st))[unat (effective q) - 1 := (if Kind v = ValueNull then None else Some v)]\<rparr>"
    using assms(3) by (simp add: pa_write_eq split: if_splits)
  have "check st u = Inr ()" if "Some u \<in> set (slots pa)" for u
    using that set_update_subset_insert [of "slots (get st)"] assms(1,2)
    by (auto simp: pa sound_def split: if_splits dest: subsetD)
  with assms(1) show ?thesis by (simp add: sound_def get_upd has_upd check_upd pa)
qed

lemma sound_setPresentValue:
  assumes "sound st" "setPresentValue get upd check onChange w st = Inr (ch, st')"
  shows "sound st' \<and> st' = upd (get st') st \<and> pa_write (w_Value w) (w_Priority w) (get st) = Inr (get st')"
proof -
  obtain pa where pa: "pa_write (w_Value w) (w_Priority w) (get st) = Inr pa" "st' = upd pa st"
      "Kind (w_Value w) \<noteq> ValueNull \<Longrightarrow> check st (w_Value w) = Inr ()"
    using assms(2) by (auto simp: setPresentValue_def result_simps split: if_splits)
  with sound_write [OF assms(1) _ pa(1)] assms(1) show ?thesis by (simp add: get_upd sound_def)
qed

lemma sound_setRelinquishDefault:
  assumes "sound st" "setRelinquishDefault get upd check onChange w st = Inr (ch, st')"
  shows "sound st' \<and> st' = upd (get st') st \<and> get st' = (get st)\<lparr>relinquish := w_Value w\<rparr>"
  using assms
  by (auto simp: setRelinquishDefault_def Let_def result_simps sound_def get_upd has_upd check_upd split: if_splits)

end

end
