(* ===== verification/Civil_Time.thy ===== *)
theory Civil_Time
  imports Bacnet_Types
begin

text \<open>
  Instants and their calendar fields, as far as the sources use \<^verbatim>\<open>time.Time\<close>: an instant is the number of
  nanoseconds since 1970-01-01 in the local zone, which is taken to be fixed, and \<^verbatim>\<open>Year\<close>, \<^verbatim>\<open>Month\<close>, \<^verbatim>\<open>Day\<close>,
  \<^verbatim>\<open>Weekday\<close> and the times of day are computed from it in the proleptic Gregorian calendar. With them the
  conversions \<^verbatim>\<open>dateOf\<close> and \<^verbatim>\<open>timeOf\<close> of \<^verbatim>\<open>server/object/device.go\<close>, \<^verbatim>\<open>dateTimeToTime\<close> of
  \<^verbatim>\<open>server/object/trendlog.go\<close> and \<^verbatim>\<open>daysIn\<close> of \<^verbatim>\<open>server/object/calendar_entry.go\<close>.
\<close>

section \<open>The calendar\<close>

definition dayNanos :: int where
  "dayNanos = 86400000000000"

text \<open>Years begin in March here: the leap day is then the last of its year.\<close>

definition marchDays :: "int \<Rightarrow> int" where
  "marchDays y = 365 * y + y div 4 - y div 100 + y div 400"

definition daysFromCivil :: "int \<Rightarrow> int \<Rightarrow> int \<Rightarrow> int" where
  "daysFromCivil y m d =
     (let y = (if m \<le> 2 then y - 1 else y); mp = (m + 9) mod 12 in
      marchDays y + (153 * mp + 2) div 5 + d - 1 - 719468)"

definition civilFromDays :: "int \<Rightarrow> int \<times> int \<times> int" where
  "civilFromDays z =
     (let z = z + 719468; era = z div 146097; doe = z mod 146097;
          yoe = (doe - doe div 1460 + doe div 36524 - doe div 146096) div 365;
          doy = doe - (365 * yoe + yoe div 4 - yoe div 100);
          mp = (5 * doy + 2) div 153; d = doy - (153 * mp + 2) div 5 + 1;
          m = (if mp < 10 then mp + 3 else mp - 9) in
      (yoe + era * 400 + (if m \<le> 2 then 1 else 0), m, d))"

definition weekdayOf :: "int \<Rightarrow> int" where
  "weekdayOf z = (z + 4) mod 7" \<comment> \<open>0 is Sunday\<close>

definition leapYear :: "int \<Rightarrow> bool" where
  "leapYear y \<longleftrightarrow> y mod 4 = 0 \<and> (y mod 100 \<noteq> 0 \<or> y mod 400 = 0)"

definition daysIn :: "int \<Rightarrow> int \<Rightarrow> int" where
  "daysIn year month =
     (if month = 2 then if leapYear year then 29 else 28
      else if month \<in> {4, 6, 9, 11} then 30 else 31)"

section \<open>Conversions\<close>

definition dateOf :: "int \<Rightarrow> Date" where
  "dateOf t =
     (let z = t div dayNanos; (y, m, d) = civilFromDays z; wd = weekdayOf z in
      \<lparr>Year = word_of_int (y - 1900), Month = word_of_int m, Day = word_of_int d,
       Weekday = (if wd = 0 then 7 else word_of_int wd)\<rparr>)"

definition timeOf :: "int \<Rightarrow> Time" where
  "timeOf t =
     (let s = t mod dayNanos in
      \<lparr>Hour = word_of_int (s div 3600000000000), Minute = word_of_int (s div 60000000000 mod 60),
       Second = word_of_int (s div 1000000000 mod 60), Hundredths = word_of_int (s div 10000000 mod 100)\<rparr>)"

record DateTime =
  dt_Date :: Date
  dt_Time :: Time

definition dateTimeToTime :: "DateTime \<Rightarrow> int" where
  "dateTimeToTime dt =
     (let d = dt_Date dt; t = dt_Time dt;
          year = (if Year d = 0xFF then 1900 else uint (Year d) + 1900);
          month = (if Month d = 0xFF \<or> Month d > 12 then 1 else uint (Month d));
          day = (if Day d = 0xFF \<or> Day d > 31 then 1 else uint (Day d));
          h = (if Hour t = 0xFF then 0 else uint (Hour t));
          m = (if Minute t = 0xFF then 0 else uint (Minute t));
          s = (if Second t = 0xFF then 0 else uint (Second t));
          cs = (if Hundredths t = 0xFF then 0 else uint (Hundredths t)) in
      daysFromCivil (if month = 0 then year - 1 else year) (if month = 0 then 12 else month) day * dayNanos
        + h * 3600000000000 + m * 60000000000 + s * 1000000000 + cs * 10000000)"

lemma calendar_samples:
  "daysFromCivil 1970 1 1 = 0" "civilFromDays 0 = (1970, 1, 1)" "daysFromCivil 2024 2 29 = 19782"
  "civilFromDays 19782 = (2024, 2, 29)" "weekdayOf 19782 = 4" "civilFromDays (-1) = (1969, 12, 31)"
  by code_simp+

end
