(* ===== verification/Point.thy ===== *)
theory Point
  imports Object_Base Civil_Time
begin

text \<open>
  Analog, binary and multi-state points (\<^verbatim>\<open>server/object/point.go\<close>) with the properties of intrinsic reporting
  (\<^verbatim>\<open>defineEvents\<close> of \<^verbatim>\<open>server/object/intrinsic.go\<close>). A point is a \<open>Base\<close> over the fields of its struct; the closures
  that capture a field are functions on them. Text is held as UTF-8 octets, floats as their bits; the zero time is
  \<open>None\<close>. A constructor that fails with a formatted error returns \<open>None\<close>.
\<close>

section \<open>State\<close>

datatype pointKind = kindAnalog | kindBinary | kindMultiState

record EventConfig =
  NotificationClass :: u32
  EventEnable :: u8
  NotifyType :: u32
  TimeDelay :: u32
  HighLimit :: u32
  LowLimit :: u32
  Deadband :: u32
  LimitEnable :: u8
  AlarmValue :: u32
  AlarmValues :: "u32 list"
  FaultValues :: "u32 list"

record intrinsic =
  i_cfg :: EventConfig
  i_enabled :: bool
  acked :: u8
  stamps :: "int option list" \<comment> \<open>three, by transition\<close>
  i_pending :: u32
  since :: "int option"
  lastFault :: u32

record PointState =
  pt_kind :: pointKind
  pt_input :: bool
  pt_pv :: ApplicationValue
  pt_pa :: "priorityArray option"
  outOfService :: bool
  eventState :: u32
  reliability :: u32
  covIncrement :: u32
  pt_states :: u32
  pt_intrinsic :: "intrinsic option"

type_synonym Point = "PointState Base"

record PointConfig =
  cfg_Instance :: u32
  cfg_Name :: bytes
  cfg_Description :: bytes
  cfg_Units :: u32
  cfg_Value :: u32
  cfg_COVIncrement :: u32
  Active :: bool
  Polarity :: u32
  ActiveText :: bytes
  InactiveText :: bytes
  NumberOfStates :: u32
  cfg_State :: u32
  StateText :: "bytes list option"
  cfg_Events :: "EventConfig option"

abbreviation (input) "EventStateNormal \<equiv> (0 :: u32)"
abbreviation (input) "EventStateFault \<equiv> (1 :: u32)"
abbreviation (input) "EventStateOffnormal \<equiv> (2 :: u32)"
abbreviation (input) "EventStateHighLimit \<equiv> (3 :: u32)"
abbreviation (input) "EventStateLowLimit \<equiv> (4 :: u32)"
abbreviation (input) "ReliabilityNoFaultDetected \<equiv> (0 :: u32)"
abbreviation (input) "ReliabilityMultiStateFault \<equiv> (9 :: u32)"
abbreviation (input) "NotifyEvent \<equiv> (1 :: u32)"
abbreviation (input) "NotifyAckNotification \<equiv> (2 :: u32)"

abbreviation (input) "PropertyAckedTransitions \<equiv> (0 :: u32)"
abbreviation (input) "PropertyActiveText \<equiv> (4 :: u32)"
abbreviation (input) "PropertyAlarmValue \<equiv> (6 :: u32)"
abbreviation (input) "PropertyAlarmValues \<equiv> (7 :: u32)"
abbreviation (input) "PropertyNotificationClass \<equiv> (17 :: u32)"
abbreviation (input) "PropertyCOVIncrement \<equiv> (22 :: u32)"
abbreviation (input) "PropertyDeadband \<equiv> (25 :: u32)"
abbreviation (input) "PropertyDescription \<equiv> (28 :: u32)"
abbreviation (input) "PropertyEventEnable \<equiv> (35 :: u32)"
abbreviation (input) "PropertyEventState \<equiv> (36 :: u32)"
abbreviation (input) "PropertyFaultValues \<equiv> (39 :: u32)"
abbreviation (input) "PropertyHighLimit \<equiv> (45 :: u32)"
abbreviation (input) "PropertyInactiveText \<equiv> (46 :: u32)"
abbreviation (input) "PropertyLimitEnable \<equiv> (52 :: u32)"
abbreviation (input) "PropertyLowLimit \<equiv> (59 :: u32)"
abbreviation (input) "PropertyNotifyType \<equiv> (72 :: u32)"
abbreviation (input) "PropertyNumberOfStates \<equiv> (74 :: u32)"
abbreviation (input) "PropertyOutOfService \<equiv> (81 :: u32)"
abbreviation (input) "PropertyPolarity \<equiv> (84 :: u32)"
abbreviation (input) "PropertyReliability \<equiv> (103 :: u32)"
abbreviation (input) "PropertyStateText \<equiv> (110 :: u32)"
abbreviation (input) "PropertyStatusFlags \<equiv> (111 :: u32)"
abbreviation (input) "PropertyTimeDelay \<equiv> (113 :: u32)"
abbreviation (input) "PropertyUnits \<equiv> (117 :: u32)"
abbreviation (input) "PropertyEventTimeStamps \<equiv> (130 :: u32)"
abbreviation (input) "PropertyEventDetectionEnable \<equiv> (353 :: u32)"

section \<open>Reading the state\<close>

definition checkValue :: "PointState \<Rightarrow> ApplicationValue \<Rightarrow> unit result" where
  "checkValue p v = (case pt_kind p of
      kindAnalog \<Rightarrow>
        if Kind v \<noteq> ValueReal then Inl ErrInvalidDataType
        else if f32_isNaN (Real (Fields v)) \<or> f32_isInf (Real (Fields v)) then Inl ErrValueOutOfRange else Inr ()
    | kindBinary \<Rightarrow>
        if Kind v \<noteq> ValueEnumerated then Inl ErrInvalidDataType
        else if Enumerated (Fields v) > 1 then Inl ErrValueOutOfRange else Inr ()
    | kindMultiState \<Rightarrow>
        if Kind v \<noteq> ValueUnsigned then Inl ErrInvalidDataType
        else if Unsigned (Fields v) < 1 \<or> Unsigned (Fields v) > ucast (pt_states p) then Inl ErrValueOutOfRange else Inr ())"

definition pt_present :: "PointState \<Rightarrow> ApplicationValue" where
  "pt_present p = (case pt_pa p of Some pa \<Rightarrow> pa_present pa | None \<Rightarrow> pt_pv p)"

definition hasState :: "u32 list \<Rightarrow> u64 \<Rightarrow> bool" where
  "hasState xs v \<longleftrightarrow> (\<exists>s \<in> set xs. ucast s = v)"

definition currentReliability :: "PointState \<Rightarrow> u32" where
  "currentReliability p =
     (if reliability p = ReliabilityNoFaultDetected \<and> pt_kind p = kindMultiState
         \<and> (case pt_intrinsic p of None \<Rightarrow> False
              | Some i \<Rightarrow> hasState (FaultValues (i_cfg i)) (Unsigned (Fields (pt_present p))))
      then ReliabilityMultiStateFault else reliability p)"

definition pt_statusFlags :: "PointState \<Rightarrow> ApplicationValue" where
  "pt_statusFlags p =
     statusFlags (eventState p \<noteq> EventStateNormal) (currentReliability p \<noteq> ReliabilityNoFaultDetected) False (outOfService p)"

section \<open>Setters\<close>

definition writePresentValue :: "Write \<Rightarrow> PointState \<Rightarrow> (PropertyIdentifier list \<times> PointState) result" where
  "writePresentValue w p =
     (if ArrayIndex (w_Property w) \<noteq> None then Inl ErrNotAnArray
      else if pt_input p \<and> \<not> outOfService p then Inl ErrWriteAccessDenied
      else rbind (checkValue p (w_Value w)) (\<lambda>_.
        if sameValue (pt_pv p) (w_Value w) then Inr ([], p)
        else Inr ([PropertyPresentValue], p\<lparr>pt_pv := w_Value w\<rparr>)))"

text \<open>What the other setters share: no array index, one kind of value, then a step that may refuse the value.\<close>

definition scalarSet :: "ValueKind \<Rightarrow> (ApplicationValue \<Rightarrow> 'st \<Rightarrow> (PropertyIdentifier list \<times> 'st) result) \<Rightarrow>
    Write \<Rightarrow> 'st \<Rightarrow> (PropertyIdentifier list \<times> 'st) result" where
  "scalarSet k f w p =
     (if ArrayIndex (w_Property w) \<noteq> None then Inl ErrNotAnArray
      else if Kind (w_Value w) \<noteq> k then Inl ErrInvalidDataType
      else f (w_Value w) p)"

definition setOutOfService :: "ApplicationValue \<Rightarrow> PointState \<Rightarrow> (PropertyIdentifier list \<times> PointState) result" where
  "setOutOfService v p =
     (if outOfService p = Boolean (Fields v) then Inr ([], p)
      else Inr ([PropertyOutOfService, PropertyStatusFlags], p\<lparr>outOfService := Boolean (Fields v)\<rparr>))"

definition setCOVIncrement :: "ApplicationValue \<Rightarrow> PointState \<Rightarrow> (PropertyIdentifier list \<times> PointState) result" where
  "setCOVIncrement v p =
     (if f32_less (Real (Fields v)) 0 \<or> f32_isNaN (Real (Fields v)) then Inl ErrValueOutOfRange
      else Inr ([PropertyCOVIncrement], p\<lparr>covIncrement := Real (Fields v)\<rparr>))"

text \<open>The fields of \<^verbatim>\<open>in\<close> and \<^verbatim>\<open>in.cfg\<close> that the event properties capture.\<close>

definition inOf :: "PointState \<Rightarrow> intrinsic" where
  "inOf p = the (pt_intrinsic p)"

definition updIn :: "(intrinsic \<Rightarrow> intrinsic) \<Rightarrow> PointState \<Rightarrow> PointState" where
  "updIn f p = p\<lparr>pt_intrinsic := map_option f (pt_intrinsic p)\<rparr>"

abbreviation (input) "cfgOf p \<equiv> i_cfg (inOf p)"
abbreviation (input) "updCfg f \<equiv> updIn (i_cfg_update f)"

definition unsignedProperty :: "PropertyIdentifier \<Rightarrow> (PointState \<Rightarrow> u32) \<Rightarrow> (u32 \<Rightarrow> PointState \<Rightarrow> PointState) \<Rightarrow> PointState Property" where
  "unsignedProperty i get put =
     settable (\<lambda>p. UnsignedValue (ucast (get p)))
      (scalarSet ValueUnsigned (\<lambda>v p. if Unsigned (Fields v) > 0xFFFFFFFF then Inl ErrValueOutOfRange
         else Inr ([i], put (ucast (Unsigned (Fields v))) p))) False"

definition bitsProperty :: "PropertyIdentifier \<Rightarrow> nat \<Rightarrow> (PointState \<Rightarrow> u8) \<Rightarrow> (u8 \<Rightarrow> PointState \<Rightarrow> PointState) \<Rightarrow> PointState Property" where
  "bitsProperty i n get put =
     settable (\<lambda>p. maskBits n (get p))
      (scalarSet ValueBitString (\<lambda>v p. Inr ([i], put (bitsOf (av_BitString (Fields v)) n) p))) False"

definition realProperty :: "PropertyIdentifier \<Rightarrow> bool \<Rightarrow> (PointState \<Rightarrow> u32) \<Rightarrow> (u32 \<Rightarrow> PointState \<Rightarrow> PointState) \<Rightarrow> PointState Property" where
  "realProperty i nonNegative get put =
     settable (\<lambda>p. RealValue (get p))
      (scalarSet ValueReal (\<lambda>v p. let f = Real (Fields v) in
         if f32_isNaN f \<or> f32_isInf f \<or> (nonNegative \<and> f32_less f 0) then Inl ErrValueOutOfRange
         else Inr ([i], put f p))) False"

definition enumProperty :: "PropertyIdentifier \<Rightarrow> (PointState \<Rightarrow> u32) \<Rightarrow> (u32 \<Rightarrow> PointState \<Rightarrow> PointState) \<Rightarrow> PointState Property" where
  "enumProperty i get put =
     settable (\<lambda>p. EnumValue (get p))
      (scalarSet ValueEnumerated (\<lambda>v p. if Enumerated (Fields v) > 1 then Inl ErrValueOutOfRange
         else Inr ([i], put (Enumerated (Fields v)) p))) False"

fun stateList :: "PointState \<Rightarrow> ApplicationValue list \<Rightarrow> u32 list result" where
  "stateList p [] = Inr []"
| "stateList p (v # vs) =
     (if Kind v \<noteq> ValueUnsigned then Inl ErrInvalidDataType
      else if Unsigned (Fields v) < 1 \<or> Unsigned (Fields v) > ucast (pt_states p) then Inl ErrValueOutOfRange
      else rmap (\<lambda>xs. ucast (Unsigned (Fields v)) # xs) (stateList p vs))"

definition setStates :: "PropertyIdentifier \<Rightarrow> (u32 list \<Rightarrow> PointState \<Rightarrow> PointState) \<Rightarrow> Write \<Rightarrow> PointState \<Rightarrow> (PropertyIdentifier list \<times> PointState) result" where
  "setStates i put w p =
     (if ArrayIndex (w_Property w) \<noteq> None then Inl ErrNotAnArray
      else rbind (if Kind (w_Value w) \<noteq> ValueConstructed then Inr [w_Value w]
                  else if \<exists>el \<in> set (Elements (w_Value w)). Context el then Inl ErrInvalidDataType
                  else Inr (map Value (Elements (w_Value w)))) (\<lambda>vals.
           rbind (stateList p vals) (\<lambda>xs. Inr ([i, PropertyReliability, PropertyStatusFlags], put xs p))))"

definition pt_stateSet :: "PropertyIdentifier \<Rightarrow> (PointState \<Rightarrow> u32 list) \<Rightarrow> (u32 list \<Rightarrow> PointState \<Rightarrow> PointState) \<Rightarrow> PointState Property" where
  "pt_stateSet i get put =
     settable (\<lambda>p. ConstructedValue (map (\<lambda>v. appElement (UnsignedValue (ucast v))) (get p))) (setStates i put) False"

definition timeStampElement :: "int option \<Rightarrow> Element" where
  "timeStampElement t =
     (let (d, tm) = (case t of
          None \<Rightarrow> (\<lparr>Year = 0xFF, Month = 0xFF, Day = 0xFF, Weekday = 0xFF\<rparr>, \<lparr>Hour = 0xFF, Minute = 0xFF, Second = 0xFF, Hundredths = 0xFF\<rparr>)
        | Some t \<Rightarrow> (dateOf t, timeOf t)) in
      El True 2 False False (ConstructedValue [appElement (DateValue d), appElement (TimeValue tm)]))"

definition defineEvents :: "EventConfig \<Rightarrow> Point \<Rightarrow> Point" where
  "defineEvents cfg b =
     (let b = b\<lparr>own := (own b)\<lparr>pt_intrinsic := Some \<lparr>i_cfg = cfg, i_enabled = True, acked = 7, stamps = [None, None, None],
                   i_pending = EventStateNormal, since = None, lastFault = 0\<rparr>\<rparr>\<rparr>;
          b = Define PropertyNotificationClass (unsignedProperty PropertyNotificationClass
                (\<lambda>p. NotificationClass (cfgOf p)) (\<lambda>v. updCfg (NotificationClass_update (\<lambda>_. v)))) b;
          b = Define PropertyTimeDelay (unsignedProperty PropertyTimeDelay
                (\<lambda>p. TimeDelay (cfgOf p)) (\<lambda>v. updCfg (TimeDelay_update (\<lambda>_. v)))) b;
          b = Define PropertyEventEnable (bitsProperty PropertyEventEnable 3
                (\<lambda>p. EventEnable (cfgOf p)) (\<lambda>v. updCfg (EventEnable_update (\<lambda>_. v)))) b;
          b = Define PropertyNotifyType (enumProperty PropertyNotifyType
                (\<lambda>p. NotifyType (cfgOf p)) (\<lambda>v. updCfg (NotifyType_update (\<lambda>_. v)))) b;
          b = Define PropertyEventDetectionEnable (settable (\<lambda>p. BoolValue (i_enabled (inOf p)))
                (scalarSet ValueBoolean (\<lambda>v p. Inr ([PropertyEventDetectionEnable], updIn (i_enabled_update (\<lambda>_. Boolean (Fields v))) p))) False) b;
          b = Define PropertyAckedTransitions (computed (GetBy (\<lambda>p. maskBits 3 (acked (inOf p)))) False False) b;
          b = Define PropertyEventTimeStamps (computed (GetBy (\<lambda>p. ConstructedValue (map timeStampElement (stamps (inOf p))))) True False) b in
      case pt_kind (own b) of
        kindAnalog \<Rightarrow>
          Define PropertyLimitEnable (bitsProperty PropertyLimitEnable 2 (\<lambda>p. LimitEnable (cfgOf p)) (\<lambda>v. updCfg (LimitEnable_update (\<lambda>_. v))))
           (Define PropertyDeadband (realProperty PropertyDeadband True (\<lambda>p. Deadband (cfgOf p)) (\<lambda>v. updCfg (Deadband_update (\<lambda>_. v))))
            (Define PropertyLowLimit (realProperty PropertyLowLimit False (\<lambda>p. LowLimit (cfgOf p)) (\<lambda>v. updCfg (LowLimit_update (\<lambda>_. v))))
             (Define PropertyHighLimit (realProperty PropertyHighLimit False (\<lambda>p. HighLimit (cfgOf p)) (\<lambda>v. updCfg (HighLimit_update (\<lambda>_. v)))) b)))
      | kindBinary \<Rightarrow>
          Define PropertyAlarmValue (enumProperty PropertyAlarmValue (\<lambda>p. AlarmValue (cfgOf p)) (\<lambda>v. updCfg (AlarmValue_update (\<lambda>_. v)))) b
      | kindMultiState \<Rightarrow>
          Define PropertyFaultValues (pt_stateSet PropertyFaultValues (\<lambda>p. FaultValues (cfgOf p)) (\<lambda>v. updCfg (FaultValues_update (\<lambda>_. v))))
           (Define PropertyAlarmValues (pt_stateSet PropertyAlarmValues (\<lambda>p. AlarmValues (cfgOf p)) (\<lambda>v. updCfg (AlarmValues_update (\<lambda>_. v)))) b))"

section \<open>Construction\<close>

definition boolEnum :: "bool \<Rightarrow> u32" where
  "boolEnum b = (if b then 1 else 0)"

text \<open>The checks of the family and its initial value; \<^verbatim>\<open>uint32(len(cfg.StateText))\<close> truncates.\<close>

definition initialValue :: "pointKind \<Rightarrow> PointConfig \<Rightarrow> ApplicationValue option" where
  "initialValue k cfg = (case k of
      kindAnalog \<Rightarrow>
        if f32_less (cfg_COVIncrement cfg) 0 \<or> f32_isNaN (cfg_COVIncrement cfg) then None else Some (RealValue (cfg_Value cfg))
    | kindBinary \<Rightarrow> if Polarity cfg > 1 then None else Some (EnumValue (boolEnum (Active cfg)))
    | kindMultiState \<Rightarrow>
        if NumberOfStates cfg = 0 then None
        else if (case StateText cfg of None \<Rightarrow> False | Some ts \<Rightarrow> word_of_nat (length ts) \<noteq> NumberOfStates cfg) then None
        else let st = (if cfg_State cfg = 0 then 1 else cfg_State cfg) in
          if st > NumberOfStates cfg then None else Some (UnsignedValue (ucast st)))"

definition newPointState :: "pointKind \<Rightarrow> bool \<Rightarrow> PointConfig \<Rightarrow> PointState" where
  "newPointState k inp cfg =
     \<lparr>pt_kind = k, pt_input = inp, pt_pv = zeroValue, pt_pa = None, outOfService = False, eventState = EventStateNormal,
      reliability = ReliabilityNoFaultDetected, covIncrement = (if k = kindAnalog then cfg_COVIncrement cfg else 0),
      pt_states = (if k = kindMultiState then NumberOfStates cfg else 0), pt_intrinsic = None\<rparr>"

definition pt_getPA :: "PointState \<Rightarrow> priorityArray" where
  "pt_getPA p = the (pt_pa p)"

definition pt_setPA :: "priorityArray \<Rightarrow> PointState \<Rightarrow> PointState" where
  "pt_setPA pa p = p\<lparr>pt_pa := Some pa\<rparr>"

definition definePresentValue :: "bool \<Rightarrow> ApplicationValue \<Rightarrow> Point \<Rightarrow> Point" where
  "definePresentValue commandable initial b =
     (if commandable
      then defineCommandable pt_getPA pt_setPA checkValue [PropertyPresentValue]
             (b\<lparr>own := (own b)\<lparr>pt_pa := Some (newPriorityArray initial)\<rparr>\<rparr>)
      else Define PropertyPresentValue (settable pt_pv writePresentValue True) (b\<lparr>own := (own b)\<lparr>pt_pv := initial\<rparr>\<rparr>))"

abbreviation (input) "textProperty s \<equiv> stored (charString s) True [ValueCharacterString] False False"

definition defineStatus :: "PointConfig \<Rightarrow> Point \<Rightarrow> Point" where
  "defineStatus cfg b =
     (let b = (if cfg_Description cfg \<noteq> [] then Define PropertyDescription (textProperty (cfg_Description cfg)) b else b);
          b = Define PropertyStatusFlags (computed (GetBy pt_statusFlags) False True) b;
          b = Define PropertyEventState (computed (GetBy (\<lambda>p. EnumValue (eventState p))) False True) b;
          b = Define PropertyReliability (computed (GetBy (\<lambda>p. EnumValue (currentReliability p))) False False) b in
      Define PropertyOutOfService (settable (\<lambda>p. BoolValue (outOfService p)) (scalarSet ValueBoolean setOutOfService) True) b)"

definition defineFamily :: "ObjectType \<Rightarrow> pointKind \<Rightarrow> PointConfig \<Rightarrow> Point \<Rightarrow> Point" where
  "defineFamily t k cfg b = (case k of
      kindAnalog \<Rightarrow>
        Define PropertyCOVIncrement (settable (\<lambda>p. RealValue (covIncrement p)) (scalarSet ValueReal setCOVIncrement) False)
         (Define PropertyUnits (stored (EnumValue (cfg_Units cfg)) False [] False True) b)
    | kindBinary \<Rightarrow>
        (let b = (if t \<noteq> 5 then Define PropertyPolarity (stored (EnumValue (Polarity cfg)) False [] False True) b else b) in
         if ActiveText cfg \<noteq> [] \<or> InactiveText cfg \<noteq> []
         then Define PropertyActiveText (textProperty (ActiveText cfg)) (Define PropertyInactiveText (textProperty (InactiveText cfg)) b)
         else b)
    | kindMultiState \<Rightarrow>
        (let b = Define PropertyNumberOfStates (stored (UnsignedValue (ucast (NumberOfStates cfg))) False [] False True) b in
         case StateText cfg of None \<Rightarrow> b
         | Some ts \<Rightarrow> Define PropertyStateText (stored (ConstructedValue (map (\<lambda>s. appElement (charString s)) ts)) True [ValueCharacterString] True False) b))"

definition eventsAllowed :: "ObjectType \<Rightarrow> pointKind \<Rightarrow> PointConfig \<Rightarrow> EventConfig \<Rightarrow> bool" where
  "eventsAllowed t k cfg e \<longleftrightarrow>
     t \<noteq> 14
     \<and> (k = kindMultiState \<longrightarrow> (\<forall>v \<in> set (AlarmValues e @ FaultValues e). \<not> (v < 1 \<or> v > NumberOfStates cfg)))
     \<and> \<not> NotifyType e > NotifyEvent \<and> \<not> f32_less (Deadband e) 0"

definition newPoint :: "ObjectType \<Rightarrow> pointKind \<Rightarrow> bool \<Rightarrow> bool \<Rightarrow> PointConfig \<Rightarrow> Point option" where
  "newPoint t k inp commandable cfg =
     (if cfg_Instance cfg > MaxObjectInstance - 1 then None
      else if cfg_Name cfg = [] then None
      else case initialValue k cfg of
        None \<Rightarrow> None
      | Some initial \<Rightarrow>
          (let b = defineFamily t k cfg (defineStatus cfg (definePresentValue commandable initial
                     (NewBase \<lparr>oType = t, Instance = cfg_Instance cfg\<rparr> (cfg_Name cfg) (newPointState k inp cfg)))) in
           case cfg_Events cfg of
             None \<Rightarrow> Some b
           | Some e \<Rightarrow> if eventsAllowed t k cfg e then Some (defineEvents e b) else None))"

text \<open>The nine constructors, by object type: inputs are never commandable, outputs always, values as configured.\<close>

definition NewPoint :: "ObjectType \<Rightarrow> bool \<Rightarrow> PointConfig \<Rightarrow> Point option" where
  "NewPoint t commandable cfg =
     (if t = 0 then newPoint t kindAnalog True False cfg
      else if t = 1 then newPoint t kindAnalog False True cfg
      else if t = 2 then newPoint t kindAnalog False commandable cfg
      else if t = 3 then newPoint t kindBinary True False cfg
      else if t = 4 then newPoint t kindBinary False True cfg
      else if t = 5 then newPoint t kindBinary False commandable cfg
      else if t = 13 then newPoint t kindMultiState True False cfg
      else if t = 14 then newPoint t kindMultiState False True cfg
      else if t = 19 then newPoint t kindMultiState False commandable cfg
      else None)"

section \<open>The application's side\<close>

text \<open>
  \<^verbatim>\<open>SetPresentValue\<close> and \<^verbatim>\<open>SetReliability\<close> return the properties that \<^verbatim>\<open>Update\<close> notifies beside the new object.
\<close>

definition SetPresentValue :: "ApplicationValue \<Rightarrow> Point \<Rightarrow> (PropertyIdentifier list \<times> Point) result" where
  "SetPresentValue v b =
     (let p = own b in
      rbind (checkValue p v) (\<lambda>_.
        let p' = (case pt_pa p of
            Some pa \<Rightarrow> p\<lparr>pt_pa := Some (pa\<lparr>relinquish := v\<rparr>)\<rparr>
          | None \<Rightarrow> if pt_input p \<and> outOfService p then p else p\<lparr>pt_pv := v\<rparr>) in
        Inr (if (pt_pa p = None \<and> pt_input p \<and> outOfService p) \<or> sameValue (pt_present p) (pt_present p') then [] else [PropertyPresentValue],
             b\<lparr>own := p'\<rparr>)))"

definition SetReliability :: "u32 \<Rightarrow> Point \<Rightarrow> PropertyIdentifier list \<times> Point" where
  "SetReliability r b =
     (if reliability (own b) = r then ([], b)
      else ([PropertyReliability, PropertyStatusFlags], b\<lparr>own := (own b)\<lparr>reliability := r\<rparr>\<rparr>))"

definition COVValues :: "Point \<Rightarrow> (PropertyIdentifier \<times> ApplicationValue) list" where
  "COVValues b = [(PropertyPresentValue, pt_present (own b)), (PropertyStatusFlags, pt_statusFlags (own b))]"

definition COVIncrement :: "Point \<Rightarrow> u32 option" where
  "COVIncrement b = (if pt_kind (own b) \<noteq> kindAnalog then None else Some (covIncrement (own b)))"

section \<open>Values of a family\<close>

text \<open>What a family promises of its Present_Value: a finite REAL, an ENUMERATED 0 or 1, an Unsigned 1..n.\<close>

fun valueOf :: "pointKind \<Rightarrow> u32 \<Rightarrow> ApplicationValue \<Rightarrow> bool" where
  "valueOf kindAnalog n v \<longleftrightarrow> Kind v = ValueReal \<and> f32_exp (Real (Fields v)) < 255"
| "valueOf kindBinary n v \<longleftrightarrow> Kind v = ValueEnumerated \<and> Enumerated (Fields v) \<in> {0, 1}"
| "valueOf kindMultiState n v \<longleftrightarrow> Kind v = ValueUnsigned \<and> 1 \<le> unat (Unsigned (Fields v)) \<and> unat (Unsigned (Fields v)) \<le> unat n"

lemma f32_exp_le: "f32_exp f \<le> 255"
proof -
  have "drop_bit 23 f AND 0xFF \<le> (0xFF :: u32)" by (rule word_and_le1)
  then show ?thesis by (simp add: f32_exp_def word_le_nat_alt)
qed

lemma word_le_1_iff: "\<not> (w :: u32) > 1 \<longleftrightarrow> w \<in> {0, 1}"
  using unat_eq_zero [of w] by (auto simp: word_less_nat_alt word_unat_eq_iff)

lemma checkValue_iff: "checkValue p v = Inr () \<longleftrightarrow> valueOf (pt_kind p) (pt_states p) v"
proof (cases "pt_kind p")
  case kindAnalog
  have "\<not> (f32_isNaN f \<or> f32_isInf f) \<longleftrightarrow> f32_exp f < 255" for f
    using f32_exp_le [of f] by (auto simp: f32_isNaN_def f32_isInf_def)
  then show ?thesis using kindAnalog by (auto simp: checkValue_def)
next
  case kindBinary
  then show ?thesis using word_le_1_iff [of "Enumerated (Fields v)"] by (auto simp: checkValue_def)
next
  case kindMultiState
  have "\<not> (u < 1 \<or> u > ucast n) \<longleftrightarrow> 1 \<le> unat u \<and> unat u \<le> unat n" for u :: u64 and n :: u32
  proof -
    have "unat n < 2 ^ 32" using unsigned_less [of n, where ?'a = nat] by simp
    then have "unat (ucast n :: u64) = unat n" by (simp add: unat_ucast)
    then show ?thesis by (auto simp: word_less_nat_alt)
  qed
  then show ?thesis using kindMultiState by (auto simp: checkValue_def)
qed

lemma checkValue_cong: "pt_kind p = pt_kind q \<Longrightarrow> pt_states p = pt_states q \<Longrightarrow> checkValue p v = checkValue q v"
  by (simp add: checkValue_def)

section \<open>Points as commandable objects\<close>

definition isCommandable :: "PointState \<Rightarrow> bool" where
  "isCommandable p \<longleftrightarrow> pt_pa p \<noteq> None"

interpretation point: commandable_object pt_getPA pt_setPA checkValue isCommandable
  by unfold_locales (auto simp: pt_getPA_def pt_setPA_def isCommandable_def intro: checkValue_cong)

text \<open>
  The state of a point of family \<open>k\<close> with \<open>n\<close> states, commandable or not: every value it holds is one of the family.
\<close>

definition typed :: "pointKind \<Rightarrow> u32 \<Rightarrow> bool \<Rightarrow> PointState \<Rightarrow> bool" where
  "typed k n c p \<longleftrightarrow> pt_kind p = k \<and> pt_states p = n \<and> isCommandable p = c
     \<and> (if c then point.sound p else checkValue p (pt_pv p) = Inr ())"

lemma typed_cong:
  assumes "pt_kind p = pt_kind q" "pt_states p = pt_states q" "pt_pa p = pt_pa q" "pt_pv p = pt_pv q"
  shows "typed k n c p = typed k n c q"
  using assms checkValue_cong [OF assms(1,2)] by (simp add: typed_def point.sound_def pt_getPA_def isCommandable_def)

lemma typed_present: "typed k n c p \<Longrightarrow> valueOf k n (pt_present p)"
  using point.sound_present [of p]
  by (auto simp: typed_def pt_present_def pt_getPA_def isCommandable_def checkValue_iff split: option.splits if_splits)

text \<open>
  The setters of a point: they keep the type, only two of them touch the priority array, and none the progress of
  event detection.
\<close>

definition detection :: "PointState \<Rightarrow> u32 \<times> (u32 \<times> int option) option" where
  "detection p = (eventState p, map_option (\<lambda>i. (i_pending i, since i)) (pt_intrinsic p))"

definition kept :: "pointKind \<Rightarrow> u32 \<Rightarrow> bool \<Rightarrow> PropertyIdentifier \<Rightarrow> PointState \<Rightarrow> PointState \<Rightarrow> bool" where
  "kept k n c i p q \<longleftrightarrow> (typed k n c p \<longrightarrow> typed k n c q)
     \<and> (i \<noteq> PropertyPresentValue \<and> i \<noteq> PropertyRelinquishDefault \<longrightarrow> pt_pa q = pt_pa p)
     \<and> detection q = detection p"

lemma kept_refl [simp]: "kept k n c i p p"
  by (simp add: kept_def)

lemma kept_frame:
  assumes "pt_kind q = pt_kind p" "pt_states q = pt_states p" "pt_pa q = pt_pa p" "pt_pv q = pt_pv p" "detection q = detection p"
  shows "kept k n c i p q"
  using assms typed_cong [OF assms(1-4), of k n c] by (simp add: kept_def)

lemma kept_fields [simp]:
  "(\<And>i. i_pending (f i) = i_pending i \<and> since (f i) = since i) \<Longrightarrow> kept k n c i p (updIn f p)"
  "kept k n c i p (p\<lparr>outOfService := o'\<rparr>)" "kept k n c i p (p\<lparr>covIncrement := r\<rparr>)"
  by (rule kept_frame; simp add: updIn_def detection_def option.map_comp comp_def)+

lemma kept_scalarSet:
  assumes "\<And>v p ch q. f v p = Inr (ch, q) \<Longrightarrow> kept k n c i p q"
  shows "keeps (kept k n c i) (SetBy (scalarSet kd f))"
  using assms by (intro keeps_SetBy) (auto simp: scalarSet_def split: if_splits)

lemma kept_unsignedProperty [simp]:
  "(\<And>v p. kept k n c i p (put v p)) \<Longrightarrow> keeps (kept k n c i) (p_Set (unsignedProperty j get put))"
  unfolding unsignedProperty_def literal_sel by (rule kept_scalarSet) (auto split: if_splits)

lemma kept_bitsProperty [simp]:
  "(\<And>v p. kept k n c i p (put v p)) \<Longrightarrow> keeps (kept k n c i) (p_Set (bitsProperty j m get put))"
  unfolding bitsProperty_def literal_sel by (rule kept_scalarSet) auto

lemma kept_realProperty [simp]:
  "(\<And>v p. kept k n c i p (put v p)) \<Longrightarrow> keeps (kept k n c i) (p_Set (realProperty j m get put))"
  unfolding realProperty_def literal_sel by (rule kept_scalarSet) (auto simp: Let_def split: if_splits)

lemma kept_enumProperty [simp]:
  "(\<And>v p. kept k n c i p (put v p)) \<Longrightarrow> keeps (kept k n c i) (p_Set (enumProperty j get put))"
  unfolding enumProperty_def literal_sel by (rule kept_scalarSet) (auto split: if_splits)

lemma kept_stateSet [simp]:
  "(\<And>v p. kept k n c i p (put v p)) \<Longrightarrow> keeps (kept k n c i) (p_Set (pt_stateSet j get put))"
  unfolding pt_stateSet_def literal_sel by (rule keeps_SetBy) (auto simp: setStates_def result_simps split: if_splits)

lemma table_defineEvents: "table_keeps (kept k n c) b \<Longrightarrow> table_keeps (kept k n c) (defineEvents e b)"
  unfolding defineEvents_def Let_def
  by (auto intro!: table_keeps_Define kept_scalarSet split: pointKind.split)

lemma table_defineFamily: "table_keeps (kept k n c) b \<Longrightarrow> table_keeps (kept k n c) (defineFamily t kd cfg b)"
  unfolding defineFamily_def Let_def
  by (auto intro!: table_keeps_Define kept_scalarSet simp: setCOVIncrement_def split: pointKind.split option.split if_splits)

lemma table_defineStatus: "table_keeps (kept k n c) b \<Longrightarrow> table_keeps (kept k n c) (defineStatus cfg b)"
  unfolding defineStatus_def Let_def
  by (auto intro!: table_keeps_Define kept_scalarSet simp: setOutOfService_def split: if_splits)

text \<open>The entries a commandable point has for the properties of its priority array.\<close>

definition commandEntries :: "Point \<Rightarrow> bool" where
  "commandEntries b \<longleftrightarrow>
     map_of (props b) PropertyPresentValue = Some (settable (pa_present \<circ> pt_getPA) (setPresentValue pt_getPA pt_setPA checkValue [PropertyPresentValue]) True)
   \<and> map_of (props b) PropertyRelinquishDefault = Some (settable (relinquish \<circ> pt_getPA) (setRelinquishDefault pt_getPA pt_setPA checkValue [PropertyPresentValue]) True)
   \<and> map_of (props b) PropertyCurrentCommandPriority = Some (computed (GetBy (currentPriority \<circ> pt_getPA)) False True)
   \<and> map_of (props b) PropertyPriorityArray = Some (computed (GetBy (pa_value \<circ> pt_getPA)) True True)"

definition valueEntries :: "bool \<Rightarrow> Point \<Rightarrow> bool" where
  "valueEntries c b \<longleftrightarrow>
     (if c then commandEntries b else map_of (props b) PropertyPresentValue = Some (settable pt_pv writePresentValue True))"

definition point_inv :: "pointKind \<Rightarrow> u32 \<Rightarrow> bool \<Rightarrow> Point \<Rightarrow> bool" where
  "point_inv k n c b \<longleftrightarrow> table_keeps (kept k n c) b \<and> typed k n c (own b) \<and> valueEntries c b"

lemma valueEntries_own [simp]: "valueEntries c (b\<lparr>own := p\<rparr>) = valueEntries c b"
  by (simp add: valueEntries_def commandEntries_def)

lemma valueEntries_Define:
  assumes "i \<notin> {PropertyPresentValue, PropertyRelinquishDefault, PropertyCurrentCommandPriority, PropertyPriorityArray}"
  shows "valueEntries c (Define i p b) = valueEntries c b"
  using assms by (auto simp: valueEntries_def commandEntries_def)

lemma valueEntries_defines [simp]:
  "valueEntries c (defineEvents e b) = valueEntries c b"
  "valueEntries c (defineFamily t k cfg b) = valueEntries c b"
  "valueEntries c (defineStatus cfg b) = valueEntries c b"
  by (simp_all add: defineEvents_def defineFamily_def defineStatus_def Let_def valueEntries_Define split: pointKind.split option.split)

lemma valueEntries_definePresentValue [simp]: "valueEntries c (definePresentValue c v b)"
  by (simp add: definePresentValue_def defineCommandable_def valueEntries_def commandEntries_def)

lemma pt_setPA_sel [simp]:
  "pt_kind (pt_setPA pa p) = pt_kind p" "pt_states (pt_setPA pa p) = pt_states p" "isCommandable (pt_setPA pa p)" "detection (pt_setPA pa p) = detection p"
  by (simp_all add: pt_setPA_def isCommandable_def detection_def)

lemma kept_commandSetters:
  assumes "c"
  shows "keeps (kept k n c PropertyPresentValue) (SetBy (setPresentValue pt_getPA pt_setPA checkValue ch))"
    and "keeps (kept k n c PropertyRelinquishDefault) (SetBy (setRelinquishDefault pt_getPA pt_setPA checkValue ch))"
proof -
  have u: "kept k n c i p q" if "point.sound p \<Longrightarrow> point.sound q \<and> q = pt_setPA (pt_getPA q) p" "\<exists>pa. q = pt_setPA pa p"
    "i = PropertyPresentValue \<or> i = PropertyRelinquishDefault" for i p q
    using that assms pt_setPA_sel [of _ p] unfolding kept_def typed_def by metis
  have e: "setPresentValue pt_getPA pt_setPA checkValue ch w p = Inr (ch', q) \<Longrightarrow> \<exists>pa. q = pt_setPA pa p"
      "setRelinquishDefault pt_getPA pt_setPA checkValue ch w p = Inr (ch', q) \<Longrightarrow> \<exists>pa. q = pt_setPA pa p" for ch' w p q
    by (auto simp: setPresentValue_def setRelinquishDefault_def Let_def result_simps split: if_splits)
  show "keeps (kept k n c PropertyPresentValue) (SetBy (setPresentValue pt_getPA pt_setPA checkValue ch))"
    using point.sound_setPresentValue e(1) by (intro keeps_SetBy u) blast+
  show "keeps (kept k n c PropertyRelinquishDefault) (SetBy (setRelinquishDefault pt_getPA pt_setPA checkValue ch))"
    using point.sound_setRelinquishDefault e(2) by (intro keeps_SetBy u) blast+
qed

lemma kept_writePresentValue: "\<not> c \<Longrightarrow> keeps (kept k n c i) (SetBy writePresentValue)"
  by (intro keeps_SetBy)
    (auto simp: writePresentValue_def kept_def typed_def isCommandable_def detection_def checkValue_iff result_simps split: if_splits)

lemma table_definePresentValue:
  assumes "table_keeps (kept k n c) b"
  shows "table_keeps (kept k n c) (definePresentValue c v b)"
  using assms kept_commandSetters kept_writePresentValue
  by (cases c) (auto simp: definePresentValue_def defineCommandable_def intro!: table_keeps_Define)

lemma own_defines [simp]:
  "own (defineFamily t k cfg b) = own b" "own (defineStatus cfg b) = own b"
  by (simp_all add: defineFamily_def defineStatus_def Let_def split: pointKind.split option.split)

lemma own_defineEvents:
  "pt_kind (own (defineEvents e b)) = pt_kind (own b)" "pt_states (own (defineEvents e b)) = pt_states (own b)"
  "pt_pa (own (defineEvents e b)) = pt_pa (own b)" "pt_pv (own (defineEvents e b)) = pt_pv (own b)"
  by (simp_all add: defineEvents_def Let_def split: pointKind.split)

lemma initialValue_valueOf:
  assumes "initialValue k cfg = Some v" "k = kindAnalog \<Longrightarrow> f32_exp (cfg_Value cfg) < 255"
  shows "valueOf k (if k = kindMultiState then NumberOfStates cfg else 0) v"
proof (cases k)
  case kindMultiState
  define st where "st = (if cfg_State cfg = 0 then 1 else cfg_State cfg)"
  have v: "v = UnsignedValue (ucast st)" "\<not> st > NumberOfStates cfg"
    using assms(1) kindMultiState by (auto simp: initialValue_def st_def Let_def split: if_splits option.splits)
  have "unat st < 2 ^ 32" using unsigned_less [of st, where ?'a = nat] by simp
  moreover have "unat st \<noteq> 0" by (simp add: st_def unat_eq_zero)
  ultimately show ?thesis using v kindMultiState by (auto simp: UnsignedValue_def unat_ucast word_less_nat_alt)
qed (use assms in \<open>auto simp: initialValue_def RealValue_def EnumValue_def boolEnum_def split: if_splits\<close>)

definition configuredStates :: "pointKind \<Rightarrow> PointConfig \<Rightarrow> u32" where
  "configuredStates k cfg = (if k = kindMultiState then NumberOfStates cfg else 0)"

lemma newPoint_table: "newPoint t k inp c cfg = Some b \<Longrightarrow> table_keeps (kept k n c) b"
  by (auto simp: newPoint_def Let_def table_defineEvents table_defineFamily table_defineStatus table_definePresentValue
      split: if_splits option.splits)

lemma newPoint_inv:
  assumes "newPoint t k inp c cfg = Some b" "k = kindAnalog \<Longrightarrow> f32_exp (cfg_Value cfg) < 255"
  shows "point_inv k (configuredStates k cfg) c b"
    and "c \<Longrightarrow> \<exists>v. initialValue k cfg = Some v \<and> pt_getPA (own b) = newPriorityArray v"
proof -
  obtain v where v: "initialValue k cfg = Some v" using assms(1) by (auto simp: newPoint_def split: if_splits option.splits)
  define b1 where "b1 = defineFamily t k cfg (defineStatus cfg (definePresentValue c v
                     (NewBase \<lparr>oType = t, Instance = cfg_Instance cfg\<rparr> (cfg_Name cfg) (newPointState k inp cfg))))"
  have b: "b = b1 \<or> (\<exists>e. b = defineEvents e b1)"
    using assms(1) v by (auto simp: newPoint_def b1_def Let_def split: if_splits option.splits)
  let ?n = "configuredStates k cfg"
  have o1: "pt_kind (own b1) = k" "pt_states (own b1) = ?n" "isCommandable (own b1) = c"
      "c \<Longrightarrow> pt_getPA (own b1) = newPriorityArray v" "\<not> c \<Longrightarrow> pt_pv (own b1) = v"
    by (simp_all add: b1_def definePresentValue_def newPointState_def configuredStates_def isCommandable_def pt_getPA_def)
  have ok: "checkValue (own b1) v = Inr ()"
    using initialValue_valueOf [OF v assms(2)] o1 by (simp add: checkValue_iff configuredStates_def)
  have t1: "typed k ?n c (own b1)"
    using o1 ok by (auto simp: typed_def point.sound_def newPriorityArray_def)
  have "table_keeps (kept k ?n c) b1" "valueEntries c b1"
    unfolding b1_def
    by (simp_all add: table_defineFamily table_defineStatus table_definePresentValue)
  then have i1: "point_inv k ?n c b1" using t1 by (simp add: point_inv_def)
  have i2: "point_inv k ?n c (defineEvents e b1)" for e
    using i1 typed_cong [OF own_defineEvents] by (simp add: point_inv_def table_defineEvents)
  show "point_inv k ?n c b" using b i1 i2 by auto
  show "\<exists>v. initialValue k cfg = Some v \<and> pt_getPA (own b) = newPriorityArray v" if c
    using b v o1(4) [OF that] own_defineEvents(3) by (auto simp: pt_getPA_def)
qed

lemma writeLocked_inv:
  assumes "writeLocked w b = Inr (ch, b')" "point_inv k n c b"
  shows "point_inv k n c b' \<and> kept k n c (Identifier (w_Property w)) (own b) (own b')"
proof -
  have "table_keeps (kept k n c) b' \<and> kept k n c (Identifier (w_Property w)) (own b) (own b')"
    using writeLocked_keeps [OF assms(1), of "kept k n c"] assms(2) by (simp add: point_inv_def)
  moreover have "valueEntries c b'"
    using assms(2) writeLocked_entry [OF assms(1)]
    by (auto simp: point_inv_def valueEntries_def commandEntries_def)
  ultimately show ?thesis using assms(2) by (auto simp: point_inv_def kept_def)
qed

lemma WriteProperty_inv: "WriteProperty w b = (e, ch, b') \<Longrightarrow> point_inv k n c b \<Longrightarrow> point_inv k n c b'"
  using writeLocked_inv by (fastforce simp: WriteProperty_def split: sum.splits)

lemma point_inv_frame:
  assumes "point_inv k n c b" "pt_kind p = pt_kind (own b)" "pt_states p = pt_states (own b)"
    "pt_pa p = pt_pa (own b)" "pt_pv p = pt_pv (own b)"
  shows "point_inv k n c (b\<lparr>own := p\<rparr>)"
  using assms(1) typed_cong [OF assms(2-5)] by (simp add: point_inv_def)

lemma SetReliability_inv: "point_inv k n c b \<Longrightarrow> point_inv k n c (snd (SetReliability r b))"
  by (simp add: SetReliability_def point_inv_frame)

lemma SetPresentValue_inv:
  assumes "SetPresentValue v b = Inr (ch, b')" "point_inv k n c b"
  shows "point_inv k n c b' \<and> (c \<longrightarrow> pt_getPA (own b') = (pt_getPA (own b))\<lparr>relinquish := v\<rparr>)"
proof -
  let ?p = "own b"
  have ok: "checkValue ?p v = Inr ()" and b': "b' = b\<lparr>own := (case pt_pa ?p of
            Some pa \<Rightarrow> ?p\<lparr>pt_pa := Some (pa\<lparr>relinquish := v\<rparr>)\<rparr>
          | None \<Rightarrow> if pt_input ?p \<and> outOfService ?p then ?p else ?p\<lparr>pt_pv := v\<rparr>)\<rparr>"
    using assms(1) by (auto simp: SetPresentValue_def Let_def result_simps)
  have ty: "typed k n c ?p" using assms(2) by (simp add: point_inv_def)
  have "typed k n c (own b')"
    using ty ok by (cases "pt_pa ?p") (auto simp: b' typed_def isCommandable_def point.sound_def pt_getPA_def checkValue_iff)
  moreover have "table_keeps (kept k n c) b'" "valueEntries c b'" using assms(2) by (simp_all add: b' point_inv_def)
  moreover have "c \<Longrightarrow> pt_getPA (own b') = (pt_getPA ?p)\<lparr>relinquish := v\<rparr>"
    using ty by (auto simp: b' typed_def isCommandable_def pt_getPA_def)
  ultimately show ?thesis by (simp add: point_inv_def)
qed

text \<open>What a read of Present_Value returns.\<close>

lemma read_PresentValue:
  assumes "point_inv k n c b"
  shows "readLocked b \<lparr>Identifier = PropertyPresentValue, ArrayIndex = None\<rparr> = Inr (pt_present (own b))"
  using assms
  by (auto simp: point_inv_def valueEntries_def commandEntries_def readLocked_def getValue_def pt_present_def pt_getPA_def typed_def
      isCommandable_def split: if_splits option.splits)

end
