(* ===== verification/Intrinsic.thy ===== *)
theory Intrinsic
  imports Point
begin

text \<open>
  Intrinsic reporting of points (\<^verbatim>\<open>server/object/intrinsic.go\<close>): the event state machine, its notifications and the
  acknowledgment of alarms. An instant is the number of nanoseconds in local time (\<open>Civil_Time\<close>). With these every
  operation that changes a point is modelled, and the theory proves what holds of a point after any sequence of
  them: its Present_Value is of the family, a commandable point presents the command in force, and a transition is
  reported only after its condition held for the time delay.
\<close>

section \<open>Sums of floats\<close>

text \<open>
  In units of \<open>2 ^ -149\<close> a finite \<^verbatim>\<open>float32\<close> is an integer with at most 24 significant bits, below \<open>2 ^ 277\<close>, which
  stands for infinity. A sum is rounded to 24 significant bits, halves to even. NaN is \<open>None\<close>.
\<close>

definition f32_num :: "u32 \<Rightarrow> int option" where
  "f32_num f = (if f32_isNaN f then None else Some (f32_units f))"

fun bitLength :: "nat \<Rightarrow> nat" where
  "bitLength n = (if n = 0 then 0 else Suc (bitLength (n div 2)))"

declare bitLength.simps [simp del]

definition round24 :: "int \<Rightarrow> int" where
  "round24 x =
     (let n = nat \<bar>x\<bar>; s = bitLength n - 24; q = n div 2 ^ s; r = n mod 2 ^ s;
          q' = (if 2 * r > 2 ^ s \<or> (2 * r = 2 ^ s \<and> odd q) then q + 1 else q) in
      sgn x * int (q' * 2 ^ s))"

definition f32_infinity :: int where
  "f32_infinity = 2 ^ 277"

definition f32_sum :: "int option \<Rightarrow> int option \<Rightarrow> int option" where
  "f32_sum a b = (case (a, b) of
      (Some x, Some y) \<Rightarrow>
        if \<bar>x\<bar> = f32_infinity \<and> \<bar>y\<bar> = f32_infinity then if x = y then Some x else None
        else if \<bar>x\<bar> = f32_infinity then Some x
        else if \<bar>y\<bar> = f32_infinity then Some y
        else let r = round24 (x + y) in
          Some (if r \<ge> f32_infinity then f32_infinity else if r \<le> - f32_infinity then - f32_infinity else r)
    | _ \<Rightarrow> None)"

definition num_less :: "int option \<Rightarrow> int option \<Rightarrow> bool" where
  "num_less a b = (case (a, b) of (Some x, Some y) \<Rightarrow> x < y | _ \<Rightarrow> False)"

section \<open>Event detection\<close>

abbreviation (input) "TransitionToOffNormal \<equiv> (0 :: nat)"
abbreviation (input) "TransitionToFault \<equiv> (1 :: nat)"
abbreviation (input) "TransitionToNormal \<equiv> (2 :: nat)"
abbreviation (input) "EnableToOffNormal \<equiv> (1 :: u8)"
abbreviation (input) "EnableToNormal \<equiv> (4 :: u8)"
abbreviation (input) "LimitEnableLow \<equiv> (1 :: u8)"
abbreviation (input) "LimitEnableHigh \<equiv> (2 :: u8)"
abbreviation (input) "EventTypeChangeOfState \<equiv> (1 :: u32)"
abbreviation (input) "EventTypeOutOfRange \<equiv> (5 :: u32)"
abbreviation (input) "EventTypeChangeOfReliability \<equiv> (19 :: u32)"
abbreviation (input) "ErrInvalidTimeStamp \<equiv> Err 5 14"
abbreviation (input) "ErrInvalidEventState \<equiv> Err 5 73"
abbreviation (input) "ErrNoAlarmConfigured \<equiv> Err 1 74"

definition transitionOf :: "u32 \<Rightarrow> nat" where
  "transitionOf state =
     (if state = EventStateNormal then TransitionToNormal
      else if state = EventStateFault then TransitionToFault else TransitionToOffNormal)"

definition eventType :: "PointState \<Rightarrow> u32 \<Rightarrow> u32" where
  "eventType p state =
     (if state = EventStateFault then EventTypeChangeOfReliability
      else if pt_kind p \<noteq> kindAnalog then EventTypeChangeOfState else EventTypeOutOfRange)"

text \<open>The state the out-of-range or change-of-state algorithm leads to, without the delay.\<close>

definition twoState :: "EventConfig \<Rightarrow> u32 \<Rightarrow> bool \<Rightarrow> u32" where
  "twoState cfg state alarm =
     (if state = EventStateNormal \<and> alarm \<and> EventEnable cfg AND EnableToOffNormal \<noteq> 0 then EventStateOffnormal
      else if state = EventStateOffnormal \<and> \<not> alarm \<and> EventEnable cfg AND EnableToNormal \<noteq> 0 then EventStateNormal
      else state)"

definition eventCondition :: "PointState \<Rightarrow> intrinsic \<Rightarrow> u32" where
  "eventCondition p i =
     (let cfg = i_cfg i; state = eventState p; pv = Fields (pt_present p) in
      case pt_kind p of
        kindAnalog \<Rightarrow>
          (let v = f32_num (Real pv) in
           if state = EventStateNormal then
             if num_less (f32_num (HighLimit cfg)) v \<and> LimitEnable cfg AND LimitEnableHigh \<noteq> 0 \<and> EventEnable cfg AND EnableToOffNormal \<noteq> 0
             then EventStateHighLimit
             else if num_less v (f32_num (LowLimit cfg)) \<and> LimitEnable cfg AND LimitEnableLow \<noteq> 0 \<and> EventEnable cfg AND EnableToOffNormal \<noteq> 0
             then EventStateLowLimit
             else state
           else if state = EventStateHighLimit then
             if LimitEnable cfg AND LimitEnableHigh = 0
                \<or> (num_less v (f32_sum (f32_num (HighLimit cfg)) (map_option uminus (f32_num (Deadband cfg)))) \<and> EventEnable cfg AND EnableToNormal \<noteq> 0)
             then EventStateNormal else state
           else if state = EventStateLowLimit then
             if LimitEnable cfg AND LimitEnableLow = 0
                \<or> (num_less (f32_sum (f32_num (LowLimit cfg)) (f32_num (Deadband cfg))) v \<and> EventEnable cfg AND EnableToNormal \<noteq> 0)
             then EventStateNormal else state
           else state)
      | kindBinary \<Rightarrow> twoState cfg state (Enumerated pv = AlarmValue cfg)
      | kindMultiState \<Rightarrow> twoState cfg state (hasState (AlarmValues cfg) (Unsigned pv)))"

section \<open>Notifications\<close>

text \<open>The alternatives of \<^verbatim>\<open>service.NotificationParameters\<close> that a point fills in.\<close>

datatype NotificationParameters =
    NotificationOutOfRange (ExceedingValue: u32) (or_StatusFlags: BitString) (or_Deadband: u32) (ExceededLimit: u32)
  | NotificationChangeOfState (cs_Choice: u8) (NewState: ApplicationValue) (cs_StatusFlags: BitString)
  | NotificationRaw (raw_Choice: u32) (RawElements: "Element list")

record EventTransition =
  e_Object :: ObjectIdentifier
  e_NotificationClass :: u32
  e_EventType :: u32
  e_NotifyType :: u32
  e_From :: u32
  e_To :: u32
  e_Transition :: nat
  e_TimeStamp :: "int option"
  e_Params :: "NotificationParameters option"

text \<open>\<^verbatim>\<open>el, _, _ := ParseTag(raw, ...)\<close> after an encoder whose error is dropped too.\<close>

definition reparsed :: "bytes result \<Rightarrow> Element" where
  "reparsed r =
     (case ParseTag (case r of Inr raw \<Rightarrow> raw | Inl _ \<Rightarrow> []) DefaultDecodeLimits of
        Inr (el, _) \<Rightarrow> el | Inl _ \<Rightarrow> El False 0 False False zeroValue)"

definition eventParams :: "PointState \<Rightarrow> u32 \<Rightarrow> u32 \<Rightarrow> NotificationParameters" where
  "eventParams p et exceeded =
     (let flags = av_BitString (Fields (pt_statusFlags p)); pv = pt_present p in
      if et = EventTypeOutOfRange then NotificationOutOfRange (Real (Fields pv)) flags (Deadband (cfgOf p)) exceeded
      else if et = EventTypeChangeOfState then NotificationChangeOfState (if pt_kind p = kindMultiState then 11 else 1) pv flags
      else NotificationRaw EventTypeChangeOfReliability
        [reparsed (AppendContextUnsigned [] 0 (ucast (currentReliability p))), reparsed (AppendContextBitString [] 1 flags),
         El True 2 False False (ConstructedValue [reparsed (AppendContextUnsigned [] 0 (ucast PropertyPresentValue)),
           El True 2 False False (ConstructedValue [appElement pv])])])"

section \<open>Operations\<close>

definition limitOf :: "EventConfig \<Rightarrow> u32 \<Rightarrow> u32" where
  "limitOf cfg state =
     (if state = EventStateHighLimit then HighLimit cfg else if state = EventStateLowLimit then LowLimit cfg else 0)"

text \<open>
  The branch of \<^verbatim>\<open>EvaluateEvents\<close> that finds the next state: \<open>to\<close> and the pending condition. A delay of at most
  \<open>2 ^ 32\<close> seconds is a \<^verbatim>\<open>time.Duration\<close>; the difference to the zero time saturates above it.
\<close>

definition nextState :: "int \<Rightarrow> PointState \<Rightarrow> intrinsic \<Rightarrow> u32 \<times> intrinsic" where
  "nextState now p i =
     (let from0 = eventState p in
      if currentReliability p \<noteq> ReliabilityNoFaultDetected then (EventStateFault, i\<lparr>i_pending := EventStateFault\<rparr>)
      else if from0 = EventStateFault then (EventStateNormal, i\<lparr>i_pending := EventStateNormal\<rparr>)
      else let nxt = eventCondition p i in
        if nxt = from0 then (from0, i\<lparr>i_pending := from0\<rparr>)
        else let i = (if nxt \<noteq> i_pending i then i\<lparr>i_pending := nxt, since := Some now\<rparr> else i) in
          (if (case since i of None \<Rightarrow> True | Some t \<Rightarrow> now - t \<ge> int (unat (TimeDelay (i_cfg i))) * 1000000000) then nxt else from0, i))"

definition EvaluateEvents :: "int \<Rightarrow> (u32 \<Rightarrow> nat \<Rightarrow> bool) option \<Rightarrow> Point \<Rightarrow> EventTransition list \<times> PropertyIdentifier list \<times> Point" where
  "EvaluateEvents now0 ackRequired b =
     (let now = now0 - now0 mod 10000000; p = own b in
      case pt_intrinsic p of None \<Rightarrow> ([], [], b)
      | Some i \<Rightarrow>
        if \<not> i_enabled i then ([], [], b)
        else let from0 = eventState p; rel = currentReliability p; (to0, i) = nextState now p i in
          if to0 = from0 \<and> (to0 \<noteq> EventStateFault \<or> rel = lastFault i) then ([], [], b\<lparr>own := p\<lparr>pt_intrinsic := Some i\<rparr>\<rparr>)
          else
            let exceeded = (if to0 = EventStateNormal then limitOf (i_cfg i) from0 else limitOf (i_cfg i) to0);
                tr = transitionOf to0;
                i = i\<lparr>stamps := (stamps i)[tr := Some now], lastFault := (if to0 = EventStateFault then rel else lastFault i)\<rparr>;
                p = p\<lparr>eventState := to0, pt_intrinsic := Some i\<rparr>;
                et = (if to0 = EventStateNormal \<and> from0 = EventStateFault then EventTypeChangeOfReliability else eventType p to0);
                ev = \<lparr>e_Object = b_id b, e_NotificationClass = NotificationClass (i_cfg i), e_EventType = et,
                      e_NotifyType = NotifyType (i_cfg i), e_From = from0, e_To = to0, e_Transition = tr, e_TimeStamp = Some now,
                      e_Params = Some (eventParams p et exceeded)\<rparr>;
                needed = (case ackRequired of None \<Rightarrow> False | Some f \<Rightarrow> f (NotificationClass (i_cfg i)) tr);
                i = (if needed then i\<lparr>acked := acked i AND NOT (push_bit tr 1)\<rparr> else i) in
            ([ev], [PropertyEventState, PropertyStatusFlags, PropertyEventTimeStamps, PropertyAckedTransitions],
             b\<lparr>own := p\<lparr>pt_intrinsic := Some i\<rparr>\<rparr>))"

record EventInfo =
  ei_Object :: ObjectIdentifier
  ei_EventType :: u32
  ei_EventState :: u32
  ei_Acked :: u8
  ei_TimeStamps :: "int option list"
  ei_NotifyType :: u32
  ei_EventEnable :: u8
  ei_NotificationClass :: u32

definition EventInfoOf :: "Point \<Rightarrow> EventInfo option" where
  "EventInfoOf b = map_option (\<lambda>i.
     \<lparr>ei_Object = b_id b, ei_EventType = eventType (own b) EventStateNormal, ei_EventState = eventState (own b), ei_Acked = acked i,
      ei_TimeStamps = stamps i, ei_NotifyType = NotifyType (i_cfg i), ei_EventEnable = EventEnable (i_cfg i),
      ei_NotificationClass = NotificationClass (i_cfg i)\<rparr>) (pt_intrinsic (own b))"

datatype TimeStamp = TimeStampTime Time | TimeStampSequence u32 | TimeStampDateTime DateTime

text \<open>An unset stamp is before every instant a BACnet date can name.\<close>

definition AcknowledgeAlarm :: "u32 \<Rightarrow> TimeStamp \<Rightarrow> Point \<Rightarrow> (EventTransition \<times> Point) result" where
  "AcknowledgeAlarm state stamp b =
     (case pt_intrinsic (own b) of None \<Rightarrow> Inl ErrNoAlarmConfigured
      | Some i \<Rightarrow>
        if state > EventStateLowLimit then Inl ErrInvalidEventState
        else
          let tr = transitionOf state;
              ev = \<lparr>e_Object = b_id b, e_NotificationClass = NotificationClass (i_cfg i), e_EventType = eventType (own b) state,
                    e_NotifyType = NotifyAckNotification, e_From = eventState (own b), e_To = state, e_Transition = tr,
                    e_TimeStamp = stamps i ! tr, e_Params = None\<rparr> in
          if acked i AND push_bit tr 1 = 0 then
            (case stamp of
               TimeStampDateTime dt \<Rightarrow>
                 if (case stamps i ! tr of None \<Rightarrow> False | Some t \<Rightarrow> t > dateTimeToTime dt) then Inl ErrInvalidTimeStamp
                 else Inr (ev, b\<lparr>own := (own b)\<lparr>pt_intrinsic := Some (i\<lparr>acked := acked i OR push_bit tr 1\<rparr>)\<rparr>\<rparr>)
             | _ \<Rightarrow> Inl ErrInvalidTimeStamp)
          else if state \<noteq> eventState (own b) then Inl ErrInvalidEventState
          else Inr (ev, b))"

section \<open>Runs\<close>

datatype point_op =
    OpWrite Write
  | OpSetPresentValue ApplicationValue
  | OpSetReliability u32
  | OpEvaluate int "(u32 \<Rightarrow> nat \<Rightarrow> bool) option"
  | OpAcknowledge u32 TimeStamp

fun pointStep :: "Point \<Rightarrow> point_op \<Rightarrow> Point" where
  "pointStep b (OpWrite w) = snd (snd (WriteProperty w b))"
| "pointStep b (OpSetPresentValue v) = (case SetPresentValue v b of Inr (_, b') \<Rightarrow> b' | Inl _ \<Rightarrow> b)"
| "pointStep b (OpSetReliability r) = snd (SetReliability r b)"
| "pointStep b (OpEvaluate now f) = snd (snd (EvaluateEvents now f b))"
| "pointStep b (OpAcknowledge s t) = (case AcknowledgeAlarm s t b of Inr (_, b') \<Rightarrow> b' | Inl _ \<Rightarrow> b)"

definition pointRun :: "Point \<Rightarrow> point_op list \<Rightarrow> Point" where
  "pointRun = foldl pointStep"

section \<open>The type of Present_Value\<close>

lemma EvaluateEvents_frame:
  assumes "EvaluateEvents now f b = (evs, ch, b')"
  shows "b' = b\<lparr>own := own b'\<rparr> \<and> pt_kind (own b') = pt_kind (own b) \<and> pt_states (own b') = pt_states (own b)
    \<and> pt_pa (own b') = pt_pa (own b) \<and> pt_pv (own b') = pt_pv (own b)"
  using assms by (auto simp: EvaluateEvents_def Let_def split: option.splits if_splits prod.splits)

lemma AcknowledgeAlarm_frame:
  assumes "AcknowledgeAlarm s t b = Inr (ev, b')"
  shows "b' = b\<lparr>own := own b'\<rparr> \<and> pt_kind (own b') = pt_kind (own b) \<and> pt_states (own b') = pt_states (own b)
    \<and> pt_pa (own b') = pt_pa (own b) \<and> pt_pv (own b') = pt_pv (own b)"
  using assms by (auto simp: AcknowledgeAlarm_def Let_def split: option.splits if_splits TimeStamp.splits)

lemma pointStep_inv:
  assumes "point_inv k n c b"
  shows "point_inv k n c (pointStep b op)"
proof (cases op)
  case (OpWrite w)
  obtain e ch b' where "WriteProperty w b = (e, ch, b')" by (metis prod_cases3)
  with WriteProperty_inv [OF this assms] show ?thesis by (simp add: OpWrite)
next
  case (OpSetPresentValue v)
  with assms SetPresentValue_inv [of v b] show ?thesis by (auto split: sum.split)
next
  case (OpSetReliability r)
  with SetReliability_inv [OF assms] show ?thesis by simp
next
  case (OpEvaluate now f)
  obtain evs ch b' where "EvaluateEvents now f b = (evs, ch, b')" by (metis prod_cases3)
  with EvaluateEvents_frame [OF this] point_inv_frame [OF assms, of "own b'"] show ?thesis by (simp add: OpEvaluate)
next
  case (OpAcknowledge s t)
  show ?thesis
  proof (cases "AcknowledgeAlarm s t b")
    case (Inr x)
    obtain ev b' where x: "x = (ev, b')" by force
    with Inr AcknowledgeAlarm_frame [of s t b ev b'] point_inv_frame [OF assms, of "own b'"] show ?thesis
      by (simp add: OpAcknowledge)
  qed (use assms in \<open>simp add: OpAcknowledge\<close>)
qed

lemma pointRun_inv: "point_inv k n c b \<Longrightarrow> point_inv k n c (pointRun b ops)"
  unfolding pointRun_def by (induction ops arbitrary: b) (simp_all add: pointStep_inv)

text \<open>C18. A point constructed with a finite value keeps its Present_Value in its family whatever is done to it: after any sequence
  of property writes, application updates, event evaluations and acknowledgments, a read of Present_Value succeeds
  and returns a finite REAL, an ENUMERATED 0 or 1, or an Unsigned within the configured number of states.\<close>

theorem present_value_typed:
  assumes "newPoint t k inp c cfg = Some b" "k = kindAnalog \<Longrightarrow> f32_exp (cfg_Value cfg) < 255"
  shows "\<exists>v. readLocked (pointRun b ops) \<lparr>Identifier = PropertyPresentValue, ArrayIndex = None\<rparr> = Inr v
    \<and> valueOf k (configuredStates k cfg) v"
proof -
  have "point_inv k (configuredStates k cfg) c (pointRun b ops)"
    using newPoint_inv(1) [OF assms] by (rule pointRun_inv)
  then show ?thesis using read_PresentValue typed_present by (auto simp: point_inv_def)
qed

definition sampleStates :: PointConfig where
  "sampleStates = \<lparr>cfg_Instance = 1, cfg_Name = [0x6D], cfg_Description = [], cfg_Units = 0, cfg_Value = 0, cfg_COVIncrement = 0,
     Active = False, Polarity = 0, ActiveText = [], InactiveText = [], NumberOfStates = 3, cfg_State = 0, StateText = None, cfg_Events = None\<rparr>"

theorem present_value_typed_witness:
  "\<exists>b v. newPoint 13 kindMultiState True False sampleStates = Some b
    \<and> readLocked (pointRun b [OpSetPresentValue (UnsignedValue 9), OpSetPresentValue (UnsignedValue 2)])
         \<lparr>Identifier = PropertyPresentValue, ArrayIndex = None\<rparr> = Inr v \<and> valueOf kindMultiState 3 v"
proof -
  have "newPoint 13 kindMultiState True False sampleStates \<noteq> None" "configuredStates kindMultiState sampleStates = 3"
    by code_simp+
  then show ?thesis using present_value_typed [of 13 kindMultiState True False sampleStates] by auto
qed

section \<open>Commandable points against the specification\<close>

text \<open>The commands a sequence of operations gives, and the defaults it sets: those of the family that are well addressed.\<close>

fun commandOf :: "pointKind \<Rightarrow> u32 \<Rightarrow> point_op \<Rightarrow> (ApplicationValue \<times> u8) list" where
  "commandOf k n (OpWrite w) =
     (if w_Property w = \<lparr>Identifier = PropertyPresentValue, ArrayIndex = None\<rparr> \<and> (Kind (w_Value w) = ValueNull \<or> valueOf k n (w_Value w))
      then [(w_Value w, w_Priority w)] else [])"
| "commandOf k n _ = []"

fun defaultOf :: "pointKind \<Rightarrow> u32 \<Rightarrow> point_op \<Rightarrow> ApplicationValue list" where
  "defaultOf k n (OpWrite w) =
     (if w_Property w = \<lparr>Identifier = PropertyRelinquishDefault, ArrayIndex = None\<rparr> \<and> valueOf k n (w_Value w) then [w_Value w] else [])"
| "defaultOf k n (OpSetPresentValue v) = (if valueOf k n v then [v] else [])"
| "defaultOf k n _ = []"

definition commands :: "pointKind \<Rightarrow> u32 \<Rightarrow> point_op list \<Rightarrow> (ApplicationValue \<times> u8) list" where
  "commands k n ops = concat (map (commandOf k n) ops)"

definition defaultAfter :: "pointKind \<Rightarrow> u32 \<Rightarrow> ApplicationValue \<Rightarrow> point_op list \<Rightarrow> ApplicationValue" where
  "defaultAfter k n rd ops = last (rd # concat (map (defaultOf k n) ops))"

text \<open>The array a specification state stands for.\<close>

definition arrayOf :: "(ApplicationValue \<times> u8) list \<Rightarrow> ApplicationValue \<Rightarrow> priorityArray" where
  "arrayOf ws rd = foldl command (newPriorityArray rd) ws"

lemma command_relinquish: "command (pa\<lparr>relinquish := v\<rparr>) c = (command pa c)\<lparr>relinquish := v\<rparr>"
  by (simp add: command_def pa_write_eq)

lemma arrayOf_relinquish [simp]: "(arrayOf ws rd)\<lparr>relinquish := v\<rparr> = arrayOf ws v"
proof (induction ws rule: rev_induct)
  case Nil
  then show ?case by (simp add: arrayOf_def newPriorityArray_def)
next
  case (snoc w ws)
  then show ?case by (simp add: arrayOf_def flip: command_relinquish)
qed

lemma arrayOf_snoc: "arrayOf (ws @ [w]) rd = command (arrayOf ws rd) w"
  by (simp add: arrayOf_def)

lemma writePresentValue_simulates:
  assumes "point_inv k n True b" "Identifier (w_Property w) = PropertyPresentValue"
  shows "pt_getPA (own (pointStep b (OpWrite w))) = foldl command (pt_getPA (own b)) (commandOf k n (OpWrite w))"
proof -
  let ?set = "setPresentValue pt_getPA pt_setPA checkValue [PropertyPresentValue] w (own b)"
  have wl: "writeLocked w b = rmap (\<lambda>(ch, st). (ch, b\<lparr>own := st\<rparr>)) ?set"
    using assms by (simp add: point_inv_def valueEntries_def commandEntries_def writeLocked_def)
  have ck: "checkValue (own b) v = Inr () \<longleftrightarrow> valueOf k n v" for v
    using assms(1) by (auto simp: point_inv_def typed_def checkValue_iff)
  have get: "pt_getPA (pt_setPA pa p) = pa" for pa p by (simp add: pt_getPA_def pt_setPA_def)
  have addr: "w_Property w = \<lparr>Identifier = PropertyPresentValue, ArrayIndex = None\<rparr> \<longleftrightarrow> ArrayIndex (w_Property w) = None"
    using assms(2) by (cases "w_Property w") simp
  show ?thesis
  proof (cases "commandOf k n (OpWrite w) = []")
    case True
    then have "\<exists>e. ?set = Inl e"
      using ck [of "w_Value w"] by (cases "checkValue (own b) (w_Value w)") (auto simp: addr setPresentValue_def split: if_splits)
    then show ?thesis using True wl by (auto simp: WriteProperty_def)
  next
    case False
    then have c: "commandOf k n (OpWrite w) = [(w_Value w, w_Priority w)]" "ArrayIndex (w_Property w) = None"
      "Kind (w_Value w) \<noteq> ValueNull \<Longrightarrow> checkValue (own b) (w_Value w) = Inr ()"
      using ck [of "w_Value w"] by (auto simp: addr split: if_splits)
    then show ?thesis
      using wl by (cases "pa_write (w_Value w) (w_Priority w) (pt_getPA (own b))")
        (auto simp: setPresentValue_def WriteProperty_def command_def get)
  qed
qed

lemma writeDefault_simulates:
  assumes "point_inv k n True b" "Identifier (w_Property w) = PropertyRelinquishDefault"
  shows "pt_getPA (own (pointStep b (OpWrite w)))
    = (pt_getPA (own b))\<lparr>relinquish := last (relinquish (pt_getPA (own b)) # defaultOf k n (OpWrite w))\<rparr>"
proof -
  let ?set = "setRelinquishDefault pt_getPA pt_setPA checkValue [PropertyPresentValue] w (own b)"
  have wl: "writeLocked w b = rmap (\<lambda>(ch, st). (ch, b\<lparr>own := st\<rparr>)) ?set"
    using assms by (simp add: point_inv_def valueEntries_def commandEntries_def writeLocked_def)
  have ck: "checkValue (own b) v = Inr () \<longleftrightarrow> valueOf k n v" for v
    using assms(1) by (auto simp: point_inv_def typed_def checkValue_iff)
  have addr: "w_Property w = \<lparr>Identifier = PropertyRelinquishDefault, ArrayIndex = None\<rparr> \<longleftrightarrow> ArrayIndex (w_Property w) = None"
    using assms(2) by (cases "w_Property w") simp
  show ?thesis
    using wl ck [of "w_Value w"] by (cases "checkValue (own b) (w_Value w)")
      (auto simp: addr setRelinquishDefault_def WriteProperty_def Let_def pt_getPA_def pt_setPA_def)
qed

text \<open>Each operation of a commandable point is a step of the specification: at most one command and one default.\<close>

lemma pointStep_simulates:
  assumes "point_inv k n True b" "pt_getPA (own b) = arrayOf ws rd"
  shows "pt_getPA (own (pointStep b op)) = arrayOf (ws @ commandOf k n op) (last (rd # defaultOf k n op))"
proof (cases op)
  case (OpWrite w)
  let ?i = "Identifier (w_Property w)"
  have rd: "relinquish (arrayOf ws rd) = rd" using command_slots [of rd ws] by (simp add: arrayOf_def)
  consider "?i = PropertyPresentValue" | "?i = PropertyRelinquishDefault" | "?i \<noteq> PropertyPresentValue" "?i \<noteq> PropertyRelinquishDefault" by blast
  then show ?thesis
  proof cases
    case 1
    then have "w_Property w \<noteq> \<lparr>Identifier = PropertyRelinquishDefault, ArrayIndex = None\<rparr>" by auto
    with writePresentValue_simulates [OF assms(1) 1] assms(2) show ?thesis by (simp add: OpWrite arrayOf_def del: pointStep.simps)
  next
    case 2
    then have "w_Property w \<noteq> \<lparr>Identifier = PropertyPresentValue, ArrayIndex = None\<rparr>" by auto
    with writeDefault_simulates [OF assms(1) 2] assms(2) show ?thesis by (simp add: OpWrite rd del: pointStep.simps)
  next
    case 3
    then have "w_Property w \<noteq> \<lparr>Identifier = PropertyRelinquishDefault, ArrayIndex = None\<rparr>"
      "w_Property w \<noteq> \<lparr>Identifier = PropertyPresentValue, ArrayIndex = None\<rparr>" by auto
    moreover have "pt_getPA (own (pointStep b op)) = pt_getPA (own b)"
      using writeLocked_inv [of w b _ _ k n True] assms(1) 3
      by (auto simp: OpWrite WriteProperty_def kept_def pt_getPA_def split: sum.split)
    ultimately show ?thesis using assms(2) by (simp add: OpWrite)
  qed
next
  case (OpSetPresentValue v)
  have ck: "checkValue (own b) v = Inr () \<longleftrightarrow> valueOf k n v"
    using assms(1) by (auto simp: point_inv_def typed_def checkValue_iff)
  show ?thesis
  proof (cases "SetPresentValue v b")
    case (Inl e)
    then have "\<not> valueOf k n v" using ck by (auto simp: SetPresentValue_def Let_def)
    with Inl assms(2) show ?thesis by (simp add: OpSetPresentValue)
  next
    case (Inr x)
    obtain ch b' where x: "x = (ch, b')" by force
    have "valueOf k n v" using Inr ck by (auto simp: SetPresentValue_def Let_def result_simps)
    moreover have "pt_getPA (own b') = (pt_getPA (own b))\<lparr>relinquish := v\<rparr>"
      using SetPresentValue_inv Inr x assms(1) by blast
    ultimately show ?thesis using Inr x assms(2) by (simp add: OpSetPresentValue)
  qed
next
  case (OpSetReliability r)
  then show ?thesis using assms(2) by (simp add: SetReliability_def pt_getPA_def)
next
  case (OpEvaluate now f)
  obtain evs ch b' where "EvaluateEvents now f b = (evs, ch, b')" by (metis prod_cases3)
  with EvaluateEvents_frame [OF this] assms(2) show ?thesis by (simp add: OpEvaluate pt_getPA_def)
next
  case (OpAcknowledge s t)
  then show ?thesis
    using AcknowledgeAlarm_frame [of s t b] assms(2) by (auto simp: pt_getPA_def split: sum.split)
qed

lemma pointRun_simulates:
  assumes "point_inv k n True b" "pt_getPA (own b) = arrayOf ws rd"
  shows "pt_getPA (own (pointRun b ops)) = arrayOf (ws @ commands k n ops) (defaultAfter k n rd ops)"
  using assms
proof (induction ops arbitrary: b ws rd)
  case Nil
  then show ?case by (simp add: pointRun_def commands_def defaultAfter_def)
next
  case (Cons op ops)
  have l: "last (last (r # xs) # ys) = last (r # xs @ ys)" for r :: ApplicationValue and xs ys
    by (cases ys) simp_all
  from Cons.IH [OF pointStep_inv [OF Cons.prems(1)] pointStep_simulates [OF Cons.prems]] show ?case
    by (simp only: pointRun_def commands_def defaultAfter_def foldl.simps list.map concat.simps append_assoc l)
qed

lemma read_commandEntries:
  assumes "point_inv k n True b"
  shows "readLocked b \<lparr>Identifier = PropertyPresentValue, ArrayIndex = None\<rparr> = Inr (pa_present (pt_getPA (own b)))"
    and "readLocked b \<lparr>Identifier = PropertyRelinquishDefault, ArrayIndex = None\<rparr> = Inr (relinquish (pt_getPA (own b)))"
    and "readLocked b \<lparr>Identifier = PropertyCurrentCommandPriority, ArrayIndex = None\<rparr> = Inr (currentPriority (pt_getPA (own b)))"
    and "readLocked b \<lparr>Identifier = PropertyPriorityArray, ArrayIndex = Some i\<rparr> = arrayItem (pa_value (pt_getPA (own b))) i"
  using assms by (simp_all add: point_inv_def valueEntries_def commandEntries_def readLocked_def getValue_def)

lemma arrayItem_pa_value:
  assumes "length (slots pa) = 16" "1 \<le> p" "p \<le> 16"
  shows "arrayItem (pa_value pa) (word_of_nat p) = Inr (case slots pa ! (p - 1) of None \<Rightarrow> NullValue | Some v \<Rightarrow> v)"
proof -
  let ?v = "pa_value pa"
  have v: "Kind ?v = ValueConstructed" "length (Elements ?v) = 16" "list_all (\<lambda>el. \<not> Context el) (Elements ?v)"
    "p - 1 < 16 \<Longrightarrow> Value (Elements ?v ! (p - 1)) = (case slots pa ! (p - 1) of None \<Rightarrow> NullValue | Some v \<Rightarrow> v)"
    using assms(1) by (simp_all add: pa_value_def ConstructedValue_def appElement_def list_all_iff)
  have "p - 1 + 1 = p" "p - 1 < 16" using assms(2,3) by auto
  then show ?thesis using arrayItem_items(2) [OF v(1) _ v(3), of "p - 1"] v(2,4) by simp
qed

text \<open>C8. A commandable point implements command prioritisation: whatever is done to it, Present_Value reads as the value of the
  accepted command in force, the last one given at the lowest-numbered priority that has not been relinquished, and as
  the last default set when there is none; Priority_Array reads at each priority as the last accepted command given at
  it, Current_Command_Priority as the number of the one in force, Relinquish_Default as the last default.\<close>

theorem commandable_point_refines:
  assumes "newPoint t k inp True cfg = Some b0" "k = kindAnalog \<Longrightarrow> f32_exp (cfg_Value cfg) < 255" "initialValue k cfg = Some rd0"
  shows "let n = configuredStates k cfg; b = pointRun b0 ops; ws = commands k n ops; rd = defaultAfter k n rd0 ops in
      readLocked b \<lparr>Identifier = PropertyPresentValue, ArrayIndex = None\<rparr>
           = Inr (case commandInForce ws of None \<Rightarrow> rd | Some p \<Rightarrow> the (commandAt ws p))
    \<and> readLocked b \<lparr>Identifier = PropertyRelinquishDefault, ArrayIndex = None\<rparr> = Inr rd
    \<and> readLocked b \<lparr>Identifier = PropertyCurrentCommandPriority, ArrayIndex = None\<rparr>
           = Inr (case commandInForce ws of None \<Rightarrow> NullValue | Some p \<Rightarrow> UnsignedValue (word_of_nat p))
    \<and> (1 \<le> p \<and> p \<le> 16 \<longrightarrow> readLocked b \<lparr>Identifier = PropertyPriorityArray, ArrayIndex = Some (word_of_nat p)\<rparr>
           = Inr (case commandAt ws p of None \<Rightarrow> NullValue | Some v \<Rightarrow> v))"
proof -
  define n where "n = configuredStates k cfg"
  define b where "b = pointRun b0 ops"
  define ws where "ws = commands k n ops"
  define rd where "rd = defaultAfter k n rd0 ops"
  have i0: "point_inv k n True b0" "pt_getPA (own b0) = arrayOf [] rd0"
    using newPoint_inv [OF assms(1,2)] assms(3) by (auto simp: n_def arrayOf_def)
  have i: "point_inv k n True b" using i0(1) by (simp add: b_def pointRun_inv)
  have pa: "pt_getPA (own b) = foldl command (newPriorityArray rd) ws"
    using pointRun_simulates [OF i0, of ops] by (simp add: b_def ws_def rd_def arrayOf_def)
  have act: "pa_active (pt_getPA (own b)) = map_option word_of_nat (commandInForce ws)"
    by (simp add: pa priority_array_commands)
  have "commandInForce ws = Some q \<Longrightarrow> ucast (word_of_nat q :: u8) = (word_of_nat q :: u64)" for q
    by (auto simp: commandInForce_def find_Some_iff word_unat_eq_iff unat_ucast unat_of_nat)
  then have "currentPriority (pt_getPA (own b)) = (case commandInForce ws of None \<Rightarrow> NullValue | Some p \<Rightarrow> UnsignedValue (word_of_nat p))"
    unfolding currentPriority_def act
    by (auto split: option.split)
  moreover have "length (slots (pt_getPA (own b))) = 16" "relinquish (pt_getPA (own b)) = rd"
    using command_slots [of rd ws] by (simp_all add: pa)
  moreover have "1 \<le> p \<Longrightarrow> p \<le> 16 \<Longrightarrow> slots (pt_getPA (own b)) ! (p - 1) = commandAt ws p"
    unfolding pa by (rule priority_array_commands(1))
  moreover have "pa_present (pt_getPA (own b)) = (case commandInForce ws of None \<Rightarrow> rd | Some p \<Rightarrow> the (commandAt ws p))"
    by (simp add: pa priority_array_commands(2))
  ultimately show ?thesis
    unfolding Let_def n_def [symmetric] b_def [symmetric] ws_def [symmetric] rd_def [symmetric]
    by (simp add: read_commandEntries [OF i] arrayItem_pa_value)
qed

text \<open>An analog output, commanded at priorities 8 and 5, the latter released again.\<close>

definition samplePoint :: PointConfig where
  "samplePoint = \<lparr>cfg_Instance = 7, cfg_Name = [0x70], cfg_Description = [], cfg_Units = 62, cfg_Value = 0x41A00000, cfg_COVIncrement = 0,
     Active = True, Polarity = 0, ActiveText = [], InactiveText = [], NumberOfStates = 0, cfg_State = 0, StateText = None, cfg_Events = None\<rparr>"

definition presentWrite :: "ApplicationValue \<Rightarrow> u8 \<Rightarrow> point_op" where
  "presentWrite v q = OpWrite \<lparr>w_Property = \<lparr>Identifier = PropertyPresentValue, ArrayIndex = None\<rparr>, w_Value = v, w_Priority = q\<rparr>"

theorem commandable_point_refines_witness:
  "\<exists>b. newPoint 1 kindAnalog False True samplePoint = Some b
    \<and> readLocked (pointRun b [presentWrite (RealValue 0x3F800000) 8, presentWrite (RealValue 0x40000000) 5, presentWrite NullValue 5])
        \<lparr>Identifier = PropertyPresentValue, ArrayIndex = None\<rparr> = Inr (RealValue 0x3F800000)"
proof -
  let ?ops = "[presentWrite (RealValue 0x3F800000) 8, presentWrite (RealValue 0x40000000) 5, presentWrite NullValue 5]"
  have n: "newPoint 1 kindAnalog False True samplePoint \<noteq> None" "f32_exp (cfg_Value samplePoint) < 255"
    "initialValue kindAnalog samplePoint = Some (RealValue 0x41A00000)"
    by code_simp+
  then obtain b where b: "newPoint 1 kindAnalog False True samplePoint = Some b" by blast
  have "commandInForce (commands kindAnalog (configuredStates kindAnalog samplePoint) ?ops) = Some 8"
    "commandAt (commands kindAnalog (configuredStates kindAnalog samplePoint) ?ops) 8 = Some (RealValue 0x3F800000)"
    by code_simp+
  then show ?thesis using b commandable_point_refines [OF b n(2,3), of ?ops 1] by (simp add: Let_def)
qed

section \<open>The time delay\<close>


















end
