(* ===== verification/Object_Device.thy ===== *)
theory Object_Device
  imports Point "HOL-Library.Signed_Division"
begin

text \<open>
  The Device object and the table of the objects it holds (\<^verbatim>\<open>server/object/device.go\<close>). The table is part of the
  object's own state, so that Object_List, Database_Revision and the supported types are getters over it, as in the
  source. The entry the Device has for itself is \<open>OwnEntry\<close>; every other object embeds a \<^verbatim>\<open>Base\<close>, so \<^verbatim>\<open>baseOf\<close> does
  not fail. The changes dispatched to the observers are part of what an operation returns. Factories are the
  application's and a parameter. The searches of \<^verbatim>\<open>Create\<close> for a free instance and a free name have no bound in the
  source; here they are partial functions, and \<open>Create_returns\<close> shows that they end.
  Main results: identifiers and names stay unique and the name index agrees with the objects; Database_Revision moves
  exactly with the naming of the objects; \<^verbatim>\<open>Create\<close> returns, and takes the lowest free instance.
\<close>

section \<open>Names of object types\<close>

definition ascii :: "string \<Rightarrow> bytes" where
  "ascii s = map (\<lambda>c. word_of_nat (of_char c)) s"

definition objectTypeNames :: "(ObjectType \<times> string) list" where
  "objectTypeNames =
    [(0, ''analog-input''), (1, ''analog-output''), (2, ''analog-value''), (3, ''binary-input''), (4, ''binary-output''),
     (5, ''binary-value''), (6, ''calendar''), (7, ''command''), (8, ''device''), (9, ''event-enrollment''), (10, ''file''),
     (11, ''group''), (13, ''multi-state-input''), (14, ''multi-state-output''), (15, ''notification-class''), (17, ''schedule''),
     (19, ''multi-state-value''), (20, ''trend-log''), (21, ''life-safety-point''), (22, ''life-safety-zone''),
     (23, ''accumulator''), (24, ''pulse-converter''), (27, ''trend-log-multiple''), (30, ''access-door''), (33, ''access-point''),
     (56, ''network-port''), (61, ''audit-log''), (29, ''structured-view''), (40, ''characterstring-value''),
     (45, ''integer-value''), (48, ''positive-integer-value'')]"

text \<open>The ten octets of the source's buffer hold every \<^verbatim>\<open>uint32\<close>.\<close>

function itoa_loop :: "u32 \<Rightarrow> bytes \<Rightarrow> bytes" where
  "itoa_loop u b = (if u > 0 then itoa_loop (u div 10) (ucast (0x30 + u mod 10) # b) else b)"
  by pat_completeness auto

termination
  by (relation "measure (\<lambda>(u, _). unat u)") (auto simp: unat_div word_less_nat_alt)

declare itoa_loop.simps [simp del]

definition itoa :: "u32 \<Rightarrow> bytes" where
  "itoa u = (if u = 0 then [0x30] else itoa_loop u [])"

definition ObjectType_String :: "ObjectType \<Rightarrow> bytes" where
  "ObjectType_String t = (case map_of objectTypeNames t of
      Some s \<Rightarrow> ascii s
    | None \<Rightarrow> ascii ''ObjectType('' @ itoa (ucast t) @ ascii '')'')"

section \<open>State\<close>

abbreviation (input) "ErrUnknownObject \<equiv> Err 1 31"
abbreviation (input) "ErrDuplicateName \<equiv> Err 2 48"
abbreviation (input) "ErrObjectExists \<equiv> Err 1 24"
abbreviation (input) "ErrNotDeletable \<equiv> Err 1 23"
abbreviation (input) "ErrNotCreatable \<equiv> Err 1 4"
abbreviation (input) "ErrUnsupportedType \<equiv> Err 1 36"
abbreviation (input) "ErrNoSpaceForObject \<equiv> Err 3 18"

text \<open>An error of an object operation is one of \<^verbatim>\<open>errorf\<close>, which is no BACnet error, or a BACnet error.\<close>

datatype object_error = Formatted | Bacnet bacnet_error

definition AsError :: "object_error \<Rightarrow> u16 \<times> u16" where
  "AsError err = (case err of Bacnet (ErrorResponse _ _ class code) \<Rightarrow> (class, code) | _ \<Rightarrow> (0, 25))"

record Change =
  ch_Object :: ObjectIdentifier
  ch_Properties :: "PropertyIdentifier list"

record DeviceConfig =
  dc_Instance :: u32
  dc_Name :: bytes
  VendorID :: u16
  VendorName :: bytes
  ModelName :: bytes
  FirmwareRevision :: bytes
  ApplicationSoftwareVersion :: bytes
  dc_Description :: bytes
  Location :: bytes
  SerialNumber :: bytes
  ProtocolRevision :: u32
  MaxObjects :: int

text \<open>What the server answers for the properties of the protocol engine, at the time of the call. Durations are in nanoseconds.\<close>

record Runtime =
  rt_ServicesSupported :: "int list"
  rt_MaxAPDULengthAccepted :: u16
  rt_Segmentation :: u32
  rt_MaxSegmentsAccepted :: u32
  rt_APDUTimeout :: int
  rt_APDUSegmentTimeout :: int
  rt_APDURetries :: int
  rt_ActiveCOVSubscriptions :: "Element list"
  rt_Now :: int

datatype 'st entry = OwnEntry | Entry "'st Base"

record 'st DeviceState =
  dv_cfg :: DeviceConfig
  dv_objects :: "(ObjectIdentifier \<times> 'st entry) list"
  dv_names :: "(bytes \<times> ObjectIdentifier) list"
  dv_revision :: u32
  dv_factories :: "(ObjectType \<times> (u32 \<Rightarrow> bytes \<Rightarrow> object_error + 'st Base)) list"
  dv_status :: u32
  dv_rt :: "Runtime option"
  dv_wall :: int \<comment> \<open>\<^verbatim>\<open>time.Now()\<close>\<close>

type_synonym 'st Device = "'st DeviceState Base"

section \<open>Properties of the Device\<close>

definition runtimeOr :: "(Runtime \<Rightarrow> 'a) \<Rightarrow> 'a \<Rightarrow> 'st DeviceState \<Rightarrow> 'a" where
  "runtimeOr fn def d = (case dv_rt d of Some r \<Rightarrow> fn r | None \<Rightarrow> def)"

definition dev_now :: "'st DeviceState \<Rightarrow> int" where
  "dev_now d = (case dv_rt d of Some r \<Rightarrow> rt_Now r | None \<Rightarrow> dv_wall d)"

definition dev_servicesSupported :: "'st DeviceState \<Rightarrow> ApplicationValue" where
  "dev_servicesSupported d =
     (let st = (case dv_rt d of Some r \<Rightarrow> rt_ServicesSupported r | None \<Rightarrow> []) in
      bitString 50 (\<lambda>i. int i \<in> set st))"

definition objectTypesSupported :: "'st DeviceState \<Rightarrow> ApplicationValue" where
  "objectTypesSupported d =
     (let st = map (\<lambda>(i, _). unat (oType i)) (dv_objects d) @ map (\<lambda>(t, _). unat t) (dv_factories d) in
      bitString 65 (\<lambda>i. i \<in> set st))"

text \<open>The identifier of the Device is fixed by its configuration.\<close>

definition deviceId :: "DeviceConfig \<Rightarrow> ObjectIdentifier" where
  "deviceId cfg = \<lparr>oType = ObjectTypeDevice, Instance = dc_Instance cfg\<rparr>"

text \<open>The order by type and then by instance.\<close>

definition idKey :: "ObjectIdentifier \<Rightarrow> nat" where
  "idKey i = unat (oType i) * 2 ^ 32 + unat (Instance i)"

definition ObjectIdentifiers :: "'st DeviceState \<Rightarrow> ObjectIdentifier list" where
  "ObjectIdentifiers d =
     (let own_id = deviceId (dv_cfg d) in
      own_id # sort_key idKey (filter (\<lambda>i. i \<noteq> own_id) (map fst (dv_objects d))))"

definition objectList :: "'st DeviceState \<Rightarrow> ApplicationValue" where
  "objectList d = ConstructedValue (map (\<lambda>i. appElement (ObjectIDValue i)) (ObjectIdentifiers d))"

definition Milliseconds :: "int \<Rightarrow> u64" where
  "Milliseconds t = word_of_int (t sdiv 1000000)"

definition deviceProperties :: "DeviceConfig \<Rightarrow> (PropertyIdentifier \<times> 'st DeviceState Property) list" where
  "deviceProperties cfg =
     (let str = (\<lambda>s. stored (charString s) False [] False True) in
      [(112, computed (GetBy (\<lambda>d. EnumValue (dv_status d))) False True),
       (121, str (VendorName cfg)),
       (120, stored (UnsignedValue (ucast (VendorID cfg))) False [] False True),
       (70, str (ModelName cfg)),
       (44, str (FirmwareRevision cfg)),
       (12, str (ApplicationSoftwareVersion cfg))]
      @ (if Location cfg \<noteq> [] then [(58, stored (charString (Location cfg)) True [ValueCharacterString] False False)] else [])
      @ (if dc_Description cfg \<noteq> [] then [(28, stored (charString (dc_Description cfg)) True [ValueCharacterString] False False)] else [])
      @ (if SerialNumber cfg \<noteq> [] then [(372, stored (charString (SerialNumber cfg)) False [] False False)] else [])
      @ [(98, stored (UnsignedValue 1) False [] False True),
         (139, stored (UnsignedValue (ucast (ProtocolRevision cfg))) False [] False True),
         (97, computed (GetBy dev_servicesSupported) False True),
         (96, computed (GetBy objectTypesSupported) False True),
         (76, computed (GetBy objectList) True True),
         (62, computed (GetBy (\<lambda>d. UnsignedValue (ucast (runtimeOr rt_MaxAPDULengthAccepted 1476 d)))) False True),
         (107, computed (GetBy (\<lambda>d. EnumValue (runtimeOr rt_Segmentation 3 d))) False True),
         (167, computed (GetBy (\<lambda>d. UnsignedValue (ucast (runtimeOr rt_MaxSegmentsAccepted 0 d)))) False False),
         (10, computed (GetBy (\<lambda>d. UnsignedValue (Milliseconds (runtimeOr rt_APDUSegmentTimeout 2000000000 d)))) False False),
         (11, computed (GetBy (\<lambda>d. UnsignedValue (Milliseconds (runtimeOr rt_APDUTimeout 3000000000 d)))) False True),
         (73, computed (GetBy (\<lambda>d. UnsignedValue (word_of_int (runtimeOr rt_APDURetries 3 d)))) False True),
         (30, stored (ConstructedValue []) False [] False True),
         (155, computed (GetBy (\<lambda>d. UnsignedValue (ucast (dv_revision d)))) False True),
         (56, computed (GetBy (\<lambda>d. DateValue (dateOf (dev_now d)))) False False),
         (57, computed (GetBy (\<lambda>d. TimeValue (timeOf (dev_now d)))) False False),
         (152, computed (GetBy (\<lambda>d. ConstructedValue (runtimeOr rt_ActiveCOVSubscriptions [] d))) False False)])"

definition defineProperties :: "'st Device \<Rightarrow> 'st Device" where
  "defineProperties d = foldl (\<lambda>d (i, p). Define i p d) d (deviceProperties (dv_cfg (own d)))"

definition deviceDefaults :: "DeviceConfig \<Rightarrow> DeviceConfig" where
  "deviceDefaults cfg = cfg\<lparr>ProtocolRevision := (if ProtocolRevision cfg = 0 then 31 else ProtocolRevision cfg),
     MaxObjects := (if MaxObjects cfg \<le> 0 then 65535 else MaxObjects cfg)\<rparr>"

definition NewDevice :: "DeviceConfig \<Rightarrow> int \<Rightarrow> object_error + 'st Device" where
  "NewDevice cfg wall =
     (if dc_Instance cfg \<ge> MaxObjectInstance then Inl Formatted
      else if dc_Name cfg = [] then Inl Formatted
      else
        let cfg = deviceDefaults cfg; i = deviceId cfg in
        Inr (defineProperties (NewBase i (dc_Name cfg)
          \<lparr>dv_cfg = cfg, dv_objects = [(i, OwnEntry)], dv_names = [(dc_Name cfg, i)], dv_revision = 0, dv_factories = [],
           dv_status = 0, dv_rt = None, dv_wall = wall\<rparr>)))"

section \<open>The table\<close>

definition updOwn :: "('st \<Rightarrow> 'st) \<Rightarrow> 'st Base \<Rightarrow> 'st Base" where
  "updOwn f b = b\<lparr>own := f (own b)\<rparr>"

definition Bind :: "Runtime option \<Rightarrow> 'st Device \<Rightarrow> 'st Device" where
  "Bind rt d = updOwn (\<lambda>t. t\<lparr>dv_rt := rt\<rparr>) d"

definition SetSystemStatus :: "u32 \<Rightarrow> 'st Device \<Rightarrow> 'st Device" where
  "SetSystemStatus s d = updOwn (\<lambda>t. t\<lparr>dv_status := s\<rparr>) d"

definition RegisterFactory :: "ObjectType \<Rightarrow> (u32 \<Rightarrow> bytes \<Rightarrow> object_error + 'st Base) \<Rightarrow> 'st Device \<Rightarrow> 'st Device" where
  "RegisterFactory t f d = updOwn (\<lambda>s. s\<lparr>dv_factories := AList.update t f (dv_factories s)\<rparr>) d"

definition entryName :: "'st Device \<Rightarrow> 'st entry \<Rightarrow> bytes" where
  "entryName d e = (case e of OwnEntry \<Rightarrow> b_name d | Entry b \<Rightarrow> b_name b)"

definition entryId :: "'st Device \<Rightarrow> 'st entry \<Rightarrow> ObjectIdentifier" where
  "entryId d e = (case e of OwnEntry \<Rightarrow> b_id d | Entry b \<Rightarrow> b_id b)"

definition Device_Add :: "'st Base \<Rightarrow> 'st Device \<Rightarrow> object_error option \<times> Change list \<times> 'st Device" where
  "Device_Add ob d =
     (let t = own d in
      if oType (b_id ob) = ObjectTypeDevice then (Some Formatted, [], d)
      else if b_name ob = [] then (Some Formatted, [], d)
      else if map_of (dv_objects t) (b_id ob) \<noteq> None then (Some (Bacnet ErrObjectExists), [], d)
      else if map_of (dv_names t) (b_name ob) \<noteq> None then (Some (Bacnet ErrDuplicateName), [], d)
      else if int (length (dv_objects t)) \<ge> MaxObjects (dv_cfg t) then (Some (Bacnet ErrNoSpaceForObject), [], d)
      else (None, [\<lparr>ch_Object = b_id d, ch_Properties = [76, 155]\<rparr>],
        updOwn (\<lambda>t. t\<lparr>dv_objects := AList.update (b_id ob) (Entry ob) (dv_objects t),
                      dv_names := AList.update (b_name ob) (b_id ob) (dv_names t),
                      dv_revision := dv_revision t + 1\<rparr>) d))"

definition Remove :: "ObjectIdentifier \<Rightarrow> 'st Device \<Rightarrow> object_error option \<times> Change list \<times> 'st Device" where
  "Remove i d =
     (if i = b_id d then (Some (Bacnet ErrNotDeletable), [], d)
      else case map_of (dv_objects (own d)) i of
          None \<Rightarrow> (Some (Bacnet ErrUnknownObject), [], d)
        | Some e \<Rightarrow> (None, [\<lparr>ch_Object = b_id d, ch_Properties = [76, 155]\<rparr>],
            updOwn (\<lambda>t. t\<lparr>dv_objects := AList.delete i (dv_objects t), dv_names := AList.delete (entryName d e) (dv_names t),
                          dv_revision := dv_revision t + 1\<rparr>) d))"

definition setName :: "ObjectIdentifier \<Rightarrow> 'st entry \<Rightarrow> bytes \<Rightarrow> 'st Device \<Rightarrow> 'st Device" where
  "setName i e name d = (case e of
      OwnEntry \<Rightarrow> d\<lparr>b_name := name\<rparr>
    | Entry b \<Rightarrow> updOwn (\<lambda>t. t\<lparr>dv_objects := AList.update i (Entry (b\<lparr>b_name := name\<rparr>)) (dv_objects t)\<rparr>) d)"

definition Rename :: "ObjectIdentifier \<Rightarrow> bytes \<Rightarrow> 'st Device \<Rightarrow> object_error option \<times> Change list \<times> 'st Device" where
  "Rename i name d =
     (if name = [] then (Some (Bacnet ErrValueOutOfRange), [], d)
      else case map_of (dv_objects (own d)) i of
          None \<Rightarrow> (Some (Bacnet ErrUnknownObject), [], d)
        | Some e \<Rightarrow>
            (case map_of (dv_names (own d)) name of
               Some other \<Rightarrow> (if other = i then None else Some (Bacnet ErrDuplicateName), [], d)
             | None \<Rightarrow> (None, [\<lparr>ch_Object = i, ch_Properties = [PropertyObjectName]\<rparr>],
                 updOwn (\<lambda>t. t\<lparr>dv_names := AList.update name i (AList.delete (entryName d e) (dv_names t)),
                               dv_revision := dv_revision t + 1\<rparr>) (setName i e name d))))"

definition Object :: "ObjectIdentifier \<Rightarrow> 'st Device \<Rightarrow> 'st entry option" where
  "Object i d =
     (if oType i = ObjectTypeDevice \<and> Instance i = WildcardInstance then Some OwnEntry
      else map_of (dv_objects (own d)) i)"

text \<open>The inner option is the object the table may lack, Go's \<^verbatim>\<open>nil\<close>.\<close>

definition ObjectByName :: "bytes \<Rightarrow> 'st Device \<Rightarrow> 'st entry option option" where
  "ObjectByName name d = map_option (\<lambda>i. map_of (dv_objects (own d)) i) (map_of (dv_names (own d)) name)"

definition hasType :: "ObjectType \<Rightarrow> 'st Device \<Rightarrow> bool" where
  "hasType t d \<longleftrightarrow> list_ex (\<lambda>(i, _). oType i = t) (dv_objects (own d))"

partial_function (option) freeInstance :: "(ObjectIdentifier \<times> 'e) list \<Rightarrow> ObjectType \<Rightarrow> u32 \<Rightarrow> u32 option" where
  [code]: "freeInstance objects t inst =
     (if map_of objects \<lparr>oType = t, Instance = inst\<rparr> = None then Some inst else freeInstance objects t (inst + 1))"

partial_function (option) freeName :: "(bytes \<times> 'e) list \<Rightarrow> bytes \<Rightarrow> u64 \<Rightarrow> bytes \<Rightarrow> bytes option" where
  [code]: "freeName names stem i name =
     (if map_of names name = None then Some name
      else freeName names stem (i + 1) (stem @ ascii ''-'' @ itoa (ucast i)))"

definition chooseInstance :: "ObjectType \<Rightarrow> u32 option \<Rightarrow> 'st Device \<Rightarrow> (object_error + u32) option" where
  "chooseInstance t instance d = (case instance of
      Some inst \<Rightarrow>
        Some (if inst \<ge> MaxObjectInstance then Inl (Bacnet ErrValueOutOfRange)
              else if Object \<lparr>oType = t, Instance = inst\<rparr> d \<noteq> None then Inl (Bacnet ErrObjectExists)
              else Inr inst)
    | None \<Rightarrow> map_option Inr (freeInstance (dv_objects (own d)) t 0))"

definition chooseName :: "ObjectType \<Rightarrow> u32 \<Rightarrow> bytes \<Rightarrow> 'st Device \<Rightarrow> bytes option" where
  "chooseName t inst name d =
     (if name = [] then
        let stem = ObjectType_String t @ ascii ''-'' @ itoa inst in freeName (dv_names (own d)) stem 1 stem
      else Some name)"

definition addCreated :: "object_error + 'st Base \<Rightarrow> 'st Device \<Rightarrow> (object_error + 'st Base) \<times> Change list \<times> 'st Device" where
  "addCreated made d = (case made of
      Inl e \<Rightarrow> (Inl e, [], d)
    | Inr ob \<Rightarrow> let ob = ob\<lparr>deletable := True\<rparr> in
        (case Device_Add ob d of
           (Some e, ch, d') \<Rightarrow> (Inl e, ch, d')
         | (None, ch, d') \<Rightarrow> (Inr ob, ch, d')))"

text \<open>\<^verbatim>\<open>Create\<close>: no value when a search does not end, otherwise the error or the object, the changes and the device.\<close>

definition Create :: "ObjectType \<Rightarrow> u32 option \<Rightarrow> bytes \<Rightarrow> 'st Device \<Rightarrow> ((object_error + 'st Base) \<times> Change list \<times> 'st Device) option" where
  "Create t instance name d =
     (case map_of (dv_factories (own d)) t of
        None \<Rightarrow> Some (Inl (Bacnet (if t \<noteq> ObjectTypeDevice \<and> hasType t d then ErrNotCreatable else ErrUnsupportedType)), [], d)
      | Some f \<Rightarrow>
          Option.bind (chooseInstance t instance d) (\<lambda>chosen. case chosen of
              Inl e \<Rightarrow> Some (Inl e, [], d)
            | Inr inst \<Rightarrow> map_option (\<lambda>name. addCreated (f inst name) d) (chooseName t inst name d)))"

definition Device_WriteProperty :: "Write \<Rightarrow> 'st Device \<Rightarrow> bacnet_error option \<times> PropertyIdentifier list \<times> 'st Device" where
  "Device_WriteProperty w d =
     (if Identifier (w_Property w) = PropertyObjectName then (Some ErrWriteAccessDenied, [], d) else WriteProperty w d)"

text \<open>The methods of \<^verbatim>\<open>Object\<close> on an entry of the table; a write changes the table or the Device itself.\<close>

definition entryRead :: "'st Device \<Rightarrow> 'st entry \<Rightarrow> PropertyReference \<Rightarrow> ApplicationValue result" where
  "entryRead d e ref = (case e of OwnEntry \<Rightarrow> readLocked d ref | Entry b \<Rightarrow> readLocked b ref)"

definition entryProperties :: "'st Device \<Rightarrow> 'st entry \<Rightarrow> PropertyIdentifier list \<times> PropertyIdentifier list" where
  "entryProperties d e = (case e of OwnEntry \<Rightarrow> Properties d | Entry b \<Rightarrow> Properties b)"

definition entryWrite :: "Write \<Rightarrow> 'st entry \<Rightarrow> 'st Device \<Rightarrow> bacnet_error option \<times> Change list \<times> 'st Device" where
  "entryWrite w e d = (case e of
      OwnEntry \<Rightarrow> (case Device_WriteProperty w d of (err, ps, d') \<Rightarrow> (err, [], d'))
    | Entry b \<Rightarrow> (case WriteProperty w b of (err, ps, b') \<Rightarrow>
        (err, if ps = [] then [] else [\<lparr>ch_Object = b_id b, ch_Properties = ps\<rparr>],
         updOwn (\<lambda>t. t\<lparr>dv_objects := AList.update (b_id b) (Entry b') (dv_objects t)\<rparr>) d)))"

section \<open>Runs\<close>

text \<open>What the application and the server do to a device; \<open>OpUpdate\<close> is an application update of an object's fields.\<close>

datatype 'st dev_op =
    OpAdd "'st Base" | OpRemove ObjectIdentifier | OpRename ObjectIdentifier bytes
  | OpCreate ObjectType "u32 option" bytes
  | OpRegister ObjectType "u32 \<Rightarrow> bytes \<Rightarrow> object_error + 'st Base"
  | OpWriteObject ObjectIdentifier Write | OpUpdate ObjectIdentifier "'st \<Rightarrow> 'st"
  | OpStatus u32 | OpBind "Runtime option"

fun devStep :: "'st Device \<Rightarrow> 'st dev_op \<Rightarrow> 'st Device" where
  "devStep d (OpAdd ob) = snd (snd (Device_Add ob d))"
| "devStep d (OpRemove i) = snd (snd (Remove i d))"
| "devStep d (OpRename i n) = snd (snd (Rename i n d))"
| "devStep d (OpCreate t i n) = (case Create t i n d of Some r \<Rightarrow> snd (snd r) | None \<Rightarrow> d)"
| "devStep d (OpRegister t f) = RegisterFactory t f d"
| "devStep d (OpWriteObject i w) = (case Object i d of Some e \<Rightarrow> snd (snd (entryWrite w e d)) | None \<Rightarrow> d)"
| "devStep d (OpUpdate i f) = (case map_of (dv_objects (own d)) i of
      Some (Entry b) \<Rightarrow> updOwn (\<lambda>t. t\<lparr>dv_objects := AList.update i (Entry (updOwn f b)) (dv_objects t)\<rparr>) d
    | _ \<Rightarrow> d)"
| "devStep d (OpStatus s) = SetSystemStatus s d"
| "devStep d (OpBind rt) = Bind rt d"

definition devRun :: "'st Device \<Rightarrow> 'st dev_op list \<Rightarrow> 'st Device" where
  "devRun d ops = foldl devStep d ops"

section \<open>The directory\<close>

text \<open>What the table means: the name of each object. The name index is its inverse.\<close>

definition directory :: "'st Device \<Rightarrow> ObjectIdentifier \<Rightarrow> bytes option" where
  "directory d i = map_option (entryName d) (map_of (dv_objects (own d)) i)"

definition indexed :: "('n \<Rightarrow> 'i option) \<Rightarrow> ('i \<Rightarrow> 'n option) \<Rightarrow> bool" where
  "indexed N D \<longleftrightarrow> (\<forall>n i. N n = Some i \<longleftrightarrow> D i = Some n)"

lemma indexed_iff: "indexed N D \<Longrightarrow> D i = Some n \<longleftrightarrow> N n = Some i"
  by (simp add: indexed_def)

lemma indexed_ran: "indexed N D \<Longrightarrow> n \<in> ran D \<longleftrightarrow> N n \<noteq> None"
  by (auto simp: ran_def indexed_iff)

lemma indexed_insert:
  assumes "indexed N D" "N n = None" "D i = None" shows "indexed (N(n \<mapsto> i)) (D(i \<mapsto> n))"
  using assms(2,3) indexed_iff [OF assms(1), of i] unfolding indexed_def by (auto simp: indexed_iff [OF assms(1)])

lemma indexed_delete:
  assumes "indexed N D" "D i = Some n" shows "indexed (N(n := None)) (D(i := None))"
proof -
  have n: "N m = Some i \<longleftrightarrow> m = n" "D j = Some n \<longleftrightarrow> j = i" for m j
    using assms(2) indexed_iff [OF assms(1)] by (metis option.inject)+
  show ?thesis using n assms(1) by (simp add: indexed_def)
qed

lemma indexed_rename:
  assumes "indexed N D" "D i = Some n" "N m = None"
  shows "indexed ((N(n := None))(m \<mapsto> i)) (D(i \<mapsto> m))"
  using indexed_insert [OF indexed_delete [OF assms(1,2)], of m i] assms(3) by simp

section \<open>The invariant of the table\<close>

definition ids_ok :: "'st Device \<Rightarrow> bool" where
  "ids_ok d \<longleftrightarrow> map_of (dv_objects (own d)) (b_id d) = Some OwnEntry
    \<and> (\<forall>i e. map_of (dv_objects (own d)) i = Some e \<longrightarrow> entryId d e = i)"

definition dev_inv :: "'st Device \<Rightarrow> bool" where
  "dev_inv d \<longleftrightarrow> b_id d = deviceId (dv_cfg (own d)) \<and> dc_Instance (dv_cfg (own d)) < MaxObjectInstance
   \<and> distinct (map fst (dv_objects (own d))) \<and> distinct (map fst (dv_names (own d)))
   \<and> ids_ok d \<and> indexed (map_of (dv_names (own d))) (directory d) \<and> [] \<notin> ran (directory d)
   \<and> int (length (dv_objects (own d))) \<le> MaxObjects (dv_cfg (own d))"

text \<open>The Device's own table: no setter, and the two properties that read the object table.\<close>

definition dev_props :: "'st Device \<Rightarrow> bool" where
  "dev_props d \<longleftrightarrow> table_keeps (\<lambda>_. (=)) d
   \<and> map_of (props d) 76 = Some (computed (GetBy objectList) True True)
   \<and> map_of (props d) 155 = Some (computed (GetBy (\<lambda>d. UnsignedValue (ucast (dv_revision d)))) False True)"

lemma updOwn_sel [simp]: "own (updOwn f b) = f (own b)" "b_id (updOwn f b) = b_id b" "b_name (updOwn f b) = b_name b"
  "props (updOwn f b) = props b" "table_keeps R (updOwn f b) = table_keeps R b"
  by (simp_all add: updOwn_def)

lemma entry_updOwn [simp]: "entryName (updOwn f d) = entryName d" "entryId (updOwn f d) = entryId d"
  by (auto simp: entryName_def entryId_def fun_eq_iff split: entry.split)

lemma entry_simps [simp]: "entryName d (Entry b) = b_name b" "entryId d (Entry b) = b_id b"
  "entryName d OwnEntry = b_name d" "entryId d OwnEntry = b_id d"
  by (simp_all add: entryName_def entryId_def)

lemma length_AList_update: "length (AList.update k v xs) = (if map_of xs k = None then Suc (length xs) else length xs)"
  by (induction xs) auto

lemma length_AList_delete: "length (AList.delete k xs) \<le> length xs"
  by (simp add: AList.delete_eq)

text \<open>A change of the table that replaces one entry by another of the same identifier.\<close>

lemma dev_inv_step:
  assumes "dev_inv d" "own d' = (own d)\<lparr>dv_objects := objects, dv_names := names, dv_revision := rv\<rparr>" "b_id d' = b_id d"
    "distinct (map fst objects)" "distinct (map fst names)"
    "ids_ok d'" "indexed (map_of names) (directory d')" "[] \<notin> ran (directory d')"
    "int (length objects) \<le> MaxObjects (dv_cfg (own d))"
  shows "dev_inv d'"
  using assms unfolding dev_inv_def by simp

text \<open>A refused operation changes nothing.\<close>

lemma refused:
  "fst (Device_Add ob d) \<noteq> None \<Longrightarrow> snd (snd (Device_Add ob d)) = d"
  "fst (Remove i d) \<noteq> None \<Longrightarrow> snd (snd (Remove i d)) = d"
  "\<not> (fst (Rename i n d) = None \<and> map_of (dv_names (own d)) n = None) \<Longrightarrow> snd (snd (Rename i n d)) = d"
  by (auto simp: Device_Add_def Remove_def Rename_def Let_def split: option.splits if_splits)

lemma directory_Add:
  assumes "fst (Device_Add ob d) = None"
  shows "directory (snd (snd (Device_Add ob d))) = (directory d)(b_id ob \<mapsto> b_name ob)"
  using assms by (auto simp: Device_Add_def Let_def directory_def update_conv' fun_eq_iff split: if_splits)

lemma directory_Remove:
  assumes "fst (Remove i d) = None"
  shows "directory (snd (snd (Remove i d))) = (directory d)(i := None)"
  using assms by (auto simp: Remove_def directory_def delete_conv' fun_eq_iff split: if_splits option.splits)

lemma own_setName [simp]: "own (setName i e n d) = (own d)\<lparr>dv_objects :=
    (case e of OwnEntry \<Rightarrow> dv_objects (own d) | Entry b \<Rightarrow> AList.update i (Entry (b\<lparr>b_name := n\<rparr>)) (dv_objects (own d)))\<rparr>"
  "b_id (setName i e n d) = b_id d" "props (setName i e n d) = props d" "table_keeps R (setName i e n d) = table_keeps R d"
  by (simp_all add: setName_def table_keeps_def split: entry.split)

lemma entryId_setName [simp]: "entryId (setName i e n d) e' = entryId d e'"
  by (simp add: entryId_def split: entry.split)

lemma own_entry_unique: "ids_ok d \<Longrightarrow> map_of (dv_objects (own d)) i = Some OwnEntry \<longleftrightarrow> i = b_id d"
  unfolding ids_ok_def by (metis entry_simps(4))

lemma directory_setName:
  assumes "ids_ok d" "map_of (dv_objects (own d)) i = Some e"
  shows "directory (setName i e n d) = (directory d)(i \<mapsto> n)"
proof (cases e)
  case OwnEntry
  then have i: "i = b_id d" using assms own_entry_unique by blast
  have nm: "entryName (d\<lparr>b_name := n\<rparr>) e' = (if e' = OwnEntry then n else entryName d e')" for e' by (cases e') simp_all
  have u: "map_of (dv_objects (own d)) j = Some OwnEntry \<longleftrightarrow> j = i" for j using own_entry_unique [OF assms(1)] i by simp
  show ?thesis
  proof
    fix j
    show "directory (setName i e n d) j = ((directory d)(i \<mapsto> n)) j"
      using u [of j] by (cases "map_of (dv_objects (own d)) j") (auto simp: OwnEntry setName_def directory_def nm)
  qed
next
  case (Entry b)
  then show ?thesis by (auto simp: setName_def directory_def update_conv' fun_eq_iff)
qed

lemma distinct_AList [simp]:
  "distinct (map fst xs) \<Longrightarrow> distinct (map fst (AList.update k v xs))"
  "distinct (map fst xs) \<Longrightarrow> distinct (map fst (AList.delete k xs))"
  by (simp_all add: distinct_update distinct_delete)

lemma ran_upd [simp]: "x \<notin> ran m \<Longrightarrow> y \<noteq> x \<Longrightarrow> x \<notin> ran (m(i \<mapsto> y))" "x \<notin> ran m \<Longrightarrow> x \<notin> ran (m(i := None))"
  by (auto simp: ran_def)

lemma ids_ok_step:
  assumes "ids_ok d" "b_id d' = b_id d" "map_of (dv_objects (own d')) (b_id d) = Some OwnEntry"
    "\<And>j e. map_of (dv_objects (own d')) j = Some e \<Longrightarrow> map_of (dv_objects (own d)) j = Some e \<or> entryId d e = j"
  shows "ids_ok d'"
proof -
  have "entryId d' e = entryId d e" for e using assms(2) by (simp add: entryId_def split: entry.split)
  then show ?thesis using assms unfolding ids_ok_def by metis
qed

lemma ids_okD: "ids_ok d \<Longrightarrow> map_of (dv_objects (own d)) (b_id d) = Some OwnEntry"
  by (simp add: ids_ok_def)

lemma dev_invD: "dev_inv d \<Longrightarrow> ids_ok d" "dev_inv d \<Longrightarrow> indexed (map_of (dv_names (own d))) (directory d)" "dev_inv d \<Longrightarrow> [] \<notin> ran (directory d)"
  by (simp_all add: dev_inv_def)

lemma dev_inv_Add:
  assumes "dev_inv d" shows "dev_inv (snd (snd (Device_Add ob d)))"
proof (cases "fst (Device_Add ob d) = None")
  case True
  then have g: "b_name ob \<noteq> []" "map_of (dv_objects (own d)) (b_id ob) = None" "map_of (dv_names (own d)) (b_name ob) = None"
    "int (length (dv_objects (own d))) < MaxObjects (dv_cfg (own d))"
    "snd (snd (Device_Add ob d)) = updOwn (\<lambda>t. t\<lparr>dv_objects := AList.update (b_id ob) (Entry ob) (dv_objects t),
                      dv_names := AList.update (b_name ob) (b_id ob) (dv_names t), dv_revision := dv_revision t + 1\<rparr>) d"
    by (auto simp: Device_Add_def Let_def split: if_splits)
  show ?thesis
  proof (rule dev_inv_step [OF assms])
    show "own (snd (snd (Device_Add ob d))) = (own d)\<lparr>dv_objects := AList.update (b_id ob) (Entry ob) (dv_objects (own d)),
        dv_names := AList.update (b_name ob) (b_id ob) (dv_names (own d)), dv_revision := dv_revision (own d) + 1\<rparr>"
      by (simp add: g(5))
    show "ids_ok (snd (snd (Device_Add ob d)))"
      using g(2) ids_okD [OF dev_invD(1) [OF assms]] unfolding g(5)
      by (intro ids_ok_step [OF dev_invD(1) [OF assms]]) (auto simp: update_conv' simp del: map_of_eq_Some_iff split: if_splits)
    show "indexed (map_of (AList.update (b_name ob) (b_id ob) (dv_names (own d)))) (directory (snd (snd (Device_Add ob d))))"
      using g(2,3) unfolding directory_Add [OF True] update_conv'
      by (intro indexed_insert [OF dev_invD(2) [OF assms]]) (simp_all add: directory_def)
    show "[] \<notin> ran (directory (snd (snd (Device_Add ob d))))"
      using dev_invD(3) [OF assms] g(1) unfolding directory_Add [OF True] by simp
  qed (use assms g(2,4) in \<open>simp_all add: dev_inv_def length_AList_update g(5)\<close>)
next
  case False
  then show ?thesis using assms by (simp only: refused(1) [OF False])
qed

lemma dev_inv_Remove:
  assumes "dev_inv d" shows "dev_inv (snd (snd (Remove i d)))"
proof (cases "fst (Remove i d) = None")
  case True
  then obtain e where g: "i \<noteq> b_id d" "map_of (dv_objects (own d)) i = Some e"
    "snd (snd (Remove i d)) = updOwn (\<lambda>t. t\<lparr>dv_objects := AList.delete i (dv_objects t),
        dv_names := AList.delete (entryName d e) (dv_names t), dv_revision := dv_revision t + 1\<rparr>) d"
    by (auto simp: Remove_def split: if_splits option.splits)
  show ?thesis
  proof (rule dev_inv_step [OF assms])
    show "own (snd (snd (Remove i d))) = (own d)\<lparr>dv_objects := AList.delete i (dv_objects (own d)),
        dv_names := AList.delete (entryName d e) (dv_names (own d)), dv_revision := dv_revision (own d) + 1\<rparr>"
      by (simp add: g(3))
    show "ids_ok (snd (snd (Remove i d)))"
      using g(1) ids_okD [OF dev_invD(1) [OF assms]] unfolding g(3)
      by (intro ids_ok_step [OF dev_invD(1) [OF assms]]) (auto simp: delete_conv' simp del: map_of_eq_Some_iff split: if_splits)
    show "indexed (map_of (AList.delete (entryName d e) (dv_names (own d)))) (directory (snd (snd (Remove i d))))"
      using g(2) unfolding directory_Remove [OF True] delete_conv'
      by (intro indexed_delete [OF dev_invD(2) [OF assms]]) (simp_all add: directory_def del: map_of_eq_Some_iff)
    show "[] \<notin> ran (directory (snd (snd (Remove i d))))"
      using dev_invD(3) [OF assms] unfolding directory_Remove [OF True] by simp
    show "int (length (AList.delete i (dv_objects (own d)))) \<le> MaxObjects (dv_cfg (own d))"
      using assms length_AList_delete [of i "dv_objects (own d)"] unfolding dev_inv_def by linarith
  qed (use assms in \<open>simp_all add: dev_inv_def g(3)\<close>)
next
  case False
  then show ?thesis using assms by (simp only: refused(2) [OF False])
qed

lemma directory_Rename:
  assumes "ids_ok d" "fst (Rename i n d) = None"
  shows "directory (snd (snd (Rename i n d)))
    = (if map_of (dv_names (own d)) n = None then (directory d)(i \<mapsto> n) else directory d)"
proof -
  obtain e where e: "map_of (dv_objects (own d)) i = Some e"
    using assms(2) by (auto simp: Rename_def split: if_splits option.splits)
  have u: "directory (updOwn (\<lambda>t. t\<lparr>dv_names := ns t, dv_revision := rv t\<rparr>) d') = directory d'" for ns rv and d' :: "'a Device"
    by (simp add: directory_def fun_eq_iff)
  show ?thesis using assms e directory_setName [OF assms(1) e] by (auto simp: Rename_def u split: if_splits option.splits)
qed

lemma dev_inv_Rename:
  assumes "dev_inv d" shows "dev_inv (snd (snd (Rename i n d)))"
proof (cases "fst (Rename i n d) = None \<and> map_of (dv_names (own d)) n = None")
  case True
  then obtain e where g: "n \<noteq> []" "map_of (dv_objects (own d)) i = Some e" "map_of (dv_names (own d)) n = None"
    "snd (snd (Rename i n d)) = updOwn (\<lambda>t. t\<lparr>dv_names := AList.update n i (AList.delete (entryName d e) (dv_names t)),
        dv_revision := dv_revision t + 1\<rparr>) (setName i e n d)"
    by (auto simp: Rename_def split: if_splits option.splits)
  have ids: "ids_ok d" using assms by (simp add: dev_inv_def)
  have dir: "directory (snd (snd (Rename i n d))) = (directory d)(i \<mapsto> n)"
    using directory_Rename [OF ids] True by simp
  let ?objects = "case e of OwnEntry \<Rightarrow> dv_objects (own d) | Entry b \<Rightarrow> AList.update i (Entry (b\<lparr>b_name := n\<rparr>)) (dv_objects (own d))"
  show ?thesis
  proof (rule dev_inv_step [OF assms])
    show "own (snd (snd (Rename i n d))) = (own d)\<lparr>dv_objects := ?objects,
        dv_names := AList.update n i (AList.delete (entryName d e) (dv_names (own d))), dv_revision := dv_revision (own d) + 1\<rparr>"
      by (simp add: g(4))
    have "entryId d e = i" using ids g(2) unfolding ids_ok_def by blast
    then show "ids_ok (snd (snd (Rename i n d)))"
      using g(2) ids_okD [OF ids] unfolding g(4)
      by (intro ids_ok_step [OF ids]; cases e) (auto simp: update_conv' simp del: map_of_eq_Some_iff split: if_splits)
    show "indexed (map_of (AList.update n i (AList.delete (entryName d e) (dv_names (own d))))) (directory (snd (snd (Rename i n d))))"
      using g(2,3) unfolding dir delete_conv' update_conv'
      by (intro indexed_rename [OF dev_invD(2) [OF assms]]) (simp_all add: directory_def del: map_of_eq_Some_iff)
    show "[] \<notin> ran (directory (snd (snd (Rename i n d))))"
      using dev_invD(3) [OF assms] g(1) unfolding dir by simp
    show "distinct (map fst ?objects)" "int (length ?objects) \<le> MaxObjects (dv_cfg (own d))"
      using assms g(2) unfolding dev_inv_def by (simp_all add: length_AList_update del: map_of_eq_Some_iff split: entry.split)
  qed (use assms in \<open>simp_all add: dev_inv_def g(4)\<close>)
next
  case False
  then show ?thesis using assms by (simp only: refused(3) [OF False])
qed

text \<open>Replacing an object by another of the same identifier and name changes neither the directory nor the invariant.\<close>

lemma replace_entry:
  assumes "dev_inv d" "map_of (dv_objects (own d)) (b_id b) = Some (Entry b)" "b_id b' = b_id b" "b_name b' = b_name b"
  defines "d' \<equiv> updOwn (\<lambda>t. t\<lparr>dv_objects := AList.update (b_id b) (Entry b') (dv_objects t)\<rparr>) d"
  shows "directory d' = directory d \<and> dev_inv d'"
proof -
  have dir: "directory d' = directory d"
    using assms(2,4) by (auto simp: d'_def directory_def update_conv' fun_eq_iff)
  have "ids_ok d'"
    using assms(2,3) ids_okD [OF dev_invD(1) [OF assms(1)]] unfolding d'_def
    by (intro ids_ok_step [OF dev_invD(1) [OF assms(1)]]) (auto simp: update_conv' simp del: map_of_eq_Some_iff split: if_splits)
  then show ?thesis using assms(1,2) dir unfolding dev_inv_def d'_def
    by (simp add: length_AList_update del: map_of_eq_Some_iff)
qed

lemma WriteProperty_frame:
  "WriteProperty w b = (err, ps, b') \<Longrightarrow> b_id b' = b_id b \<and> b_name b' = b_name b"
  using writeLocked_props by (fastforce simp: WriteProperty_def split: sum.splits)

lemma Device_WriteProperty_frame:
  assumes "Device_WriteProperty w d = (err, ps, d')" "dev_props d"
  shows "own d' = own d \<and> b_id d' = b_id d \<and> b_name d' = b_name d \<and> dev_props d'"
proof (cases "d' = d")
  case False
  then obtain ch where w: "writeLocked w d = Inr (ch, d')"
    using assms(1) by (auto simp: Device_WriteProperty_def WriteProperty_def split: if_splits sum.splits)
  have k: "table_keeps (\<lambda>_. (=)) d' \<and> own d = own d'"
    using writeLocked_keeps [OF w, of "\<lambda>_. (=)"] assms(2) by (simp add: dev_props_def)
  then show ?thesis
    using writeLocked_props [OF w] writeLocked_entry [OF w] assms(2) by (simp add: dev_props_def)
qed (use assms in simp)

lemma dev_inv_cong:
  assumes "dv_objects (own d') = dv_objects (own d)" "dv_names (own d') = dv_names (own d)" "dv_cfg (own d') = dv_cfg (own d)"
    "b_id d' = b_id d" "b_name d' = b_name d"
  shows "directory d' = directory d" "dev_inv d' = dev_inv d"
proof -
  have e: "entryName d' = entryName d" "entryId d' = entryId d"
    using assms by (auto simp: entryName_def entryId_def fun_eq_iff split: entry.split)
  show "directory d' = directory d" by (simp add: directory_def fun_eq_iff e assms)
  then show "dev_inv d' = dev_inv d" by (simp add: dev_inv_def ids_ok_def e assms)
qed

lemma entryWrite_inv:
  assumes "dev_inv d" "dev_props d" "Object i d = Some e" "entryWrite w e d = (err, ch, d')"
  shows "dev_inv d' \<and> dev_props d' \<and> directory d' = directory d \<and> dv_revision (own d') = dv_revision (own d)
    \<and> dv_cfg (own d') = dv_cfg (own d)"
proof (cases e)
  case OwnEntry
  then obtain ps where "Device_WriteProperty w d = (err, ps, d')"
    using assms(4) by (auto simp: entryWrite_def split: prod.splits)
  then show ?thesis using Device_WriteProperty_frame [OF _ assms(2)] dev_inv_cong [of d' d] assms(1) by simp
next
  case (Entry b)
  then obtain ps b' where w: "WriteProperty w b = (err, ps, b')"
    and d': "d' = updOwn (\<lambda>t. t\<lparr>dv_objects := AList.update (b_id b) (Entry b') (dv_objects t)\<rparr>) d"
    using assms(4) by (auto simp: entryWrite_def split: prod.splits)
  have "map_of (dv_objects (own d)) i = Some (Entry b)" using assms(3) Entry by (simp add: Object_def del: map_of_eq_Some_iff split: if_splits)
  moreover from this have "b_id b = i" using assms(1) unfolding dev_inv_def ids_ok_def by fastforce
  ultimately show ?thesis
    using replace_entry [OF assms(1), of b b'] WriteProperty_frame [OF w] assms(2) by (simp add: d' dev_props_def del: map_of_eq_Some_iff)
qed

lemma Add_result: "Device_Add ob d = (Some e, ch, d') \<Longrightarrow> d' = d"
  using refused(1) [of ob d] by simp

lemma addCreated_cases:
  assumes "addCreated made d = (r, ch, d')"
  shows "d' = d \<or> (\<exists>ob. r = Inr ob \<and> Device_Add ob d = (None, ch, d'))"
proof (cases made)
  case (Inr ob)
  obtain e c d1 where "Device_Add (ob\<lparr>deletable := True\<rparr>) d = (e, c, d1)" by (cases "Device_Add (ob\<lparr>deletable := True\<rparr>) d")
  then show ?thesis using assms Inr Add_result [of "ob\<lparr>deletable := True\<rparr>" d] by (cases e) (auto simp: addCreated_def Let_def)
qed (use assms in \<open>simp add: addCreated_def\<close>)

lemma Create_cases:
  assumes "Create t i n d = Some (r, ch, d')"
  shows "d' = d \<or> (\<exists>ob. r = Inr ob \<and> Device_Add ob d = (None, ch, d'))"
proof (cases "map_of (dv_factories (own d)) t")
  case (Some f)
  then obtain c where c: "chooseInstance t i d = Some c"
    "(case c of Inl e \<Rightarrow> Some (Inl e, [], d) | Inr inst \<Rightarrow> map_option (\<lambda>name. addCreated (f inst name) d) (chooseName t inst n d)) = Some (r, ch, d')"
    using assms by (auto simp: Create_def bind_eq_Some_conv)
  then show ?thesis by (cases c) (auto dest: addCreated_cases)
qed (use assms in \<open>simp add: Create_def\<close>)

lemma dev_props_table [simp]:
  "dev_props (updOwn f d) = dev_props d" "dev_props (setName i e n d) = dev_props d"
  "dev_props (snd (snd (Device_Add ob d))) = dev_props d" "dev_props (snd (snd (Remove i d))) = dev_props d"
  "dev_props (snd (snd (Rename i n d))) = dev_props d"
  by (simp_all add: dev_props_def Device_Add_def Remove_def Rename_def Let_def split: option.split)

lemma dev_step_inv:
  assumes "dev_inv d" "dev_props d"
  shows "dev_inv (devStep d op) \<and> dev_props (devStep d op)"
proof (cases op)
  case (OpCreate t i n)
  show ?thesis
  proof (cases "Create t i n d")
    case (Some r)
    obtain x ch d' where r: "r = (x, ch, d')" by (cases r)
    then show ?thesis
      using Create_cases [of t i n d x ch d'] dev_inv_Add [OF assms(1)] dev_props_table(3) assms Some OpCreate
      by (metis devStep.simps(4) option.simps(5) snd_conv)
  qed (use assms OpCreate in simp)
next
  case (OpWriteObject i w)
  show ?thesis
  proof (cases "Object i d")
    case (Some e)
    obtain err ch d' where "entryWrite w e d = (err, ch, d')" by (cases "entryWrite w e d")
    then show ?thesis using entryWrite_inv [OF assms Some] OpWriteObject Some by simp
  qed (use assms OpWriteObject in simp)
next
  case (OpUpdate i f)
  show ?thesis
  proof (cases "\<exists>b. map_of (dv_objects (own d)) i = Some (Entry b)")
    case True
    then obtain b where b: "map_of (dv_objects (own d)) i = Some (Entry b)" by blast
    then have "b_id b = i" using dev_invD(1) [OF assms(1)] unfolding ids_ok_def by fastforce
    then show ?thesis using replace_entry [OF assms(1), of b "updOwn f b"] b assms(2) OpUpdate by (simp del: map_of_eq_Some_iff)
  next
    case False
    then have "devStep d op = d" by (simp add: OpUpdate del: map_of_eq_Some_iff split: option.split entry.split)
    then show ?thesis using assms by simp
  qed
next
  case (OpRegister t f)
  then show ?thesis using assms dev_inv_cong(2) [of "devStep d op" d] by (simp add: RegisterFactory_def)
next
  case (OpStatus x)
  then show ?thesis using assms dev_inv_cong(2) [of "devStep d op" d] by (simp add: SetSystemStatus_def)
next
  case (OpBind x)
  then show ?thesis using assms dev_inv_cong(2) [of "devStep d op" d] by (simp add: Bind_def)
qed (use assms dev_inv_Add dev_inv_Remove dev_inv_Rename in simp_all)

lemma foldl_Define:
  "map_of (props (foldl (\<lambda>d (i, p). Define i p d) d ps)) = map_of (props d) ++ map_of (rev ps)"
proof (induction ps arbitrary: d)
  case (Cons x ps)
  then show ?case by (cases x) (simp add: map_add_upd_left map_add_def fun_eq_iff split: option.split)
qed simp

lemma foldl_Define_sel [simp]:
  "own (foldl (\<lambda>d (i, p). Define i p d) d ps) = own d" "b_id (foldl (\<lambda>d (i, p). Define i p d) d ps) = b_id d"
  "b_name (foldl (\<lambda>d (i, p). Define i p d) d ps) = b_name d"
  by (induction ps arbitrary: d) auto

lemma deviceProperties_setters: "p \<in> snd ` set (deviceProperties cfg) \<Longrightarrow> p_Set p = StoreValue"
  by (auto simp: deviceProperties_def Let_def split: if_splits)

lemma table_keeps_foldl:
  "(\<And>p. p \<in> snd ` set ps \<Longrightarrow> p_Set p = StoreValue) \<Longrightarrow> table_keeps R d \<Longrightarrow> table_keeps R (foldl (\<lambda>d (i, p). Define i p d) d ps)"
proof (induction ps arbitrary: d)
  case (Cons x ps)
  then have "table_keeps R (Define (fst x) (snd x) d)" by (intro table_keeps_Define) auto
  with Cons show ?case by (cases x) simp
qed simp

lemma NewDevice_inv:
  assumes "NewDevice cfg wall = Inr d"
  shows "dev_inv d \<and> dev_props d" "directory d = [deviceId cfg \<mapsto> dc_Name cfg]" "b_id d = deviceId cfg"
    "dv_cfg (own d) = deviceDefaults cfg"
proof -
  define c where "c = deviceDefaults cfg"
  define base where "base = NewBase (deviceId c) (dc_Name c) \<lparr>dv_cfg = c, dv_objects = [(deviceId c, OwnEntry :: 'a entry)],
        dv_names = [(dc_Name c, deviceId c)], dv_revision = 0, dv_factories = [], dv_status = 0, dv_rt = None, dv_wall = wall\<rparr>"
  have d: "dc_Instance cfg < MaxObjectInstance" "dc_Name cfg \<noteq> []" "d = defineProperties base"
    using assms by (auto simp: NewDevice_def Let_def base_def c_def split: if_splits)
  have c: "dc_Instance c = dc_Instance cfg" "1 \<le> MaxObjects c" "dc_Name c = dc_Name cfg" "deviceId c = deviceId cfg"
    by (simp_all add: c_def deviceDefaults_def deviceId_def)
  have ow: "own d = own base" "b_id d = deviceId c" "b_name d = dc_Name c"
    by (simp_all add: d(3) defineProperties_def base_def NewBase_def)
  have "map_of (rev (deviceProperties c)) 76 = Some (computed (GetBy objectList) True True :: 'a DeviceState Property)"
    "map_of (rev (deviceProperties c)) 155 = Some (computed (GetBy (\<lambda>d. UnsignedValue (ucast (dv_revision d)))) False True :: 'a DeviceState Property)"
    by (simp_all add: deviceProperties_def Let_def)
  moreover have "table_keeps (\<lambda>_. (=)) d" unfolding d(3) defineProperties_def base_def
    by (rule table_keeps_foldl) (simp_all add: deviceProperties_setters)
  ultimately have "dev_props d"
    unfolding dev_props_def by (simp add: d(3) defineProperties_def foldl_Define base_def)
  moreover show dir: "directory d = [deviceId cfg \<mapsto> dc_Name cfg]" by (auto simp: directory_def ow base_def fun_eq_iff c)
  moreover have "indexed (map_of (dv_names (own d))) (directory d)" by (simp add: dir ow(1) base_def indexed_def c)
  ultimately show "dev_inv d \<and> dev_props d" using c d(1,2) by (simp add: dev_inv_def ids_ok_def ow base_def)
  show "b_id d = deviceId cfg" "dv_cfg (own d) = deviceDefaults cfg" by (simp_all add: ow c) (simp add: base_def c_def)
qed

lemma table_cfg [simp]:
  "dv_cfg (own (snd (snd (Device_Add ob d)))) = dv_cfg (own d)" "dv_cfg (own (snd (snd (Remove i d)))) = dv_cfg (own d)"
  "dv_cfg (own (snd (snd (Rename i n d)))) = dv_cfg (own d)"
  by (simp_all add: Device_Add_def Remove_def Rename_def Let_def split: option.split)

lemma devStep_cfg:
  assumes "dev_inv d" "dev_props d"
  shows "dv_cfg (own (devStep d op)) = dv_cfg (own d)"
proof (cases op)
  case (OpCreate t i n)
  show ?thesis
  proof (cases "Create t i n d")
    case (Some r)
    obtain x ch d' where r: "r = (x, ch, d')" by (cases r)
    then show ?thesis using Create_cases [of t i n d x ch d'] table_cfg(1) [of _ d] Some OpCreate by (auto, metis snd_conv)
  qed (use OpCreate in simp)
next
  case (OpWriteObject i w)
  show ?thesis
  proof (cases "Object i d")
    case (Some e)
    obtain err ch d' where "entryWrite w e d = (err, ch, d')" by (cases "entryWrite w e d")
    then show ?thesis using entryWrite_inv [OF assms Some] OpWriteObject Some by simp
  qed (use OpWriteObject in simp)
qed (simp_all add: RegisterFactory_def SetSystemStatus_def Bind_def split: option.split entry.split)

lemma devRun_cfg: "dev_inv d \<and> dev_props d \<Longrightarrow> dv_cfg (own (devRun d ops)) = dv_cfg (own d)"
  unfolding devRun_def by (induction ops arbitrary: d) (simp_all add: dev_step_inv devStep_cfg)

lemma devRun_inv: "dev_inv d \<and> dev_props d \<Longrightarrow> dev_inv (devRun d ops) \<and> dev_props (devRun d ops)"
  unfolding devRun_def by (induction ops arbitrary: d) (simp_all add: dev_step_inv)

section \<open>The table implements the directory\<close>

text \<open>
  The contract, on the directory alone: what each operation answers and what it leaves. \<open>mx\<close> is the configured bound
  and \<open>dev\<close> the identifier of the Device.
\<close>

definition dirAdd :: "int \<Rightarrow> ObjectIdentifier \<Rightarrow> bytes \<Rightarrow> (ObjectIdentifier \<Rightarrow> bytes option) \<Rightarrow> object_error option \<times> (ObjectIdentifier \<Rightarrow> bytes option)" where
  "dirAdd mx i n D =
     (if oType i = ObjectTypeDevice \<or> n = [] then (Some Formatted, D)
      else if i \<in> dom D then (Some (Bacnet ErrObjectExists), D)
      else if n \<in> ran D then (Some (Bacnet ErrDuplicateName), D)
      else if int (card (dom D)) \<ge> mx then (Some (Bacnet ErrNoSpaceForObject), D)
      else (None, D(i \<mapsto> n)))"

definition dirRemove :: "ObjectIdentifier \<Rightarrow> ObjectIdentifier \<Rightarrow> (ObjectIdentifier \<Rightarrow> bytes option) \<Rightarrow> object_error option \<times> (ObjectIdentifier \<Rightarrow> bytes option)" where
  "dirRemove dev i D =
     (if i = dev then (Some (Bacnet ErrNotDeletable), D)
      else if i \<notin> dom D then (Some (Bacnet ErrUnknownObject), D)
      else (None, D(i := None)))"

definition dirRename :: "ObjectIdentifier \<Rightarrow> bytes \<Rightarrow> (ObjectIdentifier \<Rightarrow> bytes option) \<Rightarrow> object_error option \<times> (ObjectIdentifier \<Rightarrow> bytes option)" where
  "dirRename i n D =
     (if n = [] then (Some (Bacnet ErrValueOutOfRange), D)
      else if i \<notin> dom D then (Some (Bacnet ErrUnknownObject), D)
      else if D i = Some n then (None, D)
      else if n \<in> ran D then (Some (Bacnet ErrDuplicateName), D)
      else (None, D(i \<mapsto> n)))"

lemma dom_directory: "dom (directory d) = set (map fst (dv_objects (own d)))"
  by (auto simp: directory_def dom_def map_of_eq_None_iff [symmetric] simp flip: dom_map_of_conv_image_fst)

lemma directory_None: "directory d i = None \<longleftrightarrow> map_of (dv_objects (own d)) i = None"
  by (simp add: directory_def)

lemma in_dom_directory: "i \<in> dom (directory d) \<longleftrightarrow> map_of (dv_objects (own d)) i \<noteq> None"
  by (simp add: domIff directory_None)

lemma card_directory: "dev_inv d \<Longrightarrow> card (dom (directory d)) = length (dv_objects (own d))"
  unfolding dom_directory by (metis dev_inv_def distinct_card length_map)

lemma Add_refines:
  assumes "dev_inv d"
  shows "(fst (Device_Add ob d), directory (snd (snd (Device_Add ob d)))) = dirAdd (MaxObjects (dv_cfg (own d))) (b_id ob) (b_name ob) (directory d)"
proof -
  have "fst (Device_Add ob d) = fst (dirAdd (MaxObjects (dv_cfg (own d))) (b_id ob) (b_name ob) (directory d))"
    unfolding Device_Add_def dirAdd_def Let_def in_dom_directory indexed_ran [OF dev_invD(2) [OF assms]] card_directory [OF assms]
    by simp
  moreover have "directory (snd (snd (Device_Add ob d))) = (if fst (Device_Add ob d) = None then (directory d)(b_id ob \<mapsto> b_name ob) else directory d)"
    using directory_Add [of ob d] refused(1) [of ob d] by simp
  ultimately show ?thesis by (simp add: dirAdd_def)
qed

lemma Remove_refines:
  "(fst (Remove i d), directory (snd (snd (Remove i d)))) = dirRemove (b_id d) i (directory d)"
proof -
  have "fst (Remove i d) = fst (dirRemove (b_id d) i (directory d))"
    unfolding Remove_def dirRemove_def in_dom_directory by (simp split: option.split)
  moreover have "directory (snd (snd (Remove i d))) = (if fst (Remove i d) = None then (directory d)(i := None) else directory d)"
    using directory_Remove [of i d] refused(2) [of i d] by simp
  ultimately show ?thesis by (simp add: dirRemove_def)
qed

lemma Rename_refines:
  assumes "dev_inv d"
  shows "(fst (Rename i n d), directory (snd (snd (Rename i n d)))) = dirRename i n (directory d)"
proof -
  have "fst (Rename i n d) = fst (dirRename i n (directory d))"
    unfolding Rename_def dirRename_def in_dom_directory indexed_iff [OF dev_invD(2) [OF assms]] indexed_ran [OF dev_invD(2) [OF assms]]
    by (auto split: option.split)
  moreover have "directory (snd (snd (Rename i n d)))
      = (if fst (Rename i n d) = None \<and> map_of (dv_names (own d)) n = None then (directory d)(i \<mapsto> n) else directory d)"
    using directory_Rename [OF dev_invD(1) [OF assms], of i n] refused(3) [of i n d] by auto
  moreover have "map_of (dv_names (own d)) n = None \<longleftrightarrow> n \<notin> ran (directory d)"
    by (simp add: indexed_ran [OF dev_invD(2) [OF assms]])
  moreover have "directory d i = Some n \<Longrightarrow> n \<in> ran (directory d)" by (rule ranI)
  ultimately show ?thesis by (auto simp: dirRename_def)
qed

lemma OpUpdate_directory:
  assumes "dev_inv d"
  shows "directory (devStep d (OpUpdate i f)) = directory d \<and> dv_revision (own (devStep d (OpUpdate i f))) = dv_revision (own d)"
proof (cases "\<exists>b. map_of (dv_objects (own d)) i = Some (Entry b)")
  case True
  then obtain b where b: "map_of (dv_objects (own d)) i = Some (Entry b)" by blast
  then have "b_id b = i" using dev_invD(1) [OF assms(1)] unfolding ids_ok_def by fastforce
  then show ?thesis using replace_entry [OF assms(1), of b "updOwn f b"] b by (simp del: map_of_eq_Some_iff)
qed (simp del: map_of_eq_Some_iff split: option.split entry.split)

lemma OpWriteObject_directory:
  assumes "dev_inv d" "dev_props d"
  shows "directory (devStep d (OpWriteObject i w)) = directory d \<and> dv_revision (own (devStep d (OpWriteObject i w))) = dv_revision (own d)"
proof (cases "Object i d")
  case (Some e)
  obtain err ch d' where "entryWrite w e d = (err, ch, d')" by (cases "entryWrite w e d")
  then show ?thesis using entryWrite_inv [OF assms Some] Some by simp
qed simp

text \<open>C7. Whatever is done to a device, its object table implements the directory that gives each object its name: adding,
  removing and renaming an object are answered, and change it, as the contract says, reads and writes of properties and
  application updates leave it alone, and the name index finds exactly the object that has the name.\<close>

theorem device_table_refines:
  assumes "NewDevice cfg wall = Inr d0"
  shows "let d = devRun d0 ops in
      directory d0 = [deviceId cfg \<mapsto> dc_Name cfg]
    \<and> (fst (Device_Add ob d), directory (devStep d (OpAdd ob)))
        = dirAdd (MaxObjects (dv_cfg (own d))) (b_id ob) (b_name ob) (directory d)
    \<and> (fst (Remove i d), directory (devStep d (OpRemove i))) = dirRemove (b_id d) i (directory d)
    \<and> (fst (Rename i n d), directory (devStep d (OpRename i n))) = dirRename i n (directory d)
    \<and> directory (devStep d (OpWriteObject i w)) = directory d \<and> directory (devStep d (OpUpdate i f)) = directory d
    \<and> (\<forall>e. ObjectByName n d = Some e \<longleftrightarrow> e \<noteq> None \<and> (\<exists>j. directory d j = Some n \<and> map_of (dv_objects (own d)) j = e))"
proof -
  define d where "d = devRun d0 ops"
  have i: "dev_inv d" "dev_props d" using devRun_inv [OF NewDevice_inv(1) [OF assms]] by (simp_all add: d_def)
  have "ObjectByName n d = Some e \<longleftrightarrow> e \<noteq> None \<and> (\<exists>j. directory d j = Some n \<and> map_of (dv_objects (own d)) j = e)" for e
    unfolding ObjectByName_def indexed_iff [OF dev_invD(2) [OF i(1)]] map_option_eq_Some
    using directory_None [of d] indexed_iff [OF dev_invD(2) [OF i(1)]] by (metis option.distinct(1))
  then show ?thesis
    unfolding Let_def d_def [symmetric]
    using NewDevice_inv(2) [OF assms] Add_refines [OF i(1), of ob] Remove_refines [of i d] Rename_refines [OF i(1), of i n]
      OpWriteObject_directory [OF i, of i w] OpUpdate_directory [OF i(1), of i f] by simp
qed

text \<open>Two objects of one name, the first of which is held.\<close>

definition sampleDevice :: DeviceConfig where
  "sampleDevice = \<lparr>dc_Instance = 99, dc_Name = [0x64], VendorID = 7, VendorName = [], ModelName = [], FirmwareRevision = [],
     ApplicationSoftwareVersion = [], dc_Description = [], Location = [], SerialNumber = [], ProtocolRevision = 0, MaxObjects = 0\<rparr>"

definition sampleObject :: "u32 \<Rightarrow> bytes \<Rightarrow> unit Base" where
  "sampleObject inst name = NewBase \<lparr>oType = 2, Instance = inst\<rparr> name ()"

lemma sampleDevice_new: "\<exists>d. NewDevice sampleDevice 0 = Inr d"
  by (simp add: NewDevice_def sampleDevice_def MaxObjectInstance_def Let_def)

lemma NewBase_name [simp]: "b_name (NewBase i n st) = n"
  by (simp add: NewBase_def)

theorem device_table_refines_witness:
  "\<exists>d :: unit Device. NewDevice sampleDevice 0 = Inr d
    \<and> fst (Device_Add (sampleObject 2 [0x61]) (devRun d [OpAdd (sampleObject 1 [0x61])])) = Some (Bacnet ErrDuplicateName)"
proof -
  obtain d :: "unit Device" where d: "NewDevice sampleDevice 0 = Inr d" using sampleDevice_new by blast
  have c: "deviceId sampleDevice = \<lparr>oType = 8, Instance = 99\<rparr>" "dc_Name sampleDevice = [0x64]"
    "dv_cfg (own d) = deviceDefaults sampleDevice" "MaxObjects (deviceDefaults sampleDevice) = 65535"
    by (simp_all add: NewDevice_inv(4) [OF d] sampleDevice_def deviceId_def deviceDefaults_def ObjectTypeDevice_def)
  have cfg: "MaxObjects (dv_cfg (own (devRun d ops))) = 65535" for ops
    using devRun_cfg [OF NewDevice_inv(1) [OF d]] c by simp
  have step: "directory d = [deviceId sampleDevice \<mapsto> [0x64]]"
    "(fst (Device_Add ob (devRun d ops)), directory (devRun d (ops @ [OpAdd ob]))) = dirAdd 65535 (b_id ob) (b_name ob) (directory (devRun d ops))"
    for ops ob
    using device_table_refines [OF d, of ops ob undefined "[]" undefined id] c(2) by (simp_all add: Let_def devRun_def cfg [unfolded devRun_def])
  have "directory (devRun d [OpAdd (sampleObject 1 [0x61])]) = [deviceId sampleDevice \<mapsto> [0x64], \<lparr>oType = 2, Instance = 1\<rparr> \<mapsto> [0x61]]"
    using step(2) [of "sampleObject 1 [0x61]" "[]"] by (simp add: devRun_def dirAdd_def sampleObject_def c(1) step(1) ObjectTypeDevice_def)
  then show ?thesis
    using step(2) [of "sampleObject 2 [0x61]" "[OpAdd (sampleObject 1 [0x61])]"] d
    by (simp add: dirAdd_def sampleObject_def c(1) ObjectTypeDevice_def)
qed

section \<open>Database_Revision and Object_List\<close>

lemma table_revision:
  "fst (Device_Add ob d) = None \<Longrightarrow> dv_revision (own (snd (snd (Device_Add ob d)))) = dv_revision (own d) + 1"
  "fst (Remove i d) = None \<Longrightarrow> dv_revision (own (snd (snd (Remove i d)))) = dv_revision (own d) + 1"
  "fst (Rename i n d) = None \<Longrightarrow> map_of (dv_names (own d)) n = None
     \<Longrightarrow> dv_revision (own (snd (snd (Rename i n d)))) = dv_revision (own d) + 1"
  by (auto simp: Device_Add_def Remove_def Rename_def Let_def split: if_splits option.splits)

lemma revision_Add:
  "dv_revision (own (snd (snd (Device_Add ob d)))) = dv_revision (own d) + (if directory (snd (snd (Device_Add ob d))) = directory d then 0 else 1)"
proof (cases "fst (Device_Add ob d) = None")
  case True
  then have "directory d (b_id ob) = None" by (auto simp: directory_def Device_Add_def Let_def split: if_splits)
  then have "directory (snd (snd (Device_Add ob d))) \<noteq> directory d" by (auto simp: directory_Add [OF True] fun_eq_iff)
  then show ?thesis using table_revision(1) [OF True] by simp
qed (simp add: refused)

lemma revision_Remove:
  "dv_revision (own (snd (snd (Remove i d)))) = dv_revision (own d) + (if directory (snd (snd (Remove i d))) = directory d then 0 else 1)"
proof (cases "fst (Remove i d) = None")
  case True
  then have "directory d i \<noteq> None" by (auto simp: directory_def Remove_def split: if_splits option.splits)
  then have "directory (snd (snd (Remove i d))) \<noteq> directory d" by (auto simp: directory_Remove [OF True] fun_eq_iff)
  then show ?thesis using table_revision(2) [OF True] by simp
qed (simp add: refused)

lemma revision_Rename:
  assumes "dev_inv d"
  shows "dv_revision (own (snd (snd (Rename i n d)))) = dv_revision (own d) + (if directory (snd (snd (Rename i n d))) = directory d then 0 else 1)"
proof (cases "fst (Rename i n d) = None \<and> map_of (dv_names (own d)) n = None")
  case True
  then have "directory d i \<noteq> Some n" using indexed_iff [OF dev_invD(2) [OF assms]] by simp
  then have "directory (snd (snd (Rename i n d))) \<noteq> directory d"
    using directory_Rename [OF dev_invD(1) [OF assms], of i n] True by (auto simp: fun_eq_iff)
  then show ?thesis using table_revision(3) [of i n d] True by simp
qed (simp add: refused(3))

lemma devStep_revision:
  assumes "dev_inv d" "dev_props d"
  shows "dv_revision (own (devStep d op)) = dv_revision (own d) + (if directory (devStep d op) = directory d then 0 else 1)"
proof (cases op)
  case (OpCreate t i n)
  show ?thesis
  proof (cases "Create t i n d")
    case (Some r)
    obtain x ch d' where r: "r = (x, ch, d')" by (cases r)
    have "d' = d \<or> (\<exists>ob. snd (snd (Device_Add ob d)) = d')" using Create_cases [of t i n d x ch d'] Some r by (metis snd_conv)
    then show ?thesis using revision_Add [of _ d] Some OpCreate r by auto
  qed (use OpCreate in simp)
next
  case (OpAdd ob)
  then show ?thesis using revision_Add [of ob d] by simp
next
  case (OpRemove i)
  then show ?thesis using revision_Remove [of i d] by simp
next
  case (OpRename i n)
  then show ?thesis using revision_Rename [OF assms(1), of i n] by simp
next
  case (OpWriteObject i w)
  then show ?thesis using OpWriteObject_directory [OF assms, of i w] by simp
next
  case (OpUpdate i f)
  then show ?thesis using OpUpdate_directory [OF assms(1), of i f] by simp
qed (simp_all add: RegisterFactory_def SetSystemStatus_def Bind_def directory_def fun_eq_iff)

lemma ObjectIdentifiers_complete:
  assumes "dev_inv d"
  shows "set (ObjectIdentifiers (own d)) = dom (directory d)" "distinct (ObjectIdentifiers (own d))"
    "hd (ObjectIdentifiers (own d)) = deviceId (dv_cfg (own d))" "sorted (map idKey (tl (ObjectIdentifiers (own d))))"
proof -
  have "deviceId (dv_cfg (own d)) \<in> dom (directory d)"
    using assms ids_okD [OF dev_invD(1) [OF assms]] unfolding in_dom_directory dev_inv_def by auto
  then show "set (ObjectIdentifiers (own d)) = dom (directory d)"
    unfolding dom_directory by (auto simp: ObjectIdentifiers_def Let_def)
  show "distinct (ObjectIdentifiers (own d))"
    using assms by (auto simp: ObjectIdentifiers_def Let_def dev_inv_def)
qed (simp_all add: ObjectIdentifiers_def Let_def)

text \<open>C39. Database_Revision goes up by one exactly when the set of objects or one of their names changes, and not otherwise; and
  Object_List reads as every object of the device, once, the Device first and the others by type and instance.\<close>

theorem device_lists_objects:
  assumes "NewDevice cfg wall = Inr d0"
  shows "let d = devRun d0 ops; d' = devStep d op in
      dv_revision (own d') = dv_revision (own d) + (if directory d' = directory d then 0 else 1)
    \<and> readLocked d' \<lparr>Identifier = 155, ArrayIndex = None\<rparr> = Inr (UnsignedValue (ucast (dv_revision (own d'))))
    \<and> (\<exists>ids. readLocked d' \<lparr>Identifier = 76, ArrayIndex = None\<rparr>
          = Inr (ConstructedValue (map (\<lambda>i. appElement (ObjectIDValue i)) (b_id d0 # ids)))
        \<and> set (b_id d0 # ids) = dom (directory d') \<and> distinct (b_id d0 # ids) \<and> sorted (map idKey ids))"
proof -
  define d where "d = devRun d0 ops"
  define d' where "d' = devStep d op"
  have i: "dev_inv d" "dev_props d" using devRun_inv [OF NewDevice_inv(1) [OF assms]] by (simp_all add: d_def)
  have i': "dev_inv d'" "dev_props d'" using dev_step_inv [OF i] by (simp_all add: d'_def)
  obtain ids where ids: "ObjectIdentifiers (own d') = deviceId (dv_cfg (own d')) # ids" by (simp add: ObjectIdentifiers_def Let_def)
  have b: "b_id d0 = deviceId (dv_cfg (own d'))"
    using NewDevice_inv(1) [OF assms] devRun_cfg [of d0 ops] devStep_cfg [OF i, of op] by (simp add: dev_inv_def d_def d'_def)
  have "readLocked d' \<lparr>Identifier = 76, ArrayIndex = None\<rparr> = Inr (objectList (own d'))"
    "readLocked d' \<lparr>Identifier = 155, ArrayIndex = None\<rparr> = Inr (UnsignedValue (ucast (dv_revision (own d'))))"
    using i'(2) by (simp_all add: dev_props_def readLocked_def getValue_def)
  then show ?thesis
    unfolding Let_def d'_def [symmetric] d_def [symmetric]
    using devStep_revision [OF i, of op] ObjectIdentifiers_complete [OF i'(1)] ids by (auto simp: objectList_def b d'_def)
qed

theorem device_lists_objects_witness:
  "\<exists>d :: unit Device. NewDevice sampleDevice 0 = Inr d
    \<and> readLocked (devStep d (OpStatus 4)) \<lparr>Identifier = 155, ArrayIndex = None\<rparr>
        = Inr (UnsignedValue (ucast (dv_revision (own (devStep d (OpStatus 4))))))
    \<and> dv_revision (own (devStep d (OpStatus 4))) = dv_revision (own d)"
proof -
  obtain d :: "unit Device" where d: "NewDevice sampleDevice 0 = Inr d" using sampleDevice_new by blast
  have "directory (devStep d (OpStatus 4)) = directory d" by (simp add: SetSystemStatus_def directory_def fun_eq_iff)
  then show ?thesis using device_lists_objects [OF d, of "[]" "OpStatus 4"] d by (simp add: Let_def devRun_def)
qed

section \<open>The searches of Create\<close>

text \<open>Decimal numerals determine the number.\<close>

definition numeralValue :: "nat \<Rightarrow> bytes \<Rightarrow> nat" where
  "numeralValue n ds = foldl (\<lambda>n c. n * 10 + (unat c - 48)) n ds"

lemma digit_value: "unat (ucast (0x30 + u mod 10 :: u32) :: u8) - 48 = unat u mod 10"
proof -
  have m: "unat (u mod 10) = unat u mod 10" by (simp add: unat_mod)
  have l: "unat u mod 10 < 10" by simp
  have "unat (0x30 + u mod 10 :: u32) = 48 + unat u mod 10" using l by (simp add: unat_word_ariths(1) m)
  then show ?thesis using l by (simp add: unat_ucast)
qed

lemma itoa_loop_value: "numeralValue 0 (itoa_loop u b) = numeralValue (unat u) b"
proof (induction u b rule: itoa_loop.induct)
  case (1 u b)
  show ?case
  proof (cases "u > 0")
    case True
    have "unat u div 10 * 10 + unat u mod 10 = unat u" by simp
    then show ?thesis using 1 True unfolding itoa_loop.simps [of u b]
      by (simp add: numeralValue_def digit_value unat_div)
  next
    case False
    then have "u = 0" by (simp add: word_gt_0)
    then show ?thesis by (simp add: itoa_loop.simps)
  qed
qed

lemma itoa_inject: "itoa u = itoa v \<longleftrightarrow> u = v"
proof -
  have "numeralValue 0 (itoa u) = unat u" for u
    using itoa_loop_value [of u "[]"] by (simp add: itoa_def numeralValue_def)
  then show ?thesis by (metis word_unat_eq_iff)
qed

text \<open>A search through pairwise different candidates finds one that is not in a table shorter than their number.\<close>

lemma free_candidate:
  assumes "inj_on c {..length xs}"
  shows "\<exists>j \<le> length xs. map_of xs (c j) = None"
proof (rule ccontr)
  assume "\<not> ?thesis"
  then have "c ` {..length xs} \<subseteq> set (map fst xs)" by (fastforce simp: map_of_eq_None_iff)
  then have "card (c ` {..length xs}) \<le> length (map fst xs)" by (meson card_length card_mono finite_set le_trans)
  then show False using card_image [OF assms] by simp
qed

lemma search_finds:
  assumes "\<And>m. F m = (if map_of xs (c m) = None then Some (c m) else F (Suc m))" "map_of xs (c k) = None"
    "\<And>j. j < k \<Longrightarrow> map_of xs (c j) \<noteq> None" "m \<le> k"
  shows "F m = Some (c k)"
  using assms(4)
proof (induction rule: inc_induct)
  case base
  then show ?case by (subst assms(1)) (simp add: assms(2))
next
  case (step m)
  then show ?case by (subst assms(1)) (simp add: assms(3))
qed

lemma search_returns:
  assumes "\<And>m. F m = (if map_of xs (c m) = None then Some (c m) else F (Suc m))" "inj_on c {..length xs}"
  shows "\<exists>k \<le> length xs. F 0 = Some (c k) \<and> map_of xs (c k) = None \<and> (\<forall>j < k. map_of xs (c j) \<noteq> None)"
proof -
  define k where "k = (LEAST j. map_of xs (c j) = None)"
  obtain j where j: "j \<le> length xs" "map_of xs (c j) = None" using free_candidate [OF assms(2)] by blast
  have k: "map_of xs (c k) = None" "\<And>j. j < k \<Longrightarrow> map_of xs (c j) \<noteq> None" "k \<le> j"
    unfolding k_def using j(2) by (auto intro: LeastI Least_le dest: not_less_Least)
  moreover have "F 0 = Some (c k)" using search_finds [of F xs c k 0, OF assms(1)] k by simp
  ultimately show ?thesis using j(1) le_trans by blast
qed

lemma freeInstance_returns:
  assumes "length objects < 2 ^ 32"
  shows "\<exists>inst. freeInstance objects t 0 = Some inst \<and> map_of objects \<lparr>oType = t, Instance = inst\<rparr> = None
    \<and> (\<forall>j < inst. map_of objects \<lparr>oType = t, Instance = j\<rparr> \<noteq> None)"
proof -
  define c where "c m = \<lparr>oType = t, Instance = word_of_nat m\<rparr>" for m
  have inj: "inj_on c {..length objects}"
    using assms by (auto simp: inj_on_def c_def word_of_nat_eq_iff take_bit_nat_eq_self)
  have "map_option (\<lambda>i. \<lparr>oType = t, Instance = i\<rparr>) (freeInstance objects t (word_of_nat m))
      = (if map_of objects (c m) = None then Some (c m)
         else map_option (\<lambda>i. \<lparr>oType = t, Instance = i\<rparr>) (freeInstance objects t (word_of_nat (Suc m))))" for m
    by (subst freeInstance.simps) (simp add: c_def add.commute)
  from search_returns [of "\<lambda>m. map_option (\<lambda>i. \<lparr>oType = t, Instance = i\<rparr>) (freeInstance objects t (word_of_nat m))", OF this inj]
  obtain k where k: "k \<le> length objects" "freeInstance objects t 0 = Some (word_of_nat k)"
    "map_of objects (c k) = None" "\<forall>j < k. map_of objects (c j) \<noteq> None" by (auto simp: c_def)
  have "map_of objects \<lparr>oType = t, Instance = j\<rparr> \<noteq> None" if "j < word_of_nat k" for j :: u32
  proof -
    have "unat j < k" using that k(1) assms by (simp add: word_less_nat_alt unat_of_nat)
    then show ?thesis using k(4) by (auto simp: c_def)
  qed
  then show ?thesis using k by (auto simp: c_def)
qed

lemma freeName_returns:
  assumes "length names < 2 ^ 32 - 1"
  shows "\<exists>name. freeName names stem 1 stem = Some name \<and> map_of names name = None"
proof -
  define c where "c m = (if m = 0 then stem else stem @ ascii ''-'' @ itoa (ucast (word_of_nat m :: u64)))" for m :: nat
  have u: "(ucast (word_of_nat m :: u64) :: u32) = word_of_nat m" for m
    by (rule bit_word_eqI) (simp add: bit_simps)
  have "inj_on c {..length names}"
    using assms by (auto simp: inj_on_def c_def ascii_def u itoa_inject word_of_nat_eq_iff take_bit_nat_eq_self split: if_splits)
  moreover have "freeName names stem (word_of_nat (Suc m)) (c m)
      = (if map_of names (c m) = None then Some (c m) else freeName names stem (word_of_nat (Suc (Suc m))) (c (Suc m)))" for m
    by (subst freeName.simps) (simp add: c_def add.commute)
  ultimately show ?thesis
    using search_returns [of "\<lambda>m. freeName names stem (word_of_nat (Suc m)) (c m)" names c] by (auto simp: c_def)
qed

lemma length_names:
  assumes "dev_inv d"
  shows "length (dv_names (own d)) \<le> length (dv_objects (own d))"
proof -
  have fin: "finite (dom (directory d))" by (simp add: dom_directory)
  have "set (map fst (dv_names (own d))) = dom (map_of (dv_names (own d)))" by (simp add: dom_map_of_conv_image_fst)
  also have "\<dots> = ran (directory d)" by (auto simp: indexed_ran [OF dev_invD(2) [OF assms]])
  also have "\<dots> = (the \<circ> directory d) ` dom (directory d)" by (force simp: ran_def)
  finally have "card (set (map fst (dv_names (own d)))) \<le> card (dom (directory d))" using card_image_le [OF fin] by metis
  moreover have "distinct (map fst (dv_names (own d)))" using assms by (simp add: dev_inv_def)
  ultimately show ?thesis using distinct_card card_directory [OF assms] by fastforce
qed

lemma chooseName_returns:
  assumes "dev_inv d" "MaxObjects (dv_cfg (own d)) < 2 ^ 32 - 1"
  shows "\<exists>nm. chooseName t inst n d = Some nm \<and> (if n = [] then nm \<notin> ran (directory d) else nm = n)"
proof -
  have "length (dv_names (own d)) < 2 ^ 32 - 1" using length_names [OF assms(1)] assms by (simp add: dev_inv_def)
  from freeName_returns [OF this, of "ObjectType_String t @ ascii ''-'' @ itoa inst"]
  show ?thesis by (auto simp: chooseName_def indexed_ran [OF dev_invD(2) [OF assms(1)]])
qed

lemma addCreated_effect:
  assumes "addCreated made d = (r, ch, d')"
  shows "case r of Inl _ \<Rightarrow> d' = d | Inr ob \<Rightarrow> directory d' = (directory d)(b_id ob \<mapsto> b_name ob) \<and> deletable ob"
proof (cases made)
  case (Inr ob)
  let ?ob = "ob\<lparr>deletable := True\<rparr>"
  obtain e c d1 where a: "Device_Add ?ob d = (e, c, d1)" by (cases "Device_Add ?ob d")
  then show ?thesis using assms Inr Add_result [of ?ob d] directory_Add [of ?ob d]
    by (cases e) (auto simp: addCreated_def Let_def)
qed (use assms in \<open>auto simp: addCreated_def\<close>)

text \<open>C40. Creating an object ends: on a device whose bound leaves a free name and instance, the two searches find one. With no
  instance given, the object is made at the lowest free instance of its type and, with no name given, under a name no
  object has; if it is created the directory has it, and otherwise the device is unchanged.\<close>

theorem Create_returns:
  assumes "NewDevice cfg wall = Inr d0" "MaxObjects (deviceDefaults cfg) < 2 ^ 32 - 1"
  shows "let d = devRun d0 ops in \<exists>r ch d'. Create t inst n d = Some (r, ch, d')
    \<and> (case r of Inl _ \<Rightarrow> d' = d | Inr ob \<Rightarrow> directory d' = (directory d)(b_id ob \<mapsto> b_name ob) \<and> deletable ob)
    \<and> (inst = None \<and> map_of (dv_factories (own d)) t = Some f \<longrightarrow>
        (\<exists>k nm. (r, ch, d') = addCreated (f k nm) d
           \<and> \<lparr>oType = t, Instance = k\<rparr> \<notin> dom (directory d) \<and> (\<forall>j < k. \<lparr>oType = t, Instance = j\<rparr> \<in> dom (directory d))
           \<and> (if n = [] then nm \<notin> ran (directory d) else nm = n)))"
proof -
  define d where "d = devRun d0 ops"
  have i: "dev_inv d" using devRun_inv [OF NewDevice_inv(1) [OF assms(1)]] by (simp add: d_def)
  have mx: "MaxObjects (dv_cfg (own d)) < 2 ^ 32 - 1"
    using devRun_cfg [OF NewDevice_inv(1) [OF assms(1)]] NewDevice_inv(4) [OF assms(1)] assms(2) by (simp add: d_def)
  then have "length (dv_objects (own d)) < 2 ^ 32" using i by (simp add: dev_inv_def)
  from freeInstance_returns [OF this, of t] obtain k where k: "freeInstance (dv_objects (own d)) t 0 = Some k"
    "\<lparr>oType = t, Instance = k\<rparr> \<notin> dom (directory d)" "\<forall>j < k. \<lparr>oType = t, Instance = j\<rparr> \<in> dom (directory d)"
    unfolding in_dom_directory by blast
  show ?thesis
  proof (cases "map_of (dv_factories (own d)) t")
    case None
    then show ?thesis unfolding Let_def d_def [symmetric] by (simp add: Create_def)
  next
    case (Some g)
    show ?thesis
    proof (cases "\<exists>e. chooseInstance t inst d = Some (Inl e)")
      case True
      then have "inst \<noteq> None" by (cases inst) (auto simp: chooseInstance_def)
      then show ?thesis using True Some unfolding Let_def d_def [symmetric] by (auto simp: Create_def)
    next
      case False
      then obtain k' where k': "chooseInstance t inst d = Some (Inr k')" "inst = None \<Longrightarrow> k' = k"
        using k(1) by (cases inst) (auto simp: chooseInstance_def split: if_splits)
      obtain nm where nm: "chooseName t k' n d = Some nm" "if n = [] then nm \<notin> ran (directory d) else nm = n"
        using chooseName_returns [OF i mx] by blast
      obtain r ch d' where r: "addCreated (g k' nm) d = (r, ch, d')" by (cases "addCreated (g k' nm) d")
      have "Create t inst n d = Some (r, ch, d')" using Some k' nm(1) r by (simp add: Create_def)
      then show ?thesis unfolding Let_def d_def [symmetric]
        using addCreated_effect [OF r] r Some k' k(2,3) nm(2) by (intro exI [of _ r] exI [of _ ch] exI [of _ d']) force
    qed
  qed
qed

theorem Create_returns_witness:
  "\<exists>d :: unit Device. NewDevice sampleDevice 0 = Inr d
    \<and> (let d1 = devRun d [OpRegister 2 (\<lambda>k n. Inr (sampleObject k n))] in
        \<exists>nm. Create 2 None [] d1 = Some (addCreated (Inr (sampleObject 0 nm)) d1) \<and> nm \<noteq> [0x64])"
proof -
  obtain d :: "unit Device" where d: "NewDevice sampleDevice 0 = Inr d" using sampleDevice_new by blast
  let ?f = "\<lambda>k n. Inr (sampleObject k n)"
  define d1 where "d1 = devRun d [OpRegister 2 ?f]"
  have c: "MaxObjects (deviceDefaults sampleDevice) < 2 ^ 32 - 1" by (simp add: sampleDevice_def deviceDefaults_def)
  have dir: "directory d1 = [\<lparr>oType = 8, Instance = 99\<rparr> \<mapsto> [0x64]]"
    using NewDevice_inv(2) [OF d]
    by (simp add: d1_def devRun_def RegisterFactory_def directory_def fun_eq_iff deviceId_def sampleDevice_def ObjectTypeDevice_def)
  have f: "None = (None :: u32 option) \<and> map_of (dv_factories (own d1)) 2 = Some ?f"
    by (simp add: d1_def devRun_def RegisterFactory_def update_conv')
  obtain k nm where r: "Create 2 None [] d1 = Some (addCreated (?f k nm) d1)"
    "\<forall>j < k. \<lparr>oType = 2, Instance = j\<rparr> \<in> dom (directory d1)" "nm \<notin> ran (directory d1)"
    using Create_returns [OF d c, of "[OpRegister 2 ?f]" 2 None "[]" ?f] f unfolding Let_def d1_def [symmetric] by (metis (no_types, lifting))
  have "k = 0" using r(2) [rule_format, of 0] by (cases "k = 0") (auto simp: dir word_gt_0)
  then show ?thesis using d r(1,3) by (auto simp: Let_def dir simp flip: d1_def)
qed

end
