(* ===== verification/Handlers.thy ===== *)
theory Handlers
  imports Object_Device Intrinsic Property_Services Apdu
begin

text \<open>
  The services that read and write properties on the server: \<^verbatim>\<open>server/handlers_data.go\<close> with the results and the
  table of services of \<^verbatim>\<open>server/dispatch.go\<close>. A handler maps the service parameters and the device to a result, the
  changes dispatched to the observers and the device afterwards. The application's \<^verbatim>\<open>BeforeWrite\<close> hook is a parameter,
  as are the handlers of the services of other files. A context that is cancelled is not modelled: no object reads it.
  \<^verbatim>\<open>ErrUndefinedEnumeration\<close> is not among the errors here: no decoder of these four services returns it.
  Main results: values written over the network are read back as command prioritisation says; a WritePropertyMultiple
  applies its writes in order up to the first failure, which the error names; services not enabled are rejected.
\<close>

section \<open>Results\<close>

datatype service_error =
    RejectWith u8 | AbortWith u8 | WPMFailed WritePropertyMultipleError | CreateFailed u16 u16 u32
  | COVMultipleFailed "bytes result" \<comment> \<open>what \<^verbatim>\<open>covMultipleError.encode\<close> returns\<close>
  | ObjectFailed object_error

datatype service_result = Silent | Failed service_error | SimpleResult | ComplexResult bytes

abbreviation (input) "fail e \<equiv> Failed (ObjectFailed (Bacnet e))"

definition rejectFor :: "bacnet_error \<Rightarrow> service_result" where
  "rejectFor err = Failed (RejectWith (case err of ErrLimitExceeded \<Rightarrow> 1 | ErrTrailingData \<Rightarrow> 7 | _ \<Rightarrow> 4))"

fun errorBody :: "service_error \<Rightarrow> bytes result" where
  "errorBody (WPMFailed e) = EncodeWritePropertyMultipleError e"
| "errorBody (COVMultipleFailed r) = r"
| "errorBody (CreateFailed class code first) =
     rbind (EncodeBACnetError [0x0E] class code) (\<lambda>body. AppendContextUnsigned (body @ [0x0F]) 1 (ucast first))"
| "errorBody (ObjectFailed e) = EncodeBACnetError [] (fst (AsError e)) (snd (AsError e))"
| "errorBody _ = Inr []" \<comment> \<open>a Reject or an Abort has no body\<close>

text \<open>\<^verbatim>\<open>encode\<close>: the reply, the payload of a ComplexACK and whether it is one. The result of a silent service is not encoded.\<close>

definition result_encode :: "service_result \<Rightarrow> u8 \<Rightarrow> u8 \<Rightarrow> bytes \<times> bytes \<times> bool" where
  "result_encode r invokeID svc = (case r of
      Failed (RejectWith reason) \<Rightarrow> (AppendReject [] \<lparr>rp_InvokeID = invokeID, rp_Reason = reason\<rparr>, [], False)
    | Failed (AbortWith reason) \<Rightarrow> (AppendAbort [] \<lparr>ap_Server = True, ap_InvokeID = invokeID, ap_Reason = reason\<rparr>, [], False)
    | Failed e \<Rightarrow>
        (let body = (case errorBody e of Inr b \<Rightarrow> b
                     | Inl _ \<Rightarrow> (case EncodeBACnetError [] 0 25 of Inr b \<Rightarrow> b | Inl _ \<Rightarrow> [])) in
         (AppendError [] \<lparr>ep_InvokeID = invokeID, ep_ServiceChoice = svc, ep_Payload = body\<rparr>, [], False))
    | SimpleResult \<Rightarrow> (AppendSimpleACK [] \<lparr>sa_InvokeID = invokeID, sa_ServiceChoice = svc\<rparr>, [], False)
    | _ \<Rightarrow>
        (let payload = (case r of ComplexResult p \<Rightarrow> p | _ \<Rightarrow> []) in
         (AppendComplexACK [] \<lparr>ca_SegmentedMessage = False, ca_MoreFollows = False, ca_InvokeID = invokeID, ca_SequenceNumber = 0,
            ca_ProposedWindowSize = 0, ca_ServiceChoice = svc, ca_Payload = payload\<rparr>, payload, True)))"

section \<open>Reading\<close>

record server_config =
  sc_limits :: DecodeLimits
  BeforeWrite :: "(ObjectIdentifier \<Rightarrow> Write \<Rightarrow> object_error option) option"
  hasPrivateTransfer :: bool \<comment> \<open>which of the other hooks are set\<close>
  hasTextMessage :: bool
  hasTimeSync :: bool
  hasWriteGroup :: bool

definition isSpecialProperty :: "PropertyIdentifier \<Rightarrow> bool" where
  "isSpecialProperty i \<longleftrightarrow> i = 8 \<or> i = 105 \<or> i = 80"

definition readProperty :: "server_config \<Rightarrow> bytes \<Rightarrow> 'st Device \<Rightarrow> service_result" where
  "readProperty s payload d = (case DecodeReadProperty payload (sc_limits s) of
      Inl err \<Rightarrow> rejectFor err
    | Inr r \<Rightarrow> (case Object (rp_Object r) d of
        None \<Rightarrow> fail ErrUnknownObject
      | Some e \<Rightarrow>
          if isSpecialProperty (Identifier (rp_Property r)) then fail ErrUnknownProperty
          else case entryRead d e (rp_Property r) of
              Inl err \<Rightarrow> fail err
            | Inr v \<Rightarrow> (case EncodeReadPropertyACK \<lparr>rpa_Object = entryId d e, rpa_Property = rp_Property r, rpa_Value = v\<rparr> of
                Inl err \<Rightarrow> fail err
              | Inr payload \<Rightarrow> ComplexResult payload)))"

definition readOne :: "'st Device \<Rightarrow> 'st entry \<Rightarrow> PropertyReference \<Rightarrow> PropertyResult" where
  "readOne d e ref = (case entryRead d e ref of
      Inl err \<Rightarrow> \<lparr>pr_Property = ref, pr_Value = zeroValue, pr_Err = Some (case AsError (Bacnet err) of (c, k) \<Rightarrow> Err c k)\<rparr>
    | Inr v \<Rightarrow> \<lparr>pr_Property = ref, pr_Value = v, pr_Err = None\<rparr>)"

definition selected :: "PropertyIdentifier \<Rightarrow> PropertyIdentifier list \<Rightarrow> PropertyIdentifier \<Rightarrow> bool" where
  "selected sel required i = (if sel = 105 then i \<in> set required else if sel = 80 then i \<notin> set required else True)"

definition readRefs :: "'st Device \<Rightarrow> 'st entry \<Rightarrow> PropertyReference \<Rightarrow> PropertyResult list" where
  "readRefs d e ref =
     (if isSpecialProperty (Identifier ref) then
        case entryProperties d e of (all, required) \<Rightarrow>
          map (\<lambda>i. readOne d e \<lparr>Identifier = i, ArrayIndex = None\<rparr>) (filter (selected (Identifier ref) required) all)
      else [readOne d e ref])"

definition readSpec :: "'st Device \<Rightarrow> ReadAccessSpecification \<Rightarrow> ReadAccessResult" where
  "readSpec d spec = (case Object (ras_Object spec) d of
      None \<Rightarrow> \<lparr>rar_Object = ras_Object spec, rar_Properties =
        map (\<lambda>ref. \<lparr>pr_Property = ref, pr_Value = zeroValue, pr_Err = Some ErrUnknownObject\<rparr>) (ras_Properties spec)\<rparr>
    | Some e \<Rightarrow> \<lparr>rar_Object = entryId d e, rar_Properties = concat (map (readRefs d e) (ras_Properties spec))\<rparr>)"

definition readPropertyMultiple :: "server_config \<Rightarrow> bytes \<Rightarrow> 'st Device \<Rightarrow> service_result" where
  "readPropertyMultiple s payload d = (case DecodeReadPropertyMultiple payload (sc_limits s) of
      Inl err \<Rightarrow> rejectFor err
    | Inr specs \<Rightarrow> (case EncodeReadPropertyMultipleACK (map (readSpec d) specs) of
        Inl err \<Rightarrow> fail err
      | Inr payload \<Rightarrow> ComplexResult payload))"

section \<open>Writing\<close>

definition srv_write :: "server_config \<Rightarrow> ObjectIdentifier \<Rightarrow> Write \<Rightarrow> 'st Device \<Rightarrow> object_error option \<times> Change list \<times> 'st Device" where
  "srv_write s i w d = (case Object i d of
      None \<Rightarrow> (Some (Bacnet ErrUnknownObject), [], d)
    | Some e \<Rightarrow>
        (case Option.bind (BeforeWrite s) (\<lambda>h. h (entryId d e) w) of
           Some err \<Rightarrow> (Some err, [], d)
         | None \<Rightarrow> (case entryWrite w e d of (err, ch, d') \<Rightarrow> (map_option Bacnet err, ch, d'))))"

definition writeOf :: "PropertyReference \<Rightarrow> ApplicationValue \<Rightarrow> u8 option \<Rightarrow> Write" where
  "writeOf ref v pri = \<lparr>w_Property = ref, w_Value = v, w_Priority = (case pri of None \<Rightarrow> 0 | Some p \<Rightarrow> p)\<rparr>"

definition writeProperty :: "server_config \<Rightarrow> bytes \<Rightarrow> 'st Device \<Rightarrow> service_result \<times> Change list \<times> 'st Device" where
  "writeProperty s payload d = (case DecodeWriteProperty payload (sc_limits s) of
      Inl err \<Rightarrow> (rejectFor err, [], d)
    | Inr r \<Rightarrow> (case srv_write s (wp_Object r) (writeOf (wp_Property r) (wp_Value r) (wp_Priority r)) d of
        (Some err, ch, d') \<Rightarrow> (Failed (ObjectFailed err), ch, d')
      | (None, ch, d') \<Rightarrow> (SimpleResult, ch, d')))"

text \<open>The two loops of \<^verbatim>\<open>writePropertyMultiple\<close>: an error ends both.\<close>

fun writeValues :: "server_config \<Rightarrow> ObjectIdentifier \<Rightarrow> WritePropertyValue list \<Rightarrow> 'st Device \<Rightarrow>
    WritePropertyMultipleError option \<times> Change list \<times> 'st Device" where
  "writeValues s i [] d = (None, [], d)"
| "writeValues s i (pv # pvs) d =
     (case srv_write s i (writeOf (wpv_Property pv) (wpv_Value pv) (wpv_Priority pv)) d of
        (Some err, ch, d') \<Rightarrow>
          (Some \<lparr>wpme_Class = fst (AsError err), wpme_Code = snd (AsError err), FirstFailed = i, FirstProperty = wpv_Property pv\<rparr>, ch, d')
      | (None, ch, d') \<Rightarrow> (case writeValues s i pvs d' of (e, ch', d'') \<Rightarrow> (e, ch @ ch', d'')))"

fun writeSpecs :: "server_config \<Rightarrow> WriteAccessSpecification list \<Rightarrow> 'st Device \<Rightarrow>
    WritePropertyMultipleError option \<times> Change list \<times> 'st Device" where
  "writeSpecs s [] d = (None, [], d)"
| "writeSpecs s (spec # specs) d =
     (case writeValues s (was_Object spec) (was_Properties spec) d of
        (Some e, ch, d') \<Rightarrow> (Some e, ch, d')
      | (None, ch, d') \<Rightarrow> (case writeSpecs s specs d' of (e, ch', d'') \<Rightarrow> (e, ch @ ch', d'')))"

definition writePropertyMultiple :: "server_config \<Rightarrow> bytes \<Rightarrow> 'st Device \<Rightarrow> service_result \<times> Change list \<times> 'st Device" where
  "writePropertyMultiple s payload d = (case DecodeWritePropertyMultiple payload (sc_limits s) of
      Inl err \<Rightarrow> (rejectFor err, [], d)
    | Inr specs \<Rightarrow> (case writeSpecs s specs d of
        (Some e, ch, d') \<Rightarrow> (Failed (WPMFailed e), ch, d')
      | (None, ch, d') \<Rightarrow> (SimpleResult, ch, d')))"

section \<open>The table of services\<close>

text \<open>The served choices with their bits of Protocol_Services_Supported.\<close>

definition confirmedBits :: "(u8 \<times> int) list" where
  "confirmedBits = [(12, 12), (14, 14), (15, 15), (16, 16), (17, 17), (18, 18), (19, 19), (20, 20), (26, 35), (5, 5), (28, 38), (30, 41),
     (6, 6), (7, 7), (8, 8), (9, 9), (10, 10), (11, 11), (0, 0), (3, 3), (4, 4), (29, 39)]"

definition unconfirmedBits :: "(u8 \<times> int) list" where
  "unconfirmedBits = [(8, 34), (7, 33), (6, 32), (9, 36), (4, 30), (5, 31), (10, 40), (0, 26)]"

definition initiatedServiceBits :: "int list" where
  "initiatedServiceBits = [1, 2, 26, 27, 28, 29, 42, 43]"

definition serviceEnabled :: "server_config \<Rightarrow> bool \<Rightarrow> u8 \<Rightarrow> bool" where
  "serviceEnabled s confirmed choice =
     (if confirmed then
        if choice = 18 then hasPrivateTransfer s else if choice = 19 then hasTextMessage s else True
      else if choice = 4 then hasPrivateTransfer s
      else if choice = 5 then hasTextMessage s
      else if choice = 6 \<or> choice = 9 then hasTimeSync s
      else if choice = 10 then hasWriteGroup s
      else True)"

definition servicesSupported :: "server_config \<Rightarrow> int list" where
  "servicesSupported s =
     sort (map snd (filter (\<lambda>(c, _). serviceEnabled s True c) confirmedBits)
         @ map snd (filter (\<lambda>(c, b). serviceEnabled s False c \<and> b \<noteq> 26) unconfirmedBits) @ initiatedServiceBits)"

text \<open>\<open>other\<close> are the handlers of the services of other files.\<close>

definition handleConfirmed :: "server_config \<Rightarrow> (u8 \<Rightarrow> bytes \<Rightarrow> 'st Device \<Rightarrow> service_result \<times> Change list \<times> 'st Device) \<Rightarrow>
    ConfirmedRequest \<Rightarrow> 'st Device \<Rightarrow> service_result \<times> Change list \<times> 'st Device" where
  "handleConfirmed s other req d =
     (let c = cr_ServiceChoice req; payload = cr_Payload req in
      if map_of confirmedBits c = None \<or> \<not> serviceEnabled s True c then (Failed (RejectWith 9), [], d)
      else if c = 12 then (readProperty s payload d, [], d)
      else if c = 14 then (readPropertyMultiple s payload d, [], d)
      else if c = 15 then writeProperty s payload d
      else if c = 16 then writePropertyMultiple s payload d
      else other c payload d)"

section \<open>Writes over the network\<close>

lemma AList_update_same: "map_of xs k = Some v \<Longrightarrow> AList.update k v xs = xs"
  by (induction xs) auto

lemma update_objects_same [simp]:
  "map_of (dv_objects (own d)) i = Some e \<Longrightarrow> updOwn (\<lambda>t. t\<lparr>dv_objects := AList.update i e (dv_objects t)\<rparr>) d = d"
  by (simp add: updOwn_def AList_update_same del: map_of_eq_Some_iff)

lemma Object_Entry:
  assumes "dev_inv d" "Object i d = Some (Entry b)"
  shows "map_of (dv_objects (own d)) i = Some (Entry b)" "b_id b = i"
proof -
  show m: "map_of (dv_objects (own d)) i = Some (Entry b)" using assms(2) by (simp add: Object_def del: map_of_eq_Some_iff split: if_splits)
  show "b_id b = i" using dev_invD(1) [OF assms(1)] m unfolding ids_ok_def by fastforce
qed

text \<open>A write keeps the invariants of the device; one that fails changes nothing.\<close>

lemma srv_write_inv:
  assumes "dev_inv d" "dev_props d" "srv_write s i w d = (err, ch, d')"
  shows "dev_inv d' \<and> dev_props d' \<and> directory d' = directory d"
proof (cases "Object i d")
  case (Some e)
  obtain err' ch' d1 where "entryWrite w e d = (err', ch', d1)" by (cases "entryWrite w e d")
  then show ?thesis using entryWrite_inv [OF assms(1,2) Some] assms Some by (auto simp: srv_write_def split: option.splits)
qed (use assms in \<open>auto simp: srv_write_def\<close>)

lemma srv_write_failed:
  assumes "dev_inv d" "srv_write s i w d = (Some err, ch, d')"
  shows "d' = d \<and> ch = []"
proof (cases "Object i d")
  case (Some e)
  show ?thesis
  proof (cases e)
    case OwnEntry
    then show ?thesis using assms(2) Some
      by (auto simp: srv_write_def entryWrite_def Device_WriteProperty_def WriteProperty_def split: option.splits sum.splits prod.splits if_splits)
  next
    case (Entry b)
    have b: "map_of (dv_objects (own d)) i = Some (Entry b)" "b_id b = i" using Object_Entry [OF assms(1)] Some Entry by simp_all
    show ?thesis using assms(2) Some Entry b
      by (auto simp: srv_write_def entryWrite_def WriteProperty_def simp del: map_of_eq_Some_iff split: option.splits sum.splits prod.splits if_splits)
  qed
qed (use assms in \<open>auto simp: srv_write_def\<close>)

text \<open>Without a hook, a write to one object is a write of that object and no other.\<close>

lemma srv_write_object:
  assumes "dev_inv d" "dev_props d" "BeforeWrite s = None" "map_of (dv_objects (own d)) i = Some (Entry b)"
    "\<not> (oType i = ObjectTypeDevice \<and> Instance i = WildcardInstance)" "srv_write s j w d = (err, ch, d')"
  shows "map_of (dv_objects (own d')) i = Some (Entry (if j = i then snd (snd (WriteProperty w b)) else b))"
    "j = i \<Longrightarrow> err = map_option Bacnet (fst (WriteProperty w b))"
proof -
  have i: "b_id b = i" using dev_invD(1) [OF assms(1)] assms(4) unfolding ids_ok_def by fastforce
  have O: "Object i d = Some (Entry b)" using assms(4,5) by (auto simp: Object_def)
  show "j = i \<Longrightarrow> err = map_option Bacnet (fst (WriteProperty w b))"
    using assms(3,6) O by (auto simp: srv_write_def entryWrite_def split: prod.splits)
  show "map_of (dv_objects (own d')) i = Some (Entry (if j = i then snd (snd (WriteProperty w b)) else b))"
  proof (cases "j = i")
    case True
    then show ?thesis using assms(3,6) O i by (auto simp: srv_write_def entryWrite_def update_conv' split: prod.splits)
  next
    case False
    show ?thesis
    proof (cases "Object j d")
      case None
      then show ?thesis using assms(4,6) False by (auto simp: srv_write_def)
    next
      case (Some e)
      show ?thesis
      proof (cases e)
        case OwnEntry
        then obtain ps err' where "Device_WriteProperty w d = (err', ps, d')"
          using assms(3,6) Some by (auto simp: srv_write_def entryWrite_def split: prod.splits)
        then show ?thesis using Device_WriteProperty_frame [OF _ assms(2)] assms(4) False by simp
      next
        case (Entry b')
        then have "b_id b' = j" using Object_Entry [OF assms(1)] Some by simp
        then show ?thesis using assms(3,4,6) Some Entry False
          by (auto simp: srv_write_def entryWrite_def update_conv' simp del: map_of_eq_Some_iff split: prod.splits)
      qed
    qed
  qed
qed

text \<open>The requests a sequence of clients sends, each as its encoder writes it, served one after the other.\<close>

definition requestWrite :: "WritePropertyRequest \<Rightarrow> Write" where
  "requestWrite r = writeOf (wp_Property r) (normValue (wp_Value r)) (wp_Priority r)"

definition sendWrite :: "server_config \<Rightarrow> 'st Device \<Rightarrow> WritePropertyRequest \<Rightarrow> 'st Device" where
  "sendWrite s d r = (case EncodeWriteProperty r of Inr payload \<Rightarrow> snd (snd (writeProperty s payload d)) | Inl _ \<Rightarrow> d)"

definition sendable :: "DecodeLimits \<Rightarrow> WritePropertyRequest \<Rightarrow> bool" where
  "sendable L r \<longleftrightarrow> wf_id (wp_Object r) \<and> priorityOk (wp_Priority r) \<and> fitsSequence L (writeProperty_els r)"

lemma sendWrite_eq:
  assumes "sendable (sc_limits s) r"
  shows "sendWrite s d r = snd (snd (srv_write s (wp_Object r) (requestWrite r) d))"
proof -
  obtain bs where "EncodeWriteProperty r = Inr bs" "DecodeWriteProperty bs (sc_limits s) = Inr (r\<lparr>wp_Value := normValue (wp_Value r)\<rparr>)"
    using writeProperty.service_roundtrip [of r "sc_limits s"] assms by (auto simp: sendable_def DecodeWriteProperty_def)
  then show ?thesis by (simp add: sendWrite_def writeProperty_def requestWrite_def split: prod.split option.split)
qed

lemma sendWrites_object:
  assumes "dev_inv d" "dev_props d" "BeforeWrite s = None" "map_of (dv_objects (own d)) i = Some (Entry b)"
    "\<not> (oType i = ObjectTypeDevice \<and> Instance i = WildcardInstance)" "list_all (sendable (sc_limits s)) rs"
  shows "dev_inv (foldl (sendWrite s) d rs) \<and> map_of (dv_objects (own (foldl (sendWrite s) d rs))) i
    = Some (Entry (pointRun b (map (OpWrite \<circ> requestWrite) (filter (\<lambda>r. wp_Object r = i) rs))))"
  using assms
proof (induction rs arbitrary: d b)
  case Nil
  then show ?case by (simp add: pointRun_def)
next
  case (Cons r rs)
  obtain err ch d' where w: "srv_write s (wp_Object r) (requestWrite r) d = (err, ch, d')" by (cases "srv_write s (wp_Object r) (requestWrite r) d")
  have d': "sendWrite s d r = d'" using sendWrite_eq [of s r d] Cons.prems(6) w by simp
  have inv: "dev_inv d'" "dev_props d'" using srv_write_inv [OF Cons.prems(1,2) w] by simp_all
  show ?case
    using Cons.IH [OF inv Cons.prems(3) srv_write_object(1) [OF Cons.prems(1-5) w] Cons.prems(5)] Cons.prems(6)
    by (simp add: d' pointRun_def)
qed

lemma readProperty_answers:
  assumes "Object i d = Some e" "entryId d e = i" "entryRead d e ref = Inr v" "\<not> isSpecialProperty (Identifier ref)" "wf_id i"
    "fitsSequence (sc_limits s) (readProperty_els \<lparr>rp_Object = i, rp_Property = ref\<rparr>)"
    "fitsSequence L (readPropertyACK_els \<lparr>rpa_Object = i, rpa_Property = ref, rpa_Value = v\<rparr>)"
  shows "\<exists>req ack. EncodeReadProperty \<lparr>rp_Object = i, rp_Property = ref\<rparr> = Inr req \<and> readProperty s req d = ComplexResult ack
    \<and> DecodeReadPropertyACK ack L = Inr \<lparr>rpa_Object = i, rpa_Property = ref, rpa_Value = normValue v\<rparr>"
proof -
  obtain req where "EncodeReadProperty \<lparr>rp_Object = i, rp_Property = ref\<rparr> = Inr req"
    "DecodeReadProperty req (sc_limits s) = Inr \<lparr>rp_Object = i, rp_Property = ref\<rparr>"
    using readProperty.service_roundtrip [OF _ assms(6)] assms(5) by (auto simp: DecodeReadProperty_def)
  moreover obtain ack where "EncodeReadPropertyACK \<lparr>rpa_Object = i, rpa_Property = ref, rpa_Value = v\<rparr> = Inr ack"
    "DecodeReadPropertyACK ack L = Inr \<lparr>rpa_Object = i, rpa_Property = ref, rpa_Value = normValue v\<rparr>"
    using readPropertyACK.service_roundtrip [OF _ assms(7)] assms(5) by (auto simp: DecodeReadPropertyACK_def)
  ultimately show ?thesis using assms(1-4) by (simp add: readProperty_def)
qed

lemma Add_holds:
  assumes "fst (Device_Add ob d) = None"
  shows "map_of (dv_objects (own (snd (snd (Device_Add ob d))))) (b_id ob) = Some (Entry ob)" "oType (b_id ob) \<noteq> ObjectTypeDevice"
  using assms by (auto simp: Device_Add_def Let_def update_conv' split: if_splits)

definition PresentValue :: PropertyReference where
  "PresentValue = \<lparr>Identifier = PropertyPresentValue, ArrayIndex = None\<rparr>"

text \<open>The value command prioritisation puts in force after the writes of \<open>rs\<close> to object \<open>i\<close>.\<close>

definition valueInForce :: "pointKind \<Rightarrow> u32 \<Rightarrow> ApplicationValue \<Rightarrow> ObjectIdentifier \<Rightarrow> WritePropertyRequest list \<Rightarrow> ApplicationValue" where
  "valueInForce k n rd i rs =
     (let ops = map (OpWrite \<circ> requestWrite) (filter (\<lambda>r. wp_Object r = i) rs); ws = commands k n ops in
      case commandInForce ws of None \<Rightarrow> defaultAfter k n rd ops | Some p \<Rightarrow> the (commandAt ws p))"

lemma pointRun_valueInForce:
  assumes "newPoint t k inp True pc = Some b0" "k = kindAnalog \<Longrightarrow> f32_exp (cfg_Value pc) < 255" "initialValue k pc = Some rd"
  shows "readLocked (pointRun b0 (map (OpWrite \<circ> requestWrite) (filter (\<lambda>r. wp_Object r = i) rs))) PresentValue
    = Inr (valueInForce k (configuredStates k pc) rd i rs)"
    and "normValue (valueInForce k (configuredStates k pc) rd i rs) = valueInForce k (configuredStates k pc) rd i rs"
proof -
  let ?n = "configuredStates k pc"
  define b where "b = pointRun b0 (map (OpWrite \<circ> requestWrite) (filter (\<lambda>r. wp_Object r = i) rs))"
  have i0: "point_inv k ?n True b0" "pt_getPA (own b0) = arrayOf [] rd"
    using newPoint_inv [OF assms(1,2)] assms(3) by (auto simp: arrayOf_def)
  have inv: "point_inv k ?n True b" using i0(1) by (simp add: b_def pointRun_inv)
  have "pa_present (pt_getPA (own b)) = valueInForce k ?n rd i rs"
    unfolding b_def pointRun_simulates [OF i0]
    by (simp add: arrayOf_def priority_array_commands(2) valueInForce_def Let_def)
  then have r: "readLocked b PresentValue = Inr (valueInForce k ?n rd i rs)"
    using read_commandEntries(1) [OF inv] by (simp add: PresentValue_def)
  then show "readLocked (pointRun b0 (map (OpWrite \<circ> requestWrite) (filter (\<lambda>r. wp_Object r = i) rs))) PresentValue
      = Inr (valueInForce k ?n rd i rs)" by (simp add: b_def)
  have "valueOf k ?n (valueInForce k ?n rd i rs)"
    using r read_PresentValue [OF inv] typed_present [of k ?n True "own b"] inv by (simp add: PresentValue_def point_inv_def)
  then have "Kind (valueInForce k ?n rd i rs) \<noteq> ValueConstructed" by (cases k) auto
  then show "normValue (valueInForce k ?n rd i rs) = valueInForce k ?n rd i rs" by (simp add: normValue_def wrapperValue_valueEls)
qed

text \<open>C5. A commandable point served over the network: once a device holds it, whatever WriteProperty requests clients encode and
  send to any objects, a ReadProperty request for its Present_Value is answered with a ComplexACK that decodes to the
  value command prioritisation puts in force: that of the lowest-numbered priority with a value, the last accepted one
  written at it, and the relinquish default when there is none.\<close>

theorem served_present_value:
  assumes "NewDevice cfg wall = Inr d0" "newPoint t k inp True pc = Some b0" "k = kindAnalog \<Longrightarrow> f32_exp (cfg_Value pc) < 255"
    "initialValue k pc = Some rd" "fst (Device_Add b0 (devRun d0 ops)) = None" "BeforeWrite s = None" "list_all (sendable (sc_limits s)) rs"
    "wf_id (b_id b0)" "fitsSequence (sc_limits s) (readProperty_els \<lparr>rp_Object = b_id b0, rp_Property = PresentValue\<rparr>)"
    "fitsSequence L (readPropertyACK_els \<lparr>rpa_Object = b_id b0, rpa_Property = PresentValue,
       rpa_Value = valueInForce k (configuredStates k pc) rd (b_id b0) rs\<rparr>)"
  shows "let d = foldl (sendWrite s) (snd (snd (Device_Add b0 (devRun d0 ops)))) rs in
    \<exists>req ack. EncodeReadProperty \<lparr>rp_Object = b_id b0, rp_Property = PresentValue\<rparr> = Inr req
      \<and> readProperty s req d = ComplexResult ack
      \<and> DecodeReadPropertyACK ack L = Inr \<lparr>rpa_Object = b_id b0, rpa_Property = PresentValue,
          rpa_Value = valueInForce k (configuredStates k pc) rd (b_id b0) rs\<rparr>"
proof -
  define i where "i = b_id b0"
  define d1 where "d1 = snd (snd (Device_Add b0 (devRun d0 ops)))"
  define d where "d = foldl (sendWrite s) d1 rs"
  define b where "b = pointRun b0 (map (OpWrite \<circ> requestWrite) (filter (\<lambda>r. wp_Object r = i) rs))"
  have inv: "dev_inv (devRun d0 ops)" "dev_props (devRun d0 ops)" using devRun_inv [OF NewDevice_inv(1) [OF assms(1)]] by simp_all
  have d1: "dev_inv d1" "dev_props d1" using dev_inv_Add [OF inv(1)] inv(2) by (simp_all add: d1_def)
  have h: "map_of (dv_objects (own d1)) i = Some (Entry b0)" "oType i \<noteq> ObjectTypeDevice"
    using Add_holds [OF assms(5)] by (simp_all add: d1_def i_def del: map_of_eq_Some_iff)
  have d: "dev_inv d" "map_of (dv_objects (own d)) i = Some (Entry b)"
    using sendWrites_object [OF d1 assms(6) h(1) _ assms(7)] h(2) by (simp_all add: d_def b_def del: map_of_eq_Some_iff)
  have e: "Object i d = Some (Entry b)" using d(2) h(2) by (simp add: Object_def del: map_of_eq_Some_iff)
  have "entryId d (Entry b) = i" using Object_Entry(2) [OF d(1) e] by simp
  moreover have "\<not> isSpecialProperty (Identifier PresentValue)" by (simp add: isSpecialProperty_def PresentValue_def)
  moreover have "entryRead d (Entry b) PresentValue = Inr (valueInForce k (configuredStates k pc) rd i rs)"
    using pointRun_valueInForce(1) [OF assms(2-4), of i rs] by (simp add: entryRead_def b_def)
  ultimately show ?thesis
    using readProperty_answers [OF e _ _ _ _ assms(9,10) [folded i_def]] assms(8) pointRun_valueInForce(2) [OF assms(2-4), of i rs]
    unfolding Let_def d1_def [symmetric] d_def [symmetric] i_def [symmetric] by simp
qed

text \<open>An analog output that a client commands at priority 8 and, below it, at priority 12.\<close>

definition sampleService :: server_config where
  "sampleService = \<lparr>sc_limits = DefaultDecodeLimits, BeforeWrite = None, hasPrivateTransfer = False, hasTextMessage = False,
     hasTimeSync = False, hasWriteGroup = False\<rparr>"

definition sampleCommand :: "u32 \<Rightarrow> u8 \<Rightarrow> WritePropertyRequest" where
  "sampleCommand f q = \<lparr>wp_Object = \<lparr>oType = 1, Instance = 7\<rparr>, wp_Property = PresentValue, wp_Value = RealValue f, wp_Priority = Some q\<rparr>"

lemma RealValue_wf [simp]: "Kind (RealValue f) = ValueReal" "Elements (RealValue f) = []" "wf_appValue L (RealValue f)"
  by (simp_all add: wf_appValue_def canonicalValue_def fitsLimits_def RealValue_def)

theorem served_present_value_witness:
  "\<exists>(d :: PointState Device) b req ack. NewDevice sampleDevice 0 = Inr d \<and> newPoint 1 kindAnalog False True samplePoint = Some b
    \<and> EncodeReadProperty \<lparr>rp_Object = \<lparr>oType = 1, Instance = 7\<rparr>, rp_Property = PresentValue\<rparr> = Inr req
    \<and> readProperty sampleService req (foldl (sendWrite sampleService) (snd (snd (Device_Add b d))) [sampleCommand 0x3F800000 8, sampleCommand 0x40000000 12])
        = ComplexResult ack
    \<and> DecodeReadPropertyACK ack DefaultDecodeLimits
        = Inr \<lparr>rpa_Object = \<lparr>oType = 1, Instance = 7\<rparr>, rpa_Property = PresentValue, rpa_Value = RealValue 0x3F800000\<rparr>"
proof -
  let ?rs = "[sampleCommand 0x3F800000 8, sampleCommand 0x40000000 12]" and ?i = "\<lparr>oType = 1, Instance = 7\<rparr>"
  obtain d :: "PointState Device" where d: "NewDevice sampleDevice 0 = Inr d" using sampleDevice_new by blast
  have n: "map_option (\<lambda>b. (b_id b, b_name b)) (newPoint 1 kindAnalog False True samplePoint) = Some (?i, [0x70])"
    "f32_exp (cfg_Value samplePoint) < 255" "initialValue kindAnalog samplePoint = Some (RealValue 0x41A00000)"
    "configuredStates kindAnalog samplePoint = 0"
    by code_simp+
  then obtain b where b: "newPoint 1 kindAnalog False True samplePoint = Some b" "b_id b = ?i" "b_name b = [0x70]" by auto
  have v: "valueInForce kindAnalog 0 (RealValue 0x41A00000) ?i ?rs = RealValue 0x3F800000" by code_simp
  have "fst (Device_Add b (devRun d [])) = fst (dirAdd 65535 ?i [0x70] [deviceId sampleDevice \<mapsto> [0x64]])"
    using Add_refines [of d b] NewDevice_inv [OF d] b(2,3)
    by (simp add: devRun_def sampleDevice_def deviceDefaults_def deviceId_def prod_eq_iff)
  then have a: "fst (Device_Add b (devRun d [])) = None" by (simp add: dirAdd_def deviceId_def sampleDevice_def ObjectTypeDevice_def)
  have fits: "list_all (sendable (sc_limits sampleService)) ?rs" "wf_id ?i" "BeforeWrite sampleService = None"
    "fitsSequence (sc_limits sampleService) (readProperty_els \<lparr>rp_Object = ?i, rp_Property = PresentValue\<rparr>)"
    "fitsSequence DefaultDecodeLimits (readPropertyACK_els \<lparr>rpa_Object = ?i, rpa_Property = PresentValue, rpa_Value = RealValue 0x3F800000\<rparr>)"
    by (simp_all add: sendable_def sampleService_def sampleCommand_def PresentValue_def priorityOk_def writeProperty_els_def
        readProperty_els_def readPropertyACK_els_def refEls_def fits_simps)
  show ?thesis
    using served_present_value [OF d b(1) n(2,3) a fits(3,1), unfolded b(2) n(4) v, OF fits(2,4,5)] d b
    by (auto simp: Let_def devRun_def)
qed

section \<open>WritePropertyMultiple\<close>

text \<open>The writes of a request in order, and the device after applying a list of writes that all succeed.\<close>

definition writesOf :: "WriteAccessSpecification list \<Rightarrow> (ObjectIdentifier \<times> WritePropertyValue) list" where
  "writesOf specs = concat (map (\<lambda>sp. map (\<lambda>pv. (was_Object sp, pv)) (was_Properties sp)) specs)"

definition oneWrite :: "server_config \<Rightarrow> ObjectIdentifier \<times> WritePropertyValue \<Rightarrow> 'st Device \<Rightarrow> object_error option \<times> Change list \<times> 'st Device" where
  "oneWrite s x d = srv_write s (fst x) (writeOf (wpv_Property (snd x)) (wpv_Value (snd x)) (wpv_Priority (snd x))) d"

inductive applied :: "server_config \<Rightarrow> (ObjectIdentifier \<times> WritePropertyValue) list \<Rightarrow> 'st Device \<Rightarrow> 'st Device \<Rightarrow> bool" for s where
  applied_none: "applied s [] d d"
| applied_write: "oneWrite s x d = (None, ch, d') \<Longrightarrow> applied s xs d' d'' \<Longrightarrow> applied s (x # xs) d d''"

inductive_simps applied_Nil [simp]: "applied s [] d d'"
inductive_simps applied_Cons [simp]: "applied s (x # xs) d d''"

lemma applied_append: "applied s (xs @ ys) d d'' \<longleftrightarrow> (\<exists>d'. applied s xs d d' \<and> applied s ys d' d'')"
  by (induction xs arbitrary: d) auto

text \<open>Either every write of \<open>xs\<close> is applied, or those before the first that fails are, and the error is of that one.\<close>

definition outcome :: "server_config \<Rightarrow> (ObjectIdentifier \<times> WritePropertyValue) list \<Rightarrow> 'st Device \<Rightarrow> WritePropertyMultipleError option \<Rightarrow> 'st Device \<Rightarrow> bool" where
  "outcome s xs d e d' = (case e of
      None \<Rightarrow> applied s xs d d'
    | Some er \<Rightarrow> \<exists>k < length xs. \<exists>err. applied s (take k xs) d d' \<and> oneWrite s (xs ! k) d' = (Some err, [], d')
        \<and> er = \<lparr>wpme_Class = fst (AsError err), wpme_Code = snd (AsError err), FirstFailed = fst (xs ! k),
                 FirstProperty = wpv_Property (snd (xs ! k))\<rparr>)"

lemma outcome_failed:
  assumes "outcome s xs d (Some e) d'" shows "outcome s (xs @ ys) d (Some e) d'"
proof -
  obtain k err where "k < length xs" "applied s (take k xs) d d'" "oneWrite s (xs ! k) d' = (Some err, [], d')"
    "e = \<lparr>wpme_Class = fst (AsError err), wpme_Code = snd (AsError err), FirstFailed = fst (xs ! k), FirstProperty = wpv_Property (snd (xs ! k))\<rparr>"
    using assms by (auto simp: outcome_def)
  then show ?thesis unfolding outcome_def option.case by (intro exI [of _ k]) (auto simp: nth_append)
qed

lemma outcome_append:
  assumes "applied s xs d d1" "outcome s ys d1 e d'"
  shows "outcome s (xs @ ys) d e d'"
proof (cases e)
  case None
  then show ?thesis using assms by (auto simp: outcome_def applied_append)
next
  case (Some er)
  then obtain k err where k: "k < length ys" "applied s (take k ys) d1 d'" "oneWrite s (ys ! k) d' = (Some err, [], d')"
    "er = \<lparr>wpme_Class = fst (AsError err), wpme_Code = snd (AsError err), FirstFailed = fst (ys ! k), FirstProperty = wpv_Property (snd (ys ! k))\<rparr>"
    using assms(2) by (auto simp: outcome_def)
  then show ?thesis unfolding Some outcome_def option.case
    using assms(1) by (intro exI [of _ "length xs + k"]) (auto simp: applied_append nth_append)
qed

lemma writeValues_outcome:
  assumes "dev_inv d" "dev_props d" "writeValues s i pvs d = (e, ch, d')"
  shows "outcome s (map (\<lambda>pv. (i, pv)) pvs) d e d' \<and> dev_inv d' \<and> dev_props d'"
  using assms
proof (induction pvs arbitrary: d e ch d')
  case Nil
  then show ?case by (simp add: outcome_def)
next
  case (Cons pv pvs)
  obtain err c1 d1 where w: "oneWrite s (i, pv) d = (err, c1, d1)" by (cases "oneWrite s (i, pv) d")
  then have w': "srv_write s i (writeOf (wpv_Property pv) (wpv_Value pv) (wpv_Priority pv)) d = (err, c1, d1)" by (simp add: oneWrite_def)
  have inv: "dev_inv d1" "dev_props d1" using srv_write_inv [OF Cons.prems(1,2) w'] by simp_all
  show ?case
  proof (cases err)
    case (Some er)
    then have "d1 = d" "c1 = []" using srv_write_failed [OF Cons.prems(1)] w' by auto
    then show ?thesis using Cons.prems Some w w' by (auto simp: outcome_def intro!: exI [of _ 0])
  next
    case None
    obtain e2 c2 d2 where r: "writeValues s i pvs d1 = (e2, c2, d2)" by (cases "writeValues s i pvs d1")
    have "applied s [(i, pv)] d d1" using w None by simp
    then show ?thesis using outcome_append [of s "[(i, pv)]" d d1 "map (\<lambda>pv. (i, pv)) pvs"] Cons.IH [OF inv r] Cons.prems(3) None w' r by auto
  qed
qed

lemma writeSpecs_outcome:
  assumes "dev_inv d" "dev_props d" "writeSpecs s specs d = (e, ch, d')"
  shows "outcome s (writesOf specs) d e d'"
  using assms
proof (induction specs arbitrary: d e ch d')
  case Nil
  then show ?case by (simp add: outcome_def writesOf_def)
next
  case (Cons sp specs)
  obtain e1 c1 d1 where w: "writeValues s (was_Object sp) (was_Properties sp) d = (e1, c1, d1)"
    by (cases "writeValues s (was_Object sp) (was_Properties sp) d")
  note o1 = writeValues_outcome [OF Cons.prems(1,2) w]
  have ws: "writesOf (sp # specs) = map (\<lambda>pv. (was_Object sp, pv)) (was_Properties sp) @ writesOf specs" by (simp add: writesOf_def)
  show ?case
  proof (cases e1)
    case (Some er)
    then show ?thesis using outcome_failed o1 Cons.prems(3) w by (auto simp: ws)
  next
    case None
    obtain e2 c2 d2 where r: "writeSpecs s specs d1 = (e2, c2, d2)" by (cases "writeSpecs s specs d1")
    show ?thesis using outcome_append Cons.IH [OF _ _ r] o1 Cons.prems(3) w None r by (auto simp: ws outcome_def [of _ _ _ None])
  qed
qed

lemma wpmError_fits: "wf_id (FirstFailed e) \<Longrightarrow> fitsSequence DefaultDecodeLimits (wpmError_els e)"
  by (cases "ArrayIndex (FirstProperty e)") (simp_all add: wpmError_els_def refEls_def fits_simps)

lemma writesOf_ids: "x \<in> set (writesOf ss) \<Longrightarrow> \<exists>sp \<in> set ss. fst x = was_Object sp"
  by (auto simp: writesOf_def)

text \<open>C11. A WritePropertyMultiple request that a client encodes applies its writes in order. If all succeed it is answered with a
  SimpleACK; otherwise the writes before the first that fails stay applied, that one and the later ones change nothing,
  and the answer is an Error whose body the client decodes to the class and code of that failure, its object and its property.\<close>

theorem served_write_multiple:
  assumes "NewDevice cfg wall = Inr d0" "ss \<noteq> []" "list_all okWriteSpec ss"
    "fitsSequence (sc_limits s) (concat (map writeSpec_els ss))"
  shows "let d = devRun d0 ops; xs = writesOf (map normWriteSpec ss) in
    \<exists>payload res ch d'. EncodeWritePropertyMultiple ss = Inr payload \<and> writePropertyMultiple s payload d = (res, ch, d')
      \<and> (case res of
           SimpleResult \<Rightarrow> applied s xs d d' \<and> result_encode res iid 16 = ([0x20, iid, 16], [], False)
         | _ \<Rightarrow> \<exists>k < length xs. \<exists>err body. applied s (take k xs) d d' \<and> oneWrite s (xs ! k) d' = (Some err, [], d')
             \<and> result_encode res iid 16 = (0x50 # iid # 16 # body, [], False)
             \<and> DecodeWritePropertyMultipleError body DefaultDecodeLimits
                 = Inr \<lparr>wpme_Class = fst (AsError err), wpme_Code = snd (AsError err), FirstFailed = fst (xs ! k),
                        FirstProperty = wpv_Property (snd (xs ! k))\<rparr>)"
proof -
  define d where "d = devRun d0 ops"
  define xs where "xs = writesOf (map normWriteSpec ss)"
  have inv: "dev_inv d" "dev_props d" using devRun_inv [OF NewDevice_inv(1) [OF assms(1)]] by (simp_all add: d_def)
  obtain payload where p: "EncodeWritePropertyMultiple ss = Inr payload"
    "DecodeWritePropertyMultiple payload (sc_limits s) = Inr (map normWriteSpec ss)"
    using writeMultiple.service_roundtrip [of ss "sc_limits s"] assms(2-4) by (auto simp: DecodeWritePropertyMultiple_def)
  obtain e ch d' where w: "writeSpecs s (map normWriteSpec ss) d = (e, ch, d')" by (cases "writeSpecs s (map normWriteSpec ss) d")
  note o = writeSpecs_outcome [OF inv w, folded xs_def]
  show ?thesis
  proof (cases e)
    case None
    then show ?thesis unfolding Let_def d_def [symmetric] xs_def [symmetric] using p w o
      by (auto simp: writePropertyMultiple_def outcome_def result_encode_def AppendSimpleACK_def)
  next
    case (Some er)
    have "FirstFailed er \<in> fst ` set xs" using o Some by (auto simp: outcome_def)
    then have fit: "wf_id (FirstFailed er)"
      using assms(3) writesOf_ids by (fastforce simp: xs_def list_all_iff okWriteSpec_def normWriteSpec_def)
    obtain body where b: "EncodeWritePropertyMultipleError er = Inr body" "DecodeWritePropertyMultipleError body DefaultDecodeLimits = Inr er"
      using wpmError.service_roundtrip [OF fit wpmError_fits [OF fit]] by (auto simp: DecodeWritePropertyMultipleError_def)
    then show ?thesis unfolding Let_def d_def [symmetric] xs_def [symmetric] using p w o Some
      by (auto simp: writePropertyMultiple_def outcome_def result_encode_def AppendError_def)
  qed
qed

theorem served_write_multiple_witness:
  "\<exists>(d :: PointState Device) payload res ch d'. NewDevice sampleDevice 0 = Inr d \<and> EncodeWritePropertyMultiple sampleSpecs = Inr payload
    \<and> writePropertyMultiple sampleService payload d = (res, ch, d') \<and> res \<noteq> Silent"
proof -
  obtain d :: "PointState Device" where d: "NewDevice sampleDevice 0 = Inr d" using sampleDevice_new by blast
  have s: "sampleSpecs \<noteq> []" "list_all okWriteSpec sampleSpecs"
    "fitsSequence (sc_limits sampleService) (concat (map writeSpec_els sampleSpecs))"
    by (simp_all add: sampleService_def sampleSpecs_def okWriteSpec_def priorityOk_def writeSpec_els_def writeValue_els_def refEls_def fits_simps)
  show ?thesis using served_write_multiple [OF d s, of "[]" 7] d
    by (fastforce simp: Let_def devRun_def result_encode_def AppendComplexACK_def split: service_result.splits)
qed

section \<open>Protocol_Services_Supported\<close>

text \<open>A confirmed service is executed exactly when its bit is advertised; any other request is rejected and changes nothing.\<close>

lemma handleConfirmed_advertised:
  assumes "map_of confirmedBits (cr_ServiceChoice req) = Some b"
  shows "serviceEnabled s True (cr_ServiceChoice req) \<longleftrightarrow> b \<in> set (servicesSupported s)"
  using assms unfolding servicesSupported_def confirmedBits_def unconfirmedBits_def initiatedServiceBits_def
  by (auto simp: serviceEnabled_def split: if_splits)

lemma handleConfirmed_unrecognized:
  assumes "\<And>b. map_of confirmedBits (cr_ServiceChoice req) = Some b \<Longrightarrow> b \<notin> set (servicesSupported s)"
  shows "handleConfirmed s other req d = (Failed (RejectWith 9), [], d)"
  using assms handleConfirmed_advertised [of req _ s] by (auto simp: handleConfirmed_def Let_def)

end
