(* ===== verification/Responder.thy ===== *)
theory Responder
  imports Segment_Send Device_Registry
begin

text \<open>
  The server's side of confirmed transactions (\<^verbatim>\<open>server/responder.go\<close>, with \<^verbatim>\<open>peer\<close> of \<^verbatim>\<open>server/packet.go\<close>): repeated
  requests, the reassembly of segmented requests, the choice of the reply form and the loop that sends a segmented
  reply. The table of transactions maps the requester and invoke ID to a transaction; what an operation sends or hands
  to a worker is the list it returns. A worker accepts a request or is busy, as an argument says. The sending loop is a
  machine over the outcomes of its blocking operations.
  Main results: a client's segmented request is executed once and whole, if it arrives before housekeeping drops it and a
  worker takes it, and is refused with an Abort if none does; a transaction is never executed twice at a
  time; a segmented reply ends successfully only when every segment was sent and acknowledged, and transmits a
  bounded number of segments.
\<close>

section \<open>State\<close>

record peer =
  p_immediate :: Endpoint
  p_origin :: Endpoint
  p_source :: Address
  p_broadcast :: bool

text \<open>\<^verbatim>\<open>key\<close> prints origin, source and invoke ID; what the text distinguishes is the key here.\<close>

type_synonym rtx_key = "AddrPort option \<times> addressText \<times> u8"

definition peer_key :: "peer \<Rightarrow> u8 \<Rightarrow> rtx_key" where
  "peer_key p invokeID = (endpointText (p_origin p), addressText (p_source p), invokeID)"

record rtx =
  rt_peer :: peer
  rt_invokeID :: u8
  rt_service :: u8
  rt_content :: bytes
  rt_segmented :: bool
  rt_asm :: Reassembly
  rt_deadline :: "int option" \<comment> \<open>\<open>None\<close>: the zero time\<close>
  rt_header :: ConfirmedRequest
  rt_acks :: "SegmentACK list option" \<comment> \<open>the channel; \<open>None\<close>: nil\<close>
  rt_aborted :: "bool option" \<comment> \<open>whether the channel is closed; \<open>None\<close>: nil\<close>

type_synonym responder = "(rtx_key \<times> rtx) list"

record responder_config =
  rc_segmentation :: bool
  rc_window :: u8
  rc_maxSegments :: int
  rc_maxReassembled :: int
  rc_segmentTimeout :: int
  rc_maxAPDU :: u16
  rc_retries :: int

datatype srv_out = Reply peer bytes | Execute rtx_key ConfirmedRequest

abbreviation (input) "AbortReasonBufferOverflow \<equiv> (1 :: u8)"
abbreviation (input) "AbortReasonSegmentationNotSupported \<equiv> (4 :: u8)"
abbreviation (input) "AbortReasonOutOfResources \<equiv> (9 :: u8)"

definition newResponder :: responder where
  "newResponder = []"

definition rsp_expire :: "int \<Rightarrow> responder \<Rightarrow> responder" where
  "rsp_expire now = filter (\<lambda>(_, t). \<not> (rt_segmented t \<and> (case rt_deadline t of None \<Rightarrow> True | Some d \<Rightarrow> now > d)))"

section \<open>Requests\<close>

definition sendAbort :: "peer \<Rightarrow> u8 \<Rightarrow> u8 \<Rightarrow> srv_out" where
  "sendAbort p invokeID reason = Reply p (AppendAbort [] \<lparr>ap_Server = True, ap_InvokeID = invokeID, ap_Reason = reason\<rparr>)"

definition rsp_segmentACK :: "peer \<Rightarrow> u8 \<Rightarrow> u8 \<Rightarrow> u8 \<Rightarrow> bool \<Rightarrow> srv_out" where
  "rsp_segmentACK p invokeID seq win nak = Reply p (AppendSegmentACK []
     \<lparr>NegativeACK = nak, sg_Server = True, sg_InvokeID = invokeID, sg_SequenceNumber = seq, ActualWindowSize = win\<rparr>)"

definition rsp_execute :: "bool \<Rightarrow> rtx_key \<Rightarrow> rtx \<Rightarrow> bytes \<Rightarrow> responder \<Rightarrow> srv_out list \<times> responder" where
  "rsp_execute accepted key t payload r =
     (let req = (rt_header t)\<lparr>cr_Payload := payload\<rparr> in
      if accepted then ([Execute key req], r)
      else ([sendAbort (rt_peer t) (cr_InvokeID req) AbortReasonOutOfResources], AList.delete key r))"

text \<open>Storing one segment in a transaction that is being reassembled.\<close>

definition storeSegment :: "responder_config \<Rightarrow> int \<Rightarrow> bool \<Rightarrow> ConfirmedRequest \<Rightarrow> peer \<Rightarrow> rtx_key \<Rightarrow> rtx \<Rightarrow> responder \<Rightarrow> srv_out list \<times> responder" where
  "storeSegment cfg now accepted req p key t r =
     (let (outcome, asm) = Add (rt_asm t) (cr_SequenceNumber req) (cr_MoreFollows req) (cr_Payload req) in
      if outcome = OutOfOrder then
        ([rsp_segmentACK p (cr_InvokeID req) (Last asm) (window asm) (cr_SequenceNumber req \<noteq> Last asm)], r)
      else if outcome = TooManySegments \<or> outcome = TooLong then
        ([sendAbort p (cr_InvokeID req) AbortReasonBufferOverflow], AList.delete key r)
      else
        let t = t\<lparr>rt_asm := asm, rt_deadline := Some (now + 2 * rc_segmentTimeout cfg)\<rparr>;
            t = (if outcome = Complete
                 then t\<lparr>rt_segmented := False, rt_content := rt_service t # buf asm,
                        rt_header := (rt_header t)\<lparr>cr_MaxSegments := cr_MaxSegments req, cr_MaxAPDU := cr_MaxAPDU req,
                           cr_SegmentedResponseAccepted := cr_SegmentedResponseAccepted req\<rparr>\<rparr>
                 else t);
            r = AList.update key t r;
            acks = (if outcome \<noteq> Stored then [rsp_segmentACK p (cr_InvokeID req) (cr_SequenceNumber req) (window asm) False] else []) in
        if outcome = Complete then let (out, r) = rsp_execute accepted key t (buf asm) r in (acks @ out, r)
        else (acks, r))"

definition rsp_segment :: "responder_config \<Rightarrow> int \<Rightarrow> bool \<Rightarrow> ConfirmedRequest \<Rightarrow> peer \<Rightarrow> rtx_key \<Rightarrow> responder \<Rightarrow> srv_out list \<times> responder" where
  "rsp_segment cfg now accepted req p key r =
     (if \<not> rc_segmentation cfg then ([sendAbort p (cr_InvokeID req) AbortReasonSegmentationNotSupported], r)
      else if map_of r key = None \<and> cr_SequenceNumber req \<noteq> 0 then
        ([sendAbort p (cr_InvokeID req) AbortReasonInvalidAPDUInThisState], r)
      else
        let t = (case map_of r key of
              Some t \<Rightarrow> t
            | None \<Rightarrow> \<lparr>rt_peer = p, rt_invokeID = cr_InvokeID req, rt_service = cr_ServiceChoice req, rt_content = [], rt_segmented = True,
                rt_asm = NewReassembly (Window (rc_window cfg) (cr_ProposedWindowSize req)) (rc_maxSegments cfg) (rc_maxReassembled cfg),
                rt_deadline = None, rt_header = req, rt_acks = None, rt_aborted = None\<rparr>);
            r = AList.update key t r in
        if \<not> rt_segmented t \<or> rt_acks t \<noteq> None then ([], r)
        else storeSegment cfg now accepted req p key t r)"

definition rsp_confirmed :: "responder_config \<Rightarrow> int \<Rightarrow> bool \<Rightarrow> ConfirmedRequest \<Rightarrow> peer \<Rightarrow> responder \<Rightarrow> srv_out list \<times> responder" where
  "rsp_confirmed cfg now accepted req p r =
     (let key = peer_key p (cr_InvokeID req) in
      if p_broadcast p then ([], r)
      else if cr_SegmentedMessage req then rsp_segment cfg now accepted req p key r
      else if map_of r key \<noteq> None then ([], r)
      else let t = \<lparr>rt_peer = p, rt_invokeID = cr_InvokeID req, rt_service = cr_ServiceChoice req,
             rt_content = cr_ServiceChoice req # cr_Payload req, rt_segmented = False, rt_asm = NewReassembly 1 0 0, rt_deadline = None,
             rt_header = req, rt_acks = None, rt_aborted = None\<rparr> in
        rsp_execute accepted key t (cr_Payload req) (AList.update key t r))"

section \<open>Replies\<close>

definition decodeMaxSegments :: "u8 \<Rightarrow> int" where
  "decodeMaxSegments code =
     (if code = 1 then 2 else if code = 2 then 4 else if code = 3 then 8 else if code = 4 then 16
      else if code = 5 then 32 else if code = 6 then 64 else 0)"

text \<open>
  How \<^verbatim>\<open>finish\<close> answers, given whether the result is silent and how it is encoded. The size of an unsupported
  Max_APDU code is 0.
\<close>

datatype finish_plan = FinishSilent | FinishWhole bytes | FinishRefuse u8 | FinishSegments int int \<comment> \<open>segment size, count\<close>

definition finishPlan :: "responder_config \<Rightarrow> ConfirmedRequest \<Rightarrow> bool \<Rightarrow> bytes \<Rightarrow> bytes \<Rightarrow> bool \<Rightarrow> finish_plan" where
  "finishPlan cfg req silent reply payload cplx =
     (if silent then FinishSilent
      else
        let remoteMax = (case DecodeMaxAPDUSize (cr_MaxAPDU req) of Some n \<Rightarrow> n | None \<Rightarrow> 0);
            limit = uint (min remoteMax (rc_maxAPDU cfg)) in
        if \<not> cplx \<or> int (length reply) \<le> limit then FinishWhole reply
        else if \<not> cr_SegmentedResponseAccepted req \<or> \<not> rc_segmentation cfg then FinishRefuse AbortReasonSegmentationNotSupported
        else
          let segSize = limit - 5; count = Count (int (length payload)) segSize; maxSegs = decodeMaxSegments (cr_MaxSegments req) in
          if (maxSegs > 0 \<and> count > maxSegs) \<or> count > rc_maxSegments cfg \<or> count > 256 then FinishRefuse AbortReasonBufferOverflow
          else FinishSegments segSize count)"

definition rsp_finish :: "finish_plan \<Rightarrow> ConfirmedRequest \<Rightarrow> rtx_key \<Rightarrow> rtx \<Rightarrow> responder \<Rightarrow> srv_out list \<times> responder" where
  "rsp_finish plan req key t r =
     (case plan of
        FinishSilent \<Rightarrow> ([], AList.delete key r)
      | FinishWhole reply \<Rightarrow> ([Reply (rt_peer t) reply], AList.delete key r)
      | FinishRefuse reason \<Rightarrow> ([sendAbort (rt_peer t) (cr_InvokeID req) reason], AList.delete key r)
      | FinishSegments _ _ \<Rightarrow>
          ([], if map_of r key = None then r else AList.update key (t\<lparr>rt_acks := Some [], rt_aborted := Some False\<rparr>) r))"

text \<open>The end of \<^verbatim>\<open>sendSegments\<close>: the deferred removal of the transaction.\<close>

definition rsp_done :: "rtx_key \<Rightarrow> responder \<Rightarrow> responder" where
  "rsp_done = AList.delete"

definition deliverSegmentACK :: "SegmentACK \<Rightarrow> peer \<Rightarrow> responder \<Rightarrow> responder" where
  "deliverSegmentACK ack p r =
     (if sg_Server ack then r
      else let key = peer_key p (sg_InvokeID ack) in
        case map_of r key of
          None \<Rightarrow> r
        | Some t \<Rightarrow>
            (case rt_acks t of
               None \<Rightarrow> r
             | Some ch \<Rightarrow> if length ch < 16 then AList.update key (t\<lparr>rt_acks := Some (ch @ [ack])\<rparr>) r else r))"

definition abortFromClient :: "u8 \<Rightarrow> peer \<Rightarrow> responder \<Rightarrow> responder" where
  "abortFromClient invokeID p r =
     (let key = peer_key p invokeID in
      case map_of r key of
        None \<Rightarrow> r
      | Some t \<Rightarrow>
          (case rt_aborted t of
             None \<Rightarrow> if rt_segmented t then AList.delete key r else r
           | Some _ \<Rightarrow> AList.update key (t\<lparr>rt_aborted := Some True\<rparr>) r))"

section \<open>The loop that sends a segmented reply\<close>

definition replySegment :: "responder_config \<Rightarrow> ConfirmedRequest \<Rightarrow> bytes \<Rightarrow> int \<Rightarrow> int \<Rightarrow> nat \<Rightarrow> bytes" where
  "replySegment cfg req payload segSize count i =
     (let (start, fin) = Bounds (int i) segSize (int (length payload)) in
      AppendComplexACK [] \<lparr>ca_SegmentedMessage = True, ca_MoreFollows = int i < count - 1, ca_InvokeID = cr_InvokeID req,
        ca_SequenceNumber = of_nat i, ca_ProposedWindowSize = rc_window cfg, ca_ServiceChoice = cr_ServiceChoice req,
        ca_Payload = subslice payload (nat start) (nat fin)\<rparr>)"

datatype reply_error = ReplySendErr | ReplyCtx | ErrAborted | ErrSegmentTimeout

datatype reply_event = RSendOk | RSendFails | RCtxDone | RAborted | RTimer | RAck SegmentACK

datatype reply_pc = RSending | RWaiting | RReturned "reply_error option"

record replyLoop =
  rl_pc :: reply_pc
  rl_window :: int
  rl_acked :: int
  rl_retries :: int
  rl_end :: int
  rl_next :: int
  rl_log :: "int list" \<comment> \<open>indices handed to the transport\<close>
  rl_aborts :: "u8 list" \<comment> \<open>reasons of the Aborts sent\<close>

text \<open>The head of the outer loop and of the one that sends a window.\<close>

definition windowHead :: "int \<Rightarrow> replyLoop \<Rightarrow> replyLoop" where
  "windowHead count s =
     (if rl_acked s < count - 1 then
        let e = min (rl_acked s + 1 + rl_window s) count in
        s\<lparr>rl_end := e, rl_next := rl_acked s + 1, rl_pc := (if rl_acked s + 1 < e then RSending else RWaiting)\<rparr>
      else s\<lparr>rl_pc := RReturned None\<rparr>)"

definition replyStart :: "int \<Rightarrow> replyLoop" where
  "replyStart count = windowHead count \<lparr>rl_pc = RWaiting, rl_window = 1, rl_acked = -1, rl_retries = 0, rl_end = 0, rl_next = 0,
     rl_log = [], rl_aborts = []\<rparr>"

definition onReplyAck :: "int \<Rightarrow> SegmentACK \<Rightarrow> replyLoop \<Rightarrow> replyLoop" where
  "onReplyAck count ack s =
     (let s = (if ValidWindow (ActualWindowSize ack) then s\<lparr>rl_window := uint (ActualWindowSize ack)\<rparr> else s);
          base = rl_acked s + 1;
          off = (uint (sg_SequenceNumber ack) - base mod 256 + 256) mod 256;
          n = base + off in
      if n \<ge> rl_end s then s
      else if n > rl_acked s then windowHead count (s\<lparr>rl_acked := n, rl_retries := 0\<rparr>)
      else if \<not> NegativeACK ack then s
      else windowHead count s)"

definition replyStep :: "int \<Rightarrow> int \<Rightarrow> replyLoop \<Rightarrow> reply_event \<Rightarrow> replyLoop" where
  "replyStep retries count s ev =
     (case rl_pc s of
        RReturned _ \<Rightarrow> s
      | RSending \<Rightarrow>
          let s' = s\<lparr>rl_log := rl_log s @ [rl_next s]\<rparr> in
          (case ev of
             RSendOk \<Rightarrow> s'\<lparr>rl_next := rl_next s + 1, rl_pc := (if rl_next s + 1 < rl_end s then RSending else RWaiting)\<rparr>
           | RSendFails \<Rightarrow> s'\<lparr>rl_pc := RReturned (Some ReplySendErr)\<rparr>
           | _ \<Rightarrow> s)
      | RWaiting \<Rightarrow>
          (case ev of
             RCtxDone \<Rightarrow> s\<lparr>rl_pc := RReturned (Some ReplyCtx)\<rparr>
           | RAborted \<Rightarrow> s\<lparr>rl_pc := RReturned (Some ErrAborted)\<rparr>
           | RTimer \<Rightarrow>
               if rl_retries s + 1 > retries
               then s\<lparr>rl_retries := rl_retries s + 1, rl_aborts := rl_aborts s @ [AbortReasonTSMTimeout], rl_pc := RReturned (Some ErrSegmentTimeout)\<rparr>
               else windowHead count (s\<lparr>rl_retries := rl_retries s + 1\<rparr>)
           | RAck ack \<Rightarrow> onReplyAck count ack s
           | _ \<Rightarrow> s))"

definition sendSegments :: "int \<Rightarrow> int \<Rightarrow> reply_event list \<Rightarrow> replyLoop" where
  "sendSegments retries count = foldl (replyStep retries count) (replyStart count)"

section \<open>The loop sends what it must, and ends\<close>

definition sent_upto :: "int \<Rightarrow> replyLoop \<Rightarrow> bool" where
  "sent_upto h s \<longleftrightarrow> set (rl_log s) = {0..<h}"

definition wf_reply :: "int \<Rightarrow> replyLoop \<Rightarrow> bool" where
  "wf_reply count s \<longleftrightarrow> 1 \<le> rl_window s \<and> rl_window s \<le> 127 \<and> -1 \<le> rl_acked s \<and> rl_acked s < count
     \<and> (\<exists>h. sent_upto h s \<and> rl_acked s < h \<and> h \<le> count
         \<and> (case rl_pc s of
              RSending \<Rightarrow> rl_acked s < rl_next s \<and> rl_next s < rl_end s \<and> rl_next s \<le> h \<and> rl_end s \<le> count
            | RWaiting \<Rightarrow> rl_acked s < rl_end s - 1 \<and> rl_end s \<le> h
            | RReturned None \<Rightarrow> rl_acked s = count - 1
            | RReturned (Some _) \<Rightarrow> True))"

lemma wf_windowHead:
  assumes "1 \<le> rl_window s" "rl_window s \<le> 127" "-1 \<le> rl_acked s" "rl_acked s < count" "sent_upto h s" "rl_acked s < h" "h \<le> count"
  shows "wf_reply count (windowHead count s)"
proof (cases "rl_acked s < count - 1")
  case True
  then show ?thesis
    using assms by (auto simp: wf_reply_def windowHead_def Let_def sent_upto_def)
next
  case False
  then show ?thesis using assms by (auto simp: wf_reply_def windowHead_def sent_upto_def)
qed

lemma ValidWindow_range: "ValidWindow w \<Longrightarrow> 1 \<le> uint w \<and> uint w \<le> 127"
  by (auto simp: ValidWindow_def MaxWindow_def word_le_def word_less_def)

lemma sent_upto_snoc: "sent_upto h s \<Longrightarrow> 0 \<le> i \<Longrightarrow> i \<le> h \<Longrightarrow> sent_upto (max h (i + 1)) (s\<lparr>rl_log := rl_log s @ [i]\<rparr>)"
  by (auto simp: sent_upto_def)

lemma sent_upto_more: "rl_log s' = rl_log s \<Longrightarrow> sent_upto h s' = sent_upto h s"
  by (simp add: sent_upto_def)

lemma wf_onReplyAck:
  assumes "wf_reply count s" "rl_pc s = RWaiting"
  shows "wf_reply count (onReplyAck count ack s)"
proof -
  define s1 where "s1 = (if ValidWindow (ActualWindowSize ack) then s\<lparr>rl_window := uint (ActualWindowSize ack)\<rparr> else s)"
  define n where "n = rl_acked s + 1 + (uint (sg_SequenceNumber ack) - (rl_acked s + 1) mod 256 + 256) mod 256"
  obtain h where h: "sent_upto h s" "rl_acked s < h" "h \<le> count" "rl_acked s < rl_end s - 1" "rl_end s \<le> h"
    and b: "1 \<le> rl_window s" "rl_window s \<le> 127" "-1 \<le> rl_acked s" "rl_acked s < count"
    using assms by (auto simp: wf_reply_def)
  have s1: "rl_acked s1 = rl_acked s" "rl_end s1 = rl_end s" "rl_log s1 = rl_log s" "rl_pc s1 = RWaiting" "1 \<le> rl_window s1" "rl_window s1 \<le> 127"
    using assms(2) b ValidWindow_range [of "ActualWindowSize ack"] by (auto simp: s1_def)
  have n: "rl_acked s < n" by (simp add: n_def)
  have e: "onReplyAck count ack s = (if n \<ge> rl_end s then s1 else windowHead count (s1\<lparr>rl_acked := n, rl_retries := 0\<rparr>))"
    using n s1 unfolding onReplyAck_def Let_def s1_def [symmetric] by (simp add: n_def)
  have "wf_reply count s1"
    unfolding wf_reply_def using s1 b h by (auto simp: sent_upto_more [of s1 s])
  moreover have "wf_reply count (windowHead count (s1\<lparr>rl_acked := n, rl_retries := 0\<rparr>))" if "n < rl_end s"
    using s1 b h n that by (intro wf_windowHead [where h = h]) (auto simp: sent_upto_def)
  ultimately show ?thesis unfolding e by auto
qed

lemma wf_replyStep:
  assumes "wf_reply count s"
  shows "wf_reply count (replyStep retries count s ev)"
proof (cases "rl_pc s")
  case RSending
  then obtain h where h: "sent_upto h s" "rl_acked s < h" "h \<le> count" "rl_acked s < rl_next s" "rl_next s < rl_end s" "rl_next s \<le> h"
      "rl_end s \<le> count"
    and b: "1 \<le> rl_window s" "rl_window s \<le> 127" "-1 \<le> rl_acked s" "rl_acked s < count"
    using assms by (auto simp: wf_reply_def)
  have "sent_upto (max h (rl_next s + 1)) (s\<lparr>rl_log := rl_log s @ [rl_next s]\<rparr>)" using h b by (intro sent_upto_snoc) auto
  then show ?thesis
    using RSending h b assms
    by (cases ev) (auto simp: replyStep_def wf_reply_def sent_upto_def intro!: exI [of _ "max h (rl_next s + 1)"])
next
  case RWaiting
  then obtain h where h: "sent_upto h s" "rl_acked s < h" "h \<le> count"
    and b: "1 \<le> rl_window s" "rl_window s \<le> 127" "-1 \<le> rl_acked s" "rl_acked s < count"
    using assms by (auto simp: wf_reply_def)
  have "wf_reply count (windowHead count (s\<lparr>rl_retries := k\<rparr>))" for k
    using b h by (intro wf_windowHead [where h = h]) (auto simp: sent_upto_def)
  moreover have "wf_reply count (s\<lparr>rl_pc := RReturned (Some e)\<rparr>)" "wf_reply count (s\<lparr>rl_retries := k, rl_aborts := as, rl_pc := RReturned (Some e)\<rparr>)" for e k as
    using b h by (auto simp: wf_reply_def sent_upto_def)
  ultimately show ?thesis
    using RWaiting assms wf_onReplyAck [OF assms RWaiting] by (cases ev) (auto simp: replyStep_def)
next
  case (RReturned e)
  then show ?thesis using assms by (simp add: replyStep_def)
qed

lemma wf_replyStart: "1 \<le> count \<Longrightarrow> wf_reply count (replyStart count)"
  unfolding replyStart_def by (rule wf_windowHead [where h = 0]) (auto simp: sent_upto_def)

text \<open>
  The windows started so far: each acknowledgment that makes progress starts one, each retry another, and the
  retries are counted from the last progress.
\<close>

definition windows :: "int \<Rightarrow> replyLoop \<Rightarrow> int" where
  "windows retries s = (rl_acked s + 1) * (retries + 1) + rl_retries s + 1"

definition unsent :: "replyLoop \<Rightarrow> int" where
  "unsent s = (if rl_pc s = RSending then rl_end s - rl_next s else 0)"

definition reply_budget :: "int \<Rightarrow> int \<Rightarrow> replyLoop \<Rightarrow> bool" where
  "reply_budget retries count s \<longleftrightarrow>
     (case rl_pc s of
        RReturned _ \<Rightarrow> int (length (rl_log s)) \<le> 127 * (count * (retries + 1))
      | _ \<Rightarrow> 0 \<le> rl_retries s \<and> rl_retries s \<le> retries \<and> rl_acked s < count - 1
          \<and> int (length (rl_log s)) + unsent s \<le> 127 * windows retries s)"

lemma windows_le: "0 \<le> retries \<Longrightarrow> rl_retries s \<le> retries \<Longrightarrow> rl_acked s < count - 1 \<Longrightarrow> windows retries s \<le> count * (retries + 1)"
proof -
  assume r: "0 \<le> retries" "rl_retries s \<le> retries" "rl_acked s < count - 1"
  have "(rl_acked s + 1) * (retries + 1) \<le> (count - 1) * (retries + 1)" using r by (intro mult_right_mono) auto
  then show ?thesis using r by (simp add: windows_def algebra_simps)
qed

lemma budget_windowHead:
  assumes "0 \<le> rl_retries s" "rl_retries s \<le> retries" "rl_window s \<le> 127" "rl_acked s < count"
    "rl_acked s = count - 1 \<Longrightarrow> rl_retries s = 0" "int (length (rl_log s)) \<le> 127 * (windows retries s - 1)"
  shows "reply_budget retries count (windowHead count s)"
proof (cases "rl_acked s < count - 1")
  case True
  then show ?thesis using assms by (auto simp: reply_budget_def windowHead_def Let_def unsent_def windows_def)
next
  case False
  then have "rl_acked s + 1 = count" "rl_retries s = 0" using assms(4,5) by auto
  then show ?thesis using assms(6) by (simp add: reply_budget_def windowHead_def windows_def)
qed

lemma budget_onReplyAck:
  assumes "wf_reply count s" "reply_budget retries count s" "rl_pc s = RWaiting"
  shows "reply_budget retries count (onReplyAck count ack s)"
proof -
  define s1 where "s1 = (if ValidWindow (ActualWindowSize ack) then s\<lparr>rl_window := uint (ActualWindowSize ack)\<rparr> else s)"
  define n where "n = rl_acked s + 1 + (uint (sg_SequenceNumber ack) - (rl_acked s + 1) mod 256 + 256) mod 256"
  have r: "0 \<le> rl_retries s" "rl_retries s \<le> retries" "int (length (rl_log s)) \<le> 127 * windows retries s"
    using assms(2,3) by (auto simp: reply_budget_def unsent_def)
  have s1: "rl_acked s1 = rl_acked s" "rl_end s1 = rl_end s" "rl_log s1 = rl_log s" "rl_pc s1 = RWaiting" "rl_retries s1 = rl_retries s" "rl_window s1 \<le> 127"
    using assms(1,3) ValidWindow_range [of "ActualWindowSize ack"] by (auto simp: s1_def wf_reply_def)
  have n: "rl_acked s < n" by (simp add: n_def)
  have e: "onReplyAck count ack s = (if n \<ge> rl_end s then s1 else windowHead count (s1\<lparr>rl_acked := n, rl_retries := 0\<rparr>))"
    using n s1 unfolding onReplyAck_def Let_def s1_def [symmetric] by (simp add: n_def)
  have "reply_budget retries count s1"
    using assms(2,3) s1 by (simp add: reply_budget_def unsent_def windows_def)
  moreover have "reply_budget retries count (windowHead count (s1\<lparr>rl_acked := n, rl_retries := 0\<rparr>))" if "n < rl_end s"
  proof (rule budget_windowHead)
    have "(rl_acked s + 2) * (retries + 1) \<le> (n + 1) * (retries + 1)" using n r by (intro mult_right_mono) auto
    then show "int (length (rl_log (s1\<lparr>rl_acked := n, rl_retries := 0\<rparr>))) \<le> 127 * (windows retries (s1\<lparr>rl_acked := n, rl_retries := 0\<rparr>) - 1)"
      using r by (simp add: s1 windows_def algebra_simps)
    show "rl_acked (s1\<lparr>rl_acked := n, rl_retries := 0\<rparr>) < count" using that assms(1,3) by (auto simp: wf_reply_def)
  qed (use r s1 in auto)
  ultimately show ?thesis unfolding e by auto
qed

lemma budget_replyStep:
  assumes "wf_reply count s" "reply_budget retries count s" "0 \<le> retries"
  shows "reply_budget retries count (replyStep retries count s ev)"
proof (cases "rl_pc s")
  case RSending
  have r: "0 \<le> rl_retries s" "rl_retries s \<le> retries" "rl_acked s < count - 1"
      "int (length (rl_log s)) + (rl_end s - rl_next s) \<le> 127 * windows retries s" "rl_next s < rl_end s"
    using assms(1,2) RSending by (auto simp: reply_budget_def unsent_def wf_reply_def)
  have w: "windows retries s \<le> count * (retries + 1)" using windows_le [of retries s count] assms(3) r by simp
  show ?thesis
    using RSending r w by (cases ev) (auto simp: replyStep_def reply_budget_def unsent_def windows_def)
next
  case RWaiting
  have r: "0 \<le> rl_retries s" "rl_retries s \<le> retries" "rl_acked s < count - 1" "int (length (rl_log s)) \<le> 127 * windows retries s"
    using assms(2) RWaiting by (auto simp: reply_budget_def unsent_def)
  have w: "windows retries s \<le> count * (retries + 1)" using windows_le [of retries s count] assms(3) r by simp
  have "reply_budget retries count (windowHead count (s\<lparr>rl_retries := rl_retries s + 1\<rparr>))" if "rl_retries s + 1 \<le> retries"
    using r that assms(1) by (intro budget_windowHead) (auto simp: wf_reply_def windows_def)
  then show ?thesis
    using RWaiting r w budget_onReplyAck [OF assms(1,2) RWaiting] assms(2) by (cases ev) (auto simp: replyStep_def reply_budget_def)
next
  case (RReturned e)
  then show ?thesis using assms(2) by (simp add: replyStep_def)
qed

lemma sendSegments_inv:
  assumes "1 \<le> count" "0 \<le> retries"
  shows "wf_reply count (sendSegments retries count evs) \<and> reply_budget retries count (sendSegments retries count evs)"
proof -
  have "reply_budget retries count (replyStart count)"
    unfolding replyStart_def using assms by (intro budget_windowHead) (auto simp: windows_def)
  then have i: "wf_reply count (replyStart count) \<and> reply_budget retries count (replyStart count)"
    using wf_replyStart [OF assms(1)] by simp
  have "wf_reply count (foldl (replyStep retries count) s evs) \<and> reply_budget retries count (foldl (replyStep retries count) s evs)"
    if "wf_reply count s \<and> reply_budget retries count s" for s
    using that by (induction evs arbitrary: s) (simp_all add: wf_replyStep budget_replyStep assms(2))
  then show ?thesis using i by (simp add: sendSegments_def)
qed

text \<open>C22. A segmented reply is complete or has failed, and never runs away: whatever the sequence of sends, acknowledgments,
  timeouts and aborts, if the loop returns success then every segment was handed to the transport and acknowledged; and
  in all cases the number of transmissions stays below 127 segments for every retry of every
  segment.\<close>

theorem segmented_reply_sound:
  assumes "1 \<le> count" "0 \<le> retries"
  shows "(rl_pc (sendSegments retries count evs) = RReturned None \<longrightarrow>
       set (rl_log (sendSegments retries count evs)) = {0..<count} \<and> rl_acked (sendSegments retries count evs) = count - 1)
    \<and> int (length (rl_log (sendSegments retries count evs))) \<le> 127 * (count * (retries + 1))"
proof -
  let ?s = "sendSegments retries count evs"
  have w: "wf_reply count ?s" and b: "reply_budget retries count ?s" using sendSegments_inv [OF assms] by auto
  have "set (rl_log ?s) = {0..<count} \<and> rl_acked ?s = count - 1" if r: "rl_pc ?s = RReturned None"
  proof -
    obtain h where "sent_upto h ?s" "rl_acked ?s < h" "h \<le> count" "rl_acked ?s = count - 1" using w r by (auto simp: wf_reply_def)
    moreover from this have "h = count" by simp
    ultimately show ?thesis by (simp add: sent_upto_def)
  qed
  moreover have "int (length (rl_log ?s)) \<le> 127 * (count * (retries + 1))"
  proof (cases "rl_pc ?s")
    case (RReturned e)
    then show ?thesis using b by (simp add: reply_budget_def)
  next
    case RSending
    then have "windows retries ?s \<le> count * (retries + 1)" "int (length (rl_log ?s)) \<le> 127 * windows retries ?s"
      using b w windows_le [of retries ?s count] assms(2) by (auto simp: reply_budget_def unsent_def wf_reply_def)
    then show ?thesis by linarith
  next
    case RWaiting
    then have "windows retries ?s \<le> count * (retries + 1)" "int (length (rl_log ?s)) \<le> 127 * windows retries ?s"
      using b windows_le [of retries ?s count] assms(2) by (auto simp: reply_budget_def unsent_def)
    then show ?thesis by linarith
  qed
  ultimately show ?thesis by blast
qed

theorem segmented_reply_sound_witness:
  "rl_pc (sendSegments 3 2 [RSendOk, RTimer, RSendOk, RAck \<lparr>NegativeACK = False, sg_Server = False, sg_InvokeID = 1, sg_SequenceNumber = 0, ActualWindowSize = 4\<rparr>,
      RSendOk, RAck \<lparr>NegativeACK = False, sg_Server = False, sg_InvokeID = 1, sg_SequenceNumber = 1, ActualWindowSize = 4\<rparr>]) = RReturned None
    \<and> set (rl_log (sendSegments 3 2 [RSendOk, RTimer, RSendOk, RAck \<lparr>NegativeACK = False, sg_Server = False, sg_InvokeID = 1, sg_SequenceNumber = 0, ActualWindowSize = 4\<rparr>,
      RSendOk, RAck \<lparr>NegativeACK = False, sg_Server = False, sg_InvokeID = 1, sg_SequenceNumber = 1, ActualWindowSize = 4\<rparr>])) = {0..<2}"
proof -
  let ?e = "[RSendOk, RTimer, RSendOk, RAck \<lparr>NegativeACK = False, sg_Server = False, sg_InvokeID = 1, sg_SequenceNumber = 0, ActualWindowSize = 4\<rparr>,
      RSendOk, RAck \<lparr>NegativeACK = False, sg_Server = False, sg_InvokeID = 1, sg_SequenceNumber = 1, ActualWindowSize = 4\<rparr>]"
  have "rl_pc (sendSegments 3 2 ?e) = RReturned None" by code_simp
  then show ?thesis using segmented_reply_sound [of 2 3 ?e] by simp
qed

section \<open>One execution at a time\<close>

definition executing :: "responder \<Rightarrow> rtx_key \<Rightarrow> bool" where
  "executing r k \<longleftrightarrow> (case map_of r k of Some t \<Rightarrow> \<not> rt_segmented t | None \<Rightarrow> False)"

definition executes :: "srv_out list \<Rightarrow> rtx_key set" where
  "executes outs = {k. \<exists>q. Execute k q \<in> set outs}"

lemma executes_simps [simp]:
  "executes [] = {}" "executes (Execute k q # xs) = insert k (executes xs)" "executes (Reply p b # xs) = executes xs"
  "executes (xs @ ys) = executes xs \<union> executes ys"
  "executes (sendAbort p i a # xs) = executes xs" "executes (rsp_segmentACK p i sq w n # xs) = executes xs"
  by (auto simp: executes_def sendAbort_def rsp_segmentACK_def)

lemma table_updates [simp]:
  "map_of (AList.update k v r) j = (if j = k then Some v else map_of r j)"
  "map_of (AList.delete k r) j = (if j = k then None else map_of r j)"
  by (simp_all add: update_conv' delete_conv')

lemma executing_updates [simp]:
  "executing (AList.update k t r) j = (if j = k then \<not> rt_segmented t else executing r j)"
  "executing (AList.delete k r) j = (j \<noteq> k \<and> executing r j)"
  by (simp_all add: executing_def)

lemma executing_Some: "map_of r k = Some t \<Longrightarrow> executing r k \<longleftrightarrow> \<not> rt_segmented t"
  by (simp add: executing_def)

lemma rsp_execute_effect:
  assumes "rsp_execute acc key t payload r = (outs, r')" "map_of r key = Some t" "\<not> rt_segmented t"
  shows "distinct (map fst r) \<longrightarrow> distinct (map fst r')" "\<And>k. k \<noteq> key \<Longrightarrow> map_of r' k = map_of r k"
    "executing r' key \<longleftrightarrow> executes outs = {key}" "executes outs \<subseteq> {key}" "length outs = 1"
  using assms by (auto simp: rsp_execute_def Let_def executing_def distinct_delete split: if_splits)

lemma storeSegment_effect:
  assumes "storeSegment cfg now acc req p key t r = (outs, r')" "map_of r key = Some t" "rt_segmented t"
  shows "(distinct (map fst r) \<longrightarrow> distinct (map fst r')) \<and> (\<forall>k. k \<noteq> key \<longrightarrow> map_of r' k = map_of r k)
    \<and> (executing r' key \<longleftrightarrow> executes outs = {key}) \<and> executes outs \<subseteq> {key}"
proof -
  obtain outcome asm where a: "Add (rt_asm t) (cr_SequenceNumber req) (cr_MoreFollows req) (cr_Payload req) = (outcome, asm)" by force
  define t1 where "t1 = t\<lparr>rt_asm := asm, rt_deadline := Some (now + 2 * rc_segmentTimeout cfg)\<rparr>"
  define t2 where "t2 = t1\<lparr>rt_segmented := False, rt_content := rt_service t1 # buf asm,
                        rt_header := (rt_header t1)\<lparr>cr_MaxSegments := cr_MaxSegments req, cr_MaxAPDU := cr_MaxAPDU req,
                           cr_SegmentedResponseAccepted := cr_SegmentedResponseAccepted req\<rparr>\<rparr>"
  have t: "rt_segmented t1" "\<not> rt_segmented t2" using assms(3) by (simp_all add: t1_def t2_def)
  obtain o2 r2 where x: "rsp_execute acc key t2 (buf asm) (AList.update key t2 r) = (o2, r2)" by force
  note f = rsp_execute_effect [OF x _ t(2)]
  have e: "storeSegment cfg now acc req p key t r =
     (if outcome = OutOfOrder then
        ([rsp_segmentACK p (cr_InvokeID req) (Last asm) (window asm) (cr_SequenceNumber req \<noteq> Last asm)], r)
      else if outcome = TooManySegments \<or> outcome = TooLong then
        ([sendAbort p (cr_InvokeID req) AbortReasonBufferOverflow], AList.delete key r)
      else if outcome = Complete then ([rsp_segmentACK p (cr_InvokeID req) (cr_SequenceNumber req) (window asm) False] @ o2, r2)
      else (if outcome \<noteq> Stored then [rsp_segmentACK p (cr_InvokeID req) (cr_SequenceNumber req) (window asm) False] else [],
            AList.update key t1 r))"
    unfolding storeSegment_def a by (simp add: Let_def t1_def [symmetric] t2_def [symmetric] x)
  show ?thesis
  proof (cases "outcome = Complete")
    case True
    then have "outs = [rsp_segmentACK p (cr_InvokeID req) (cr_SequenceNumber req) (window asm) False] @ o2" "r' = r2"
      using assms(1) unfolding e by simp_all
    then show ?thesis using f by (simp add: distinct_update)
  next
    case False
    then have "executes outs = {} \<and> r' \<in> {r, AList.delete key r, AList.update key t1 r}"
      using assms(1) unfolding e by (auto split: if_splits)
    then show ?thesis using assms(2,3) t(1) by (auto simp: executing_def distinct_delete distinct_update)
  qed
qed

lemma rsp_confirmed_effect:
  assumes "rsp_confirmed cfg now acc req p r = (outs, r')"
  defines "key \<equiv> peer_key p (cr_InvokeID req)"
  shows "(distinct (map fst r) \<longrightarrow> distinct (map fst r')) \<and> (\<forall>k. k \<noteq> key \<longrightarrow> map_of r' k = map_of r k)
    \<and> executes outs \<subseteq> {key} \<and> (executes outs = {key} \<longrightarrow> \<not> executing r key \<and> executing r' key)
    \<and> (executes outs = {} \<longrightarrow> executing r' key = executing r key)"
proof (cases "p_broadcast p \<or> (\<not> cr_SegmentedMessage req \<and> map_of r key \<noteq> None)")
  case True
  then have "outs = []" "r' = r" using assms(1) by (auto simp: rsp_confirmed_def Let_def key_def split: if_splits)
  then show ?thesis by simp
next
  case False
  show ?thesis
  proof (cases "cr_SegmentedMessage req")
    case True
    then have sg: "rsp_segment cfg now acc req p key r = (outs, r')" using False assms(1) by (simp add: rsp_confirmed_def Let_def key_def)
    show ?thesis
    proof (cases "\<not> rc_segmentation cfg \<or> (map_of r key = None \<and> cr_SequenceNumber req \<noteq> 0)")
      case True
      then have "executes outs = {} \<and> r' = r" using sg by (auto simp: rsp_segment_def split: if_splits)
      then show ?thesis by simp
    next
      case False
      define t where "t = (case map_of r key of Some t \<Rightarrow> t
            | None \<Rightarrow> \<lparr>rt_peer = p, rt_invokeID = cr_InvokeID req, rt_service = cr_ServiceChoice req, rt_content = [], rt_segmented = True,
                rt_asm = NewReassembly (Window (rc_window cfg) (cr_ProposedWindowSize req)) (rc_maxSegments cfg) (rc_maxReassembled cfg),
                rt_deadline = None, rt_header = req, rt_acks = None, rt_aborted = None\<rparr>)"
      have s: "(if \<not> rt_segmented t \<or> rt_acks t \<noteq> None then ([], AList.update key t r)
          else storeSegment cfg now acc req p key t (AList.update key t r)) = (outs, r')"
        using sg False by (auto simp: rsp_segment_def Let_def t_def split: if_splits)
      have ex: "executing r key \<longleftrightarrow> \<not> rt_segmented t" by (auto simp: executing_def t_def split: option.split)
      show ?thesis
      proof (cases "\<not> rt_segmented t \<or> rt_acks t \<noteq> None")
        case True
        then show ?thesis using s ex by (auto simp: executing_def distinct_update)
      next
        case False
        then have "storeSegment cfg now acc req p key t (AList.update key t r) = (outs, r')" "rt_segmented t" using s by auto
        from storeSegment_effect [OF this(1) _ this(2)] ex this(2) show ?thesis
          by (auto simp: distinct_update)
      qed
    qed
  next
    case plain: False
    define t where "t = \<lparr>rt_peer = p, rt_invokeID = cr_InvokeID req, rt_service = cr_ServiceChoice req,
             rt_content = cr_ServiceChoice req # cr_Payload req, rt_segmented = False, rt_asm = NewReassembly 1 0 0, rt_deadline = None,
             rt_header = req, rt_acks = None, rt_aborted = None\<rparr>"
    have x: "rsp_execute acc key t (cr_Payload req) (AList.update key t r) = (outs, r')" and n: "map_of r key = None"
      using assms(1) False plain by (auto simp: rsp_confirmed_def Let_def key_def t_def)
    have "\<not> executing r key" using n by (simp add: executing_def)
    then show ?thesis using rsp_execute_effect [OF x] by (auto simp: t_def distinct_update)
  qed
qed

text \<open>
  The histories of a responder: requests, expiry, the worker's end of an execution, the end of a segmented reply,
  SegmentACKs and aborts, in any order. \<open>E\<close> are the transactions a worker is busy with.
\<close>

inductive rsp_reach :: "responder_config \<Rightarrow> rtx_key set \<Rightarrow> responder \<Rightarrow> bool" for cfg where
  start: "rsp_reach cfg {} newResponder"
| request: "rsp_reach cfg E r \<Longrightarrow> rsp_confirmed cfg now acc req p r = (outs, r') \<Longrightarrow> rsp_reach cfg (E \<union> executes outs) r'"
| expire: "rsp_reach cfg E r \<Longrightarrow> rsp_reach cfg E (rsp_expire now r)"
| finish: "rsp_reach cfg E r \<Longrightarrow> k \<in> E \<Longrightarrow> map_of r k = Some t \<Longrightarrow> \<not> (\<exists>sz n. plan = FinishSegments sz n) \<Longrightarrow>
    rsp_reach cfg (E - {k}) (snd (rsp_finish plan req k t r))"
| reply_segments: "rsp_reach cfg E r \<Longrightarrow> k \<in> E \<Longrightarrow> map_of r k = Some t \<Longrightarrow> rsp_reach cfg E (snd (rsp_finish (FinishSegments sz n) req k t r))"
| replied: "rsp_reach cfg E r \<Longrightarrow> k \<in> E \<Longrightarrow> rsp_reach cfg (E - {k}) (rsp_done k r)"
| ack_in: "rsp_reach cfg E r \<Longrightarrow> rsp_reach cfg E (deliverSegmentACK ack p r)"
| abort_in: "rsp_reach cfg E r \<Longrightarrow> rsp_reach cfg E (abortFromClient i p r)"

lemma rsp_reach_inv:
  assumes "rsp_reach cfg E r"
  shows "distinct (map fst r) \<and> E = {k. executing r k}"
  using assms
proof induction
  case start
  then show ?case by (simp add: newResponder_def executing_def)
next
  case (request E r now acc req p outs r')
  note f = rsp_confirmed_effect [OF request.hyps(2)]
  have "executing r' k \<longleftrightarrow> executing r k \<or> k \<in> executes outs" for k
  proof (cases "k = peer_key p (cr_InvokeID req)")
    case True
    then show ?thesis using f by auto
  next
    case False
    then have "map_of r' k = map_of r k" "k \<notin> executes outs" using f by blast+
    then show ?thesis by (simp add: executing_def)
  qed
  moreover have "distinct (map fst r')" using f request.IH by blast
  ultimately show ?case using request.IH by blast
next
  case (expire E r now)
  then show ?case
    by (auto simp: rsp_expire_def executing_def map_of_filter_snd distinct_map_filter split: option.splits)
next
  case (finish E r k t plan req)
  have "snd (rsp_finish plan req k t r) = AList.delete k r" using finish.hyps by (cases plan) (auto simp: rsp_finish_def)
  then show ?case using finish.IH by (auto simp: distinct_delete)
next
  case (reply_segments E r k t sz n req)
  then have "snd (rsp_finish (FinishSegments sz n) req k t r) = AList.update k (t\<lparr>rt_acks := Some [], rt_aborted := Some False\<rparr>) r"
    by (simp add: rsp_finish_def)
  then show ?case using reply_segments.IH executing_Some [OF reply_segments.hyps(3)] by (auto simp: distinct_update)
next
  case (replied E r k)
  then show ?case by (auto simp: rsp_done_def distinct_delete)
next
  case (ack_in E r ack p)
  have "executing (deliverSegmentACK ack p r) = executing r \<and> distinct (map fst (deliverSegmentACK ack p r))"
    using ack_in.IH executing_Some [of r "peer_key p (sg_InvokeID ack)"]
    by (cases "map_of r (peer_key p (sg_InvokeID ack))") (auto simp: deliverSegmentACK_def Let_def distinct_update fun_eq_iff split: option.split)
  then show ?case using ack_in.IH by simp
next
  case (abort_in E r i p)
  have "executing (abortFromClient i p r) = executing r \<and> distinct (map fst (abortFromClient i p r))"
    using abort_in.IH executing_Some [of r "peer_key p i"]
    by (cases "map_of r (peer_key p i)") (auto simp: abortFromClient_def Let_def distinct_update distinct_delete fun_eq_iff split: option.split)
  then show ?case using abort_in.IH by simp
qed

text \<open>C13. A confirmed request is never executed twice at a time: in every history of the responder, a request that is handed to a
  worker belongs to a transaction no worker is busy with, whatever repetitions, stray segments, aborts and expiries went
  before; and the transactions the table holds as executing are exactly those a worker is busy with.\<close>

theorem executed_once_at_a_time:
  assumes "rsp_reach cfg E r" "rsp_confirmed cfg now acc req p r = (outs, r')"
  shows "E = {k. executing r k} \<and> (\<forall>k q. Execute k q \<in> set outs \<longrightarrow> k = peer_key p (cr_InvokeID req) \<and> k \<notin> E)"
proof -
  have "E = {k. executing r k}" using rsp_reach_inv [OF assms(1)] by simp
  moreover have "k = peer_key p (cr_InvokeID req) \<and> \<not> executing r k" if "Execute k q \<in> set outs" for k q
  proof -
    have "k \<in> executes outs" using that by (auto simp: executes_def)
    with rsp_confirmed_effect [OF assms(2)] show ?thesis by auto
  qed
  ultimately show ?thesis by auto
qed

definition samplePeer :: peer where
  "samplePeer = \<lparr>p_immediate = NewEndpoint (V4 (10, 0, 0, 2) 47808), p_origin = NewEndpoint (V4 (10, 0, 0, 2) 47808),
     p_source = zeroAddress, p_broadcast = False\<rparr>"

definition sampleServer :: responder_config where
  "sampleServer = \<lparr>rc_segmentation = True, rc_window = 4, rc_maxSegments = 64, rc_maxReassembled = 65535, rc_segmentTimeout = 2000000000,
     rc_maxAPDU = 1476, rc_retries = 3\<rparr>"

definition sampleRequest :: ConfirmedRequest where
  "sampleRequest = \<lparr>cr_SegmentedMessage = False, cr_MoreFollows = False, cr_SegmentedResponseAccepted = True, cr_MaxSegments = 0,
     cr_MaxAPDU = 3, cr_InvokeID = 7, cr_SequenceNumber = 0, cr_ProposedWindowSize = 0, cr_ServiceChoice = 15, cr_Payload = [1, 2, 3, 4, 5]\<rparr>"

theorem executed_once_at_a_time_witness:
  "\<exists>r. rsp_reach sampleServer {peer_key samplePeer 7} r
     \<and> (\<forall>k q. Execute k q \<in> set (fst (rsp_confirmed sampleServer 5 True sampleRequest samplePeer r)) \<longrightarrow> k \<notin> {peer_key samplePeer 7})"
proof -
  obtain outs r where r: "rsp_confirmed sampleServer 0 True sampleRequest samplePeer newResponder = (outs, r)" by force
  have "fst (rsp_confirmed sampleServer 0 True sampleRequest samplePeer newResponder) = [Execute (peer_key samplePeer 7) sampleRequest]"
    by code_simp
  then have e: "rsp_reach sampleServer {peer_key samplePeer 7} r"
    using rsp_reach.request [OF rsp_reach.start r] r by simp
  obtain o2 r2 where c: "rsp_confirmed sampleServer 5 True sampleRequest samplePeer r = (o2, r2)" by force
  from executed_once_at_a_time [OF e c] have "\<forall>k q. Execute k q \<in> set o2 \<longrightarrow> k \<notin> {peer_key samplePeer 7}" by blast
  with e c show ?thesis by (metis fst_conv)
qed

section \<open>A client's segments at the server\<close>

text \<open>
  The history of the server while one requester sends to it: a frame arrives at its time, and a worker can take the request
  it may complete or not; before it arrives housekeeping may have run any number of times, each dropping the
  reassemblies whose segment timer has expired.
\<close>

record arrival =
  ar_housekeeping :: "int list"
  ar_time :: int
  ar_accepted :: bool
  ar_frame :: bytes

definition serveFrame :: "responder_config \<Rightarrow> DecodeLimits \<Rightarrow> peer \<Rightarrow> srv_out list \<times> responder \<Rightarrow> arrival \<Rightarrow> srv_out list \<times> responder" where
  "serveFrame cfg L p = (\<lambda>(outs, r) a.
     let r = foldl (\<lambda>r now. rsp_expire now r) r (ar_housekeeping a) in
     case apdu_Parse (ar_frame a) L of
       Inr (PConfirmedRequest q) \<Rightarrow> (let (o2, r) = rsp_confirmed cfg (ar_time a) (ar_accepted a) q p r in (outs @ o2, r))
     | _ \<Rightarrow> (outs, r))"

text \<open>Housekeeping reads no clock later than \<open>d\<close> after the frame before it.\<close>

fun timely :: "int \<Rightarrow> arrival list \<Rightarrow> bool" where
  "timely d (a # b # as) \<longleftrightarrow> (\<forall>h \<in> set (ar_housekeeping b). h \<le> ar_time a + d) \<and> timely d (b # as)"
| "timely d _ \<longleftrightarrow> True"

definition isExecute :: "srv_out \<Rightarrow> bool" where
  "isExecute x = (case x of Execute _ _ \<Rightarrow> True | Reply _ _ \<Rightarrow> False)"

lemma isExecute_simps [simp]: "isExecute (Execute k q)" "\<not> isExecute (Reply p b)" "\<not> isExecute (sendAbort p i a)" "\<not> isExecute (rsp_segmentACK p i sq w n)"
  by (simp_all add: isExecute_def sendAbort_def rsp_segmentACK_def)

text \<open>What the server knows of the request after \<open>k\<close> of its segments.\<close>

definition reassembling :: "responder_config \<Rightarrow> ConfirmedRequest \<Rightarrow> int \<Rightarrow> nat \<Rightarrow> rtx \<Rightarrow> bool" where
  "reassembling cfg req sz k t \<longleftrightarrow> rt_segmented t \<and> rt_acks t = None \<and> cr_ServiceChoice (rt_header t) = cr_ServiceChoice req
     \<and> cr_InvokeID (rt_header t) = cr_InvokeID req
     \<and> segments (rt_asm t) = int k \<and> expected (rt_asm t) = of_nat k \<and> maxSegments (rt_asm t) = rc_maxSegments cfg
     \<and> maxOctets (rt_asm t) = rc_maxReassembled cfg \<and> buf (rt_asm t) = concat (map (segmentAt (cr_Payload req) sz) [0..<k])"

lemma parse_segment:
  assumes "windowOk w" "cr_MaxAPDU req AND 0x0F \<le> 5" "1 \<le> sz" "sz + 6 \<le> MaxAPDUSize (Normalize L)"
  shows "\<exists>q. apdu_Parse (AppendConfirmedRequest [] (confirmedSegment req w sz c i)) L = Inr (PConfirmedRequest q)
    \<and> cr_SegmentedMessage q \<and> cr_SequenceNumber q = of_nat i \<and> cr_MoreFollows q = (int i < c - 1)
    \<and> cr_Payload q = segmentAt (cr_Payload req) sz i \<and> cr_ServiceChoice q = cr_ServiceChoice req \<and> cr_InvokeID q = cr_InvokeID req
    \<and> cr_SegmentedResponseAccepted q = cr_SegmentedResponseAccepted req"
proof -
  have "cr_ServiceChoice (confirmedSegment req w sz c i) = cr_ServiceChoice req" "cr_InvokeID (confirmedSegment req w sz c i) = cr_InvokeID req"
    "cr_SegmentedResponseAccepted (confirmedSegment req w sz c i) = cr_SegmentedResponseAccepted req"
    by (simp_all add: confirmedSegment_def Let_def case_prod_beta)
  then show ?thesis
    using apdu_Parse_appendPDU [of "PConfirmedRequest (confirmedSegment req w sz c i)" L] assms length_confirmedSegment [OF assms(3), of req w c i]
    by (simp add: confirmedSegment_payload)
qed

text \<open>Housekeeping leaves a reassembly alone whose deadline has not passed.\<close>

lemma map_of_filter_kept: "map_of xs k = Some v \<Longrightarrow> P (k, v) \<Longrightarrow> map_of (filter P xs) k = Some v"
  by (induction xs) (auto split: if_splits)

lemma map_of_filter_None: "map_of xs k = None \<Longrightarrow> map_of (filter P xs) k = None"
  by (induction xs) (auto split: if_splits)

lemma housekeeping_keeps:
  "map_of r key = None \<Longrightarrow> map_of (foldl (\<lambda>r now. rsp_expire now r) r hs) key = None"
  "map_of r key = Some t \<Longrightarrow> rt_deadline t = Some d \<Longrightarrow> \<forall>h \<in> set hs. h \<le> d \<Longrightarrow>
     map_of (foldl (\<lambda>r now. rsp_expire now r) r hs) key = Some t"
  by (induction hs arbitrary: r) (auto simp: rsp_expire_def map_of_filter_kept map_of_filter_None)

text \<open>Before the next arrival: nothing is known of the request, or it is being reassembled and housekeeping has not dropped it.\<close>

definition awaiting :: "responder_config \<Rightarrow> peer \<Rightarrow> ConfirmedRequest \<Rightarrow> int \<Rightarrow> nat \<Rightarrow> arrival \<Rightarrow> responder \<Rightarrow> bool" where
  "awaiting cfg p req sz k a r \<longleftrightarrow>
     (case map_of r (peer_key p (cr_InvokeID req)) of
        None \<Rightarrow> k = 0
      | Some t \<Rightarrow> reassembling cfg req sz k t \<and> rt_peer t = p
          \<and> (\<exists>d. rt_deadline t = Some d \<and> (\<forall>h \<in> set (ar_housekeeping a). h \<le> d)))"

text \<open>What the complete request leads to.\<close>

definition delivered :: "peer \<Rightarrow> ConfirmedRequest \<Rightarrow> bool \<Rightarrow> bytes \<Rightarrow> srv_out list \<times> responder \<Rightarrow> bool" where
  "delivered p req accepted payload = (\<lambda>(outs, r).
     if accepted
     then \<exists>x. filter isExecute outs = [Execute (peer_key p (cr_InvokeID req)) x] \<and> cr_ServiceChoice x = cr_ServiceChoice req
        \<and> cr_InvokeID x = cr_InvokeID req \<and> cr_SegmentedResponseAccepted x = cr_SegmentedResponseAccepted req \<and> cr_Payload x = payload
     else filter isExecute outs = [] \<and> sendAbort p (cr_InvokeID req) AbortReasonOutOfResources \<in> set outs
        \<and> map_of r (peer_key p (cr_InvokeID req)) = None)"

lemma storeSegment_next:
  assumes "reassembling cfg req sz k t" "rt_peer t = p" "cr_SequenceNumber q = of_nat k" "cr_Payload q = segmentAt (cr_Payload req) sz k"
    "int (Suc k) \<le> rc_maxSegments cfg" "int (length (concat (map (segmentAt (cr_Payload req) sz) [0..<Suc k]))) \<le> rc_maxReassembled cfg"
    "cr_SegmentedResponseAccepted q = cr_SegmentedResponseAccepted req"
    "storeSegment cfg now accepted q p (peer_key p (cr_InvokeID req)) t r = (outs, r')"
  shows "cr_MoreFollows q \<Longrightarrow> filter isExecute outs = [] \<and> (\<exists>t'. map_of r' (peer_key p (cr_InvokeID req)) = Some t' \<and> reassembling cfg req sz (Suc k) t'
      \<and> rt_peer t' = p \<and> rt_deadline t' = Some (now + 2 * rc_segmentTimeout cfg))"
    and "\<not> cr_MoreFollows q \<Longrightarrow> delivered p req accepted (concat (map (segmentAt (cr_Payload req) sz) [0..<Suc k])) (outs, r')"
proof -
  obtain outcome asm where a: "Add (rt_asm t) (cr_SequenceNumber q) (cr_MoreFollows q) (cr_Payload q) = (outcome, asm)" by force
  let ?a = "rt_asm t" and ?key = "peer_key p (cr_InvokeID req)"
  have lim: "segments ?a < maxSegments ?a" "int (length (buf ?a) + length (cr_Payload q)) \<le> maxOctets ?a"
    and ex: "cr_SequenceNumber q = expected ?a"
    using assms(1,3-6) by (auto simp: reassembling_def)
  note e = Add_expected(1-5) [OF lim, of "cr_MoreFollows q", folded ex, unfolded a snd_conv]
  have oc: "cr_MoreFollows q \<Longrightarrow> outcome = Stored \<or> outcome = StoredAck" "\<not> cr_MoreFollows q \<Longrightarrow> outcome = Complete"
    using a ex lim by (auto simp: Add_def Let_def split: if_splits)
  have b: "buf asm = concat (map (segmentAt (cr_Payload req) sz) [0..<Suc k])" using e(1) assms(1,4) by (simp add: reassembling_def)
  define t1 where "t1 = t\<lparr>rt_asm := asm, rt_deadline := Some (now + 2 * rc_segmentTimeout cfg)\<rparr>"
  show "filter isExecute outs = [] \<and> (\<exists>t'. map_of r' ?key = Some t' \<and> reassembling cfg req sz (Suc k) t'
      \<and> rt_peer t' = p \<and> rt_deadline t' = Some (now + 2 * rc_segmentTimeout cfg))" if m: "cr_MoreFollows q"
  proof -
    have "r' = AList.update ?key t1 r" "filter isExecute outs = []"
      using assms(8) oc(1) [OF m] a unfolding storeSegment_def t1_def by (auto simp: Let_def)
    moreover have "reassembling cfg req sz (Suc k) t1"
      using assms(1,3) e b by (auto simp: reassembling_def t1_def add.commute)
    moreover have "rt_peer t1 = p" "rt_deadline t1 = Some (now + 2 * rc_segmentTimeout cfg)" using assms(2) by (simp_all add: t1_def)
    ultimately show ?thesis by simp
  qed
  show "delivered p req accepted (concat (map (segmentAt (cr_Payload req) sz) [0..<Suc k])) (outs, r')" if m: "\<not> cr_MoreFollows q"
    using assms(1,2,7,8) oc(2) [OF m] a b unfolding storeSegment_def reassembling_def
    by (auto simp: Let_def rsp_execute_def delivered_def delete_conv')
qed

lemma rsp_confirmed_next:
  assumes "\<not> p_broadcast p" "rc_segmentation cfg" "cr_SegmentedMessage q" "cr_InvokeID q = cr_InvokeID req" "cr_ServiceChoice q = cr_ServiceChoice req"
    "cr_SequenceNumber q = of_nat k" "awaiting cfg p req sz k a r"
    "rsp_confirmed cfg now accepted q p (foldl (\<lambda>r now. rsp_expire now r) r (ar_housekeeping a)) = (outs, r')"
  shows "\<exists>t r0. storeSegment cfg now accepted q p (peer_key p (cr_InvokeID req)) t r0 = (outs, r') \<and> reassembling cfg req sz k t \<and> rt_peer t = p"
proof -
  let ?key = "peer_key p (cr_InvokeID req)" and ?r = "foldl (\<lambda>r now. rsp_expire now r) r (ar_housekeeping a)"
  have sg: "rsp_segment cfg now accepted q p ?key ?r = (outs, r')" using assms(1,3,4,8) by (simp add: rsp_confirmed_def Let_def)
  show ?thesis
  proof (cases "map_of r ?key")
    case None
    then have n: "k = 0" "map_of ?r ?key = None" using assms(7) housekeeping_keeps(1) by (simp_all add: awaiting_def)
    define t where "t = \<lparr>rt_peer = p, rt_invokeID = cr_InvokeID q, rt_service = cr_ServiceChoice q, rt_content = [], rt_segmented = True,
                rt_asm = NewReassembly (Window (rc_window cfg) (cr_ProposedWindowSize q)) (rc_maxSegments cfg) (rc_maxReassembled cfg),
                rt_deadline = None, rt_header = q, rt_acks = None, rt_aborted = None\<rparr>"
    have "storeSegment cfg now accepted q p ?key t (AList.update ?key t ?r) = (outs, r')"
      using sg n assms(2,6) by (simp add: rsp_segment_def Let_def t_def)
    moreover have "reassembling cfg req sz k t" "rt_peer t = p" using n assms(4,5) by (simp_all add: reassembling_def t_def NewReassembly_def)
    ultimately show ?thesis by blast
  next
    case (Some t)
    then have t: "map_of ?r ?key = Some t" "reassembling cfg req sz k t" "rt_peer t = p"
      using assms(7) housekeeping_keeps(2) [OF Some] by (auto simp: awaiting_def)
    have "storeSegment cfg now accepted q p ?key t (AList.update ?key t ?r) = (outs, r')"
      using sg t assms(2) by (simp add: rsp_segment_def Let_def reassembling_def)
    then show ?thesis using t(2,3) by blast
  qed
qed

lemma delivered_append:
  "filter isExecute outs = [] \<Longrightarrow> delivered p req accepted payload (o2, r) \<Longrightarrow> delivered p req accepted payload (outs @ o2, r)"
  by (auto simp: delivered_def split: if_splits)

lemma serve_segments:
  assumes "windowOk w" "cr_MaxAPDU req AND 0x0F \<le> 5" "1 \<le> sz" "sz + 6 \<le> MaxAPDUSize (Normalize L)" "\<not> p_broadcast p" "rc_segmentation cfg"
    "int n \<le> rc_maxSegments cfg" "int (length (concat (map (segmentAt (cr_Payload req) sz) [0..<n]))) \<le> rc_maxReassembled cfg"
    "k < n" "map ar_frame as = map (\<lambda>i. AppendConfirmedRequest [] (confirmedSegment req w sz (int n) i)) [k..<n]"
    "timely (2 * rc_segmentTimeout cfg) as" "awaiting cfg p req sz k (hd as) r" "filter isExecute outs = []"
  shows "delivered p req (ar_accepted (last as)) (concat (map (segmentAt (cr_Payload req) sz) [0..<n])) (foldl (serveFrame cfg L p) (outs, r) as)"
  using assms(9-13)
proof (induction "n - k" arbitrary: k as outs r)
  case (Suc m)
  have u: "[k..<n] = k # [Suc k..<n]" using Suc.prems(1) by (simp add: upt_conv_Cons)
  obtain a as' where as: "as = a # as'" "ar_frame a = AppendConfirmedRequest [] (confirmedSegment req w sz (int n) k)"
    "map ar_frame as' = map (\<lambda>i. AppendConfirmedRequest [] (confirmedSegment req w sz (int n) i)) [Suc k..<n]"
    using Suc.prems(2) unfolding u by (cases as) simp_all
  obtain q where q: "apdu_Parse (AppendConfirmedRequest [] (confirmedSegment req w sz (int n) k)) L = Inr (PConfirmedRequest q)"
    "cr_SegmentedMessage q" "cr_SequenceNumber q = of_nat k" "cr_MoreFollows q = (int k < int n - 1)"
    "cr_Payload q = segmentAt (cr_Payload req) sz k" "cr_ServiceChoice q = cr_ServiceChoice req" "cr_InvokeID q = cr_InvokeID req"
    "cr_SegmentedResponseAccepted q = cr_SegmentedResponseAccepted req"
    using parse_segment [OF assms(1-4), of "int n" k] by blast
  obtain o2 r2 where x: "rsp_confirmed cfg (ar_time a) (ar_accepted a) q p (foldl (\<lambda>r now. rsp_expire now r) r (ar_housekeeping a)) = (o2, r2)" by force
  have aw: "awaiting cfg p req sz k a r" using Suc.prems(4) as(1) by simp
  obtain t r0 where t: "storeSegment cfg (ar_time a) (ar_accepted a) q p (peer_key p (cr_InvokeID req)) t r0 = (o2, r2)"
    "reassembling cfg req sz k t" "rt_peer t = p"
    using rsp_confirmed_next [OF assms(5,6) q(2,7,6,3) aw x] by blast
  have "concat (map (segmentAt (cr_Payload req) sz) [0..<n]) = concat (map (segmentAt (cr_Payload req) sz) ([0..<Suc k] @ [Suc k..<n]))"
    using Suc.prems(1) by (metis Suc_leI upt_add_eq_append le_add_diff_inverse zero_le)
  then have lim: "int (Suc k) \<le> rc_maxSegments cfg" "int (length (concat (map (segmentAt (cr_Payload req) sz) [0..<Suc k]))) \<le> rc_maxReassembled cfg"
    using assms(7,8) Suc.prems(1) by (auto simp del: upt_Suc)
  note nx = storeSegment_next [OF t(2,3) q(3,5) lim q(8) t(1)]
  have f: "serveFrame cfg L p (outs, r) a = (outs @ o2, r2)" by (simp add: serveFrame_def as(2) q(1) x Let_def)
  show ?case
  proof (cases "Suc k < n")
    case True
    then obtain b bs where b: "as' = b # bs" using as(3) by (cases as') (auto simp: upt_conv_Cons)
    have "filter isExecute o2 = []" "awaiting cfg p req sz (Suc k) b r2"
      using nx(1) q(4) True Suc.prems(3) by (auto simp: awaiting_def as(1) b)
    then have "delivered p req (ar_accepted (last as')) (concat (map (segmentAt (cr_Payload req) sz) [0..<n])) (foldl (serveFrame cfg L p) (outs @ o2, r2) as')"
      using Suc.hyps(1) [of "Suc k" as' r2 "outs @ o2"] Suc.hyps(2) Suc.prems(3,5) True as(1,3) b by simp
    then show ?thesis by (simp add: as(1) b f)
  next
    case False
    then have n: "Suc k = n" "\<not> cr_MoreFollows q" using Suc.prems(1) q(4) by auto
    then have "as' = []" using as(3) by simp
    then show ?thesis
      using delivered_append [OF Suc.prems(5) nx(2) [OF n(2)]] n(1) by (simp add: as(1) f del: upt_Suc)
  qed
qed simp

text \<open>C10. Client and server agree on segmented requests. The segments a client cuts from a request reach the server in order and fit
  its limits; between them housekeeping may drop stale reassemblies any number of times, reading no clock more than two segment
  timeouts after the segment before. If the queue of the workers then takes the complete request, the server hands exactly
  one request to a worker, under the key of that requester and invoke ID, with the service, the payload and the acceptance of
  segmented responses of the original request; if not, it executes nothing, forgets the request and answers with an Abort.\<close>

theorem server_executes_request:
  assumes "buildConfirmedSegments req remoteMax w = Inr segs" "cr_MaxAPDU req AND 0x0F \<le> 5" "remoteMax \<le> MaxAPDUSize (Normalize L)"
    "int (length segs) \<le> rc_maxSegments cfg" "int (length (cr_Payload req)) \<le> rc_maxReassembled cfg"
    "rc_segmentation cfg" "\<not> p_broadcast p" "map_of r (peer_key p (cr_InvokeID req)) = None"
    "map ar_frame as = segs" "timely (2 * rc_segmentTimeout cfg) as" "foldl (serveFrame cfg L p) ([], r) as = (outs, r')"
  shows "if ar_accepted (last as)
    then \<exists>x. filter isExecute outs = [Execute (peer_key p (cr_InvokeID req)) x] \<and> cr_ServiceChoice x = cr_ServiceChoice req
        \<and> cr_InvokeID x = cr_InvokeID req \<and> cr_SegmentedResponseAccepted x = cr_SegmentedResponseAccepted req \<and> cr_Payload x = cr_Payload req
    else filter isExecute outs = [] \<and> sendAbort p (cr_InvokeID req) AbortReasonOutOfResources \<in> set outs
        \<and> map_of r' (peer_key p (cr_InvokeID req)) = None"
proof -
  obtain sz v n where s: "1 \<le> sz" "remoteMax = sz + 6" "windowOk v" "0 < n" "int n = Count (int (length (cr_Payload req))) sz"
    "segs = map (\<lambda>i. AppendConfirmedRequest [] (confirmedSegment req v sz (int n) i)) [0..<n]"
    using buildConfirmedSegments_eq [OF assms(1)] by blast
  have c: "concat (map (segmentAt (cr_Payload req) sz) [0..<n]) = cr_Payload req"
    using concat_segments [OF s(1), of "cr_Payload req"] unfolding segmentList_def s(5) [symmetric] by simp
  have "delivered p req (ar_accepted (last as)) (concat (map (segmentAt (cr_Payload req) sz) [0..<n])) (foldl (serveFrame cfg L p) ([], r) as)"
  proof (rule serve_segments [OF s(3) assms(2) s(1) _ assms(7,6) _ _ s(4)])
    show "sz + 6 \<le> MaxAPDUSize (Normalize L)" using assms(3) s(2) by simp
    show "int n \<le> rc_maxSegments cfg" using assms(4) by (simp add: s(6))
    show "int (length (concat (map (segmentAt (cr_Payload req) sz) [0..<n]))) \<le> rc_maxReassembled cfg" unfolding c by (rule assms(5))
    show "map ar_frame as = map (\<lambda>i. AppendConfirmedRequest [] (confirmedSegment req v sz (int n) i)) [0..<n]" using assms(9) s(6) by simp
    show "awaiting cfg p req sz 0 (hd as) r" using assms(8) by (simp add: awaiting_def)
  qed (use assms(10) in simp_all)
  then show ?thesis unfolding c assms(11) by (simp add: delivered_def)
qed

text \<open>Three segments, with housekeeping after the second.\<close>

definition sampleArrivals :: "bytes list \<Rightarrow> arrival list" where
  "sampleArrivals = map2 (\<lambda>t bs. \<lparr>ar_housekeeping = (if t = 20 then [15, 18] else []), ar_time = t, ar_accepted = True, ar_frame = bs\<rparr>) [0, 10, 20]"

theorem server_executes_request_witness:
  "\<exists>x segs outs r'. buildConfirmedSegments sampleRequest 8 4 = Inr segs \<and> length segs = 3
    \<and> foldl (serveFrame sampleServer DefaultDecodeLimits samplePeer) ([], newResponder) (sampleArrivals segs) = (outs, r')
    \<and> filter isExecute outs = [Execute (peer_key samplePeer 7) x] \<and> cr_Payload x = [1, 2, 3, 4, 5]"
proof -
  let ?segs = "[[14, 3, 7, 0, 4, 15, 1, 2], [14, 3, 7, 1, 4, 15, 3, 4], [10, 3, 7, 2, 4, 15, 5 :: u8]]"
  have b: "buildConfirmedSegments sampleRequest 8 4 = Inr ?segs"
    by code_simp
  have side: "cr_MaxAPDU sampleRequest AND 0x0F \<le> 5" "8 \<le> MaxAPDUSize (Normalize DefaultDecodeLimits)"
    "int (length ?segs) \<le> rc_maxSegments sampleServer"
    "int (length (cr_Payload sampleRequest)) \<le> rc_maxReassembled sampleServer" "rc_segmentation sampleServer" "\<not> p_broadcast samplePeer"
    "map_of newResponder (peer_key samplePeer (cr_InvokeID sampleRequest)) = None"
    "map ar_frame (sampleArrivals ?segs) = ?segs" "timely (2 * rc_segmentTimeout sampleServer) (sampleArrivals ?segs)"
    by (simp_all add: sampleRequest_def sampleServer_def samplePeer_def newResponder_def DefaultDecodeLimits_def Normalize_def withDefaults_def Let_def
        sampleArrivals_def)
  have i: "cr_InvokeID sampleRequest = 7" "cr_Payload sampleRequest = [1, 2, 3, 4, 5]" "ar_accepted (last (sampleArrivals ?segs))"
    by (simp_all add: sampleRequest_def sampleArrivals_def)
  obtain outs r' where run: "foldl (serveFrame sampleServer DefaultDecodeLimits samplePeer) ([], newResponder) (sampleArrivals ?segs) = (outs, r')" by force
  from server_executes_request [OF b side run] i obtain x where
    "filter isExecute outs = [Execute (peer_key samplePeer 7) x]" "cr_Payload x = [1, 2, 3, 4, 5]" by auto
  moreover have "length ?segs = 3" by simp
  ultimately show ?thesis using b run by blast
qed

end
