(* ===== verification/Discovery.thy ===== *)
theory Discovery
  imports Handlers Responder Bbmd
begin

text \<open>
  Discovery: the codecs of Who-Is, I-Am (\<^verbatim>\<open>service/discovery.go\<close>), Who-Has and I-Have (\<^verbatim>\<open>service/who_has.go\<close>), the
  handlers that answer them (\<^verbatim>\<open>whoIs\<close>, \<^verbatim>\<open>sendIAm\<close>, \<^verbatim>\<open>whoHas\<close> of \<^verbatim>\<open>server/handlers_data.go\<close>) and the sending of their
  answers (\<^verbatim>\<open>reply\<close>, \<^verbatim>\<open>sendAPDU\<close>, \<^verbatim>\<open>broadcastAPDU\<close> of \<^verbatim>\<open>server/packet.go\<close>). The packet an answer is sent in is the result of a
  handler; a send that fails is ignored by the source.
  Main results: a device answers a Who-Is exactly when its instance is in the range, and a Who-Has only when its
  instance is in the range and its directory has the object; where the datagram goes, and what the asking client decodes of it.
\<close>

section \<open>Who-Is and I-Am\<close>

record WhoIs =
  wi_LowLimit :: "u32 option"
  wi_HighLimit :: "u32 option"

definition EncodeWhoIs :: "WhoIs \<Rightarrow> bytes result" where
  "EncodeWhoIs req = (case (wi_LowLimit req, wi_HighLimit req) of
      (None, None) \<Rightarrow> Inr []
    | (Some lo, Some hi) \<Rightarrow> rbind (AppendContextUnsigned [] 0 (ucast lo)) (\<lambda>dst. AppendContextUnsigned dst 1 (ucast hi))
    | _ \<Rightarrow> Inl ErrMalformed)"

fun whoIs_loop :: "u32 option \<Rightarrow> u32 option \<Rightarrow> Element list \<Rightarrow> WhoIs result" where
  "whoIs_loop lo hi [] =
     (if (lo \<noteq> None) \<noteq> (hi \<noteq> None) then Inl ErrMalformed
      else if lo \<noteq> None \<and> the lo > the hi then Inl ErrMalformed
      else Inr \<lparr>wi_LowLimit = lo, wi_HighLimit = hi\<rparr>)"
| "whoIs_loop lo hi (el # els) =
     (if TagNumber el = 0 then
        if lo \<noteq> None then Inl ErrMalformed
        else rbind (ContextUnsigned el) (\<lambda>v. if v > 0xFFFFFFFF then Inl ErrMalformed else whoIs_loop (Some (ucast v)) hi els)
      else if TagNumber el = 1 then
        if hi \<noteq> None then Inl ErrMalformed
        else rbind (ContextUnsigned el) (\<lambda>v. if v > 0xFFFFFFFF then Inl ErrMalformed else whoIs_loop lo (Some (ucast v)) els)
      else Inl ErrMalformed)"

definition DecodeWhoIs :: "bytes \<Rightarrow> DecodeLimits \<Rightarrow> WhoIs result" where
  "DecodeWhoIs payload limits =
     (if payload = [] then Inr \<lparr>wi_LowLimit = None, wi_HighLimit = None\<rparr>
      else rbind (wholeSequence payload limits) (whoIs_loop None None))"

record IAm =
  ia_Device :: ObjectIdentifier
  ia_MaxAPDULength :: u16
  ia_Segmentation :: u8
  ia_VendorID :: u16

definition EncodeIAm :: "IAm \<Rightarrow> bytes result" where
  "EncodeIAm msg =
     rbind (AppendApplicationValue [] (ObjectIDValue (ia_Device msg))) (\<lambda>dst.
     rbind (AppendApplicationValue dst (UnsignedValue (ucast (ia_MaxAPDULength msg)))) (\<lambda>dst.
     rbind (AppendApplicationValue dst (EnumValue (ucast (ia_Segmentation msg)))) (\<lambda>dst.
       AppendApplicationValue dst (UnsignedValue (ucast (ia_VendorID msg))))))"

text \<open>The next application value of a payload and the offset after it.\<close>

definition nextValue :: "bytes \<Rightarrow> DecodeLimits \<Rightarrow> nat \<Rightarrow> (ApplicationValue \<times> nat) result" where
  "nextValue payload limits off = rmap (\<lambda>(v, n). (v, off + n)) (ParseApplicationValue (drop off payload) limits)"

definition checkIAm :: "ApplicationValue \<Rightarrow> ApplicationValue \<Rightarrow> ApplicationValue \<Rightarrow> ApplicationValue \<Rightarrow> IAm result" where
  "checkIAm device maxAPDU seg vendor =
     rbind (AsObjectID device) (\<lambda>i.
       if oType i \<noteq> ObjectTypeDevice then Inl ErrMalformed
       else if Kind maxAPDU \<noteq> ValueUnsigned then Inl ErrMalformed
       else if Unsigned (Fields maxAPDU) > 0xFFFF then Inl ErrMalformed
       else case AsEnumerated seg of
           Inl _ \<Rightarrow> Inl ErrMalformed
         | Inr segU \<Rightarrow>
             if segU > 3 then Inl ErrMalformed
             else if Kind vendor \<noteq> ValueUnsigned then Inl ErrMalformed
             else if Unsigned (Fields vendor) > 0xFFFF then Inl ErrMalformed
             else Inr \<lparr>ia_Device = i, ia_MaxAPDULength = ucast (Unsigned (Fields maxAPDU)), ia_Segmentation = ucast segU,
                       ia_VendorID = ucast (Unsigned (Fields vendor))\<rparr>)"

definition DecodeIAm :: "bytes \<Rightarrow> DecodeLimits \<Rightarrow> IAm result" where
  "DecodeIAm payload limits =
     rbind (nextValue payload limits 0) (\<lambda>(device, off).
     rbind (nextValue payload limits off) (\<lambda>(maxAPDU, off).
     rbind (nextValue payload limits off) (\<lambda>(seg, off).
     rbind (nextValue payload limits off) (\<lambda>(vendor, off).
       if off \<noteq> length payload then Inl ErrTrailingData else checkIAm device maxAPDU seg vendor))))"

definition EncodeWhoIsAPDU :: "WhoIs \<Rightarrow> bytes result" where
  "EncodeWhoIsAPDU req = rbind (EncodeWhoIs req) (\<lambda>payload. Inr (AppendUnconfirmedRequest [] \<lparr>ur_ServiceChoice = 8, ur_Payload = payload\<rparr>))"

definition EncodeIAmAPDU :: "IAm \<Rightarrow> bytes result" where
  "EncodeIAmAPDU msg = rbind (EncodeIAm msg) (\<lambda>payload. Inr (AppendUnconfirmedRequest [] \<lparr>ur_ServiceChoice = 0, ur_Payload = payload\<rparr>))"

section \<open>Who-Has and I-Have\<close>

record WhoHas =
  wh_LowLimit :: "u32 option"
  wh_HighLimit :: "u32 option"
  wh_Object :: "ObjectIdentifier option"
  wh_Name :: "CharacterString option"

definition EncodeWhoHas :: "WhoHas \<Rightarrow> bytes result" where
  "EncodeWhoHas req =
     (if (wh_Object req \<noteq> None) = (wh_Name req \<noteq> None) then Inl ErrMalformed
      else if (wh_LowLimit req = None) \<noteq> (wh_HighLimit req = None) then Inl ErrMalformed
      else if wh_LowLimit req \<noteq> None \<and> the (wh_LowLimit req) > the (wh_HighLimit req) then Inl ErrMalformed
      else
        rbind (case (wh_LowLimit req, wh_HighLimit req) of
                 (Some lo, Some hi) \<Rightarrow> rbind (AppendContextUnsigned [] 0 (ucast lo)) (\<lambda>dst. AppendContextUnsigned dst 1 (ucast hi))
               | _ \<Rightarrow> Inr []) (\<lambda>dst.
          case wh_Object req of
            Some i \<Rightarrow> AppendContextObjectID dst 2 i
          | None \<Rightarrow> AppendContextCharacterString dst 3 (the (wh_Name req))))"

fun whoHas_loop :: "WhoHas \<Rightarrow> Element list \<Rightarrow> WhoHas result" where
  "whoHas_loop w [] =
     (if (wh_LowLimit w \<noteq> None) \<noteq> (wh_HighLimit w \<noteq> None) then Inl ErrMalformed
      else if wh_LowLimit w \<noteq> None \<and> the (wh_LowLimit w) > the (wh_HighLimit w) then Inl ErrMalformed
      else if (wh_Object w \<noteq> None) = (wh_Name w \<noteq> None) then Inl ErrMalformed
      else Inr w)"
| "whoHas_loop w (el # els) =
     (if TagNumber el = 0 \<and> \<not> IsContextConstructed el then
        if wh_LowLimit w \<noteq> None then Inl ErrMalformed
        else rbind (ContextUnsigned el) (\<lambda>v.
          if v > 0xFFFFFFFF then Inl ErrMalformed else whoHas_loop (w\<lparr>wh_LowLimit := Some (ucast v)\<rparr>) els)
      else if TagNumber el = 1 \<and> \<not> IsContextConstructed el then
        if wh_HighLimit w \<noteq> None then Inl ErrMalformed
        else rbind (ContextUnsigned el) (\<lambda>v.
          if v > 0xFFFFFFFF then Inl ErrMalformed else whoHas_loop (w\<lparr>wh_HighLimit := Some (ucast v)\<rparr>) els)
      else if TagNumber el = 2 \<and> \<not> IsContextConstructed el then
        if wh_Object w \<noteq> None \<or> wh_Name w \<noteq> None then Inl ErrMalformed
        else rbind (ContextObjectID el) (\<lambda>i. whoHas_loop (w\<lparr>wh_Object := Some i\<rparr>) els)
      else if TagNumber el = 3 \<and> \<not> IsContextConstructed el then
        if wh_Object w \<noteq> None \<or> wh_Name w \<noteq> None then Inl ErrMalformed
        else rbind (ContextCharacterString el) (\<lambda>n. whoHas_loop (w\<lparr>wh_Name := Some n\<rparr>) els)
      else Inl ErrMalformed)"

abbreviation (input) "emptyWhoHas \<equiv> \<lparr>wh_LowLimit = None, wh_HighLimit = None, wh_Object = None, wh_Name = None\<rparr>"

definition DecodeWhoHas :: "bytes \<Rightarrow> DecodeLimits \<Rightarrow> WhoHas result" where
  "DecodeWhoHas payload limits = rbind (wholeSequence payload limits) (whoHas_loop emptyWhoHas)"

record IHave =
  ih_Device :: ObjectIdentifier
  ih_Object :: ObjectIdentifier
  ih_Name :: CharacterString

definition EncodeIHave :: "IHave \<Rightarrow> bytes result" where
  "EncodeIHave msg =
     rbind (AppendApplicationValue [] (ObjectIDValue (ih_Device msg))) (\<lambda>dst.
     rbind (AppendApplicationValue dst (ObjectIDValue (ih_Object msg))) (\<lambda>dst.
       AppendApplicationValue dst (CharacterValue (ih_Name msg))))"

definition DecodeIHave :: "bytes \<Rightarrow> DecodeLimits \<Rightarrow> IHave result" where
  "DecodeIHave payload limits =
     rbind (nextValue payload limits 0) (\<lambda>(device, off).
     rbind (nextValue payload limits off) (\<lambda>(ob, off).
     rbind (nextValue payload limits off) (\<lambda>(name, off).
       if off \<noteq> length payload then Inl ErrTrailingData
       else
         rbind (AsObjectID device) (\<lambda>devID.
         if oType devID \<noteq> ObjectTypeDevice then Inl ErrMalformed
         else rbind (AsObjectID ob) (\<lambda>objID.
           if Kind name \<noteq> ValueCharacterString then Inl ErrMalformed
           else Inr \<lparr>ih_Device = devID, ih_Object = objID, ih_Name = Character (Fields name)\<rparr>)))))"

definition EncodeWhoHasAPDU :: "WhoHas \<Rightarrow> bytes result" where
  "EncodeWhoHasAPDU req = rbind (EncodeWhoHas req) (\<lambda>payload. Inr (AppendUnconfirmedRequest [] \<lparr>ur_ServiceChoice = 7, ur_Payload = payload\<rparr>))"

definition EncodeIHaveAPDU :: "IHave \<Rightarrow> bytes result" where
  "EncodeIHaveAPDU msg = rbind (EncodeIHave msg) (\<lambda>payload. Inr (AppendUnconfirmedRequest [] \<lparr>ur_ServiceChoice = 1, ur_Payload = payload\<rparr>))"

section \<open>Sending\<close>

text \<open>A packet, with the NPDU that a configured BBMD distributes when it is a broadcast.\<close>

type_synonym sent = "(bytes option \<times> OutboundPacket) result"

definition sendAPDU :: "Endpoint \<Rightarrow> bool \<Rightarrow> Address \<Rightarrow> bool \<Rightarrow> bytes \<Rightarrow> sent" where
  "sendAPDU to bc dest expectingReply apduBytes =
     rbind (Frame (if bc then 0x0B else 0x0A) (link_APDU dest expectingReply 255 apduBytes)) (\<lambda>(raw, frame).
       Inr (if bc then Some raw else None, \<lparr>Data = frame, pkt_Destination = to, Broadcast = bc\<rparr>))"

definition srv_reply :: "peer \<Rightarrow> bytes \<Rightarrow> sent" where
  "srv_reply p apduBytes = sendAPDU (p_immediate p) False (p_source p) False apduBytes"

definition broadcastAPDU :: "peer option \<Rightarrow> bytes \<Rightarrow> sent" where
  "broadcastAPDU p apduBytes = (case p of
      Some p \<Rightarrow>
        if scope (p_source p) = AddressRemoteStation
        then sendAPDU (p_immediate p) False (RemoteBroadcast (network (p_source p))) False apduBytes
        else sendAPDU zeroEndpoint True zeroAddress False apduBytes
    | None \<Rightarrow> sendAPDU zeroEndpoint True zeroAddress False apduBytes)"

section \<open>Handlers\<close>

record announce_config =
  an_limits :: DecodeLimits
  an_segmentation :: bool
  an_maxAPDU :: u16

definition sendIAm :: "announce_config \<Rightarrow> 'st Device \<Rightarrow> peer option \<Rightarrow> sent" where
  "sendIAm s d p =
     rbind (EncodeIAm \<lparr>ia_Device = b_id d, ia_MaxAPDULength = an_maxAPDU s, ia_Segmentation = (if an_segmentation s then 0 else 3),
              ia_VendorID = DeviceConfig.VendorID (dv_cfg (own d))\<rparr>) (\<lambda>payload.
       let frame = AppendUnconfirmedRequest [] \<lparr>ur_ServiceChoice = 0, ur_Payload = payload\<rparr> in
       case p of
         Some q \<Rightarrow> if \<not> p_broadcast q then srv_reply q frame else broadcastAPDU p frame
       | None \<Rightarrow> broadcastAPDU p frame)"

definition outside :: "u32 option \<Rightarrow> u32 option \<Rightarrow> u32 \<Rightarrow> bool" where
  "outside lo hi inst \<longleftrightarrow> lo \<noteq> None \<and> hi \<noteq> None \<and> (inst < the lo \<or> inst > the hi)"

definition whoIs :: "announce_config \<Rightarrow> bytes \<Rightarrow> peer \<Rightarrow> 'st Device \<Rightarrow> sent option" where
  "whoIs s payload p d = (case DecodeWhoIs payload (an_limits s) of
      Inl _ \<Rightarrow> None
    | Inr r \<Rightarrow> if outside (wi_LowLimit r) (wi_HighLimit r) (Instance (b_id d)) then None else Some (sendIAm s d (Some p)))"

definition whoHas :: "announce_config \<Rightarrow> bytes \<Rightarrow> peer \<Rightarrow> 'st Device \<Rightarrow> sent option" where
  "whoHas s payload p d = (case DecodeWhoHas payload (an_limits s) of
      Inl _ \<Rightarrow> None
    | Inr r \<Rightarrow>
        if outside (wh_LowLimit r) (wh_HighLimit r) (Instance (b_id d)) then None
        else case (case wh_Object r of
               Some i \<Rightarrow> Object i d
             | None \<Rightarrow> (case wh_Name r of Some n \<Rightarrow> Option.bind (ObjectByName (cs_Value n) d) id | None \<Rightarrow> None)) of
            None \<Rightarrow> None
          | Some e \<Rightarrow> (case EncodeIHave \<lparr>ih_Device = b_id d, ih_Object = entryId d e, ih_Name = \<lparr>Encoding = 0, cs_Value = entryName d e\<rparr>\<rparr> of
              Inl _ \<Rightarrow> None
            | Inr payload \<Rightarrow>
                let frame = AppendUnconfirmedRequest [] \<lparr>ur_ServiceChoice = 1, ur_Payload = payload\<rparr> in
                Some (if \<not> p_broadcast p then srv_reply p frame else broadcastAPDU (Some p) frame)))"

section \<open>Codecs\<close>

definition limitsOk :: "u32 option \<Rightarrow> u32 option \<Rightarrow> bool" where
  "limitsOk lo hi \<longleftrightarrow> (lo = None \<and> hi = None) \<or> (lo \<noteq> None \<and> hi \<noteq> None \<and> the lo \<le> the hi)"

definition limitEls :: "u32 option \<Rightarrow> u32 option \<Rightarrow> Element list" where
  "limitEls lo hi = optEl (\<lambda>v. uEl 0 (ucast v)) lo @ optEl (\<lambda>v. uEl 1 (ucast v)) hi"

definition whoHas_els :: "WhoHas \<Rightarrow> Element list" where
  "whoHas_els r = limitEls (wh_LowLimit r) (wh_HighLimit r) @ optEl (idEl 2) (wh_Object r) @ optEl (csEl 3) (wh_Name r)"

definition whoHasOk :: "WhoHas \<Rightarrow> bool" where
  "whoHasOk r \<longleftrightarrow> limitsOk (wh_LowLimit r) (wh_HighLimit r) \<and> (wh_Object r \<noteq> None) \<noteq> (wh_Name r \<noteq> None)
     \<and> (case wh_Object r of Some i \<Rightarrow> wf_id i | None \<Rightarrow> True)"

interpretation whoIs: element_service EncodeWhoIs "whoIs_loop None None" "\<lambda>r. limitEls (wi_LowLimit r) (wi_HighLimit r)"
  "\<lambda>r. limitsOk (wi_LowLimit r) (wi_HighLimit r)" "\<lambda>r. r"
proof
  fix r :: WhoIs assume "limitsOk (wi_LowLimit r) (wi_HighLimit r)"
  then show "EncodeWhoIs r = AppendTags [] (limitEls (wi_LowLimit r) (wi_HighLimit r))"
    "whoIs_loop None None (limitEls (wi_LowLimit r) (wi_HighLimit r)) = Inr r"
    by (auto simp: limitsOk_def limitEls_def EncodeWhoIs_def service_simps)
qed

interpretation whoHas: element_service EncodeWhoHas "whoHas_loop emptyWhoHas" whoHas_els whoHasOk "\<lambda>r. r"
proof
  fix r :: WhoHas assume ok: "whoHasOk r"
  obtain lo hi ob nm where r: "r = \<lparr>wh_LowLimit = lo, wh_HighLimit = hi, wh_Object = ob, wh_Name = nm\<rparr>" by (cases r)
  show "EncodeWhoHas r = AppendTags [] (whoHas_els r)"
    using ok unfolding r
    by (cases ob; cases nm) (auto simp: whoHasOk_def limitsOk_def limitEls_def whoHas_els_def EncodeWhoHas_def service_simps rbind_assoc)
  show "whoHas_loop emptyWhoHas (whoHas_els r) = Inr r"
    using ok unfolding r
    by (cases ob; cases nm) (auto simp: whoHasOk_def limitsOk_def limitEls_def whoHas_els_def)
qed

lemma whoIs_roundtrip:
  assumes "limitsOk (wi_LowLimit r) (wi_HighLimit r)" "fitsSequence L (limitEls (wi_LowLimit r) (wi_HighLimit r))"
  shows "\<exists>bs. EncodeWhoIs r = Inr bs \<and> DecodeWhoIs bs L = Inr r"
proof -
  obtain bs where bs: "EncodeWhoIs r = Inr bs" "rbind (wholeSequence bs L) (whoIs_loop None None) = Inr r"
    using whoIs.service_roundtrip [OF assms] by blast
  have "wholeSequence [] L = Inr els \<Longrightarrow> els = []" for els
    by (auto simp: wholeSequence_def ParseSequence_def parseSequence.simps parseSequence_loop.simps Let_def result_simps split: if_splits)
  then have "bs = [] \<Longrightarrow> r = \<lparr>wi_LowLimit = None, wi_HighLimit = None\<rparr>" using bs(2) by (auto simp: result_simps)
  then show ?thesis using bs by (auto simp: DecodeWhoIs_def)
qed

text \<open>Application values one after the other are read back one after the other.\<close>

lemma append_next:
  assumes "wf_appValue (Normalize L) v"
  shows "\<exists>bs. (\<forall>dst. AppendApplicationValue dst v = Inr (dst @ bs))
    \<and> (\<forall>pre post. nextValue (pre @ bs @ post) L (length pre) = Inr (v, length pre + length bs))"
proof -
  obtain bs where bs: "\<And>dst. appendAppFields dst (Kind v) (Fields v) = Inr (dst @ bs)" "isRoundTrip L v bs"
    using appendAppFields_roundtrip [OF assms] by blast
  have "AppendApplicationValue dst v = Inr (dst @ bs)" for dst
    using assms bs(1) by (cases v) (simp add: wf_appValue_def)
  moreover have "nextValue (pre @ bs @ post) L (length pre) = Inr (v, length pre + length bs)" for pre post
    using bs(2) by (simp add: nextValue_def ParseApplicationValue_def isRoundTrip_def)
  ultimately show ?thesis by blast
qed

lemma u16_fits_enum: "segU \<le> 3 \<Longrightarrow> (ucast (segU :: u8) :: u32) \<le> 3" "ucast (ucast (segU :: u8) :: u32) = segU"
  by (simp_all add: word_le_nat_alt unat_ucast, rule bit_word_eqI, simp add: bit_simps)

lemma iAm_roundtrip:
  assumes "wf_id (ia_Device m)" "oType (ia_Device m) = ObjectTypeDevice" "ia_Segmentation m \<le> 3"
  shows "\<exists>bs. EncodeIAm m = Inr bs \<and> DecodeIAm bs L = Inr m"
proof -
  obtain b1 where b1: "\<And>dst. AppendApplicationValue dst (ObjectIDValue (ia_Device m)) = Inr (dst @ b1)"
    "\<And>pre post. nextValue (pre @ b1 @ post) L (length pre) = Inr (ObjectIDValue (ia_Device m), length pre + length b1)"
    using append_next [of L "ObjectIDValue (ia_Device m)"] assms(1) by (auto simp: wf_id_def)
  obtain b2 where b2: "\<And>dst. AppendApplicationValue dst (UnsignedValue (ucast (ia_MaxAPDULength m))) = Inr (dst @ b2)"
    "\<And>pre post. nextValue (pre @ b2 @ post) L (length pre) = Inr (UnsignedValue (ucast (ia_MaxAPDULength m)), length pre + length b2)"
    using append_next [of L "UnsignedValue (ucast (ia_MaxAPDULength m))"] by auto
  obtain b3 where b3: "\<And>dst. AppendApplicationValue dst (EnumValue (ucast (ia_Segmentation m))) = Inr (dst @ b3)"
    "\<And>pre post. nextValue (pre @ b3 @ post) L (length pre) = Inr (EnumValue (ucast (ia_Segmentation m)), length pre + length b3)"
    using append_next [of L "EnumValue (ucast (ia_Segmentation m))"] by auto
  obtain b4 where b4: "\<And>dst. AppendApplicationValue dst (UnsignedValue (ucast (ia_VendorID m))) = Inr (dst @ b4)"
    "\<And>pre post. nextValue (pre @ b4 @ post) L (length pre) = Inr (UnsignedValue (ucast (ia_VendorID m)), length pre + length b4)"
    using append_next [of L "UnsignedValue (ucast (ia_VendorID m))"] by auto
  have e: "EncodeIAm m = Inr (b1 @ b2 @ b3 @ b4)" by (simp add: EncodeIAm_def b1(1) b2(1) b3(1) b4(1))
  have "checkIAm (ObjectIDValue (ia_Device m)) (UnsignedValue (ucast (ia_MaxAPDULength m))) (EnumValue (ucast (ia_Segmentation m)))
      (UnsignedValue (ucast (ia_VendorID m))) = Inr m"
    using assms(2) u16_fits_enum(1) [OF assms(3)] u16_fits_enum(2) by (simp add: checkIAm_def AsObjectID_def AsEnumerated_def value_defs not_less)
  then have "DecodeIAm (b1 @ b2 @ b3 @ b4) L = Inr m"
    using b1(2) [of "[]" "b2 @ b3 @ b4"] b2(2) [of b1 "b3 @ b4"] b3(2) [of "b1 @ b2" b4] b4(2) [of "b1 @ b2 @ b3" "[]"]
    by (simp add: DecodeIAm_def add.assoc)
  then show ?thesis using e by blast
qed

lemma iHave_roundtrip:
  assumes "wf_id (ih_Device m)" "oType (ih_Device m) = ObjectTypeDevice" "wf_id (ih_Object m)"
    "int (length (cs_Value (ih_Name m))) \<le> MaxCharacterLength (Normalize L)" "length (cs_Value (ih_Name m)) < 0xFFFFFFFF"
  shows "\<exists>bs. EncodeIHave m = Inr bs \<and> DecodeIHave bs L = Inr m"
proof -
  obtain b1 where b1: "\<And>dst. AppendApplicationValue dst (ObjectIDValue (ih_Device m)) = Inr (dst @ b1)"
    "\<And>pre post. nextValue (pre @ b1 @ post) L (length pre) = Inr (ObjectIDValue (ih_Device m), length pre + length b1)"
    using append_next [of L "ObjectIDValue (ih_Device m)"] assms(1) by (auto simp: wf_id_def)
  obtain b2 where b2: "\<And>dst. AppendApplicationValue dst (ObjectIDValue (ih_Object m)) = Inr (dst @ b2)"
    "\<And>pre post. nextValue (pre @ b2 @ post) L (length pre) = Inr (ObjectIDValue (ih_Object m), length pre + length b2)"
    using append_next [of L "ObjectIDValue (ih_Object m)"] assms(3) by (auto simp: wf_id_def)
  obtain b3 where b3: "\<And>dst. AppendApplicationValue dst (CharacterValue (ih_Name m)) = Inr (dst @ b3)"
    "\<And>pre post. nextValue (pre @ b3 @ post) L (length pre) = Inr (CharacterValue (ih_Name m), length pre + length b3)"
    using append_next [of L "CharacterValue (ih_Name m)"] assms(4,5) by auto
  have "EncodeIHave m = Inr (b1 @ b2 @ b3)" by (simp add: EncodeIHave_def b1(1) b2(1) b3(1))
  moreover have "DecodeIHave (b1 @ b2 @ b3) L = Inr m"
    using b1(2) [of "[]" "b2 @ b3"] b2(2) [of b1 b3] b3(2) [of "b1 @ b2" "[]"] assms(2)
    by (simp add: DecodeIHave_def add.assoc AsObjectID_def value_defs)
  ultimately show ?thesis by blast
qed

section \<open>Who is answered, and with what\<close>

definition answer :: "peer \<Rightarrow> u8 \<Rightarrow> bytes \<Rightarrow> sent" where
  "answer p choice payload =
     (let frame = AppendUnconfirmedRequest [] \<lparr>ur_ServiceChoice = choice, ur_Payload = payload\<rparr> in
      if \<not> p_broadcast p then srv_reply p frame else broadcastAPDU (Some p) frame)"

text \<open>The destination an NPDU carries for an address: local addresses are not written.\<close>

definition writtenAddress :: "Address \<Rightarrow> Address" where
  "writtenAddress a = (if scope a \<in> {AddressRemoteStation, AddressRemoteBroadcast, AddressGlobalBroadcast} then a else zeroAddress)"

text \<open>What the client on the other side makes of it: the datagram is decoded layer by layer to the unconfirmed request of the answer. The
  answer to a unicast request goes to the node the request came through, and to the station behind it when the requester is
  remote. The answer to a broadcast goes out as a broadcast of the local network, or to the router a remote requester is behind, as
  a broadcast on the network of that requester.\<close>

definition received :: "DecodeLimits \<Rightarrow> peer \<Rightarrow> u8 \<Rightarrow> bytes \<Rightarrow> sent \<Rightarrow> bool" where
  "received L p choice payload out \<longleftrightarrow> (\<exists>raw pkt m n k. out = Inr (raw, pkt)
     \<and> bvlc_Parse (Data pkt) L = Inr m \<and> npdu_Parse (Payload m) L = Inr (n, k) \<and> \<not> NetworkMessage n
     \<and> apdu_Parse (np_APDU n) L = Inr (PUnconfirmedRequest \<lparr>ur_ServiceChoice = choice, ur_Payload = payload\<rparr>)
     \<and> Function m = (if Broadcast pkt then 0x0B else 0x0A)
     \<and> (if \<not> p_broadcast p
        then pkt_Destination pkt = p_immediate p \<and> \<not> Broadcast pkt \<and> Destination n = writtenAddress (p_source p)
        else if scope (p_source p) = AddressRemoteStation
        then pkt_Destination pkt = p_immediate p \<and> \<not> Broadcast pkt \<and> Destination n = RemoteBroadcast (network (p_source p))
        else pkt_Destination pkt = zeroEndpoint \<and> Broadcast pkt \<and> Destination n = zeroAddress))"

text \<open>A requester whose address can be written into an NPDU, and limits of a client that leave room for a payload.\<close>

definition reachable :: "DecodeLimits \<Rightarrow> peer \<Rightarrow> nat \<Rightarrow> bool" where
  "reachable L p sz \<longleftrightarrow> wf_Address (p_source p) \<and> is_ok (hasDestination (p_source p)) \<and> sz + 20 \<le> 0xFFFF
     \<and> int (sz + 20) \<le> MaxDatagramSize (Normalize L) \<and> int (sz + 2) \<le> MaxAPDUSize (Normalize L)"

lemma destination_length:
  assumes "wf_Address a" "hasDestination a = Inr d"
  shows "\<exists>b. (\<forall>dst. (if d then appendDestination dst a else Inr dst) = Inr (dst @ b)) \<and> length b \<le> 10"
proof (cases "scope a = AddressRemoteStation")
  case True
  then have "wf_MAC (addr_mac a)" using assms(1) by (auto simp: wf_Address_def address_defs)
  from mac_octet [OF this] show ?thesis using True
    by (cases d) (simp_all add: appendDestination_def MaxMACLength_def)
next
  case False
  then show ?thesis using assms(2) by (cases "scope a"; cases d) (simp_all add: appendDestination_def)
qed

lemma Frame_total:
  assumes "wf_Address dest" "is_ok (hasDestination dest)" "length apdu + 18 \<le> 0xFFFF" "fn \<notin> {0, 4, 5}"
  shows "\<exists>raw frame. Frame fn (link_APDU dest er hop apdu) = Inr (raw, frame) \<and> length frame \<le> length apdu + 18"
proof -
  have z: "hasDestination zeroAddress = Inr False" "hasSource zeroAddress = Inr False"
    by (simp_all add: hasDestination_def hasSource_def zeroAddress_def LocalStation_def MAC_IsZero_def zeroMAC_def)
  obtain d where d: "hasDestination dest = Inr d" using assms(2) by (auto simp: is_ok_iff)
  obtain b where b: "\<And>dst. (if d then appendDestination dst dest else Inr dst) = Inr (dst @ b)" "length b \<le> 10"
    using destination_length [OF assms(1) d] by blast
  have n: "link_APDU dest er hop apdu = zeroNPDU\<lparr>Version := Version1, ExpectingReply := er, HopCount := hop, np_APDU := apdu,
      Destination := if d then dest else zeroAddress\<rparr>"
    using d by (cases "scope dest") (auto simp: link_APDU_def hasDestination_def zeroNPDU_def rbind_eq_Inr split: if_splits)
  have "\<exists>raw. npdu_Append [] (link_APDU dest er hop apdu) = Inr raw \<and> length raw \<le> length apdu + 14"
    using b unfolding n by (cases d) (simp_all add: npdu_Append_def zeroNPDU_def Let_def d z)
  then show ?thesis using assms(3,4)
    by (auto simp: Frame_def bvlc_Append_eq bvlcBody_def zeroMessage_def)
qed

lemma received_answer:
  assumes "reachable L p sz" "length payload \<le> sz"
  shows "received L p choice payload (answer p choice payload)"
proof -
  let ?u = "\<lparr>ur_ServiceChoice = choice, ur_Payload = payload\<rparr>"
  let ?f = "AppendUnconfirmedRequest [] ?u"
  have a: "wf_Address (p_source p)" "is_ok (hasDestination (p_source p))" and len: "length ?f + 18 \<le> 0xFFFF"
    and d: "int (length ?f + 18) \<le> MaxDatagramSize (Normalize L)" and x: "int (length ?f) \<le> MaxAPDUSize (Normalize L)"
    using assms by (auto simp: reachable_def AppendUnconfirmedRequest_def)
  have u: "apdu_Parse ?f L = Inr (PUnconfirmedRequest ?u)"
    using apdu_Parse_appendPDU [of "PUnconfirmedRequest ?u" L] x by simp
  have z: "wf_Address zeroAddress" "is_ok (hasDestination zeroAddress)"
    by (auto simp: wf_Address_def zeroAddress_def hasDestination_def LocalStation_def intro: exI [of _ zeroMAC])
  have r: "wf_Address (RemoteBroadcast (network (p_source p)))"
    "scope (p_source p) = AddressRemoteStation \<Longrightarrow> is_ok (hasDestination (RemoteBroadcast (network (p_source p))))"
    by (auto simp: wf_Address_def intro: exI [of _ zeroMAC]) (use a(2) in \<open>auto simp: hasDestination_def RemoteBroadcast_def is_ok_iff rbind_eq_Inr\<close>)
  have *: "\<exists>raw pkt m n k. sendAPDU to bc dest er ?f = Inr (raw, pkt) \<and> pkt_Destination pkt = to \<and> Broadcast pkt = bc
      \<and> bvlc_Parse (Data pkt) L = Inr m \<and> npdu_Parse (Payload m) L = Inr (n, k) \<and> \<not> NetworkMessage n \<and> np_APDU n = ?f
      \<and> Function m = (if bc then 0x0B else 0x0A) \<and> Destination n = writtenAddress dest"
    if w: "wf_Address dest" "is_ok (hasDestination dest)" for to bc dest er
  proof -
    let ?fn = "if bc then 0x0B else 0x0A :: u8"
    have fn: "?fn \<notin> {0, 4, 5}" by simp
    obtain raw frame where fr: "Frame ?fn (link_APDU dest er 255 ?f) = Inr (raw, frame)" "length frame \<le> length ?f + 18"
      using Frame_total [OF w len fn, of er 255] by blast
    have fit: "int (length frame) \<le> MaxDatagramSize (Normalize L)" using fr(2) d by linarith
    show ?thesis using Frame_delivers [OF w(1) fr(1) fn fit] fr(1) by (auto simp: sendAPDU_def writtenAddress_def zeroMessage_def)
  qed
  have "received L p choice payload (sendAPDU to bc dest er ?f)"
    if w: "wf_Address dest" "is_ok (hasDestination dest)" and b: "(to, bc, writtenAddress dest) = (if \<not> p_broadcast p then (p_immediate p, False, writtenAddress (p_source p))
          else if scope (p_source p) = AddressRemoteStation then (p_immediate p, False, RemoteBroadcast (network (p_source p)))
          else (zeroEndpoint, True, zeroAddress))" for to bc dest er
  proof -
    obtain raw pkt m n k where o: "sendAPDU to bc dest er ?f = Inr (raw, pkt)" "pkt_Destination pkt = to" "Broadcast pkt = bc"
      "bvlc_Parse (Data pkt) L = Inr m" "npdu_Parse (Payload m) L = Inr (n, k)" "\<not> NetworkMessage n" "np_APDU n = ?f"
      "Function m = (if bc then 0x0B else 0x0A)" "Destination n = writtenAddress dest"
      using * [OF w, of to bc er] by blast
    show ?thesis unfolding received_def using o u b
      by (intro exI [of _ raw] exI [of _ pkt] exI [of _ m] exI [of _ n] exI [of _ k]) (simp split: if_splits)
  qed
  note sent = this
  have written: "writtenAddress (RemoteBroadcast i) = RemoteBroadcast i" "writtenAddress zeroAddress = zeroAddress" for i
    by (simp_all add: writtenAddress_def RemoteBroadcast_def zeroAddress_def LocalStation_def)
  show ?thesis
  proof (cases "p_broadcast p")
    case False
    then show ?thesis using sent [OF a, of "p_immediate p" False False] by (simp add: answer_def srv_reply_def)
  next
    case True
    show ?thesis
    proof (cases "scope (p_source p) = AddressRemoteStation")
      case remote: True
      then show ?thesis using True sent [OF r(1) r(2) [OF remote], of "p_immediate p" False False] written by (simp add: answer_def broadcastAPDU_def)
    next
      case False
      then show ?thesis using True sent [OF z, of zeroEndpoint True False] written by (simp add: answer_def broadcastAPDU_def)
    qed
  qed
qed

lemma device_id:
  assumes "NewDevice cfg wall = Inr d0"
  shows "b_id (devRun d0 ops) = deviceId cfg" "dv_cfg (own (devRun d0 ops)) = deviceDefaults cfg" "wf_id (deviceId cfg)"
proof -
  have i: "dev_inv (devRun d0 ops)" using devRun_inv [OF NewDevice_inv(1) [OF assms]] by simp
  show c: "dv_cfg (own (devRun d0 ops)) = deviceDefaults cfg"
    using devRun_cfg [OF NewDevice_inv(1) [OF assms]] NewDevice_inv(4) [OF assms] by simp
  show "b_id (devRun d0 ops) = deviceId cfg" using i c by (simp add: dev_inv_def deviceId_def deviceDefaults_def)
  show "wf_id (deviceId cfg)"
    using i c by (simp add: dev_inv_def deviceDefaults_def wf_id_def deviceId_def ObjectTypeDevice_def order.strict_implies_order)
qed

lemma outside_iff: "outside lo hi i \<longleftrightarrow> (\<exists>l h. lo = Some l \<and> hi = Some h \<and> \<not> (l \<le> i \<and> i \<le> h))"
  by (auto simp: outside_def not_le)

lemma appendAppPrimitive_length: "appendAppPrimitive dst t v = Inr r \<Longrightarrow> length r \<le> length dst + length v + 7"
  by (auto simp: appendAppPrimitive_def rbind_eq_Inr encodeTagHeader_def Let_def split: if_splits)

lemma AppendApplicationValue_length:
  "AppendApplicationValue dst (ObjectIDValue i) = Inr r \<Longrightarrow> length r \<le> length dst + 11"
  "AppendApplicationValue dst (UnsignedValue u) = Inr r \<Longrightarrow> length r \<le> length dst + 15"
  "AppendApplicationValue dst (EnumValue e) = Inr r \<Longrightarrow> length r \<le> length dst + 15"
  "AppendApplicationValue dst (CharacterValue c) = Inr r \<Longrightarrow> length r \<le> length dst + length (cs_Value c) + 8"
  using length_encodeUnsigned(2)
  by (fastforce simp: value_defs appendAppFields_def rbind_eq_Inr dest!: appendAppPrimitive_length intro: order_trans)+

lemma EncodeIAm_length: "EncodeIAm m = Inr bs \<Longrightarrow> length bs \<le> 60"
  by (fastforce simp: EncodeIAm_def rbind_eq_Inr dest!: AppendApplicationValue_length)

lemma EncodeIHave_length: "EncodeIHave m = Inr bs \<Longrightarrow> length bs \<le> length (cs_Value (ih_Name m)) + 30"
  by (fastforce simp: EncodeIHave_def rbind_eq_Inr dest!: AppendApplicationValue_length)

text \<open>C15. A Who-Is a client encodes is answered exactly when it has no limits or the instance of the device lies within them. The
  answer is sent to the requester if the request was unicast and is broadcast otherwise; the client decodes its datagram, layer by
  layer, to an I-Am with the identifier, the APDU size, the segmentation support and the vendor of the device.\<close>

theorem who_is_answered:
  assumes "NewDevice cfg wall = Inr d0" "limitsOk (wi_LowLimit r) (wi_HighLimit r)"
    "fitsSequence (an_limits s) (limitEls (wi_LowLimit r) (wi_HighLimit r))" "reachable L p 60"
  shows "let d = devRun d0 ops in \<exists>req. EncodeWhoIsAPDU r = Inr (AppendUnconfirmedRequest [] \<lparr>ur_ServiceChoice = 8, ur_Payload = req\<rparr>)
    \<and> (if \<exists>lo hi. wi_LowLimit r = Some lo \<and> wi_HighLimit r = Some hi \<and> \<not> (lo \<le> dc_Instance cfg \<and> dc_Instance cfg \<le> hi)
       then whoIs s req p d = None
       else \<exists>payload out. whoIs s req p d = Some out \<and> received L p 0 payload out
         \<and> DecodeIAm payload L = Inr \<lparr>ia_Device = \<lparr>oType = ObjectTypeDevice, Instance = dc_Instance cfg\<rparr>,
              ia_MaxAPDULength = an_maxAPDU s, ia_Segmentation = (if an_segmentation s then 0 else 3),
              ia_VendorID = DeviceConfig.VendorID cfg\<rparr>)"
proof -
  define m where "m = \<lparr>ia_Device = deviceId cfg, ia_MaxAPDULength = an_maxAPDU s, ia_Segmentation = (if an_segmentation s then 0 else 3 :: u8),
      ia_VendorID = DeviceConfig.VendorID cfg\<rparr>"
  obtain req where req: "EncodeWhoIs r = Inr req" "DecodeWhoIs req (an_limits s) = Inr r" using whoIs_roundtrip [OF assms(2,3)] by blast
  obtain payload where pl: "EncodeIAm m = Inr payload" "DecodeIAm payload L = Inr m"
    using iAm_roundtrip [of m L] device_id(3) [OF assms(1)] by (cases "an_segmentation s") (auto simp: m_def deviceId_def)
  have "sendIAm s (devRun d0 ops) (Some p) = answer p 0 payload"
    using pl(1) by (simp add: sendIAm_def answer_def device_id [OF assms(1)] deviceDefaults_def m_def Let_def)
  then show ?thesis
    unfolding Let_def using req pl(2) received_answer [OF assms(4) EncodeIAm_length [OF pl(1)], of 0]
    by (intro exI [of _ req] conjI) (auto simp: EncodeWhoIsAPDU_def whoIs_def device_id [OF assms(1)] m_def deviceId_def outside_iff not_le)
qed

text \<open>The object a Who-Has asks for: the one with the identifier, any device being the device itself, or the one with the name.\<close>

definition asksFor :: "WhoHas \<Rightarrow> ObjectIdentifier \<Rightarrow> (ObjectIdentifier \<Rightarrow> bytes option) \<Rightarrow> ObjectIdentifier \<Rightarrow> bool" where
  "asksFor r dev D j \<longleftrightarrow> (case wh_Object r of
      Some i \<Rightarrow> j = (if i = AnyDevice then dev else i)
    | None \<Rightarrow> D j = Some (cs_Value (the (wh_Name r))))"

lemma whoHas_found:
  assumes "dev_inv d" "whoHasOk r"
  shows "(case wh_Object r of Some i \<Rightarrow> Object i d
          | None \<Rightarrow> (case wh_Name r of Some n \<Rightarrow> Option.bind (ObjectByName (cs_Value n) d) id | None \<Rightarrow> None)) = Some e
    \<longleftrightarrow> (\<exists>j. asksFor r (b_id d) (directory d) j \<and> map_of (dv_objects (own d)) j = Some e)"
proof (cases "wh_Object r")
  case (Some i)
  have "Object i d = (if i = AnyDevice then Some OwnEntry else map_of (dv_objects (own d)) i)"
    by (cases i) (simp add: Object_def AnyDevice_def)
  then show ?thesis using Some ids_okD [OF dev_invD(1) [OF assms(1)]] by (auto simp: asksFor_def simp del: map_of_eq_Some_iff)
next
  case None
  then obtain n where n: "wh_Name r = Some n" using assms(2) by (auto simp: whoHasOk_def)
  show ?thesis using None n
    by (auto simp: asksFor_def ObjectByName_def indexed_iff [OF dev_invD(2) [OF assms(1)]] bind_eq_Some_conv simp del: map_of_eq_Some_iff)
qed

lemma whoHas_silent:
  assumes "dev_inv d" "whoHasOk r" "DecodeWhoHas req (an_limits s) = Inr r" "\<nexists>j n. asksFor r (b_id d) (directory d) j \<and> directory d j = Some n"
  shows "whoHas s req p d = None"
proof -
  let ?f = "case wh_Object r of Some i \<Rightarrow> Object i d
          | None \<Rightarrow> (case wh_Name r of Some n \<Rightarrow> Option.bind (ObjectByName (cs_Value n) d) id | None \<Rightarrow> None)"
  have "?f = None"
  proof (rule ccontr)
    assume "?f \<noteq> None"
    then obtain e where "?f = Some e" by auto
    then obtain j where "asksFor r (b_id d) (directory d) j" "map_of (dv_objects (own d)) j = Some e"
      using whoHas_found [OF assms(1,2)] by blast
    then show False using assms(4) by (auto simp: directory_def)
  qed
  then show ?thesis using assms(3) by (simp add: whoHas_def)
qed

lemma whoHas_answers:
  assumes "dev_inv d" "whoHasOk r" "DecodeWhoHas req (an_limits s) = Inr r" "b_id d = deviceId cfg" "wf_id (deviceId cfg)"
    "\<not> outside (wh_LowLimit r) (wh_HighLimit r) (Instance (b_id d))" "asksFor r (b_id d) (directory d) j" "directory d j = Some n"
    "wf_id j" "int (length n) \<le> MaxCharacterLength (Normalize L)" "reachable L p (length n + 30)"
  shows "\<exists>payload out. whoHas s req p d = Some out \<and> received L p 1 payload out
    \<and> DecodeIHave payload L = Inr \<lparr>ih_Device = deviceId cfg, ih_Object = j, ih_Name = \<lparr>Encoding = 0, cs_Value = n\<rparr>\<rparr>"
proof -
  let ?m = "\<lparr>ih_Device = deviceId cfg, ih_Object = j, ih_Name = \<lparr>Encoding = 0, cs_Value = n\<rparr>\<rparr>"
  obtain e where e: "map_of (dv_objects (own d)) j = Some e" "entryName d e = n" using assms(8) by (auto simp: directory_def)
  have f: "(case wh_Object r of Some i \<Rightarrow> Object i d
      | None \<Rightarrow> (case wh_Name r of Some n \<Rightarrow> Option.bind (ObjectByName (cs_Value n) d) id | None \<Rightarrow> None)) = Some e"
    using whoHas_found [OF assms(1,2)] assms(7) e(1) by blast
  have i: "entryId d e = j" using dev_invD(1) [OF assms(1)] e(1) unfolding ids_ok_def by blast
  have len: "length n < 0xFFFFFFFF" using assms(11) by (simp add: reachable_def)
  obtain payload where pl: "EncodeIHave ?m = Inr payload" "DecodeIHave payload L = Inr ?m"
    using iHave_roundtrip [of ?m L] assms(5,9,10) len by (auto simp: deviceId_def)
  have "length payload \<le> length n + 30" using EncodeIHave_length [OF pl(1)] by simp
  from received_answer [OF assms(11) this, of 1] show ?thesis using pl assms(3,4,6) f i e(2)
    by (intro exI [of _ payload] exI [of _ "answer p 1 payload"] conjI) (simp_all add: whoHas_def answer_def Let_def)
qed

text \<open>C14. A Who-Has a client encodes gets no answer when it has limits and the instance of the device lies outside of them, and none when
  the directory of the device does not have the object asked for, by identifier or by name. Otherwise, as long as the identifier
  and the name of the object can be written and fit the limits of the client, it is answered: the I-Have the client decodes names
  the device, that object and its name.\<close>

theorem who_has_answered:
  assumes "NewDevice cfg wall = Inr d0" "whoHasOk r" "fitsSequence (an_limits s) (whoHas_els r)"
  shows "let d = devRun d0 ops in \<exists>req. EncodeWhoHasAPDU r = Inr (AppendUnconfirmedRequest [] \<lparr>ur_ServiceChoice = 7, ur_Payload = req\<rparr>)
    \<and> (let outsideLimits = (\<exists>lo hi. wh_LowLimit r = Some lo \<and> wh_HighLimit r = Some hi \<and> \<not> (lo \<le> dc_Instance cfg \<and> dc_Instance cfg \<le> hi)) in
       (outsideLimits \<or> (\<nexists>j n. asksFor r (b_id d) (directory d) j \<and> directory d j = Some n) \<longrightarrow> whoHas s req p d = None)
    \<and> (\<forall>j n. \<not> outsideLimits \<and> asksFor r (b_id d) (directory d) j \<and> directory d j = Some n
          \<and> wf_id j \<and> int (length n) \<le> MaxCharacterLength (Normalize L) \<and> reachable L p (length n + 30) \<longrightarrow>
        (\<exists>payload out. whoHas s req p d = Some out \<and> received L p 1 payload out
          \<and> DecodeIHave payload L = Inr \<lparr>ih_Device = \<lparr>oType = ObjectTypeDevice, Instance = dc_Instance cfg\<rparr>, ih_Object = j,
               ih_Name = \<lparr>Encoding = 0, cs_Value = n\<rparr>\<rparr>)))"
proof -
  define d where "d = devRun d0 ops"
  have inv: "dev_inv d" using devRun_inv [OF NewDevice_inv(1) [OF assms(1)]] by (simp add: d_def)
  have dev: "b_id d = deviceId cfg" "wf_id (deviceId cfg)" using device_id [OF assms(1)] by (simp_all add: d_def)
  obtain req where req: "EncodeWhoHas r = Inr req" "DecodeWhoHas req (an_limits s) = Inr r"
    using whoHas.service_roundtrip [OF assms(2,3)] by (auto simp: DecodeWhoHas_def)
  define out where "out = outside (wh_LowLimit r) (wh_HighLimit r) (Instance (b_id d))"
  have out: "out \<longleftrightarrow> (\<exists>lo hi. wh_LowLimit r = Some lo \<and> wh_HighLimit r = Some hi \<and> \<not> (lo \<le> dc_Instance cfg \<and> dc_Instance cfg \<le> hi))"
    using dev(1) by (auto simp: out_def deviceId_def outside_iff)
  have "whoHas s req p d = None" if out using that req(2) by (simp add: whoHas_def out_def)
  then show ?thesis
    unfolding Let_def d_def [symmetric] out [symmetric]
    using req(1) whoHas_silent [OF inv assms(2) req(2)] whoHas_answers [OF inv assms(2) req(2) dev, folded out_def, where p = p and L = L]
    by (auto simp: EncodeWhoHasAPDU_def deviceId_def)
qed

text \<open>Who-Is with limits around the instance of the sample device, and Who-Has for its name.\<close>

definition sampleAnnounce :: announce_config where
  "sampleAnnounce = \<lparr>an_limits = DefaultDecodeLimits, an_segmentation = True, an_maxAPDU = 1476\<rparr>"

definition samplePeer :: peer where
  "samplePeer = (let e = \<lparr>Addr = V4 (10, 0, 0, 7) 0xBAC0\<rparr> in
     \<lparr>p_immediate = e, p_origin = e, p_source = RemoteStation 5 \<lparr>mac_length = 1, mac_bytes = [9, 0, 0, 0, 0, 0, 0]\<rparr>, p_broadcast = False\<rparr>)"

lemma samplePeer_reachable: "reachable DefaultDecodeLimits samplePeer 60" "reachable DefaultDecodeLimits samplePeer 31"
proof -
  have "wf_MAC \<lparr>mac_length = 1, mac_bytes = [9, 0, 0, 0, 0, 0, 0]\<rparr>" by (simp add: wf_MAC_def MaxMACLength_def numeral_eq_Suc)
  then have "wf_Address (p_source samplePeer)" by (auto simp: samplePeer_def wf_Address_def Let_def)
  moreover have "is_ok (hasDestination (p_source samplePeer))"
    by (simp add: samplePeer_def Let_def RemoteStation_def hasDestination_def validateRemoteNetwork_def MAC_IsZero_def)
  ultimately show "reachable DefaultDecodeLimits samplePeer 60" "reachable DefaultDecodeLimits samplePeer 31"
    by (simp_all add: reachable_def fits_simps)
qed

theorem who_is_answered_witness:
  "\<exists>(d :: unit Device) req payload out. NewDevice sampleDevice 0 = Inr d \<and> EncodeWhoIsAPDU \<lparr>wi_LowLimit = Some 90, wi_HighLimit = Some 100\<rparr>
      = Inr (AppendUnconfirmedRequest [] \<lparr>ur_ServiceChoice = 8, ur_Payload = req\<rparr>)
    \<and> whoIs sampleAnnounce req samplePeer d = Some out \<and> received DefaultDecodeLimits samplePeer 0 payload out
    \<and> DecodeIAm payload DefaultDecodeLimits = Inr \<lparr>ia_Device = \<lparr>oType = ObjectTypeDevice, Instance = 99\<rparr>, ia_MaxAPDULength = 1476,
        ia_Segmentation = 0, ia_VendorID = 7\<rparr>"
proof -
  obtain d :: "unit Device" where d: "NewDevice sampleDevice 0 = Inr d" using sampleDevice_new by blast
  have s: "limitsOk (wi_LowLimit \<lparr>wi_LowLimit = Some 90, wi_HighLimit = Some 100\<rparr>) (wi_HighLimit \<lparr>wi_LowLimit = Some 90, wi_HighLimit = Some 100\<rparr>)"
    "fitsSequence (an_limits sampleAnnounce) (limitEls (wi_LowLimit \<lparr>wi_LowLimit = Some 90, wi_HighLimit = Some 100\<rparr>)
       (wi_HighLimit \<lparr>wi_LowLimit = Some 90, wi_HighLimit = Some 100\<rparr>))"
    by (simp_all add: limitsOk_def limitEls_def sampleAnnounce_def fits_simps)
  show ?thesis
    using who_is_answered [OF d s samplePeer_reachable(1), of "[]"] d
    by (auto simp: Let_def devRun_def outside_def sampleDevice_def sampleAnnounce_def)
qed

theorem who_has_answered_witness:
  "\<exists>(d :: unit Device) req payload out. NewDevice sampleDevice 0 = Inr d
    \<and> EncodeWhoHasAPDU \<lparr>wh_LowLimit = None, wh_HighLimit = None, wh_Object = None, wh_Name = Some \<lparr>Encoding = 0, cs_Value = [0x64]\<rparr>\<rparr>
      = Inr (AppendUnconfirmedRequest [] \<lparr>ur_ServiceChoice = 7, ur_Payload = req\<rparr>)
    \<and> whoHas sampleAnnounce req samplePeer d = Some out \<and> received DefaultDecodeLimits samplePeer 1 payload out
    \<and> DecodeIHave payload DefaultDecodeLimits = Inr \<lparr>ih_Device = \<lparr>oType = ObjectTypeDevice, Instance = 99\<rparr>,
        ih_Object = \<lparr>oType = ObjectTypeDevice, Instance = 99\<rparr>, ih_Name = \<lparr>Encoding = 0, cs_Value = [0x64]\<rparr>\<rparr>"
proof -
  let ?r = "\<lparr>wh_LowLimit = None, wh_HighLimit = None, wh_Object = None, wh_Name = Some \<lparr>Encoding = 0, cs_Value = [0x64]\<rparr>\<rparr>"
    and ?dev = "\<lparr>oType = ObjectTypeDevice, Instance = 99\<rparr>"
  obtain d :: "unit Device" where d: "NewDevice sampleDevice 0 = Inr d" using sampleDevice_new by blast
  have s: "whoHasOk ?r" "fitsSequence (an_limits sampleAnnounce) (whoHas_els ?r)"
    by (simp_all add: whoHasOk_def limitsOk_def whoHas_els_def limitEls_def sampleAnnounce_def outside_def fits_simps)
  have "directory d = [?dev \<mapsto> [0x64]]" "dc_Instance sampleDevice = 99"
    using NewDevice_inv(2) [OF d] by (simp_all add: sampleDevice_def deviceId_def)
  moreover have "wf_id ?dev" "int (length [0x64 :: u8]) \<le> MaxCharacterLength (Normalize DefaultDecodeLimits)"
    "reachable DefaultDecodeLimits samplePeer (length [0x64 :: u8] + 30)"
    using samplePeer_reachable(2) by (simp_all add: ObjectTypeDevice_def fits_simps)
  moreover obtain req where "EncodeWhoHasAPDU ?r = Inr (AppendUnconfirmedRequest [] \<lparr>ur_ServiceChoice = 7, ur_Payload = req\<rparr>)"
    "\<forall>j n. asksFor ?r (b_id d) (directory d) j \<and> directory d j = Some n
        \<and> wf_id j \<and> int (length n) \<le> MaxCharacterLength (Normalize DefaultDecodeLimits) \<and> reachable DefaultDecodeLimits samplePeer (length n + 30) \<longrightarrow>
      (\<exists>payload out. whoHas sampleAnnounce req samplePeer d = Some out \<and> received DefaultDecodeLimits samplePeer 1 payload out
        \<and> DecodeIHave payload DefaultDecodeLimits = Inr \<lparr>ih_Device = \<lparr>oType = ObjectTypeDevice, Instance = dc_Instance sampleDevice\<rparr>,
             ih_Object = j, ih_Name = \<lparr>Encoding = 0, cs_Value = n\<rparr>\<rparr>)"
    using who_has_answered [OF d s, of "[]" samplePeer DefaultDecodeLimits] by (auto simp: Let_def devRun_def)
  ultimately show ?thesis
    using d by (auto simp: asksFor_def dest!: spec [of _ ?dev] spec [of _ "[0x64]"])
qed

end
