(* ===== verification/Range_Services.thy ===== *)
theory Range_Services
  imports Service_Base Object_Base Civil_Time
begin

text \<open>
  ReadRange (\<^verbatim>\<open>service/read_range.go\<close>) and the log records it carries (\<^verbatim>\<open>service/log_record.go\<close>). An \<^verbatim>\<open>int32\<close> is a word
  that \<open>sint\<close> reads. The forms of a range and the choices of a log datum are \<^verbatim>\<open>uint8\<close> in the source and here, so that
  unknown ones take the default branches. \<^verbatim>\<open>Clone\<close> is the identity.
  Main results: log records survive being written and read, alone and in the acknowledgment of ReadRange; the request is an
  interpretation of \<open>element_service\<close>.
\<close>

section \<open>Log records\<close>

abbreviation (input) "LogDatumLogStatus \<equiv> (0 :: u8)"
abbreviation (input) "LogDatumBoolean \<equiv> (1 :: u8)"
abbreviation (input) "LogDatumReal \<equiv> (2 :: u8)"
abbreviation (input) "LogDatumEnumerated \<equiv> (3 :: u8)"
abbreviation (input) "LogDatumUnsigned \<equiv> (4 :: u8)"
abbreviation (input) "LogDatumSigned \<equiv> (5 :: u8)"
abbreviation (input) "LogDatumBitString \<equiv> (6 :: u8)"
abbreviation (input) "LogDatumNull \<equiv> (7 :: u8)"
abbreviation (input) "LogDatumFailure \<equiv> (8 :: u8)"
abbreviation (input) "LogDatumTimeChange \<equiv> (9 :: u8)"
abbreviation (input) "LogDatumAnyValue \<equiv> (10 :: u8)"

record LogRecord =
  Timestamp :: DateTime
  DatumChoice :: u8
  Datum :: ApplicationValue
  lr_StatusFlags :: "BitString option"

text \<open>The branch for a negative length cannot be taken; neither can the one beyond \<^verbatim>\<open>MaxUint32\<close>, which the caller excludes.\<close>

definition contextLengthPrefix :: "nat \<Rightarrow> u8 \<times> bytes" where
  "contextLengthPrefix n =
     (if n < 5 then (of_nat n, [])
      else if n < 254 then (5, [of_nat n])
      else if n \<le> 0xFFFF then (5, 254 # put16 (of_nat n))
      else if n \<le> 0xFFFFFFFF then (5, 255 # put32 (of_nat n))
      else (5, [255, 0xFF, 0xFF, 0xFF, 0xFF]))"

definition appendContextOctets :: "bytes \<Rightarrow> u8 \<Rightarrow> bytes \<Rightarrow> bytes result" where
  "appendContextOctets dst tagNumber octets =
     (if tagNumber > 14 then Inl ErrLimitExceeded
      else if length octets > 0xFFFFFFFF then Inl ErrLimitExceeded
      else let (lvt, lenPrefix) = contextLengthPrefix (length octets) in
        Inr (((dst @ [push_bit 4 tagNumber OR 0x08 OR lvt]) @ lenPrefix) @ octets))"

definition parseOneElement :: "bytes \<Rightarrow> Element list result" where
  "parseOneElement raw =
     rbind (ParseTag raw DefaultDecodeLimits) (\<lambda>(el, n).
       if Opening el then
         rbind (ParseSequence raw DefaultDecodeLimits (-1)) (\<lambda>(els, nn).
           if nn \<noteq> length raw \<or> length els \<noteq> 1 then Inl ErrMalformed else Inr els)
       else if n \<noteq> length raw then Inl ErrTrailingData
       else Inr [el])"

definition encodeLogDatum :: "u8 \<Rightarrow> ApplicationValue \<Rightarrow> Element list result" where
  "encodeLogDatum choice v =
     (if choice = LogDatumLogStatus \<or> choice = LogDatumBitString then
        if Kind v \<noteq> ValueBitString then Inl ErrMalformed
        else rbind (AppendContextBitString [] choice (av_BitString (Fields v))) parseOneElement
      else if choice = LogDatumBoolean then
        if Kind v \<noteq> ValueBoolean then Inl ErrMalformed
        else rbind (AppendContextBool [] choice (Boolean (Fields v))) parseOneElement
      else if choice = LogDatumReal \<or> choice = LogDatumTimeChange then
        if Kind v \<noteq> ValueReal then Inl ErrMalformed
        else rbind (appendContextOctets [] choice (put32 (Real (Fields v)))) parseOneElement
      else if choice = LogDatumEnumerated then
        if Kind v \<noteq> ValueEnumerated then Inl ErrMalformed
        else rbind (AppendContextUnsigned [] choice (ucast (Enumerated (Fields v)))) parseOneElement
      else if choice = LogDatumUnsigned then
        if Kind v \<noteq> ValueUnsigned then Inl ErrMalformed
        else rbind (AppendContextUnsigned [] choice (Unsigned (Fields v))) parseOneElement
      else if choice = LogDatumSigned then
        if Kind v \<noteq> ValueSigned then Inl ErrMalformed
        else rbind (AppendContextSigned [] choice (Signed (Fields v))) parseOneElement
      else if choice = LogDatumNull then rbind (AppendContextNull [] choice) parseOneElement
      else if choice = LogDatumFailure \<or> choice = LogDatumAnyValue then
        if Kind v \<noteq> ValueConstructed \<and> Kind v \<noteq> ValueContext then Inl ErrMalformed
        else Inr [El True choice False False (ConstructedValue (Elements v))]
      else Inl ErrMalformed)"

definition dateValue :: "Date \<Rightarrow> ApplicationValue" where
  "dateValue d = AV ValueDate (zeroFields\<lparr>av_Date := d\<rparr>) []"

definition timeValue :: "Time \<Rightarrow> ApplicationValue" where
  "timeValue t = AV ValueTime (zeroFields\<lparr>av_Time := t\<rparr>) []"

definition EncodeLogRecord :: "LogRecord \<Rightarrow> Element list result" where
  "EncodeLogRecord r =
     rbind (AppendContextTagged [] 0 [appElement (dateValue (dt_Date (Timestamp r))), appElement (timeValue (dt_Time (Timestamp r)))]) (\<lambda>ts.
     rbind (encodeLogDatum (DatumChoice r) (Datum r)) (\<lambda>datumBody.
     rbind (AppendContextTagged [] 1 datumBody) (\<lambda>datum.
     rbind (case lr_StatusFlags r of None \<Rightarrow> Inr (ts @ datum) | Some f \<Rightarrow> AppendContextBitString (ts @ datum) 2 f) (\<lambda>raw.
     rbind (ParseSequence raw DefaultDecodeLimits (-1)) (\<lambda>(els, n).
       if n \<noteq> length raw then Inl ErrTrailingData else Inr els)))))"

text \<open>A datum in constructed form: one application value of the kind.\<close>

definition nestedDatum :: "ValueKind \<Rightarrow> Element \<Rightarrow> bool" where
  "nestedDatum k el \<longleftrightarrow> IsContextConstructed el \<and> length (Elements (Value el)) = 1
     \<and> \<not> Context (Elements (Value el) ! 0) \<and> Kind (Value (Elements (Value el) ! 0)) = k"

definition decodeLogDatumValue :: "u8 \<Rightarrow> Element \<Rightarrow> ApplicationValue result" where
  "decodeLogDatumValue choice el =
     (if choice = LogDatumLogStatus \<or> choice = LogDatumBitString then
        (case ContextBitString el of
           Inl err \<Rightarrow> if nestedDatum ValueBitString el then Inr (Value (Elements (Value el) ! 0)) else Inl err
         | Inr bs \<Rightarrow> Inr (BitStringValue bs))
      else if choice = LogDatumBoolean then rmap BoolValue (ContextBool el)
      else if choice = LogDatumReal \<or> choice = LogDatumTimeChange then
        if \<not> Context el \<or> IsContextConstructed el then
          if nestedDatum ValueReal el then Inr (Value (Elements (Value el) ! 0)) else Inl ErrMalformed
        else if length (OctetString (Fields (Value el))) \<noteq> 4 then Inl ErrMalformed
        else Inr (RealValue (Uint32 (OctetString (Fields (Value el)))))
      else if choice = LogDatumEnumerated then rmap EnumValue (ContextUnsigned32 el)
      else if choice = LogDatumUnsigned then rmap UnsignedValue (ContextUnsigned el)
      else if choice = LogDatumSigned then rmap SignedValue (ContextSigned el)
      else if choice = LogDatumNull then Inr NullValue
      else if choice = LogDatumFailure \<or> choice = LogDatumAnyValue then
        if IsContextConstructed el then Inr (ConstructedValue (Elements (Value el)))
        else Inr (AV ValueContext zeroFields [el])
      else Inl ErrMalformed)"

definition decodeLogRecord :: "Element list \<Rightarrow> (LogRecord \<times> nat) result" where
  "decodeLogRecord els =
     (if length els < 2 then Inl ErrMalformed
      else let tsEl = els ! 0; datumEl = els ! 1 in
        if TagNumber tsEl \<noteq> 0 \<or> \<not> IsContextConstructed tsEl then Inl ErrMalformed
        else if length (Elements (Value tsEl)) \<noteq> 2 then Inl ErrMalformed
        else let d = Elements (Value tsEl) ! 0; t = Elements (Value tsEl) ! 1 in
          if Context d \<or> Kind (Value d) \<noteq> ValueDate \<or> Context t \<or> Kind (Value t) \<noteq> ValueTime then Inl ErrMalformed
          else if TagNumber datumEl \<noteq> 1 \<or> \<not> IsContextConstructed datumEl then Inl ErrMalformed
          else if length (Elements (Value datumEl)) \<noteq> 1 then Inl ErrMalformed
          else let choiceEl = Elements (Value datumEl) ! 0 in
            if \<not> Context choiceEl then Inl ErrMalformed
            else rbind (decodeLogDatumValue (TagNumber choiceEl) choiceEl) (\<lambda>datum.
              let r = \<lparr>Timestamp = \<lparr>dt_Date = av_Date (Fields (Value d)), dt_Time = av_Time (Fields (Value t))\<rparr>,
                       DatumChoice = TagNumber choiceEl, Datum = datum, lr_StatusFlags = None\<rparr> in
              if length els > 2 \<and> Context (els ! 2) \<and> TagNumber (els ! 2) = 2 \<and> \<not> IsContextConstructed (els ! 2)
              then rmap (\<lambda>bs. (r\<lparr>lr_StatusFlags := Some bs\<rparr>, 3)) (ContextBitString (els ! 2))
              else Inr (r, 2)))"

primrec logRecords_loop :: "nat \<Rightarrow> Element list \<Rightarrow> LogRecord list result" where
  "logRecords_loop 0 els = (if els \<noteq> [] then Inl ErrMalformed else Inr [])"
| "logRecords_loop (Suc count) els =
     rbind (decodeLogRecord els) (\<lambda>(r, n). rmap ((#) r) (logRecords_loop count (drop n els)))"

definition DecodeLogRecords :: "Element list \<Rightarrow> int \<Rightarrow> LogRecord list result" where
  "DecodeLogRecords elements count =
     (if count < 0 then Inl ErrMalformed
      else if count = 0 then if length elements \<noteq> 0 then Inl ErrMalformed else Inr []
      else if count > int (length elements) div 2 then Inl ErrMalformed
      else logRecords_loop (nat count) elements)"

section \<open>The request\<close>

abbreviation (input) "ReadRangeAll \<equiv> (0 :: u8)"
abbreviation (input) "ReadRangeByPosition \<equiv> (1 :: u8)"
abbreviation (input) "ReadRangeBySequenceNumber \<equiv> (2 :: u8)"
abbreviation (input) "ReadRangeByTime \<equiv> (3 :: u8)"
abbreviation (input) "PropertyLogBuffer \<equiv> (131 :: u32)"

record ReadRangeRequest =
  rr_Object :: ObjectIdentifier
  rr_Property :: PropertyReference
  rr_By :: u8
  ReferenceIndex :: u32
  ReferenceTime :: DateTime
  rr_Count :: u32 \<comment> \<open>\<^verbatim>\<open>int32\<close>\<close>

definition zeroDateTime :: DateTime where
  "zeroDateTime = \<lparr>dt_Date = \<lparr>Year = 0, Month = 0, Day = 0, Weekday = 0\<rparr>, dt_Time = \<lparr>Hour = 0, Minute = 0, Second = 0, Hundredths = 0\<rparr>\<rparr>"

definition EncodeReadRange :: "ReadRangeRequest \<Rightarrow> bytes result" where
  "EncodeReadRange req =
     rbind (AppendContextObjectID [] 0 (rr_Object req)) (\<lambda>dst.
     rbind (AppendContextUnsigned dst 1 (ucast (Identifier (rr_Property req)))) (\<lambda>dst.
     rbind (case ArrayIndex (rr_Property req) of
              None \<Rightarrow> Inr dst | Some i \<Rightarrow> AppendContextUnsigned dst 2 (ucast i)) (\<lambda>dst.
       if rr_By req = ReadRangeAll then Inr dst
       else if rr_By req = ReadRangeByPosition then
         if rr_Count req = 0 then Inl ErrMalformed
         else AppendContextTagged dst 3
           [appElement (UnsignedValue (ucast (ReferenceIndex req))), appElement (SignedValue (scast (rr_Count req)))]
       else if rr_By req = ReadRangeBySequenceNumber then
         if rr_Count req = 0 then Inl ErrMalformed
         else AppendContextTagged dst 6
           [appElement (UnsignedValue (ucast (ReferenceIndex req))), appElement (SignedValue (scast (rr_Count req)))]
       else if rr_By req = ReadRangeByTime then
         if rr_Count req = 0 then Inl ErrMalformed
         else AppendContextTagged dst 7
           [appElement (dateValue (dt_Date (ReferenceTime req))), appElement (timeValue (dt_Time (ReferenceTime req))),
            appElement (SignedValue (scast (rr_Count req)))]
       else Inl ErrMalformed)))"

definition readRangeCount :: "u64 \<Rightarrow> u32 result" where
  "readRangeCount v =
     (if v = 0 then Inl ErrMalformed
      else if sint v < - (2 ^ 31 - 1) \<or> sint v > 2 ^ 31 - 1 then Inl ErrMalformed
      else Inr (ucast v))"

definition decodeIndexCount :: "Element list \<Rightarrow> (u32 \<times> u32) result" where
  "decodeIndexCount els =
     (if length els \<noteq> 2 then Inl ErrMalformed
      else if Context (els ! 0) \<or> Kind (Value (els ! 0)) \<noteq> ValueUnsigned then Inl ErrMalformed
      else rbind (narrowU32 (Unsigned (Fields (Value (els ! 0))))) (\<lambda>index.
        if Context (els ! 1) \<or> Kind (Value (els ! 1)) \<noteq> ValueSigned then Inl ErrMalformed
        else rmap (\<lambda>count. (index, count)) (readRangeCount (Signed (Fields (Value (els ! 1)))))))"

definition decodeTimeCount :: "Element list \<Rightarrow> (DateTime \<times> u32) result" where
  "decodeTimeCount els =
     (if length els \<noteq> 3 then Inl ErrMalformed
      else if Context (els ! 0) \<or> Kind (Value (els ! 0)) \<noteq> ValueDate then Inl ErrMalformed
      else if Context (els ! 1) \<or> Kind (Value (els ! 1)) \<noteq> ValueTime then Inl ErrMalformed
      else if Context (els ! 2) \<or> Kind (Value (els ! 2)) \<noteq> ValueSigned then Inl ErrMalformed
      else rmap (\<lambda>count. (\<lparr>dt_Date = av_Date (Fields (Value (els ! 0))), dt_Time = av_Time (Fields (Value (els ! 1)))\<rparr>, count))
             (readRangeCount (Signed (Fields (Value (els ! 2))))))"

text \<open>The range is one optional value: the form, the reference and the count, once one was read.\<close>

fun readRange_loop :: "ObjectIdentifier option \<Rightarrow> u32 option \<Rightarrow> u32 option \<Rightarrow> (u8 \<times> u32 \<times> DateTime \<times> u32) option \<Rightarrow>
    Element list \<Rightarrow> ReadRangeRequest result" where
  "readRange_loop obj prop idx rng [] =
     (case (obj, prop) of
        (Some ob, Some p) \<Rightarrow>
          (let (form, index, time, count) = (case rng of Some r \<Rightarrow> r | None \<Rightarrow> (ReadRangeAll, 0, zeroDateTime, 0)) in
           Inr \<lparr>rr_Object = ob, rr_Property = \<lparr>Identifier = p, ArrayIndex = idx\<rparr>, rr_By = form, ReferenceIndex = index,
                ReferenceTime = time, rr_Count = count\<rparr>)
      | _ \<Rightarrow> Inl ErrMalformed)"
| "readRange_loop obj prop idx rng (el # els) =
     (if TagNumber el = 0 \<and> \<not> IsContextConstructed el then
        if obj \<noteq> None then Inl ErrMalformed
        else rbind (ContextObjectID el) (\<lambda>v. readRange_loop (Some v) prop idx rng els)
      else if TagNumber el = 1 \<and> \<not> IsContextConstructed el then
        if prop \<noteq> None then Inl ErrMalformed
        else rbind (ContextUnsigned el) (\<lambda>u.
          if u > 0xFFFFFFFF then Inl ErrMalformed else readRange_loop obj (Some (ucast u)) idx rng els)
      else if TagNumber el = 2 \<and> \<not> IsContextConstructed el then
        if idx \<noteq> None then Inl ErrMalformed
        else rbind (ContextUnsigned el) (\<lambda>u.
          if u > 0xFFFFFFFF then Inl ErrMalformed else readRange_loop obj prop (Some (ucast u)) rng els)
      else if TagNumber el = 3 \<and> IsContextConstructed el then
        if rng \<noteq> None then Inl ErrMalformed
        else rbind (decodeIndexCount (Elements (Value el))) (\<lambda>(index, count).
          readRange_loop obj prop idx (Some (ReadRangeByPosition, index, zeroDateTime, count)) els)
      else if TagNumber el = 6 \<and> IsContextConstructed el then
        if rng \<noteq> None then Inl ErrMalformed
        else rbind (decodeIndexCount (Elements (Value el))) (\<lambda>(index, count).
          readRange_loop obj prop idx (Some (ReadRangeBySequenceNumber, index, zeroDateTime, count)) els)
      else if TagNumber el = 7 \<and> IsContextConstructed el then
        if rng \<noteq> None then Inl ErrMalformed
        else rbind (decodeTimeCount (Elements (Value el))) (\<lambda>(time, count).
          readRange_loop obj prop idx (Some (ReadRangeByTime, 0, time, count)) els)
      else Inl ErrMalformed)"

definition DecodeReadRange :: "bytes \<Rightarrow> DecodeLimits \<Rightarrow> ReadRangeRequest result" where
  "DecodeReadRange payload limits = rbind (wholeSequence payload limits) (readRange_loop None None None None)"

section \<open>The acknowledgment\<close>

record ReadRangeACK =
  ra_Object :: ObjectIdentifier
  ra_Property :: PropertyReference
  ResultFlags :: BitString
  ItemCount :: u32
  ItemData :: "ApplicationValue list"
  LogRecords :: "LogRecord list"
  FirstSequence :: "u32 option"

definition bitStringBit :: "BitString \<Rightarrow> nat \<Rightarrow> bool" where
  "bitStringBit bs n =
     (if n div 8 \<ge> length (bs_Bytes bs) then False
      else bs_Bytes bs ! (n div 8) AND push_bit (7 - n mod 8) 1 \<noteq> 0)"

definition FirstItem :: "ReadRangeACK \<Rightarrow> bool" where
  "FirstItem a = bitStringBit (ResultFlags a) 0"

definition LastItem :: "ReadRangeACK \<Rightarrow> bool" where
  "LastItem a = bitStringBit (ResultFlags a) 1"

definition MoreItems :: "ReadRangeACK \<Rightarrow> bool" where
  "MoreItems a = bitStringBit (ResultFlags a) 2"

definition EncodeResultFlags :: "bool \<Rightarrow> bool \<Rightarrow> bool \<Rightarrow> BitString" where
  "EncodeResultFlags first last' more' =
     (let b = (if first then 0x80 else 0) OR (if last' then 0x40 else 0) OR (if more' then 0x20 else 0) in
      \<lparr>UnusedBits = 5, bs_Bytes = [b]\<rparr>)"

primrec encodeRecords :: "LogRecord list \<Rightarrow> Element list result" where
  "encodeRecords [] = Inr []"
| "encodeRecords (r # rs) = rbind (EncodeLogRecord r) (\<lambda>els. rmap ((@) els) (encodeRecords rs))"

definition EncodeReadRangeACK :: "ReadRangeACK \<Rightarrow> bytes result" where
  "EncodeReadRangeACK ack =
     rbind (AppendContextObjectID [] 0 (ra_Object ack)) (\<lambda>dst.
     rbind (AppendContextUnsigned dst 1 (ucast (Identifier (ra_Property ack)))) (\<lambda>dst.
     rbind (case ArrayIndex (ra_Property ack) of
              None \<Rightarrow> Inr dst | Some i \<Rightarrow> AppendContextUnsigned dst 2 (ucast i)) (\<lambda>dst.
     rbind (AppendContextBitString dst 3 (ResultFlags ack)) (\<lambda>dst.
     rbind (AppendContextUnsigned dst 4 (ucast (ItemCount ack))) (\<lambda>dst.
     rbind (if length (LogRecords ack) > 0 then encodeRecords (LogRecords ack) else Inr (map appElement (ItemData ack))) (\<lambda>body.
     rbind (AppendContextTagged dst 5 body) (\<lambda>dst.
       case FirstSequence ack of
         None \<Rightarrow> Inr dst
       | Some q \<Rightarrow> AppendContextUnsigned dst 6 (ucast q))))))))"

definition itemValue :: "Element \<Rightarrow> ApplicationValue result" where
  "itemValue item =
     (if Opening item \<or> Closing item then Inl ErrMalformed
      else if Context item \<and> \<not> IsContextConstructed item then Inr (AV ValueContext zeroFields [item])
      else if IsContextConstructed item then Inr (ConstructedValue (Elements (Value item)))
      else Inr (Value item))"

primrec itemValues :: "Element list \<Rightarrow> ApplicationValue list result" where
  "itemValues [] = Inr []"
| "itemValues (e # es) = rbind (itemValue e) (\<lambda>v. rmap ((#) v) (itemValues es))"

text \<open>What the loop has read so far: every field with its \<^verbatim>\<open>have\<close> flag, the items with the elements they came from.\<close>

record rra_cur =
  cur_Object :: "ObjectIdentifier option"
  cur_Property :: "u32 option"
  cur_Index :: "u32 option"
  cur_Flags :: "BitString option"
  cur_Count :: "u32 option"
  cur_Data :: "(Element list \<times> ApplicationValue list) option"
  cur_Sequence :: "u32 option"

abbreviation (input) "empty_rra_cur \<equiv> \<lparr>cur_Object = None, cur_Property = None, cur_Index = None, cur_Flags = None, cur_Count = None,
  cur_Data = None, cur_Sequence = None\<rparr>"

definition finishReadRangeACK :: "rra_cur \<Rightarrow> ReadRangeACK result" where
  "finishReadRangeACK c =
     (case (cur_Object c, cur_Property c, cur_Flags c, cur_Count c, cur_Data c) of
        (Some ob, Some p, Some flags, Some count, Some (raw, items)) \<Rightarrow>
          if count = 0 \<and> length items \<noteq> 0 then Inl ErrMalformed
          else if count > 0 \<and> length items = 0 then Inl ErrMalformed
          else rbind (if p = PropertyLogBuffer then DecodeLogRecords raw (uint count) else Inr []) (\<lambda>records.
            Inr \<lparr>ra_Object = ob, ra_Property = \<lparr>Identifier = p, ArrayIndex = cur_Index c\<rparr>, ResultFlags = flags, ItemCount = count,
                 ItemData = items, LogRecords = records, FirstSequence = cur_Sequence c\<rparr>)
      | _ \<Rightarrow> Inl ErrMalformed)"

fun readRangeACK_loop :: "rra_cur \<Rightarrow> Element list \<Rightarrow> ReadRangeACK result" where
  "readRangeACK_loop c [] = finishReadRangeACK c"
| "readRangeACK_loop c (el # els) =
     (if TagNumber el = 0 \<and> \<not> IsContextConstructed el then
        if cur_Object c \<noteq> None then Inl ErrMalformed
        else rbind (ContextObjectID el) (\<lambda>v. readRangeACK_loop (c\<lparr>cur_Object := Some v\<rparr>) els)
      else if TagNumber el = 1 \<and> \<not> IsContextConstructed el then
        if cur_Property c \<noteq> None then Inl ErrMalformed
        else rbind (ContextUnsigned el) (\<lambda>u.
          if u > 0xFFFFFFFF then Inl ErrMalformed else readRangeACK_loop (c\<lparr>cur_Property := Some (ucast u)\<rparr>) els)
      else if TagNumber el = 2 \<and> \<not> IsContextConstructed el then
        if cur_Index c \<noteq> None then Inl ErrMalformed
        else rbind (ContextUnsigned el) (\<lambda>u.
          if u > 0xFFFFFFFF then Inl ErrMalformed else readRangeACK_loop (c\<lparr>cur_Index := Some (ucast u)\<rparr>) els)
      else if TagNumber el = 3 \<and> \<not> IsContextConstructed el then
        if cur_Flags c \<noteq> None then Inl ErrMalformed
        else rbind (ContextBitString el) (\<lambda>bs.
          if UnusedBits bs \<noteq> 5 \<or> length (bs_Bytes bs) \<noteq> 1 then Inl ErrMalformed
          else readRangeACK_loop (c\<lparr>cur_Flags := Some bs\<rparr>) els)
      else if TagNumber el = 4 \<and> \<not> IsContextConstructed el then
        if cur_Count c \<noteq> None then Inl ErrMalformed
        else rbind (ContextUnsigned el) (\<lambda>u.
          if u > 0xFFFFFFFF then Inl ErrMalformed else readRangeACK_loop (c\<lparr>cur_Count := Some (ucast u)\<rparr>) els)
      else if TagNumber el = 5 \<and> IsContextConstructed el then
        if cur_Data c \<noteq> None then Inl ErrMalformed
        else rbind (itemValues (Elements (Value el))) (\<lambda>items.
          readRangeACK_loop (c\<lparr>cur_Data := Some (Elements (Value el), items)\<rparr>) els)
      else if TagNumber el = 6 \<and> \<not> IsContextConstructed el then
        if cur_Sequence c \<noteq> None then Inl ErrMalformed
        else rbind (ContextUnsigned el) (\<lambda>u.
          if u > 0xFFFFFFFF then Inl ErrMalformed else readRangeACK_loop (c\<lparr>cur_Sequence := Some (ucast u)\<rparr>) els)
      else Inl ErrMalformed)"

definition DecodeReadRangeACK :: "bytes \<Rightarrow> DecodeLimits \<Rightarrow> ReadRangeACK result" where
  "DecodeReadRangeACK payload limits = rbind (wholeSequence payload limits) (readRangeACK_loop empty_rra_cur)"

section \<open>Records and elements\<close>

text \<open>A date or a time written as an application value.\<close>

lemma stamp_value [simp]:
  "Kind (dateValue d) = ValueDate" "av_Date (Fields (dateValue d)) = d" "Elements (dateValue d) = []" "wf_appValue N (dateValue d)"
  "Kind (timeValue t) = ValueTime" "av_Time (Fields (timeValue t)) = t" "Elements (timeValue t) = []" "wf_appValue N (timeValue t)"
  "Kind (SignedValue u) = ValueSigned" "Fields (SignedValue u) = zeroFields\<lparr>Signed := u\<rparr>" "Elements (SignedValue u) = []"
  "wf_appValue N (SignedValue u)"
  by (simp_all add: dateValue_def timeValue_def SignedValue_def wf_appValue_def canonicalValue_def fitsLimits_def zeroFields_def value_defs)

lemma AppendTag_appElement: "AppendTag dst (appElement v) = AppendTag dst (appEl v)"
  by (cases v) (simp add: appElement_def appEl_def)

definition bsEl :: "u8 \<Rightarrow> BitString \<Rightarrow> Element" where
  "bsEl tn bs = ctxEl tn (UnusedBits bs # bs_Bytes bs)"

definition validBits :: "BitString \<Rightarrow> bool" where
  "validBits bs \<longleftrightarrow> is_ok (validateBitString (UnusedBits bs) (length (bs_Bytes bs)))"

text \<open>The element a datum is written as, and the data it can be written for.\<close>

definition datumEl :: "u8 \<Rightarrow> ApplicationValue \<Rightarrow> Element" where
  "datumEl c v =
     (if c = LogDatumLogStatus \<or> c = LogDatumBitString then bsEl c (av_BitString (Fields v))
      else if c = LogDatumBoolean then ctxEl c [if Boolean (Fields v) then 1 else 0]
      else if c = LogDatumReal \<or> c = LogDatumTimeChange then ctxEl c (put32 (Real (Fields v)))
      else if c = LogDatumEnumerated then uEl c (ucast (Enumerated (Fields v)))
      else if c = LogDatumUnsigned then uEl c (Unsigned (Fields v))
      else if c = LogDatumSigned then ctxEl c (encodeSigned (Signed (Fields v)))
      else if c = LogDatumNull then ctxEl c []
      else conEl c (Elements v))"

definition datumOk :: "u8 \<Rightarrow> ApplicationValue \<Rightarrow> bool" where
  "datumOk c v =
     (if c = LogDatumLogStatus \<or> c = LogDatumBitString then v = BitStringValue (av_BitString (Fields v)) \<and> validBits (av_BitString (Fields v))
      else if c = LogDatumBoolean then v = BoolValue (Boolean (Fields v))
      else if c = LogDatumReal \<or> c = LogDatumTimeChange then v = RealValue (Real (Fields v))
      else if c = LogDatumEnumerated then v = EnumValue (Enumerated (Fields v))
      else if c = LogDatumUnsigned then v = UnsignedValue (Unsigned (Fields v))
      else if c = LogDatumSigned then v = SignedValue (Signed (Fields v))
      else if c = LogDatumNull then v = NullValue
      else if c = LogDatumFailure \<or> c = LogDatumAnyValue then v = ConstructedValue (Elements v)
      else False)"

definition recordEls :: "LogRecord \<Rightarrow> Element list" where
  "recordEls r = [conEl 0 [appEl (dateValue (dt_Date (Timestamp r))), appEl (timeValue (dt_Time (Timestamp r)))],
     conEl 1 [datumEl (DatumChoice r) (Datum r)]] @ optEl (bsEl 2) (lr_StatusFlags r)"

definition recordOk :: "LogRecord \<Rightarrow> bool" where
  "recordOk r \<longleftrightarrow> datumOk (DatumChoice r) (Datum r) \<and> (case lr_StatusFlags r of None \<Rightarrow> True | Some f \<Rightarrow> validBits f)
     \<and> fitsSequence DefaultDecodeLimits (recordEls r)"

lemma bsEl_simps [simp]:
  "Context (bsEl tn bs)" "TagNumber (bsEl tn bs) = tn" "\<not> IsContextConstructed (bsEl tn bs)" "\<not> Opening (bsEl tn bs)"
  "\<not> Closing (bsEl tn bs)" "validBits bs \<Longrightarrow> ContextBitString (bsEl tn bs) = Inr bs"
  by (auto simp: bsEl_def ContextBitString_def notContextPrimitive_def validBits_def is_ok_iff Let_def)

lemma AppendContextBitString_el [service_simps]:
  "validBits bs \<Longrightarrow> AppendContextBitString dst tn bs = AppendTag dst (bsEl tn bs)"
  by (auto simp: AppendContextBitString_def bsEl_def validBits_def is_ok_iff appendContextPrimitive_AppendTag)

lemma appendContextOctets_el:
  assumes "tn \<le> 14" "length raw \<le> 0xFFFFFFFF"
  shows "appendContextOctets dst tn raw = AppendTag dst (ctxEl tn raw)"
proof -
  have "tn \<noteq> tagNumberReserved" "tn < 15" using assms(1) by (auto simp: tagNumberReserved_def word_le_nat_alt word_less_nat_alt)
  then show ?thesis using assms
    by (simp add: appendContextPrimitive_AppendTag [symmetric] appendContextPrimitive_def appendContextOctets_def contextLengthPrefix_def
        encodeTagHeader_def Let_def not_less or.assoc)
qed

lemma parseOneElement_ctxEl:
  assumes "wf_element DefaultDecodeLimits (ctxEl tn raw)"
  shows "rbind (AppendTag [] (ctxEl tn raw)) parseOneElement = Inr [ctxEl tn raw]"
proof -
  obtain bs where "appendContextPrimitive [] tn raw = Inr bs" "ParseTag (bs @ []) DefaultDecodeLimits = Inr (El True tn False False (ContextValue raw), length bs)"
    using appendContextPrimitive_roundtrip [of tn raw DefaultDecodeLimits] assms by (simp only: wf_el Normalize_Default) blast
  then show ?thesis using appendContextPrimitive_AppendTag [of "[]" tn raw] by (simp add: parseOneElement_def del: AppendTag.simps) (simp add: ctxEl_def)
qed

lemma datumEl_simps [simp]: "Context (datumEl c v)" "TagNumber (datumEl c v) = c" "\<not> Opening (datumEl c v)" "\<not> Closing (datumEl c v)"
  by (simp_all add: datumEl_def uEl_def)

lemma datumOk_elim:
  assumes "datumOk c v"
  obtains (bits) bs where "c = LogDatumLogStatus \<or> c = LogDatumBitString" "v = BitStringValue bs" "validBits bs"
  | (bool) b where "c = LogDatumBoolean" "v = BoolValue b"
  | (real) r where "c = LogDatumReal \<or> c = LogDatumTimeChange" "v = RealValue r"
  | (enum) e where "c = LogDatumEnumerated" "v = EnumValue e"
  | (unsigned) u where "c = LogDatumUnsigned" "v = UnsignedValue u"
  | (signed) i where "c = LogDatumSigned" "v = SignedValue i"
  | (null) "c = LogDatumNull" "v = NullValue"
  | (any) els where "c = LogDatumFailure \<or> c = LogDatumAnyValue" "v = ConstructedValue els"
  using assms unfolding datumOk_def by (auto split: if_splits)

lemma datum_value [simp]:
  "Kind (BitStringValue b) = ValueBitString" "av_BitString (Fields (BitStringValue b)) = b"
  "Kind (RealValue r) = ValueReal" "Real (Fields (RealValue r)) = r"
  by (simp_all add: value_defs)

lemma encodeLogDatum_el:
  assumes "datumOk c v" "wf_element DefaultDecodeLimits (datumEl c v)"
  shows "encodeLogDatum c v = Inr [datumEl c v]"
  using assms(1)
proof (cases rule: datumOk_elim)
  case bits
  then show ?thesis using assms(2)
    by (auto simp: datumEl_def encodeLogDatum_def AppendContextBitString_el bsEl_def parseOneElement_ctxEl simp del: wf_el AppendTag.simps)
next
  case real
  then show ?thesis using assms(2)
    by (auto simp: datumEl_def encodeLogDatum_def appendContextOctets_el parseOneElement_ctxEl simp del: wf_el AppendTag.simps)
next
  case any
  then show ?thesis by (auto simp: datumEl_def encodeLogDatum_def conEl_def)
qed (use assms(2) in \<open>simp_all add: datumEl_def encodeLogDatum_def AppendContextBool_def AppendContextUnsigned_def AppendContextSigned_def
   AppendContextNull_def appendContextPrimitive_AppendTag uEl_def parseOneElement_ctxEl del: wf_el AppendTag.simps\<close>)

lemma decodeLogDatumValue_el:
  assumes "datumOk c v"
  shows "decodeLogDatumValue c (datumEl c v) = Inr v"
  using assms
  by (cases rule: datumOk_elim) (auto simp: datumEl_def decodeLogDatumValue_def ContextBool_def)

lemma EncodeLogRecord_els:
  assumes "recordOk r"
  shows "EncodeLogRecord r = Inr (recordEls r)"
proof -
  let ?t = "conEl 0 [appEl (dateValue (dt_Date (Timestamp r))), appEl (timeValue (dt_Time (Timestamp r)))]"
    and ?d = "datumEl (DatumChoice r) (Datum r)"
  have ok: "datumOk (DatumChoice r) (Datum r)" and fl: "\<And>f. lr_StatusFlags r = Some f \<Longrightarrow> validBits f"
    and fit: "fitsSequence DefaultDecodeLimits (recordEls r)"
    using assms by (auto simp: recordOk_def)
  have wf: "wf_element DefaultDecodeLimits ?d" using fit by (simp add: fitsSequence_def recordEls_def)
  obtain raw where raw: "AppendTags [] (recordEls r) = Inr raw" "ParseSequence raw DefaultDecodeLimits (-1) = Inr (recordEls r, length raw)"
    using encoded_sequence_parses [of DefaultDecodeLimits "recordEls r"] fit by (auto simp: fitsSequence_def)
  obtain ts where ts: "AppendTag [] ?t = Inr ts" using raw(1) by (auto simp: recordEls_def rbind_eq_Inr)
  have tsb: "AppendContextTagged [] 0 [appElement (dateValue (dt_Date (Timestamp r))), appElement (timeValue (dt_Time (Timestamp r)))] = Inr ts"
    using ts by (simp add: AppendTag_conEl AppendTag_appElement tagNumberReserved_def)
  have "AppendTags [] (recordEls r) = rbind (AppendTag ts (conEl 1 [?d])) (\<lambda>d. AppendTags d (optEl (bsEl 2) (lr_StatusFlags r)))"
    using ts by (simp add: recordEls_def)
  then obtain d where d: "AppendTag [] (conEl 1 [?d]) = Inr d" "AppendTags (ts @ d) (optEl (bsEl 2) (lr_StatusFlags r)) = Inr raw"
    using raw(1) AppendTags_dst [of ts "[conEl 1 [?d]]"]
    by (cases "AppendTags [] [conEl 1 [?d]]") (auto simp: AppendTag_AppendTags simp del: AppendTags.simps)
  have "(case lr_StatusFlags r of None \<Rightarrow> Inr (ts @ d) | Some f \<Rightarrow> AppendContextBitString (ts @ d) 2 f) = Inr raw"
    using d(2) fl by (cases "lr_StatusFlags r") (simp_all add: AppendContextBitString_el)
  moreover have "AppendContextTagged [] 1 [?d] = Inr d" using d(1) by (simp only: AppendContextTagged_AppendTag)
  ultimately show ?thesis
    by (simp add: EncodeLogRecord_def tsb encodeLogDatum_el [OF ok wf] raw(2) del: AppendContextTagged.simps)
qed

lemma decodeLogRecord_els:
  assumes "recordOk r" "rest = [] \<or> TagNumber (hd rest) \<noteq> 2"
  shows "decodeLogRecord (recordEls r @ rest) = Inr (r, length (recordEls r))"
proof -
  have "datumOk (DatumChoice r) (Datum r)" "\<And>f. lr_StatusFlags r = Some f \<Longrightarrow> validBits f"
    using assms(1) by (auto simp: recordOk_def)
  then show ?thesis using assms(2)
    by (cases "lr_StatusFlags r"; cases rest; cases r)
      (simp_all add: recordEls_def decodeLogRecord_def decodeLogDatumValue_el)
qed

lemma logRecords_loop_els: "(\<And>r. r \<in> set rs \<Longrightarrow> recordOk r) \<Longrightarrow> logRecords_loop (length rs) (concat (map recordEls rs)) = Inr rs"
proof (induction rs)
  case (Cons r rs)
  have "concat (map recordEls rs) = [] \<or> TagNumber (hd (concat (map recordEls rs))) \<noteq> 2"
    by (cases rs) (simp_all add: recordEls_def)
  then show ?case using Cons decodeLogRecord_els [of r "concat (map recordEls rs)"] by simp
qed simp

lemma encodeRecords_els: "(\<And>r. r \<in> set rs \<Longrightarrow> recordOk r) \<Longrightarrow> encodeRecords rs = Inr (concat (map recordEls rs))"
  by (induction rs) (simp_all add: EncodeLogRecord_els)

lemma recordEls_length: "2 * length rs \<le> length (concat (map recordEls rs))"
  by (induction rs) (simp_all add: recordEls_def)

lemma DecodeLogRecords_els:
  assumes "\<And>r. r \<in> set rs \<Longrightarrow> recordOk r"
  shows "DecodeLogRecords (concat (map recordEls rs)) (int (length rs)) = Inr rs"
proof -
  have "int (length rs) \<le> int (length (concat (map recordEls rs))) div 2" using recordEls_length [of rs] by linarith
  moreover have "concat (map recordEls rs) = []" if "length rs = 0" using that by simp
  ultimately show ?thesis using logRecords_loop_els [of rs, OF assms] by (auto simp: DecodeLogRecords_def)
qed

section \<open>Services\<close>

lemma scast_count [simp]: "sint (scast c :: u64) = sint c" "(ucast (scast c :: u64) :: u32) = c" for c :: u32
proof -
  show "sint (scast c :: u64) = sint c" by (rule sint_up_scast) (simp add: is_up)
  show "(ucast (scast c :: u64) :: u32) = c" by (rule bit_word_eqI) (auto simp: bit_simps)
qed

lemma readRangeCount_scast:
  fixes c :: u32
  assumes "c \<noteq> 0" "c \<noteq> 0x80000000"
  shows "readRangeCount (scast c) = Inr c"
proof -
  have "sint c \<noteq> - (2 ^ 31)"
  proof
    assume "sint c = - (2 ^ 31)"
    then have "(of_int (sint c) :: u32) = of_int (- (2 ^ 31))" by (rule arg_cong)
    then show False using assms(2) by simp
  qed
  moreover have "- (2 ^ 31) \<le> sint c" "sint c < 2 ^ 31" using sint_greater_eq [of c] sint_less [of c] by simp_all
  moreover have "(scast c :: u64) \<noteq> 0" using assms(1) by (metis scast_count(2) unsigned_0)
  ultimately show ?thesis by (simp add: readRangeCount_def)
qed

definition rangeEls :: "ReadRangeRequest \<Rightarrow> Element list" where
  "rangeEls r =
     (let index = [appEl (UnsignedValue (ucast (ReferenceIndex r))), appEl (SignedValue (scast (rr_Count r)))] in
      if rr_By r = ReadRangeAll then []
      else if rr_By r = ReadRangeByPosition then [conEl 3 index]
      else if rr_By r = ReadRangeBySequenceNumber then [conEl 6 index]
      else [conEl 7 [appEl (dateValue (dt_Date (ReferenceTime r))), appEl (timeValue (dt_Time (ReferenceTime r))), appEl (SignedValue (scast (rr_Count r)))]])"

definition readRange_els :: "ReadRangeRequest \<Rightarrow> Element list" where
  "readRange_els r = [idEl 0 (rr_Object r), uEl 1 (ucast (Identifier (rr_Property r)))] @ optEl (\<lambda>i. uEl 2 (ucast i)) (ArrayIndex (rr_Property r)) @ rangeEls r"

definition readRangeOk :: "ReadRangeRequest \<Rightarrow> bool" where
  "readRangeOk r \<longleftrightarrow> wf_id (rr_Object r) \<and> rr_By r \<le> 3 \<and> (rr_By r \<noteq> ReadRangeAll \<longrightarrow> rr_Count r \<noteq> 0 \<and> rr_Count r \<noteq> 0x80000000)"

text \<open>The fields a form of range does not have are not sent.\<close>

definition readRange_norm :: "ReadRangeRequest \<Rightarrow> ReadRangeRequest" where
  "readRange_norm r = r
     \<lparr>ReferenceIndex := (if rr_By r = ReadRangeByPosition \<or> rr_By r = ReadRangeBySequenceNumber then ReferenceIndex r else 0),
      ReferenceTime := (if rr_By r = ReadRangeByTime then ReferenceTime r else zeroDateTime),
      rr_Count := (if rr_By r = ReadRangeAll then 0 else rr_Count r)\<rparr>"

lemma range_form: "f \<le> 3 \<Longrightarrow> f = 0 \<or> f = 1 \<or> f = 2 \<or> f = (3 :: u8)"
  by (simp add: word_le_nat_alt word_unat_eq_iff) linarith

interpretation readRange: element_service EncodeReadRange "readRange_loop None None None None" readRange_els readRangeOk readRange_norm
proof
  fix r :: ReadRangeRequest assume ok: "readRangeOk r"
  have f: "rr_By r = 0 \<or> rr_By r = 1 \<or> rr_By r = 2 \<or> rr_By r = 3" and i: "wf_id (rr_Object r)"
    using ok range_form [of "rr_By r"] by (simp_all add: readRangeOk_def)
  have c: "rr_Count r \<noteq> 0 \<and> readRangeCount (scast (rr_Count r)) = Inr (rr_Count r)" if "rr_By r \<noteq> 0"
    using ok that by (simp add: readRangeOk_def readRangeCount_scast)
  note split = option.splits
  show "EncodeReadRange r = AppendTags [] (readRange_els r)"
    using f c i by (cases "ArrayIndex (rr_Property r)")
      (auto simp: EncodeReadRange_def readRange_els_def rangeEls_def service_simps AppendContextTagged_AppendTag AppendTag_conEl tagNumberReserved_def
        AppendTag_appElement rbind_assoc simp del: AppendContextTagged.simps)
  show "readRange_loop None None None None (readRange_els r) = Inr (readRange_norm r)"
    using f c i by (cases "ArrayIndex (rr_Property r)"; cases "rr_Property r"; cases r)
      (auto simp: readRange_els_def rangeEls_def readRange_norm_def decodeIndexCount_def decodeTimeCount_def)
qed

definition itemOf :: "Element \<Rightarrow> ApplicationValue" where
  "itemOf item =
     (if Context item \<and> \<not> IsContextConstructed item then AV ValueContext zeroFields [item]
      else if IsContextConstructed item then ConstructedValue (Elements (Value item))
      else Value item)"

definition readRangeACK_els :: "ReadRangeACK \<Rightarrow> Element list" where
  "readRangeACK_els a = [idEl 0 (ra_Object a), uEl 1 (ucast (Identifier (ra_Property a)))] @ optEl (\<lambda>i. uEl 2 (ucast i)) (ArrayIndex (ra_Property a))
     @ [bsEl 3 (ResultFlags a), uEl 4 (ucast (ItemCount a)), conEl 5 (concat (map recordEls (LogRecords a)))]
     @ optEl (\<lambda>q. uEl 6 (ucast q)) (FirstSequence a)"

text \<open>An acknowledgment of log records, as the server writes it.\<close>

definition logACKOk :: "ReadRangeACK \<Rightarrow> bool" where
  "logACKOk a \<longleftrightarrow> wf_id (ra_Object a) \<and> Identifier (ra_Property a) = PropertyLogBuffer \<and> (\<exists>f l m. ResultFlags a = EncodeResultFlags f l m)
     \<and> uint (ItemCount a) = int (length (LogRecords a)) \<and> ItemData a = [] \<and> (\<forall>r \<in> set (LogRecords a). recordOk r)"

definition logACK_norm :: "ReadRangeACK \<Rightarrow> ReadRangeACK" where
  "logACK_norm a = a\<lparr>ItemData := map itemOf (concat (map recordEls (LogRecords a)))\<rparr>"

lemma itemValues_records: "itemValues (concat (map recordEls rs)) = Inr (map itemOf (concat (map recordEls rs)))"
proof -
  have "\<not> Opening e \<and> \<not> Closing e" if "e \<in> set (concat (map recordEls rs))" for e
    using that by (auto simp: recordEls_def optEl_def split: option.splits)
  moreover have "itemValues es = Inr (map itemOf es)" if "\<And>e. e \<in> set es \<Longrightarrow> \<not> Opening e \<and> \<not> Closing e" for es
    using that by (induction es) (simp_all add: itemValue_def itemOf_def)
  ultimately show ?thesis by blast
qed

lemma resultFlags_valid: "validBits (EncodeResultFlags f l m)" "UnusedBits (EncodeResultFlags f l m) = 5" "length (bs_Bytes (EncodeResultFlags f l m)) = 1"
  by (simp_all add: EncodeResultFlags_def validBits_def validateBitString_def Let_def)

lemma resultFlags_bits:
  "bitStringBit (EncodeResultFlags f l m) 0 = f" "bitStringBit (EncodeResultFlags f l m) 1 = l" "bitStringBit (EncodeResultFlags f l m) 2 = m"
  by (cases f; cases l; cases m; simp add: EncodeResultFlags_def bitStringBit_def)+

interpretation readRangeACK: element_service EncodeReadRangeACK "readRangeACK_loop empty_rra_cur" readRangeACK_els logACKOk logACK_norm
proof
  fix a :: ReadRangeACK assume ok: "logACKOk a"
  obtain f l m where fl: "ResultFlags a = EncodeResultFlags f l m" using ok by (auto simp: logACKOk_def)
  have i: "wf_id (ra_Object a)" and r: "\<And>r. r \<in> set (LogRecords a) \<Longrightarrow> recordOk r" and d: "ItemData a = []"
    and p: "Identifier (ra_Property a) = PropertyLogBuffer" and n: "uint (ItemCount a) = int (length (LogRecords a))"
    using ok by (auto simp: logACKOk_def)
  have body: "(if length (LogRecords a) > 0 then encodeRecords (LogRecords a) else Inr (map appElement (ItemData a))) = Inr (concat (map recordEls (LogRecords a)))"
    using encodeRecords_els [OF r] d by simp
  show "EncodeReadRangeACK a = AppendTags [] (readRangeACK_els a)"
    unfolding EncodeReadRangeACK_def body using i
    by (cases "ArrayIndex (ra_Property a)"; cases "FirstSequence a")
      (simp_all add: readRangeACK_els_def service_simps fl resultFlags_valid AppendContextTagged_AppendTag rbind_assoc del: AppendContextTagged.simps)
  have z: "ItemCount a = 0 \<longleftrightarrow> LogRecords a = []" using n by (simp add: uint_0_iff [symmetric])
  have e: "concat (map recordEls rs) = [] \<longleftrightarrow> rs = []" for rs by (cases rs) (simp_all add: recordEls_def)
  have "DecodeLogRecords (concat (map recordEls (LogRecords a))) (uint (ItemCount a)) = Inr (LogRecords a)"
    using DecodeLogRecords_els [OF r] n by simp
  then show "readRangeACK_loop empty_rra_cur (readRangeACK_els a) = Inr (logACK_norm a)"
    using i p z e [of "LogRecords a"] resultFlags_valid [of f l m, folded fl]
    by (cases "ArrayIndex (ra_Property a)"; cases "FirstSequence a"; cases "ra_Property a"; cases a; cases "LogRecords a = []")
      (simp_all add: readRangeACK_els_def itemValues_records finishReadRangeACK_def logACK_norm_def word_gt_0 del: concat_eq_Nil_conv)
qed

end
