(* ===== verification/Trend_Log.thy ===== *)
theory Trend_Log
  imports Range_Services Handlers Responder
begin

text \<open>
  The Trend Log object (\<^verbatim>\<open>server/object/trendlog.go\<close>) and the handler of ReadRange (\<^verbatim>\<open>server/handlers_range.go\<close>). How the
  source property is read when the log polls is a parameter, as it depends on the object found. A slice expression whose
  bounds are not within the records is a run-time panic, the outer \<open>None\<close> of \<^verbatim>\<open>ReadRange\<close>.
  Main results: the log is a window on the sequence of everything logged since it was emptied; ReadRange returns the items
  its range denotes, except by sequence number once the numbers have wrapped, where it returns nothing or, in a buffer of more than
  \<open>2 ^ 31\<close> records, panics; the reply carries the longest part of the items that fits and is never refused as too long.
\<close>

section \<open>The object\<close>

record RangeQuery =
  q_By :: u8
  q_Index :: u32
  q_Time :: DateTime
  q_Count :: u32 \<comment> \<open>\<^verbatim>\<open>int32\<close>\<close>

record RangeResult =
  Records :: "LogRecord list"
  Items :: "ApplicationValue list"
  Position :: u32
  Total :: u32
  rs_FirstSequence :: u32
  Sequenced :: bool

record TrendLogConfig =
  tlc_Instance :: u32
  tlc_Name :: bytes
  tlc_Description :: bytes
  BufferSize :: u32
  StopWhenFull :: bool
  tlc_Source :: "ObjectIdentifier option"
  SourceProperty :: PropertyIdentifier
  LogInterval :: int \<comment> \<open>nanoseconds\<close>
  tlc_Enable :: bool

record logEntry =
  le_seq :: u32
  le_at :: int
  le_rec :: LogRecord

record TrendLogState =
  tl_cfg :: TrendLogConfig
  tl_enable :: bool
  tl_records :: "logEntry list"
  tl_total :: u32
  lastPoll :: "int option" \<comment> \<open>\<open>None\<close> is the zero time\<close>

type_synonym TrendLog = "TrendLogState Base"

abbreviation (input) "PropertyEnable \<equiv> (133 :: u32)"
abbreviation (input) "PropertyRecordCount \<equiv> (141 :: u32)"
abbreviation (input) "PropertyTotalRecordCount \<equiv> (145 :: u32)"

definition setEnable :: "Write \<Rightarrow> TrendLogState \<Rightarrow> (PropertyIdentifier list \<times> TrendLogState) result" where
  "setEnable w t =
     (if ArrayIndex (w_Property w) \<noteq> None then Inl ErrNotAnArray
      else if Kind (w_Value w) \<noteq> ValueBoolean then Inl ErrInvalidDataType
      else Inr ([PropertyEnable], t\<lparr>tl_enable := Boolean (Fields (w_Value w))\<rparr>))"

definition setRecordCount :: "Write \<Rightarrow> TrendLogState \<Rightarrow> (PropertyIdentifier list \<times> TrendLogState) result" where
  "setRecordCount w t =
     (if Kind (w_Value w) \<noteq> ValueUnsigned then Inl ErrInvalidDataType
      else if Unsigned (Fields (w_Value w)) \<noteq> 0 then Inl ErrValueOutOfRange
      else Inr ([PropertyRecordCount], t\<lparr>tl_records := []\<rparr>))"

definition trendLogProperties :: "TrendLogConfig \<Rightarrow> TrendLog \<Rightarrow> TrendLog" where
  "trendLogProperties cfg b =
     (let b = (if tlc_Description cfg \<noteq> []
               then Define 28 (stored (charString (tlc_Description cfg)) True [ValueCharacterString] False False) b else b);
          b = Define PropertyEnable (settable (\<lambda>t. BoolValue (tl_enable t)) setEnable True) b;
          b = Define 144 (stored (BoolValue (StopWhenFull cfg)) False [] False True) b;
          b = Define 126 (stored (UnsignedValue (ucast (BufferSize cfg))) False [] False True) b;
          b = Define PropertyLogBuffer (computed (GetBy (\<lambda>_. zeroValue)) False True) b;
          b = Define PropertyRecordCount (settable (\<lambda>t. UnsignedValue (word_of_nat (length (tl_records t)))) setRecordCount True) b;
          b = Define PropertyTotalRecordCount (computed (GetBy (\<lambda>t. UnsignedValue (ucast (tl_total t)))) False True) b;
          b = (if tlc_Source cfg \<noteq> None
               then Define 134 (stored (UnsignedValue (word_of_int (LogInterval cfg div 10000000))) False [] False False) b else b);
          b = Define 197 (stored (EnumValue (if tlc_Source cfg \<noteq> None then 0 else 2)) False [] False True) b;
          b = Define 111 (computed (GetBy (\<lambda>_. statusFlags False False False False)) False True) b in
      Define 36 (stored (EnumValue 0) False [] False True) b)"

definition NewTrendLog :: "TrendLogConfig \<Rightarrow> object_error + TrendLog" where
  "NewTrendLog cfg =
     (if tlc_Name cfg = [] then Inl Formatted
      else if tlc_Instance cfg \<ge> MaxObjectInstance then Inl Formatted
      else
        let cfg = (if BufferSize cfg = 0 then cfg\<lparr>BufferSize := 1000\<rparr> else cfg) in
        if tlc_Source cfg \<noteq> None \<and> LogInterval cfg \<le> 0 then Inl Formatted
        else Inr (trendLogProperties cfg (NewBase \<lparr>oType = 20, Instance = tlc_Instance cfg\<rparr> (tlc_Name cfg)
          \<lparr>tl_cfg = cfg, tl_enable = tlc_Enable cfg, tl_records = [], tl_total = 0, lastPoll = None\<rparr>)))"

definition tl_ReadProperty :: "TrendLog \<Rightarrow> PropertyReference \<Rightarrow> ApplicationValue result" where
  "tl_ReadProperty b ref = (if Identifier ref = PropertyLogBuffer then Inl (Err 2 27) else readLocked b ref)"

definition datumChoice :: "ValueKind \<Rightarrow> u8 option" where
  "datumChoice k = (case k of
      ValueReal \<Rightarrow> Some LogDatumReal
    | ValueBoolean \<Rightarrow> Some LogDatumBoolean
    | ValueEnumerated \<Rightarrow> Some LogDatumEnumerated
    | ValueUnsigned \<Rightarrow> Some LogDatumUnsigned
    | ValueSigned \<Rightarrow> Some LogDatumSigned
    | ValueBitString \<Rightarrow> Some LogDatumBitString
    | ValueNull \<Rightarrow> Some LogDatumNull
    | _ \<Rightarrow> None)"

definition logRecord :: "int \<Rightarrow> u8 \<Rightarrow> ApplicationValue \<Rightarrow> BitString option \<Rightarrow> LogRecord" where
  "logRecord at choice v flags =
     \<lparr>Timestamp = \<lparr>dt_Date = dateOf at, dt_Time = timeOf at\<rparr>, DatumChoice = choice, Datum = v, lr_StatusFlags = flags\<rparr>"

text \<open>What the function given to \<^verbatim>\<open>Update\<close> does, and \<^verbatim>\<open>Log\<close> with the properties it notifies.\<close>

definition appendRecord :: "int \<Rightarrow> u8 \<Rightarrow> ApplicationValue \<Rightarrow> BitString option \<Rightarrow> TrendLogState \<Rightarrow> PropertyIdentifier list \<times> TrendLogState" where
  "appendRecord at choice v flags t =
     (if \<not> tl_enable t then ([], t)
      else if word_of_nat (length (tl_records t)) \<ge> BufferSize (tl_cfg t) \<and> StopWhenFull (tl_cfg t)
      then ([PropertyEnable], t\<lparr>tl_enable := False\<rparr>)
      else
        let records = (if word_of_nat (length (tl_records t)) \<ge> BufferSize (tl_cfg t) then drop 1 (tl_records t) else tl_records t);
            total = tl_total t + 1; total = (if total = 0 then 1 else total) in
        ([PropertyRecordCount, PropertyTotalRecordCount],
         t\<lparr>tl_records := records @ [\<lparr>le_seq = total, le_at = at, le_rec = logRecord at choice v flags\<rparr>], tl_total := total\<rparr>))"

definition Log :: "int \<Rightarrow> ApplicationValue \<Rightarrow> BitString option \<Rightarrow> TrendLog \<Rightarrow> object_error + PropertyIdentifier list \<times> TrendLog" where
  "Log at v flags b = (case datumChoice (Kind v) of
      None \<Rightarrow> Inl Formatted
    | Some choice \<Rightarrow> (let (changed, st) = appendRecord at choice v flags (own b) in Inr (changed, b\<lparr>own := st\<rparr>)))"

definition Poll :: "('d Device \<Rightarrow> 'd entry \<Rightarrow> PropertyReference \<Rightarrow> ApplicationValue result) \<Rightarrow> int \<Rightarrow> 'd Device \<Rightarrow> TrendLog \<Rightarrow>
    PropertyIdentifier list \<times> TrendLog" where
  "Poll read now dev b =
     (let st = own b in
      case tlc_Source (tl_cfg st) of
        None \<Rightarrow> ([], b)
      | Some src \<Rightarrow>
          if \<not> (tl_enable st \<and> (case lastPoll st of None \<Rightarrow> True | Some t \<Rightarrow> now - t \<ge> LogInterval (tl_cfg st))) then ([], b)
          else
            let b = b\<lparr>own := st\<lparr>lastPoll := Some now\<rparr>\<rparr> in
            case Object src dev of
              None \<Rightarrow> ([], b)
            | Some e \<Rightarrow> (case read dev e \<lparr>Identifier = SourceProperty (tl_cfg st), ArrayIndex = None\<rparr> of
                Inl _ \<Rightarrow> ([], b)
              | Inr v \<Rightarrow>
                  let flags = (case read dev e \<lparr>Identifier = 111, ArrayIndex = None\<rparr> of
                      Inl _ \<Rightarrow> None
                    | Inr sf \<Rightarrow> if Kind sf = ValueBitString then Some (av_BitString (Fields sf)) else None) in
                  (case Log now v flags b of Inl _ \<Rightarrow> ([], b) | Inr r \<Rightarrow> r)))"

section \<open>Ranges\<close>

text \<open>The first and the last index of a range, \<open>None\<close> where the source returns no items.\<close>

definition selectPosition :: "int \<Rightarrow> RangeQuery \<Rightarrow> (int \<times> int) option" where
  "selectPosition n q =
     (if q_Count q = 0 then None
      else
        let ref = uint (q_Index q);
            (lo, hi) = (if sint (q_Count q) < 0 then (ref + sint (q_Count q) + 1, ref) else (ref, ref + sint (q_Count q) - 1));
            lo = (if lo < 1 then 1 else lo); hi = (if hi > n then n else hi) in
        if ref < 1 \<or> ref > n \<or> lo > hi then None else Some (lo - 1, hi - 1))"

definition selectSequence :: "logEntry list \<Rightarrow> RangeQuery \<Rightarrow> (int \<times> int) option" where
  "selectSequence rs q =
     (if q_Count q = 0 then None
      else
        let firstSeq = uint (le_seq (rs ! 0)); lastSeq = uint (le_seq (rs ! (length rs - 1))); ref = uint (q_Index q);
            (lo, hi) = (if sint (q_Count q) < 0 then (ref + sint (q_Count q) + 1, ref) else (ref, ref + sint (q_Count q) - 1)) in
        if hi < firstSeq \<or> lo > lastSeq then None
        else let lo = max lo firstSeq; hi = min hi lastSeq in Some (lo - firstSeq, hi - firstSeq))"

text \<open>The loops of a range by time: the first newer record, from the front, and the first older one, from the back.\<close>

fun firstAfter :: "int \<Rightarrow> nat \<Rightarrow> logEntry list \<Rightarrow> nat option" where
  "firstAfter ref i [] = None"
| "firstAfter ref i (e # es) = (if le_at e > ref then Some i else firstAfter ref (Suc i) es)"

fun lastBefore :: "int \<Rightarrow> logEntry list \<Rightarrow> nat \<Rightarrow> nat option" where
  "lastBefore ref rs 0 = None"
| "lastBefore ref rs (Suc i) = (if le_at (rs ! i) < ref then Some i else lastBefore ref rs i)"

definition selectTime :: "logEntry list \<Rightarrow> RangeQuery \<Rightarrow> (int \<times> int) option" where
  "selectTime rs q =
     (if q_Count q = 0 then None
      else
        let ref = dateTimeToTime (q_Time q); n = int (length rs) in
        if sint (q_Count q) > 0 then
          (case firstAfter ref 0 rs of
             None \<Rightarrow> None
           | Some i \<Rightarrow> Some (int i, min (n - 1) (int i + sint (q_Count q) - 1)))
        else
          (case lastBefore ref rs (length rs) of
             None \<Rightarrow> None
           | Some i \<Rightarrow> Some (max 0 (int i + sint (q_Count q) + 1), int i)))"

definition selectRange :: "logEntry list \<Rightarrow> RangeQuery \<Rightarrow> (int \<times> int) option result" where
  "selectRange rs q =
     (if q_By q = ReadRangeAll then Inr (Some (0, int (length rs) - 1))
      else if q_By q = ReadRangeByPosition then Inr (selectPosition (int (length rs)) q)
      else if q_By q = ReadRangeBySequenceNumber then Inr (selectSequence rs q)
      else if q_By q = ReadRangeByTime then Inr (selectTime rs q)
      else Inl (Err 5 80))"

definition ReadRange :: "PropertyReference \<Rightarrow> RangeQuery \<Rightarrow> TrendLogState \<Rightarrow> RangeResult result option" where
  "ReadRange prop q t =
     (if Identifier prop \<noteq> PropertyLogBuffer then Some (Inl (Err 5 22))
      else if ArrayIndex prop \<noteq> None then Some (Inl ErrNotAnArray)
      else
        let rs = tl_records t; n = length rs;
            res = \<lparr>Records = [], Items = [], Position = 0, Total = word_of_nat n, rs_FirstSequence = 0, Sequenced = True\<rparr> in
        if n = 0 then Some (Inr res)
        else case selectRange rs q of
            Inl e \<Rightarrow> Some (Inl e)
          | Inr None \<Rightarrow> Some (Inr res)
          | Inr (Some (first, last')) \<Rightarrow>
              if first < 0 \<or> last' + 1 < first \<or> last' + 1 > int n \<or> first \<ge> int n then None
              else Some (Inr (res\<lparr>Records := map le_rec (subslice rs (nat first) (nat (last' + 1))),
                                  Position := word_of_int (first + 1), rs_FirstSequence := le_seq (rs ! nat first)\<rparr>)))"

section \<open>The handler\<close>

definition responseBudget :: "responder_config \<Rightarrow> ConfirmedRequest \<Rightarrow> int" where
  "responseBudget cfg req =
     (let remoteMax = (case DecodeMaxAPDUSize (cr_MaxAPDU req) of Some n \<Rightarrow> n | None \<Rightarrow> 0);
          limit = uint (min remoteMax (rc_maxAPDU cfg)) in
      if \<not> cr_SegmentedResponseAccepted req \<or> \<not> rc_segmentation cfg then limit - 3
      else
        let m = decodeMaxSegments (cr_MaxSegments req);
            segs = (if m > 0 \<and> m < rc_maxSegments cfg then m else rc_maxSegments cfg) in
        (limit - 5) * min segs 256)"

text \<open>\<^verbatim>\<open>sort.Search\<close> of the standard library on the numbers from \<open>i\<close> to \<open>j\<close>.\<close>

function search :: "(nat \<Rightarrow> bool) \<Rightarrow> nat \<Rightarrow> nat \<Rightarrow> nat" where
  "search f i j =
     (if i < j then let h = (i + j) div 2 in if \<not> f h then search f (h + 1) j else search f i h else i)"
  by pat_completeness auto
termination by (relation "measure (\<lambda>(f, i, j). j - i)") auto

declare search.simps [simp del]

definition buildACK :: "ObjectIdentifier \<Rightarrow> ReadRangeRequest \<Rightarrow> RangeResult \<Rightarrow> nat \<Rightarrow> ReadRangeACK" where
  "buildACK i r sel k =
     (let n = length (Records sel) + length (Items sel);
          first = (k > 0 \<and> Position sel = 1); last' = (k > 0 \<and> Position sel + word_of_nat k - 1 = Total sel) in
      \<lparr>ra_Object = i, ra_Property = rr_Property r, ResultFlags = EncodeResultFlags first last' (k < n), ItemCount = word_of_nat k,
       ItemData = (if Records sel \<noteq> [] then [] else take k (Items sel)), LogRecords = (if Records sel \<noteq> [] then take k (Records sel) else []),
       FirstSequence = (if Sequenced sel \<and> k > 0 \<and> (rr_By r = ReadRangeBySequenceNumber \<or> rr_By r = ReadRangeByTime)
                        then Some (rs_FirstSequence sel) else None)\<rparr>)"

definition replyRange :: "int \<Rightarrow> (nat \<Rightarrow> bytes result) \<Rightarrow> nat \<Rightarrow> bytes result" where
  "replyRange budget build n =
     rbind (build n) (\<lambda>payload.
       if int (length payload) > budget
       then build (search (\<lambda>k. case build k of Inl _ \<Rightarrow> True | Inr p \<Rightarrow> int (length p) > budget) 0 (n + 1) - 1)
       else Inr payload)"

text \<open>
  \<^verbatim>\<open>readRange\<close>. Whether an object can read ranges, and how, is the argument \<open>ranges\<close>. The subtraction of one from the
  result of the search is that of natural numbers, which is the source's bound at zero.
\<close>

definition readRange :: "('d entry \<Rightarrow> (PropertyReference \<Rightarrow> RangeQuery \<Rightarrow> RangeResult result option) option) \<Rightarrow> DecodeLimits \<Rightarrow>
    responder_config \<Rightarrow> ConfirmedRequest \<Rightarrow> 'd Device \<Rightarrow> service_result option" where
  "readRange ranges limits cfg req d =
     (case DecodeReadRange (cr_Payload req) limits of
        Inl err \<Rightarrow> Some (rejectFor err)
      | Inr r \<Rightarrow> (case Object (rr_Object r) d of
          None \<Rightarrow> Some (fail (Err 1 31))
        | Some e \<Rightarrow> (case ranges e of
            None \<Rightarrow>
              (case entryRead d e (rr_Property r) of
                 Inl err \<Rightarrow> Some (fail (if snd (AsError (Bacnet err)) = 32 then err else Err 5 22))
               | Inr _ \<Rightarrow> Some (fail (Err 5 22)))
          | Some rd \<Rightarrow>
              (case rd (rr_Property r) \<lparr>q_By = rr_By r, q_Index = ReferenceIndex r, q_Time = ReferenceTime r, q_Count = rr_Count r\<rparr> of
                 None \<Rightarrow> None
               | Some (Inl err) \<Rightarrow> Some (fail err)
               | Some (Inr sel) \<Rightarrow>
                   (case replyRange (responseBudget cfg req) (\<lambda>k. EncodeReadRangeACK (buildACK (entryId d e) r sel k))
                           (length (Records sel) + length (Items sel)) of
                      Inl err \<Rightarrow> Some (fail err)
                    | Inr payload \<Rightarrow> Some (ComplexResult payload))))))"

section \<open>The log as a window\<close>

text \<open>What can happen to a trend log: the application logs a value, a property is written, the server polls it.\<close>

datatype 'd tl_op = LogOp int ApplicationValue "BitString option" | WriteOp Write | PollOp int "'d Device"

definition tlStep :: "('d Device \<Rightarrow> 'd entry \<Rightarrow> PropertyReference \<Rightarrow> ApplicationValue result) \<Rightarrow> 'd tl_op \<Rightarrow> TrendLog \<Rightarrow> TrendLog" where
  "tlStep read op b = (case op of
      LogOp at v flags \<Rightarrow> (case Log at v flags b of Inl _ \<Rightarrow> b | Inr (_, b) \<Rightarrow> b)
    | WriteOp w \<Rightarrow> snd (snd (WriteProperty w b))
    | PollOp now dev \<Rightarrow> snd (Poll read now dev b))"

definition tlRun :: "('d Device \<Rightarrow> 'd entry \<Rightarrow> PropertyReference \<Rightarrow> ApplicationValue result) \<Rightarrow> TrendLog \<Rightarrow> 'd tl_op list \<Rightarrow> TrendLog" where
  "tlRun read b ops = foldl (\<lambda>b op. tlStep read op b) b ops"

text \<open>The specification: the unbounded list of what was logged since the log was emptied, and how many records there ever were.\<close>

record log_spec =
  ls_all :: "(int \<times> LogRecord) list"
  ls_enabled :: bool
  ls_count :: nat
  ls_poll :: "int option"

definition specLog :: "TrendLogConfig \<Rightarrow> int \<Rightarrow> ApplicationValue \<Rightarrow> BitString option \<Rightarrow> log_spec \<Rightarrow> log_spec" where
  "specLog cfg at v flags s = (case datumChoice (Kind v) of
      None \<Rightarrow> s
    | Some c \<Rightarrow>
        if \<not> ls_enabled s then s
        else if StopWhenFull cfg \<and> length (ls_all s) \<ge> unat (BufferSize cfg) then s\<lparr>ls_enabled := False\<rparr>
        else s\<lparr>ls_all := ls_all s @ [(at, logRecord at c v flags)], ls_count := Suc (ls_count s)\<rparr>)"

definition sample :: "('d Device \<Rightarrow> 'd entry \<Rightarrow> PropertyReference \<Rightarrow> ApplicationValue result) \<Rightarrow> ObjectIdentifier \<Rightarrow> PropertyIdentifier \<Rightarrow> 'd Device \<Rightarrow>
    (ApplicationValue \<times> BitString option) option" where
  "sample read src prop dev = Option.bind (Object src dev) (\<lambda>e.
     case read dev e \<lparr>Identifier = prop, ArrayIndex = None\<rparr> of
       Inl _ \<Rightarrow> None
     | Inr v \<Rightarrow> Some (v, case read dev e \<lparr>Identifier = 111, ArrayIndex = None\<rparr> of
         Inl _ \<Rightarrow> None | Inr sf \<Rightarrow> if Kind sf = ValueBitString then Some (av_BitString (Fields sf)) else None))"

definition specStep :: "('d Device \<Rightarrow> 'd entry \<Rightarrow> PropertyReference \<Rightarrow> ApplicationValue result) \<Rightarrow> TrendLogConfig \<Rightarrow> 'd tl_op \<Rightarrow> log_spec \<Rightarrow> log_spec" where
  "specStep read cfg op s = (case op of
      LogOp at v flags \<Rightarrow> specLog cfg at v flags s
    | WriteOp w \<Rightarrow>
        if Identifier (w_Property w) = PropertyEnable \<and> ArrayIndex (w_Property w) = None \<and> Kind (w_Value w) = ValueBoolean
        then s\<lparr>ls_enabled := Boolean (Fields (w_Value w))\<rparr>
        else if Identifier (w_Property w) = PropertyRecordCount \<and> Kind (w_Value w) = ValueUnsigned \<and> Unsigned (Fields (w_Value w)) = 0
        then s\<lparr>ls_all := []\<rparr>
        else s
    | PollOp now dev \<Rightarrow> (case tlc_Source cfg of
        None \<Rightarrow> s
      | Some src \<Rightarrow>
          if ls_enabled s \<and> (case ls_poll s of None \<Rightarrow> True | Some t \<Rightarrow> now - t \<ge> LogInterval cfg) then
            (case sample read src (SourceProperty cfg) dev of
               None \<Rightarrow> s\<lparr>ls_poll := Some now\<rparr>
             | Some (v, flags) \<Rightarrow> specLog cfg now v flags (s\<lparr>ls_poll := Some now\<rparr>))
          else s))"

definition specRun :: "('d Device \<Rightarrow> 'd entry \<Rightarrow> PropertyReference \<Rightarrow> ApplicationValue result) \<Rightarrow> TrendLogConfig \<Rightarrow> 'd tl_op list \<Rightarrow> log_spec" where
  "specRun read cfg ops = foldl (\<lambda>s op. specStep read cfg op s)
     \<lparr>ls_all = [], ls_enabled = tlc_Enable cfg, ls_count = 0, ls_poll = None\<rparr> ops"

text \<open>The number of the \<open>k\<close>-th record: from 1 to \<open>2 ^ 32 - 1\<close> and again from 1.\<close>

definition seqOf :: "nat \<Rightarrow> u32" where
  "seqOf k = (if k = 0 then 0 else word_of_nat ((k - 1) mod (2 ^ 32 - 1) + 1))"

definition numbered :: "nat \<Rightarrow> (int \<times> LogRecord) list \<Rightarrow> logEntry list" where
  "numbered start xs = map (\<lambda>(i, at, r). \<lparr>le_seq = seqOf (start + i + 1), le_at = at, le_rec = r\<rparr>) (enumerate 0 xs)"

definition window :: "nat \<Rightarrow> 'a list \<Rightarrow> 'a list" where
  "window n xs = drop (length xs - n) xs"

definition logState :: "TrendLogConfig \<Rightarrow> log_spec \<Rightarrow> TrendLogState" where
  "logState cfg s = \<lparr>tl_cfg = cfg, tl_enable = ls_enabled s,
     tl_records = window (unat (BufferSize cfg)) (numbered (ls_count s - length (ls_all s)) (ls_all s)),
     tl_total = seqOf (ls_count s), lastPoll = ls_poll s\<rparr>"

definition logDefaults :: "TrendLogConfig \<Rightarrow> TrendLogConfig" where
  "logDefaults cfg = (if BufferSize cfg = 0 then cfg\<lparr>BufferSize := 1000\<rparr> else cfg)"

lemma unat_u32_of_nat: "n < 2 ^ 32 \<Longrightarrow> unat (word_of_nat n :: u32) = n"
  by (simp add: unat_of_nat)

lemma seqOf_Suc: "seqOf (Suc k) = (let t = seqOf k + 1 in if t = 0 then 1 else t)"
proof -
  let ?m = "(k - 1) mod (2 ^ 32 - 1) :: nat"
  have less: "?m < 2 ^ 32 - 1" by simp
  show ?thesis
  proof (cases k)
    case (Suc j)
    have m: "k mod (2 ^ 32 - 1) = (if ?m = 2 ^ 32 - 2 then 0 else ?m + 1)"
      using Suc mod_Suc [of j "2 ^ 32 - 1"] by auto
    have t: "seqOf k + 1 = (word_of_nat (?m + 2) :: u32)" using Suc by (simp add: seqOf_def)
    show ?thesis
    proof (cases "?m = 2 ^ 32 - 2")
      case True
      then have "seqOf k + 1 = 0" unfolding t by simp
      then show ?thesis using m True by (simp add: seqOf_def)
    next
      case False
      then have b: "?m + 2 < 2 ^ 32" using less by linarith
      then have "unat (word_of_nat (?m + 2) :: u32) = ?m + 2" by (rule unat_u32_of_nat)
      then have "seqOf k + 1 \<noteq> 0" unfolding t by (metis add_2_eq_Suc' nat.distinct(1) unat_0)
      then show ?thesis using m False t by (simp add: seqOf_def Let_def)
    qed
  qed (simp add: seqOf_def)
qed

lemma seqOf_pos:
  assumes "0 < k"
  shows "uint (seqOf k) = int ((k - 1) mod (2 ^ 32 - 1) + 1)"
proof -
  have "(k - 1) mod (2 ^ 32 - 1) < (2 ^ 32 - 1 :: nat)" by simp
  then have "(k - 1) mod (2 ^ 32 - 1) + 1 < (2 ^ 32 :: nat)" by linarith
  note u = unat_u32_of_nat [OF this]
  have "seqOf k = word_of_nat ((k - 1) mod (2 ^ 32 - 1) + 1)" using assms by (simp add: seqOf_def)
  then show ?thesis unfolding uint_nat using u by (simp only:)
qed

lemma numbered_simps [simp]:
  "length (numbered n xs) = length xs" "numbered n [] = []"
  "numbered n (xs @ [x]) = numbered n xs @ [\<lparr>le_seq = seqOf (n + length xs + 1), le_at = fst x, le_rec = snd x\<rparr>]"
  by (simp_all add: numbered_def enumerate_append_eq split: prod.splits)

lemma numbered_nth: "i < length xs \<Longrightarrow> numbered n xs ! i = \<lparr>le_seq = seqOf (n + i + 1), le_at = fst (xs ! i), le_rec = snd (xs ! i)\<rparr>"
  by (simp add: numbered_def nth_enumerate_eq split: prod.splits)

lemma window_simps:
  "length (window n xs) = min n (length xs)" "length xs \<le> n \<Longrightarrow> window n xs = xs"
  "n \<le> length xs \<Longrightarrow> 0 < n \<Longrightarrow> window n (xs @ [x]) = drop 1 (window n xs) @ [x]"
  "length xs < n \<Longrightarrow> window n (xs @ [x]) = window n xs @ [x]"
  by (auto simp: window_def Suc_diff_le)

lemma full_iff:
  "word_of_nat (length (tl_records (logState cfg s))) \<ge> BufferSize cfg \<longleftrightarrow> length (ls_all s) \<ge> unat (BufferSize cfg)"
proof -
  have "min (unat (BufferSize cfg)) (length (ls_all s)) < 2 ^ 32"
    using unsigned_less [of "BufferSize cfg", where ?'a = nat] by simp
  then show ?thesis
    using unat_u32_of_nat by (auto simp: logState_def window_simps(1) word_le_nat_alt)
qed

definition spec_ok :: "TrendLogConfig \<Rightarrow> log_spec \<Rightarrow> bool" where
  "spec_ok cfg s \<longleftrightarrow> 0 < BufferSize cfg \<and> length (ls_all s) \<le> ls_count s \<and> (StopWhenFull cfg \<longrightarrow> length (ls_all s) \<le> unat (BufferSize cfg))"

lemma appendRecord_refines:
  assumes "spec_ok cfg s" "datumChoice (Kind v) = Some c"
  shows "snd (appendRecord at c v flags (logState cfg s)) = logState cfg (specLog cfg at v flags s)"
proof -
  let ?n = "ls_count s - length (ls_all s)" and ?B = "unat (BufferSize cfg)"
  let ?x = "\<lparr>le_seq = seqOf (Suc (ls_count s)), le_at = at, le_rec = logRecord at c v flags\<rparr>"
  have pos: "0 < ?B" and len: "length (ls_all s) \<le> ls_count s" using assms(1) by (auto simp: spec_ok_def word_less_nat_alt)
  have w: "window ?B (numbered ?n (ls_all s) @ [?x]) =
      (if length (ls_all s) \<ge> ?B then drop 1 (window ?B (numbered ?n (ls_all s))) else window ?B (numbered ?n (ls_all s))) @ [?x]"
    using window_simps(3) [of ?B "numbered ?n (ls_all s)" ?x] window_simps(4) [of "numbered ?n (ls_all s)" ?B ?x] pos by auto
  have t: "(let t = tl_total (logState cfg s) + 1 in if t = 0 then 1 else t) = seqOf (Suc (ls_count s))"
    by (simp add: seqOf_Suc logState_def)
  have "numbered (Suc (ls_count s) - Suc (length (ls_all s))) (ls_all s @ [(at, logRecord at c v flags)]) = numbered ?n (ls_all s) @ [?x]"
    using len by simp
  then show ?thesis
    using full_iff [of cfg s] w t assms(2)
    by (auto simp: appendRecord_def specLog_def logState_def Let_def)
qed

lemma spec_ok_specLog: "spec_ok cfg s \<Longrightarrow> spec_ok cfg (specLog cfg at v flags s)"
  by (auto simp: spec_ok_def specLog_def split: option.splits)

text \<open>The part of the property table that the operations rely on.\<close>

definition tl_table :: "TrendLog \<Rightarrow> bool" where
  "tl_table b \<longleftrightarrow>
     map_of (props b) PropertyEnable = Some (settable (\<lambda>t. BoolValue (tl_enable t)) setEnable True)
   \<and> map_of (props b) PropertyRecordCount = Some (settable (\<lambda>t. UnsignedValue (word_of_nat (length (tl_records t)))) setRecordCount True)
   \<and> map_of (props b) PropertyTotalRecordCount = Some (computed (GetBy (\<lambda>t. UnsignedValue (ucast (tl_total t)))) False True)
   \<and> (\<forall>i p. map_of (props b) i = Some p \<and> i \<noteq> PropertyEnable \<and> i \<noteq> PropertyRecordCount \<longrightarrow> p_Set p = StoreValue)"

definition refines :: "TrendLogConfig \<Rightarrow> log_spec \<Rightarrow> TrendLog \<Rightarrow> bool" where
  "refines cfg s b \<longleftrightarrow> tl_table b \<and> own b = logState cfg s \<and> spec_ok cfg s"

lemma Log_refines:
  assumes "refines cfg s b"
  shows "refines cfg (specLog cfg at v flags s) (case Log at v flags b of Inl _ \<Rightarrow> b | Inr (_, b) \<Rightarrow> b)"
proof (cases "datumChoice (Kind v)")
  case None
  then show ?thesis using assms by (simp add: Log_def specLog_def)
next
  case (Some c)
  then show ?thesis using assms appendRecord_refines [of cfg s v c at flags] spec_ok_specLog
    by (auto simp: Log_def refines_def tl_table_def split: prod.splits)
qed

lemma Poll_refines:
  assumes "refines cfg s b"
  shows "refines cfg (specStep read cfg (PollOp now dev) s) (snd (Poll read now dev b))"
proof -
  have o: "own b = logState cfg s" using assms by (simp add: refines_def)
  have p: "refines cfg (s\<lparr>ls_poll := Some now\<rparr>) (b\<lparr>own := (own b)\<lparr>lastPoll := Some now\<rparr>\<rparr>)"
    using assms by (simp add: refines_def tl_table_def logState_def spec_ok_def)
  have l: "refines cfg (specLog cfg now v flags (s\<lparr>ls_poll := Some now\<rparr>)) (b\<lparr>own := (own b)\<lparr>lastPoll := Some now\<rparr>\<rparr>)"
    if "Log now v flags (b\<lparr>own := (own b)\<lparr>lastPoll := Some now\<rparr>\<rparr>) = Inl e" for v flags e
    using Log_refines [OF p, of now v flags] that by simp
  have l': "refines cfg (specLog cfg now v flags (s\<lparr>ls_poll := Some now\<rparr>)) b'"
    if "Log now v flags (b\<lparr>own := (own b)\<lparr>lastPoll := Some now\<rparr>\<rparr>) = Inr (ch, b')" for v flags ch b'
    using Log_refines [OF p, of now v flags] that by simp
  have c: "tl_cfg (own b) = cfg" "tl_enable (own b) = ls_enabled s" "lastPoll (own b) = ls_poll s" by (simp_all add: o logState_def)
  show ?thesis
    using assms p
    by (auto simp: Poll_def specStep_def sample_def c Let_def intro: l l' split: option.splits sum.splits prod.splits)
qed

lemma tl_table_stored:
  assumes "tl_table b" "i \<notin> {PropertyEnable, PropertyRecordCount, PropertyTotalRecordCount}" "p_Set p = StoreValue"
  shows "tl_table (b\<lparr>props := AList.update i (p\<lparr>p_Value := v\<rparr>) (props b)\<rparr>)"
  using assms by (auto simp: tl_table_def update_conv')

lemma writeStored_shape:
  assumes "writeStored w p b = Inr (ch, b')"
  shows "\<exists>v. b' = b\<lparr>props := AList.update (Identifier (w_Property w)) (p\<lparr>p_Value := v\<rparr>) (props b)\<rparr>"
  using assms by (auto simp: writeStored_def setStored_def Let_def split: option.splits if_splits)

lemma Write_refines:
  assumes "refines cfg s b"
  shows "refines cfg (specStep (read :: 'd Device \<Rightarrow> _) cfg (WriteOp w) s) (snd (snd (WriteProperty w b)))"
proof -
  have t: "tl_table b" and o: "own b = logState cfg s" and ok: "spec_ok cfg s" using assms by (auto simp: refines_def)
  let ?i = "Identifier (w_Property w)"
  consider "?i = PropertyEnable" | "?i = PropertyRecordCount" | "?i \<noteq> PropertyEnable" "?i \<noteq> PropertyRecordCount" by blast
  then show ?thesis
  proof cases
    case 1
    then show ?thesis using t o ok
      by (auto simp: WriteProperty_def writeLocked_def tl_table_def settable_def setEnable_def refines_def specStep_def logState_def spec_ok_def)
  next
    case 2
    then show ?thesis using t o ok
      by (auto simp: WriteProperty_def writeLocked_def tl_table_def settable_def setRecordCount_def refines_def specStep_def logState_def spec_ok_def window_def)
  next
    case 3
    have tot: "\<not> Writable (computed g a r)" for g :: "TrendLogState getter" and a r by (simp add: computed_def)
    have "tl_table (snd (snd (WriteProperty w b))) \<and> own (snd (snd (WriteProperty w b))) = own b"
    proof (cases "map_of (props b) ?i")
      case (Some p)
      have st: "p_Set p = StoreValue" using t 3 Some by (auto simp: tl_table_def)
      show ?thesis
      proof (cases "Writable p \<and> ?i \<noteq> PropertyTotalRecordCount")
        case True
        then have i: "?i \<notin> {PropertyEnable, PropertyRecordCount, PropertyTotalRecordCount}" using 3 by simp
        show ?thesis
        proof (cases "writeStored w p b")
          case (Inr r)
          then obtain ch v where "writeStored w p b = Inr (ch, b\<lparr>props := AList.update ?i (p\<lparr>p_Value := v\<rparr>) (props b)\<rparr>)"
            using writeStored_shape by (cases r) blast
          then show ?thesis using True st Some tl_table_stored [OF t i st] by (simp add: WriteProperty_def writeLocked_def)
        qed (use True st Some t in \<open>simp add: WriteProperty_def writeLocked_def\<close>)
      next
        case False
        then show ?thesis using t Some tot by (auto simp: WriteProperty_def writeLocked_def tl_table_def)
      qed
    qed (use t in \<open>simp add: WriteProperty_def writeLocked_def\<close>)
    then show ?thesis using 3 o ok by (simp add: refines_def specStep_def)
  qed
qed

lemma step_refines: "refines cfg s b \<Longrightarrow> refines cfg (specStep read cfg op s) (tlStep read op b)"
  using Log_refines Poll_refines Write_refines by (cases op) (fastforce simp: tlStep_def specStep_def)+

lemma Define_lookup:
  "map_of (props (Define i p b)) j = (if j = i then Some p else map_of (props b) j)" "own (Define i p b) = own b" "b_id (Define i p b) = b_id b"
  by (simp_all add: Define_def update_conv')

lemma NewTrendLog_refines:
  assumes "NewTrendLog cfg = Inr b"
  shows "refines (logDefaults cfg) \<lparr>ls_all = [], ls_enabled = tlc_Enable (logDefaults cfg), ls_count = 0, ls_poll = None\<rparr> b"
proof -
  let ?c = "logDefaults cfg"
  let ?b = "NewBase \<lparr>oType = 20, Instance = tlc_Instance ?c\<rparr> (tlc_Name ?c)
      \<lparr>tl_cfg = ?c, tl_enable = tlc_Enable ?c, tl_records = [], tl_total = 0, lastPoll = None\<rparr>"
  have b: "b = trendLogProperties ?c ?b"
    using assms by (auto simp: NewTrendLog_def logDefaults_def Let_def split: if_splits)
  have own: "own b = \<lparr>tl_cfg = ?c, tl_enable = tlc_Enable ?c, tl_records = [], tl_total = 0, lastPoll = None\<rparr>"
    by (simp add: b trendLogProperties_def Let_def Define_lookup NewBase_def)
  have base: "map_of (props ?b) i = Some p \<Longrightarrow> p_Set p = StoreValue" for i p
    by (auto simp: NewBase_def Define_lookup computed_def split: if_splits)
  have "tl_table b"
    unfolding tl_table_def b trendLogProperties_def Let_def
    by (auto simp: Define_lookup base stored_def computed_def settable_def split: if_splits)
  moreover have "spec_ok ?c \<lparr>ls_all = [], ls_enabled = tlc_Enable ?c, ls_count = 0, ls_poll = None\<rparr>"
    by (simp add: spec_ok_def logDefaults_def word_gt_0)
  ultimately show ?thesis by (simp add: refines_def own logState_def window_def seqOf_def)
qed

lemma run_refines:
  assumes "NewTrendLog cfg = Inr b"
  shows "refines (logDefaults cfg) (specRun read (logDefaults cfg) ops) (tlRun read b ops)"
proof -
  have "refines c (foldl (\<lambda>s op. specStep read c op s) s ops) (foldl (\<lambda>b op. tlStep read op b) b ops)" if "refines c s b" for c s b
    using that by (induction ops arbitrary: s b) (simp_all add: step_refines)
  then show ?thesis using NewTrendLog_refines [OF assms] by (simp add: specRun_def tlRun_def)
qed

lemma window_map: "map f (window n xs) = window n (map f xs)"
  by (simp add: window_def drop_map)

lemma numbered_rec: "map le_rec (numbered n xs) = map snd xs"
  by (rule nth_equalityI) (simp_all add: numbered_nth)

text \<open>The records of a log that refines a specification: their number and the number each of them has.\<close>

lemma window_numbered_nth:
  assumes "length xs \<le> c" "i < length (window n (numbered (c - length xs) xs))"
  shows "le_seq (window n (numbered (c - length xs) xs) ! i) = seqOf (c - min n (length xs) + i + 1)"
proof -
  have "le_seq (window n (numbered (c - length xs) xs) ! i) = seqOf (c - length xs + (length xs - n + i) + 1)"
    using assms(2) by (simp add: window_def numbered_nth)
  moreover have "c - length xs + (length xs - n + i) = c - min n (length xs) + i" using assms(1) by linarith
  ultimately show ?thesis by simp
qed

section \<open>What a range denotes\<close>

text \<open>The items a range denotes: positions and numbers counted forwards or backwards from the reference, and, by time, the records
  from the first newer one on or up to the last older one.\<close>

definition rangeBounds :: "RangeQuery \<Rightarrow> int \<times> int" where
  "rangeBounds q = (let ref = uint (q_Index q); c = sint (q_Count q) in if c < 0 then (ref + c + 1, ref) else (ref, ref + c - 1))"

definition inRange :: "RangeQuery \<Rightarrow> int \<Rightarrow> bool" where
  "inRange q i \<longleftrightarrow> fst (rangeBounds q) \<le> i \<and> i \<le> snd (rangeBounds q)"

definition denoted :: "RangeQuery \<Rightarrow> logEntry list \<Rightarrow> logEntry list" where
  "denoted q rs =
     (if q_By q = ReadRangeAll then rs
      else if q_By q = ReadRangeByPosition then
        if 1 \<le> uint (q_Index q) \<and> uint (q_Index q) \<le> int (length rs)
        then map ((!) rs) (filter (\<lambda>i. inRange q (int i + 1)) [0..<length rs]) else []
      else if q_By q = ReadRangeBySequenceNumber then filter (\<lambda>e. inRange q (uint (le_seq e))) rs
      else
        let t = dateTimeToTime (q_Time q); c = sint (q_Count q) in
        if c > 0 then take (nat c) (dropWhile (\<lambda>e. le_at e \<le> t) rs)
        else rev (take (nat (- c)) (dropWhile (\<lambda>e. t \<le> le_at e) (rev rs))))"

lemma map_nth_upt: "j \<le> length xs \<Longrightarrow> map ((!) xs) [i..<j] = subslice xs i j"
  by (rule nth_equalityI) (simp_all add: subslice_def)

lemma filter_index:
  assumes "\<And>i. i < n \<Longrightarrow> P i \<longleftrightarrow> a \<le> i \<and> i < b" "b \<le> n"
  shows "filter P [0..<n] = [a..<b]"
proof (cases "a \<le> b")
  case True
  then have "[0..<n] = [0..<a] @ [a..<b] @ [b..<n]"
    using assms(2) by (metis le_add_diff_inverse upt_add_eq_append zero_le le_trans)
  then show ?thesis using assms True by (auto simp: filter_empty_conv filter_id_conv)
next
  case False
  then show ?thesis using assms by (auto simp: filter_empty_conv)
qed

lemma filter_map_nth: "filter P xs = map ((!) xs) (filter (\<lambda>i. P (xs ! i)) [0..<length xs])"
  using filter_map [of P "(!) xs" "[0..<length xs]"] by (simp add: map_nth o_def)

lemma firstAfter_iff:
  "firstAfter t i rs = Some j \<Longrightarrow> i \<le> j \<and> j - i < length rs \<and> dropWhile (\<lambda>e. le_at e \<le> t) rs = drop (j - i) rs"
  "firstAfter t i rs = None \<Longrightarrow> dropWhile (\<lambda>e. le_at e \<le> t) rs = []"
proof (induction t i rs rule: firstAfter.induct)
  case (2 ref i e es)
  {
    case 1
    then show ?case using "2.IH" by (cases "le_at e > ref") (auto simp: drop_Cons' dest: Suc_le_lessD)
  next
    case 2
    then show ?case using "2.IH" by (auto split: if_splits)
  }
qed simp_all

lemma lastBefore_iff:
  "n \<le> length rs \<Longrightarrow> lastBefore t rs n = Some j \<Longrightarrow> j < n \<and> dropWhile (\<lambda>e. t \<le> le_at e) (rev (take n rs)) = rev (take (Suc j) rs)"
  "n \<le> length rs \<Longrightarrow> lastBefore t rs n = None \<Longrightarrow> dropWhile (\<lambda>e. t \<le> le_at e) (rev (take n rs)) = []"
  by (induction n) (auto simp: take_Suc_conv_app_nth split: if_splits)

text \<open>Where the records are numbered consecutively, as the invariant of the log says.\<close>

definition consecutive :: "nat \<Rightarrow> logEntry list \<Rightarrow> bool" where
  "consecutive k rs \<longleftrightarrow> (\<forall>i < length rs. le_seq (rs ! i) = seqOf (k + i + 1))"

definition wrapped :: "logEntry list \<Rightarrow> bool" where
  "wrapped rs \<longleftrightarrow> rs \<noteq> [] \<and> le_seq (last rs) < le_seq (hd rs)"

lemma consecutive_seq:
  assumes "consecutive k rs" "i < length rs"
  shows "uint (le_seq (rs ! i)) = int ((k + i) mod (2 ^ 32 - 1)) + 1"
  using assms seqOf_pos [of "k + i + 1"] by (simp add: consecutive_def)

lemma sequence_numbers:
  assumes "consecutive k rs" "rs \<noteq> []" "length rs < 2 ^ 32"
  shows "if wrapped rs then uint (le_seq (rs ! 0)) - uint (le_seq (rs ! (length rs - 1))) = 2 ^ 32 - int (length rs)
    else \<forall>i < length rs. uint (le_seq (rs ! i)) = uint (le_seq (rs ! 0)) + int i"
proof -
  let ?M = "4294967295 :: nat" and ?n = "length rs"
  define m where "m = k mod ?M"
  have m: "m < ?M" by (simp add: m_def)
  have n: "0 < ?n" "?n \<le> ?M" using assms by auto
  have seq: "uint (le_seq (rs ! i)) = int ((m + i) mod ?M) + 1" if "i < ?n" for i
    using consecutive_seq [OF assms(1) that] by (simp add: m_def mod_add_left_eq)
  have mi: "(m + i) mod ?M = (if m + i < ?M then m + i else m + i - ?M)" if "i < ?n" for i
  proof -
    have "m + i - ?M < ?M" using that m n by linarith
    then show ?thesis by (simp add: le_mod_geq)
  qed
  define l where "l = ?n - 1"
  have l: "l < ?n" "?n = Suc l" using n by (simp_all add: l_def)
  have ends: "hd rs = rs ! 0" "last rs = rs ! l" using assms(2) by (simp_all add: hd_conv_nth last_conv_nth l_def)
  have first: "uint (le_seq (rs ! 0)) = int m + 1" using seq [OF n(1)] m by simp
  have last': "uint (le_seq (rs ! l)) = int (if m + l < ?M then m + l else m + l - ?M) + 1" using seq [OF l(1)] mi [OF l(1)] by simp
  have w: "wrapped rs \<longleftrightarrow> \<not> m + l < ?M"
    using first last' m n l by (auto simp: wrapped_def ends word_less_def assms(2))
  show ?thesis
  proof (cases "wrapped rs")
    case True
    then show ?thesis using w first last' m n l by (simp add: l_def [symmetric])
  next
    case False
    have "uint (le_seq (rs ! i)) = uint (le_seq (rs ! 0)) + int i" if "i < ?n" for i
    proof -
      have "m + i < ?M" using False w that l by linarith
      then show ?thesis using seq [OF that] mi [OF that] first by simp
    qed
    then show ?thesis using False by simp
  qed
qed

lemma count_bounds: "- (2 ^ 31) \<le> sint c" "sint c < 2 ^ 31" for c :: u32
  using sint_greater_eq [of c] sint_less [of c] by simp_all

lemma count_zero: "c = 0 \<longleftrightarrow> sint c = 0" for c :: u32
proof
  assume "sint c = 0"
  then have "(of_int (sint c) :: u32) = of_int 0" by (rule arg_cong)
  then show "c = 0" by simp
qed simp

text \<open>A selection is within the records and selects what the range denotes.\<close>

definition selects :: "RangeQuery \<Rightarrow> logEntry list \<Rightarrow> (int \<times> int) option \<Rightarrow> bool" where
  "selects q rs sel = (case sel of
      None \<Rightarrow> denoted q rs = []
    | Some (a, b) \<Rightarrow> 0 \<le> a \<and> a \<le> b \<and> b < int (length rs) \<and> denoted q rs = subslice rs (nat a) (nat (b + 1)))"

lemma selectPosition_selects:
  assumes "q_By q = ReadRangeByPosition"
  shows "selects q rs (selectPosition (int (length rs)) q)"
proof -
  let ?n = "int (length rs)" and ?r = "uint (q_Index q)" and ?c = "sint (q_Count q)"
  obtain lo hi where b: "rangeBounds q = (lo, hi)" by (cases "rangeBounds q")
  have c0: "q_Count q = 0 \<longleftrightarrow> ?c = 0" by (rule count_zero)
  show ?thesis
  proof (cases "1 \<le> ?r \<and> ?r \<le> ?n \<and> ?c \<noteq> 0")
    case False
    then have "selectPosition ?n q = None" using c0 by (auto simp: selectPosition_def Let_def)
    moreover have "denoted q rs = []"
      using False assms by (auto simp: denoted_def inRange_def rangeBounds_def Let_def filter_empty_conv)
    ultimately show ?thesis by (simp add: selects_def)
  next
    case True
    let ?a = "max lo 1 - 1" and ?b = "min hi ?n - 1"
    have in_lo: "lo \<le> ?r" "?r \<le> hi" using True b by (auto simp: rangeBounds_def Let_def split: if_splits)
    then have "selectPosition ?n q = Some (?a, ?b)"
      using True b c0 by (auto simp: selectPosition_def rangeBounds_def Let_def max_def min_def split: if_splits)
    moreover have "filter (\<lambda>i. inRange q (int i + 1)) [0..<length rs] = [nat ?a..<nat (?b + 1)]"
      by (rule filter_index) (auto simp: inRange_def b)
    ultimately show ?thesis
      using True in_lo assms map_nth_upt [of "nat (?b + 1)" rs "nat ?a"] by (auto simp: selects_def denoted_def)
  qed
qed

lemma selectSequence_selects:
  assumes "q_By q = ReadRangeBySequenceNumber" "\<forall>i < length rs. uint (le_seq (rs ! i)) = f + int i" "rs \<noteq> []"
  shows "selects q rs (selectSequence rs q)"
proof -
  let ?n = "int (length rs)" and ?c = "sint (q_Count q)"
  obtain lo hi where b: "rangeBounds q = (lo, hi)" by (cases "rangeBounds q")
  have c0: "q_Count q = 0 \<longleftrightarrow> ?c = 0" by (rule count_zero)
  have n: "0 < length rs" using assms(3) by simp
  have f0: "uint (le_seq (rs ! 0)) = f" using assms(2) n by auto
  have l: "uint (le_seq (rs ! (length rs - 1))) = f + ?n - 1" using assms(2) n by (auto simp: of_nat_diff Suc_le_eq)
  have d: "denoted q rs = map ((!) rs) (filter (\<lambda>i. lo \<le> f + int i \<and> f + int i \<le> hi) [0..<length rs])"
  proof -
    have "filter (\<lambda>i. inRange q (uint (le_seq (rs ! i)))) [0..<length rs] = filter (\<lambda>i. lo \<le> f + int i \<and> f + int i \<le> hi) [0..<length rs]"
      using assms(2) by (intro filter_cong) (auto simp: inRange_def b)
    moreover have "denoted q rs = filter (\<lambda>e. inRange q (uint (le_seq e))) rs" using assms(1) by (simp add: denoted_def)
    ultimately show ?thesis using filter_map_nth [of "\<lambda>e. inRange q (uint (le_seq e))" rs] by (simp only:)
  qed
  let ?a = "max lo f - f" and ?b = "min hi (f + ?n - 1) - f"
  have s: "selectSequence rs q = (if ?c = 0 \<or> hi < f \<or> lo > f + ?n - 1 then None else Some (?a, ?b))"
    using b c0 l f0 by (cases "?c < 0") (auto simp: selectSequence_def rangeBounds_def Let_def)
  have ord: "?c \<noteq> 0 \<Longrightarrow> lo \<le> hi" "?c = 0 \<Longrightarrow> hi < lo" using b by (auto simp: rangeBounds_def Let_def split: if_splits)
  show ?thesis
  proof (cases "?c = 0 \<or> hi < f \<or> lo > f + ?n - 1")
    case True
    then have "\<not> (lo \<le> f + int i \<and> f + int i \<le> hi)" if "i < length rs" for i
      using ord(2) that by linarith
    then have "denoted q rs = []" unfolding d by (simp add: filter_empty_conv)
    then show ?thesis using s True by (simp add: selects_def)
  next
    case False
    have "lo \<le> hi" using False ord(1) by blast
    then have a: "0 \<le> ?a" "?a \<le> ?b" "?b < ?n" using False n by auto
    have "filter (\<lambda>i. lo \<le> f + int i \<and> f + int i \<le> hi) [0..<length rs] = [nat ?a..<nat (?b + 1)]"
    proof (rule filter_index)
      show "lo \<le> f + int i \<and> f + int i \<le> hi \<longleftrightarrow> nat ?a \<le> i \<and> i < nat (?b + 1)" if "i < length rs" for i
        using a that by linarith
      show "nat (?b + 1) \<le> length rs" using a by linarith
    qed
    then have "denoted q rs = subslice rs (nat ?a) (nat (?b + 1))"
      using d a map_nth_upt [of "nat (?b + 1)" rs "nat ?a"] by simp
    then show ?thesis using s False a by (simp add: selects_def)
  qed
qed

lemma last_taken: "rev (take k (rev xs)) = drop (length xs - k) xs"
  by (simp add: rev_take)

lemma selectTime_selects:
  assumes "q_By q = ReadRangeByTime"
  shows "selects q rs (selectTime rs q)"
proof -
  let ?t = "dateTimeToTime (q_Time q)" and ?c = "sint (q_Count q)"
  have c0: "q_Count q = 0 \<longleftrightarrow> ?c = 0" by (rule count_zero)
  have d: "denoted q rs = (if ?c > 0 then take (nat ?c) (dropWhile (\<lambda>e. le_at e \<le> ?t) rs)
      else rev (take (nat (- ?c)) (dropWhile (\<lambda>e. ?t \<le> le_at e) (rev rs))))"
    using assms by (simp add: denoted_def Let_def)
  consider "?c = 0" | "?c > 0" | "?c < 0" by linarith
  then show ?thesis
  proof cases
    case 1
    then show ?thesis using c0 d by (simp add: selectTime_def selects_def)
  next
    case 2
    then show ?thesis
    proof (cases "firstAfter ?t 0 rs")
      case (Some i)
      have i: "i < length rs" "dropWhile (\<lambda>e. le_at e \<le> ?t) rs = drop i rs" using firstAfter_iff(1) [OF Some] by simp_all
      let ?b = "min (int (length rs) - 1) (int i + ?c - 1)"
      have "nat (?b + 1) - i = min (nat ?c) (length rs - i)" using i 2 by linarith
      then have "subslice rs i (nat (?b + 1)) = take (nat ?c) (drop i rs)" by (simp add: subslice_def min_def)
      then show ?thesis using 2 Some i c0 d by (simp add: selectTime_def selects_def Let_def)
    qed (use 2 c0 d firstAfter_iff(2) [of ?t 0 rs] in \<open>simp add: selectTime_def selects_def Let_def\<close>)
  next
    case 3
    then show ?thesis
    proof (cases "lastBefore ?t rs (length rs)")
      case (Some i)
      have i: "i < length rs" "dropWhile (\<lambda>e. ?t \<le> le_at e) (rev rs) = rev (take (Suc i) rs)"
        using lastBefore_iff(1) [OF _ Some] by simp_all
      let ?a = "max 0 (int i + ?c + 1)"
      have "nat ?a = Suc i - nat (- ?c)" using 3 by linarith
      then have "rev (take (nat (- ?c)) (rev (take (Suc i) rs))) = subslice rs (nat ?a) (Suc i)"
        using i(1) last_taken [of "nat (- ?c)" "take (Suc i) rs"] by (simp add: subslice_def drop_take)
      moreover have "?a \<le> int i" using 3 by simp
      ultimately show ?thesis using 3 Some i c0 d by (simp add: selectTime_def selects_def Let_def nat_add_distrib)
    qed (use 3 c0 d lastBefore_iff(2) [of "length rs" rs ?t] in \<open>simp add: selectTime_def selects_def Let_def\<close>)
  qed
qed

text \<open>By sequence number the code takes the numbers of the buffer to run from its oldest record up to its newest. In a wrapped buffer they
  do not, and a range may then reach below the newest number and above the oldest at once: it spans the numbers between
  that the buffer does not have. There are \<open>2 ^ 32 - 1\<close> numbers in all and a count has 32 bits with its sign, so only a buffer of
  more than \<open>2 ^ 31\<close> records leaves a gap that a range can span.\<close>

definition spansGap :: "RangeQuery \<Rightarrow> logEntry list \<Rightarrow> bool" where
  "spansGap q rs \<longleftrightarrow> q_By q = ReadRangeBySequenceNumber \<and> wrapped rs
     \<and> fst (rangeBounds q) \<le> uint (le_seq (last rs)) \<and> uint (le_seq (hd rs)) \<le> snd (rangeBounds q)"

lemma wrapped_ends:
  assumes "consecutive k rs" "length rs < 2 ^ 32" "wrapped rs"
  shows "uint (le_seq (hd rs)) - uint (le_seq (last rs)) = 2 ^ 32 - int (length rs)" "hd rs = rs ! 0" "last rs = rs ! (length rs - 1)"
proof -
  have "rs \<noteq> []" using assms(3) by (simp add: wrapped_def)
  then show "hd rs = rs ! 0" "last rs = rs ! (length rs - 1)" by (simp_all add: hd_conv_nth last_conv_nth)
  then show "uint (le_seq (hd rs)) - uint (le_seq (last rs)) = 2 ^ 32 - int (length rs)"
    using sequence_numbers [OF assms(1) \<open>rs \<noteq> []\<close> assms(2)] assms(3) by simp
qed

lemma spansGap_long:
  assumes "consecutive k rs" "length rs < 2 ^ 32" "spansGap q rs"
  shows "2 ^ 31 < length rs"
proof -
  have "snd (rangeBounds q) - fst (rangeBounds q) < 2 ^ 31"
    using count_bounds [of "q_Count q"] by (simp add: rangeBounds_def Let_def)
  then show ?thesis using assms wrapped_ends(1) [OF assms(1,2)] by (auto simp: spansGap_def)
qed

lemma selectSequence_wrapped:
  assumes "consecutive k rs" "length rs < 2 ^ 32" "wrapped rs" "q_By q = ReadRangeBySequenceNumber"
  shows "selectSequence rs q = (if spansGap q rs then Some (0, int (length rs) - 2 ^ 32) else None)"
proof -
  obtain lo hi where b: "rangeBounds q = (lo, hi)" by (cases "rangeBounds q")
  let ?f = "uint (le_seq (hd rs))" and ?l = "uint (le_seq (last rs))"
  have e: "?f - ?l = 2 ^ 32 - int (length rs)" "hd rs = rs ! 0" "last rs = rs ! (length rs - 1)" using wrapped_ends [OF assms(1-3)] .
  have lt: "?l < ?f" using e(1) assms(2) by simp
  have "q_Count q = 0 \<Longrightarrow> hi < lo" using b by (auto simp: rangeBounds_def Let_def)
  then have "selectSequence rs q = (if hi < ?f \<or> lo > ?l then None else Some (max lo ?f - ?f, min hi ?l - ?f))"
    using b lt e(2,3) by (cases "sint (q_Count q) < 0") (auto simp: selectSequence_def rangeBounds_def Let_def)
  moreover have "max lo ?f - ?f = 0" "min hi ?l - ?f = int (length rs) - 2 ^ 32" if "\<not> (hi < ?f \<or> lo > ?l)" using that lt e(1) by linarith+
  ultimately show ?thesis using assms(3,4) b by (auto simp: spansGap_def)
qed

text \<open>\<^verbatim>\<open>ReadRange\<close> of the buffer, given what the selection of its form amounts to.\<close>

lemma ReadRange_selected:
  assumes "selectRange (tl_records t) q = Inr sel" "selects q (tl_records t) sel" "tl_records t \<noteq> []"
  shows "\<exists>res. ReadRange \<lparr>Identifier = PropertyLogBuffer, ArrayIndex = None\<rparr> q t = Some (Inr res)
    \<and> Records res = map le_rec (denoted q (tl_records t)) \<and> Items res = [] \<and> Total res = word_of_nat (length (tl_records t)) \<and> Sequenced res
    \<and> (Records res \<noteq> [] \<longrightarrow> (\<exists>i < length (tl_records t). Position res = word_of_nat (i + 1) \<and> rs_FirstSequence res = le_seq (tl_records t ! i)
        \<and> take (length (Records res)) (drop i (tl_records t)) = denoted q (tl_records t)))"
proof (cases sel)
  case None
  then show ?thesis using assms by (simp add: ReadRange_def selects_def Let_def)
next
  case (Some ab)
  obtain a b where ab: "sel = Some (a, b)" using Some by (cases ab) simp
  have s: "0 \<le> a" "a \<le> b" "b < int (length (tl_records t))"
    and d: "denoted q (tl_records t) = subslice (tl_records t) (nat a) (nat (b + 1))"
    using assms(2) by (auto simp: selects_def ab)
  have i: "nat a < length (tl_records t)" "nat (b + 1) \<le> length (tl_records t)" using s by linarith+
  have w: "(word_of_int (a + 1) :: u32) = word_of_nat (nat a + 1)" using s(1) by simp
  show ?thesis
    using assms(1,3) s i w
    by (auto simp: ReadRange_def ab Let_def d intro!: exI [of _ "nat a"]) (simp_all add: subslice_def)
qed

lemma selectRange_selects:
  assumes "consecutive k rs" "length rs < 2 ^ 32" "rs \<noteq> []" "q_By q \<le> 3" "q_By q = ReadRangeBySequenceNumber \<longrightarrow> \<not> wrapped rs"
  shows "\<exists>sel. selectRange rs q = Inr sel \<and> selects q rs sel"
proof -
  consider "q_By q = 0" | "q_By q = 1" | "q_By q = 2" | "q_By q = 3" using range_form [OF assms(4)] by blast
  then show ?thesis
  proof cases
    case 1
    then show ?thesis using assms(3) by (cases rs) (simp_all add: selectRange_def selects_def denoted_def subslice_def nat_add_distrib)
  next
    case 2
    then show ?thesis using selectPosition_selects by (simp add: selectRange_def)
  next
    case 3
    then have "\<forall>i < length rs. uint (le_seq (rs ! i)) = uint (le_seq (rs ! 0)) + int i"
      using sequence_numbers [OF assms(1,3,2)] assms(5) by simp
    from selectSequence_selects [OF 3 this assms(3)] show ?thesis using 3 by (simp add: selectRange_def)
  next
    case 4
    then show ?thesis using selectTime_selects by (simp add: selectRange_def)
  qed
qed

text \<open>By sequence number a wrapped buffer yields nothing or panics, and no other selection is out of bounds.\<close>

lemma ReadRange_wrapped:
  assumes "consecutive k (tl_records t)" "length (tl_records t) < 2 ^ 32" "wrapped (tl_records t)" "q_By q = ReadRangeBySequenceNumber"
  shows "if spansGap q (tl_records t) \<and> length (tl_records t) + 1 < 2 ^ 32
    then ReadRange \<lparr>Identifier = PropertyLogBuffer, ArrayIndex = None\<rparr> q t = None
    else \<exists>res. ReadRange \<lparr>Identifier = PropertyLogBuffer, ArrayIndex = None\<rparr> q t = Some (Inr res) \<and> Records res = []"
proof -
  have "tl_records t \<noteq> []" using assms(3) by (simp add: wrapped_def)
  then show ?thesis using selectSequence_wrapped [OF assms] assms(2,4) by (auto simp: ReadRange_def selectRange_def Let_def subslice_def)
qed


lemma ReadRange_selects:
  assumes "consecutive k (tl_records t)" "length (tl_records t) < 2 ^ 32" "q_By q \<le> 3" "q_By q = ReadRangeBySequenceNumber \<longrightarrow> \<not> wrapped (tl_records t)"
  shows "\<exists>res. ReadRange \<lparr>Identifier = PropertyLogBuffer, ArrayIndex = None\<rparr> q t = Some (Inr res)
    \<and> Records res = map le_rec (denoted q (tl_records t)) \<and> Items res = [] \<and> Total res = word_of_nat (length (tl_records t)) \<and> Sequenced res
    \<and> (Records res \<noteq> [] \<longrightarrow> (\<exists>i < length (tl_records t). Position res = word_of_nat (i + 1) \<and> rs_FirstSequence res = le_seq (tl_records t ! i)
        \<and> take (length (Records res)) (drop i (tl_records t)) = denoted q (tl_records t)))"
proof (cases "tl_records t = []")
  case True
  then show ?thesis by (simp add: ReadRange_def denoted_def Let_def)
next
  case False
  then show ?thesis using selectRange_selects [OF assms(1,2) False assms(3,4)] ReadRange_selected [of t q] by blast
qed

text \<open>What the refinement says of the records.\<close>

lemma run_records:
  assumes "NewTrendLog cfg = Inr b"
  shows "\<exists>k. consecutive k (tl_records (own (tlRun read b ops)))" "length (tl_records (own (tlRun read b ops))) < 2 ^ 32"
    "BufferSize cfg \<le> 2 ^ 31 \<Longrightarrow> length (tl_records (own (tlRun read b ops))) \<le> 2 ^ 31"
proof -
  let ?c = "logDefaults cfg" and ?b = "tlRun read b ops"
  let ?s = "specRun read ?c ops"
  have r: "own ?b = logState ?c ?s" "length (ls_all ?s) \<le> ls_count ?s"
    using run_refines [OF assms(1), of read ops] by (simp_all add: refines_def spec_ok_def)
  show "\<exists>k. consecutive k (tl_records (own ?b))"
    using window_numbered_nth [OF r(2)] by (auto simp: r(1) logState_def consecutive_def)
  have len: "length (tl_records (own ?b)) \<le> unat (BufferSize ?c)" by (simp add: r(1) logState_def window_simps(1))
  moreover have "unat (BufferSize ?c) < 2 ^ LENGTH(32)" by (rule unsigned_less)
  ultimately show "length (tl_records (own ?b)) < 2 ^ 32" by simp
  assume "BufferSize cfg \<le> 2 ^ 31"
  then have "BufferSize ?c \<le> 2 ^ 31" by (simp add: logDefaults_def)
  then have "unat (BufferSize ?c) \<le> 2 ^ 31" by (simp add: word_le_nat_alt)
  then show "length (tl_records (own ?b)) \<le> 2 ^ 31" using len by linarith
qed

section \<open>The reply\<close>

lemma search_spec:
  "i \<le> j \<Longrightarrow> i \<le> search f i j \<and> search f i j \<le> j \<and> (search f i j = i \<or> \<not> f (search f i j - 1)) \<and> (search f i j = j \<or> f (search f i j))"
proof (induction f i j rule: search.induct)
  case (1 f i j)
  let ?h = "(i + j) div 2"
  show ?case
  proof (cases "i < j")
    case True
    then have h: "i \<le> ?h" "?h < j" by auto
    show ?thesis
    proof (cases "f ?h")
      case False
      then have "search f i j = search f (?h + 1) j" using True by (subst search.simps) (simp add: Let_def)
      then show ?thesis using "1.IH"(1) [OF True refl False] h False by auto
    next
      case up: True
      then have "search f i j = search f i ?h" using True by (subst search.simps) (simp add: Let_def)
      then show ?thesis using "1.IH"(2) [OF True refl] up h by auto
    qed
  next
    case False
    then show ?thesis using 1(3) by (subst (1 2 3 4 5 6) search.simps) simp
  qed
qed

text \<open>The first \<open>k\<close> of \<open>n\<close> items are as many as fit, or none if not even the empty reply does.\<close>

definition fitting :: "int \<Rightarrow> (nat \<Rightarrow> bytes result) \<Rightarrow> nat \<Rightarrow> nat \<Rightarrow> bytes \<Rightarrow> bool" where
  "fitting budget build n k p \<longleftrightarrow> build k = Inr p \<and> k \<le> n
    \<and> (int (length p) \<le> budget \<and> (k < n \<longrightarrow> (\<exists>p'. build (k + 1) = Inr p' \<and> int (length p') > budget)) \<or> k = 0 \<and> int (length p) > budget)"

lemma replyRange_spec:
  assumes "\<And>k. k \<le> n \<Longrightarrow> is_ok (build k)"
  shows "\<exists>k p. replyRange budget build n = Inr p \<and> fitting budget build n k p"
proof -
  obtain p where p: "build n = Inr p" using assms [of n] by (auto simp: is_ok_iff)
  let ?f = "\<lambda>k. case build k of Inl _ \<Rightarrow> True | Inr p \<Rightarrow> int (length p) > budget"
  let ?r = "search ?f 0 (n + 1)"
  show ?thesis
  proof (cases "int (length p) > budget")
    case False
    then show ?thesis using p by (intro exI [of _ n] exI [of _ p]) (simp add: replyRange_def fitting_def)
  next
    case True
    have r: "?r \<le> n + 1" "?r = 0 \<or> \<not> ?f (?r - 1)" "?r = n + 1 \<or> ?f ?r" using search_spec [of 0 "n + 1" ?f] by auto
    have "?f n" using p True by simp
    then have rn: "?r \<le> n" using r(1,2) by (cases "?r = n + 1") auto
    then have "?r - 1 \<le> n" by simp
    from assms [OF this] obtain p' where p': "build (?r - 1) = Inr p'" by (auto simp: is_ok_iff)
    have reply: "replyRange budget build n = Inr p'" using p p' True by (simp add: replyRange_def)
    obtain p'' where p'': "build ?r = Inr p''" using assms [OF rn] by (auto simp: is_ok_iff)
    have big: "int (length p'') > budget" using r(3) rn p'' by auto
    show ?thesis
    proof (cases "?r = 0")
      case True
      then show ?thesis using reply p' p'' big by (intro exI [of _ 0] exI [of _ p']) (simp add: fitting_def)
    next
      case False
      then have "int (length p') \<le> budget" using r(2) p' by simp
      then show ?thesis using reply p' p'' big False rn by (intro exI [of _ "?r - 1"] exI [of _ p']) (simp add: fitting_def)
    qed
  qed
qed

text \<open>A payload within the budget is a reply \<^verbatim>\<open>finish\<close> sends, whole or in segments.\<close>

lemma budget_not_refused:
  assumes "int (length payload) \<le> responseBudget cfg req" "DecodeMaxAPDUSize (cr_MaxAPDU req) \<noteq> None" "6 \<le> rc_maxAPDU cfg" "1 \<le> rc_maxSegments cfg"
  shows "finishPlan cfg req False (fst (result_encode (ComplexResult payload) iid svc)) payload True \<noteq> FinishRefuse reason"
proof -
  obtain remote where remote: "DecodeMaxAPDUSize (cr_MaxAPDU req) = Some remote" using assms(2) by auto
  let ?limit = "uint (min remote (rc_maxAPDU cfg))"
  have "50 \<le> remote" using remote by (auto simp: DecodeMaxAPDUSize_def split: if_splits)
  then have limit: "6 \<le> ?limit" using assms(3) by (auto simp: word_le_def min_def)
  have reply: "length (fst (result_encode (ComplexResult payload) iid svc)) = length payload + 3"
    by (simp add: result_encode_def AppendComplexACK_def Let_def)
  show ?thesis
  proof (cases "\<not> cr_SegmentedResponseAccepted req \<or> \<not> rc_segmentation cfg")
    case True
    then show ?thesis using assms(1) reply remote by (simp add: finishPlan_def responseBudget_def Let_def)
  next
    case False
    let ?m = "decodeMaxSegments (cr_MaxSegments req)" and ?count = "Count (int (length payload)) (?limit - 5)"
    let ?segs = "min (if ?m > 0 \<and> ?m < rc_maxSegments cfg then ?m else rc_maxSegments cfg) 256"
    have fit: "int (length payload) \<le> (?limit - 5) * ?segs"
      using assms(1) False remote by (simp add: responseBudget_def Let_def)
    have "?count \<le> ?segs"
    proof (cases "length payload = 0")
      case True
      then show ?thesis using limit assms(4) by (auto simp: Count_def)
    next
      case False
      then have "(?count - 1) * (?limit - 5) < int (length payload)" using Count_covers(3) [of "?limit - 5" "int (length payload)"] limit by simp
      then have "(?limit - 5) * (?count - 1) < (?limit - 5) * ?segs" using fit by (simp only: mult.commute)
      then show ?thesis using limit by (simp add: mult_less_cancel_left_pos)
    qed
    then show ?thesis using False remote by (auto simp: finishPlan_def Let_def split: if_splits)
  qed
qed

definition queryOf :: "ReadRangeRequest \<Rightarrow> RangeQuery" where
  "queryOf r = \<lparr>q_By = rr_By r, q_Index = ReferenceIndex r, q_Time = ReferenceTime r, q_Count = rr_Count r\<rparr>"

lemma denoted_norm: "rr_By r \<le> 3 \<Longrightarrow> denoted (queryOf (readRange_norm r)) rs = denoted (queryOf r) rs"
  using range_form [of "rr_By r"] by (auto simp: denoted_def queryOf_def readRange_norm_def inRange_def rangeBounds_def)

lemma denoted_subset: "set (denoted q rs) \<subseteq> set rs"
proof
  fix x assume x: "x \<in> set (denoted q rs)"
  have sub: "set (take m (dropWhile P xs)) \<subseteq> set xs" for m P and xs :: "logEntry list"
    by (meson in_set_takeD set_dropWhileD subsetI)
  show "x \<in> set rs"
    using x sub [of _ _ rs] sub [of _ _ "rev rs"] unfolding denoted_def Let_def by (auto simp: subset_iff split: if_splits)
qed

lemma denoted_length: "length (denoted q rs) \<le> length rs"
  using length_filter_le [of "\<lambda>i. inRange q (int i + 1)" "[0..<length rs]"]
    length_dropWhile_le [of "\<lambda>e. le_at e \<le> dateTimeToTime (q_Time q)" rs]
    length_dropWhile_le [of "\<lambda>e. dateTimeToTime (q_Time q) \<le> le_at e" "rev rs"]
  by (auto simp: denoted_def Let_def min_def)

text \<open>An acknowledgment the handler builds from records that can be encoded.\<close>

lemma buildACK_ok:
  assumes "wf_id i" "Identifier (rr_Property r) = PropertyLogBuffer" "Items sel = []" "\<And>x. x \<in> set (Records sel) \<Longrightarrow> recordOk x"
    "k \<le> length (Records sel)" "length (Records sel) < 2 ^ 32"
  shows "logACKOk (buildACK i r sel k)" "LogRecords (buildACK i r sel k) = take k (Records sel)" "ItemCount (buildACK i r sel k) = word_of_nat k"
    "is_ok (EncodeReadRangeACK (buildACK i r sel k))"
proof -
  have k: "k < 2 ^ 32" using assms(5,6) by simp
  show recs: "LogRecords (buildACK i r sel k) = take k (Records sel)" and cnt: "ItemCount (buildACK i r sel k) = word_of_nat k"
    by (simp_all add: buildACK_def Let_def)
  have u: "uint (word_of_nat k :: u32) = int k" using unat_u32_of_nat [OF k] by (simp only: uint_nat)
  have "\<exists>f l m. ResultFlags (buildACK i r sel k) = EncodeResultFlags f l m" by (auto simp: buildACK_def Let_def)
  then show ok: "logACKOk (buildACK i r sel k)"
    using assms u by (auto simp: logACKOk_def recs cnt) (auto simp: buildACK_def Let_def dest: in_set_takeD)
  have "wf_elements DefaultDecodeLimits (concat (map recordEls rs))" if "\<And>x. x \<in> set rs \<Longrightarrow> recordOk x" for rs
    using that by (induction rs) (auto simp: recordOk_def fitsSequence_def)
  then have "wf_elements DefaultDecodeLimits (concat (map recordEls (take k (Records sel))))" using assms(4) by (meson in_set_takeD)
  then have "wf_elements DefaultDecodeLimits (readRangeACK_els (buildACK i r sel k))"
    using length_encodeUnsigned_fits ok
    by (auto simp: readRangeACK_els_def recs uEl_def idEl_def bsEl_def optEl_def tagNumberReserved_def DefaultDecodeLimits_def
        logACKOk_def EncodeResultFlags_def Let_def split: option.splits)
  then show "is_ok (EncodeReadRangeACK (buildACK i r sel k))"
    using readRangeACK.enc_els [OF ok] wf_element_roundtrip(2) [of DefaultDecodeLimits] by (fastforce simp: is_ok_iff)
qed

lemma tlStep_id: "b_id (tlStep read op b) = b_id b"
proof (cases op)
  case (LogOp at v flags)
  then show ?thesis by (auto simp: tlStep_def Log_def split: option.splits prod.splits)
next
  case (WriteOp w)
  obtain err ch b' where w: "WriteProperty w b = (err, ch, b')" by (cases "WriteProperty w b")
  then show ?thesis using WriteOp WriteProperty_frame [OF w] by (simp add: tlStep_def)
next
  case (PollOp now dev)
  then show ?thesis by (auto simp: tlStep_def Poll_def Log_def Let_def split: option.splits prod.splits sum.splits)
qed

lemma run_id:
  assumes "NewTrendLog cfg = Inr b"
  shows "b_id (tlRun read b ops) = \<lparr>oType = 20, Instance = tlc_Instance cfg\<rparr>" "wf_id \<lparr>oType = 20, Instance = tlc_Instance cfg\<rparr>"
proof -
  have "b_id (foldl (\<lambda>b op. tlStep read op b) b ops) = b_id b" for b by (induction ops arbitrary: b) (simp_all add: tlStep_id)
  moreover have "b_id b = \<lparr>oType = 20, Instance = tlc_Instance cfg\<rparr>"
    using assms by (auto simp: NewTrendLog_def trendLogProperties_def Let_def Define_lookup NewBase_def split: if_splits)
  ultimately show "b_id (tlRun read b ops) = \<lparr>oType = 20, Instance = tlc_Instance cfg\<rparr>" by (simp add: tlRun_def)
  show "wf_id \<lparr>oType = 20, Instance = tlc_Instance cfg\<rparr>"
    using assms by (auto simp: NewTrendLog_def wf_id_def not_le Let_def order.strict_implies_order split: if_splits)
qed

lemma position_flags:
  fixes i k n :: nat
  assumes "i < n" "i + k \<le> n" "n < 2 ^ 32"
  shows "(word_of_nat (i + 1) :: u32) = 1 \<longleftrightarrow> i = 0" "(word_of_nat (i + 1) :: u32) + word_of_nat k - 1 = word_of_nat n \<longleftrightarrow> i + k = n"
proof -
  have inj: "(word_of_nat a :: u32) = word_of_nat c \<longleftrightarrow> a = c" if "a \<le> n" "c \<le> n" for a c :: nat
  proof -
    have l: "a < 2 ^ 32" "c < 2 ^ 32" using that assms(3) by simp_all
    then show ?thesis using unat_u32_of_nat [OF l(1)] unat_u32_of_nat [OF l(2)] by metis
  qed
  show "(word_of_nat (i + 1) :: u32) = 1 \<longleftrightarrow> i = 0" using inj [of "i + 1" 1] assms by simp
  have "(word_of_nat (i + 1) :: u32) + word_of_nat k - 1 = word_of_nat (i + k)" by simp
  then show "(word_of_nat (i + 1) :: u32) + word_of_nat k - 1 = word_of_nat n \<longleftrightarrow> i + k = n" using inj [of "i + k" n] assms by simp
qed

text \<open>What \<^verbatim>\<open>ReadRange\<close> hands to the handler, and what a reply with \<open>k\<close> of those records says.\<close>

definition rangeSelected :: "RangeQuery \<Rightarrow> logEntry list \<Rightarrow> RangeResult \<Rightarrow> bool" where
  "rangeSelected q rs sel \<longleftrightarrow> Records sel = map le_rec (denoted q rs) \<and> Items sel = [] \<and> Total sel = word_of_nat (length rs) \<and> Sequenced sel
    \<and> (Records sel \<noteq> [] \<longrightarrow> (\<exists>i < length rs. Position sel = word_of_nat (i + 1) \<and> rs_FirstSequence sel = le_seq (rs ! i)
        \<and> take (length (Records sel)) (drop i rs) = denoted q rs))"

definition rangeReported :: "RangeQuery \<Rightarrow> logEntry list \<Rightarrow> nat \<Rightarrow> ReadRangeACK \<Rightarrow> bool" where
  "rangeReported q rs k ack \<longleftrightarrow> (let want = denoted q rs in
     LogRecords ack = map le_rec (take k want) \<and> ItemCount ack = word_of_nat k \<and> (MoreItems ack \<longleftrightarrow> k < length want)
     \<and> (0 < k \<longrightarrow> (\<exists>i. take (length want) (drop i rs) = want \<and> (FirstItem ack \<longleftrightarrow> i = 0) \<and> (LastItem ack \<longleftrightarrow> i + k = length rs)))
     \<and> FirstSequence ack = (if 0 < k \<and> (q_By q = ReadRangeBySequenceNumber \<or> q_By q = ReadRangeByTime) then Some (le_seq (hd want)) else None))"

lemma buildACK_reported:
  assumes "rangeSelected q rs sel" "length rs < 2 ^ 32" "k \<le> length (denoted q rs)" "rr_By r = q_By q"
  shows "rangeReported q rs k (logACK_norm (buildACK i r sel k))"
proof -
  let ?want = "denoted q rs" and ?a = "logACK_norm (buildACK i r sel k)"
  have s: "Records sel = map le_rec ?want" "Items sel = []" "Total sel = word_of_nat (length rs)" "Sequenced sel"
    using assms(1) by (simp_all add: rangeSelected_def)
  have basic: "LogRecords ?a = map le_rec (take k ?want)" "ItemCount ?a = word_of_nat k" "MoreItems ?a \<longleftrightarrow> k < length ?want"
    "FirstItem ?a \<longleftrightarrow> 0 < k \<and> Position sel = 1" "LastItem ?a \<longleftrightarrow> 0 < k \<and> Position sel + word_of_nat k - 1 = word_of_nat (length rs)"
    "FirstSequence ?a = (if 0 < k \<and> (q_By q = ReadRangeBySequenceNumber \<or> q_By q = ReadRangeByTime) then Some (rs_FirstSequence sel) else None)"
    using assms(3,4) s
    by (auto simp: logACK_norm_def buildACK_def Let_def MoreItems_def FirstItem_def LastItem_def resultFlags_bits resultFlags_bits(2) [unfolded One_nat_def] take_map)
  show ?thesis
  proof (cases "k = 0")
    case True
    then show ?thesis using basic by (simp add: rangeReported_def Let_def)
  next
    case False
    then have ne: "?want \<noteq> []" using assms(3) by auto
    then obtain j where j: "j < length rs" "Position sel = word_of_nat (j + 1)" "rs_FirstSequence sel = le_seq (rs ! j)"
      "take (length ?want) (drop j rs) = ?want" using assms(1) by (auto simp: rangeSelected_def)
    have "hd ?want = rs ! j" using ne j(1) by (subst j(4) [symmetric]) (simp add: hd_drop_conv_nth)
    moreover have "j + k \<le> length rs" using arg_cong [OF j(4), of length] assms(3) j(1) by (simp add: min_def split: if_splits)
    ultimately show ?thesis using basic j False position_flags [OF j(1) _ assms(2), of k] by (auto simp: rangeReported_def Let_def)
  qed
qed

section \<open>Properties\<close>

text \<open>C2. Whatever is logged, written and polled, a trend log is a window on the unbounded log of its specification: it holds the
  newest records since it was emptied, at most as many as the buffer has room for, oldest first; the numbers of its records are
  consecutive and end with the total count, going from \<open>2 ^ 32 - 1\<close> back to 1. A log that stops when full never loses a record.
  Record_Count, Total_Record_Count and Enable read accordingly.\<close>

theorem trend_log_refines:
  assumes "NewTrendLog cfg = Inr b"
  shows "let c = logDefaults cfg; s = specRun read c ops; b' = tlRun read b ops; rs = tl_records (own b'); n = min (unat (BufferSize c)) (length (ls_all s)) in
    map le_rec rs = window (unat (BufferSize c)) (map snd (ls_all s)) \<and> length rs = n \<and> length (ls_all s) \<le> ls_count s
    \<and> (\<forall>i < n. le_seq (rs ! i) = seqOf (ls_count s - n + i + 1))
    \<and> (StopWhenFull c \<longrightarrow> map le_rec rs = map snd (ls_all s))
    \<and> readLocked b' \<lparr>Identifier = PropertyRecordCount, ArrayIndex = None\<rparr> = Inr (UnsignedValue (word_of_nat n))
    \<and> readLocked b' \<lparr>Identifier = PropertyTotalRecordCount, ArrayIndex = None\<rparr> = Inr (UnsignedValue (ucast (seqOf (ls_count s))))
    \<and> readLocked b' \<lparr>Identifier = PropertyEnable, ArrayIndex = None\<rparr> = Inr (BoolValue (ls_enabled s))"
proof -
  let ?c = "logDefaults cfg" and ?b = "tlRun read b ops"
  let ?s = "specRun read ?c ops"
  have r: "tl_table ?b" "own ?b = logState ?c ?s" "spec_ok ?c ?s" using run_refines [OF assms, of read ops] by (simp_all add: refines_def)
  have len: "length (ls_all ?s) \<le> ls_count ?s" "StopWhenFull ?c \<Longrightarrow> length (ls_all ?s) \<le> unat (BufferSize ?c)"
    using r(3) by (simp_all add: spec_ok_def)
  have rs: "tl_records (own ?b) = window (unat (BufferSize ?c)) (numbered (ls_count ?s - length (ls_all ?s)) (ls_all ?s))"
    by (simp add: r(2) logState_def)
  have "map le_rec (tl_records (own ?b)) = window (unat (BufferSize ?c)) (map snd (ls_all ?s))"
    by (simp add: rs window_map numbered_rec)
  moreover have "length (tl_records (own ?b)) = min (unat (BufferSize ?c)) (length (ls_all ?s))"
    by (simp add: rs window_simps(1))
  moreover have "readLocked ?b \<lparr>Identifier = PropertyRecordCount, ArrayIndex = None\<rparr> = Inr (UnsignedValue (word_of_nat (length (tl_records (own ?b)))))"
    "readLocked ?b \<lparr>Identifier = PropertyTotalRecordCount, ArrayIndex = None\<rparr> = Inr (UnsignedValue (ucast (seqOf (ls_count ?s))))"
    "readLocked ?b \<lparr>Identifier = PropertyEnable, ArrayIndex = None\<rparr> = Inr (BoolValue (ls_enabled ?s))"
    using r(1) by (simp_all add: readLocked_def tl_table_def getValue_def settable_def computed_def r(2) logState_def Let_def)
  ultimately show ?thesis
    unfolding Let_def using len window_numbered_nth [OF len(1), of _ "unat (BufferSize ?c)"] window_simps(2) [of "map snd (ls_all ?s)" "unat (BufferSize ?c)"]
    by (simp add: rs)
qed


text \<open>C1. Over the network: a client's ReadRange of a trend log is answered with the first \<open>k\<close> of the records its range denotes.
  \<open>k\<close> is all of them if they fit what the requester accepts, and otherwise one record more would not fit. The decoded reply says
  whether records were left out, whether the first and the last record of the log are among those sent, and the number of the
  first of them. A reply within the budget is sent, whole or in segments, and never refused as too long. This holds for every
  log whose records can be encoded, with data in canonical form within the decoder's default limits, and, for a range by sequence
  number, as long as the numbers in the buffer have not wrapped. The reply is decoded under limits it fits.\<close>

theorem log_range_served:
  assumes "NewTrendLog cfg = Inr b0"
    and "b = tlRun read b0 ops" "\<forall>e \<in> set (tl_records (own b)). recordOk (le_rec e)"
    and "readRangeOk r" "rr_Property r = \<lparr>Identifier = PropertyLogBuffer, ArrayIndex = None\<rparr>" "fitsSequence L (readRange_els r)"
    and "rr_By r = ReadRangeBySequenceNumber \<longrightarrow> \<not> wrapped (tl_records (own b))"
    and "Object (rr_Object r) d = Some (Entry b)" "ranges (Entry b) = Some (\<lambda>ref q. ReadRange ref q (own b))"
    and "EncodeReadRange r = Inr (cr_Payload req)" "DecodeMaxAPDUSize (cr_MaxAPDU req) \<noteq> None" "6 \<le> rc_maxAPDU rc" "1 \<le> rc_maxSegments rc"
  shows "\<exists>sel payload k. ReadRange (rr_Property r) (queryOf (readRange_norm r)) (own b) = Some (Inr sel)
    \<and> readRange ranges L rc req d = Some (ComplexResult payload)
    \<and> fitting (responseBudget rc req) (\<lambda>k. EncodeReadRangeACK (buildACK (b_id b) (readRange_norm r) sel k))
        (length (denoted (queryOf r) (tl_records (own b)))) k payload
    \<and> (int (length payload) \<le> responseBudget rc req \<longrightarrow>
        finishPlan rc req False (fst (result_encode (ComplexResult payload) iid 26)) payload True \<noteq> FinishRefuse reason)
    \<and> (fitsSequence L' (readRangeACK_els (buildACK (b_id b) (readRange_norm r) sel k)) \<longrightarrow>
        (\<exists>ack. DecodeReadRangeACK payload L' = Inr ack \<and> rangeReported (queryOf r) (tl_records (own b)) k ack))"
proof -
  let ?rs = "tl_records (own b)" and ?r = "readRange_norm r"
  let ?want = "denoted (queryOf r) ?rs"
  have by3: "rr_By r \<le> 3" using assms(4) by (simp add: readRangeOk_def)
  have norm: "rr_By ?r = rr_By r" "rr_Object ?r = rr_Object r" "rr_Property ?r = rr_Property r" by (simp_all add: readRange_norm_def)
  obtain k0 where k0: "consecutive k0 ?rs" and len: "length ?rs < 2 ^ 32" using run_records(1,2) [OF assms(1), of read ops] by (auto simp: assms(2))
  have dec: "DecodeReadRange (cr_Payload req) L = Inr ?r"
    using readRange.service_roundtrip [OF assms(4,6)] assms(10) by (simp add: DecodeReadRange_def)
  have "q_By (queryOf ?r) \<le> 3" "q_By (queryOf ?r) = ReadRangeBySequenceNumber \<longrightarrow> \<not> wrapped ?rs"
    using by3 assms(7) by (simp_all add: queryOf_def norm)
  note selected = ReadRange_selects [OF k0 len this]
  obtain sel where sel: "ReadRange (rr_Property r) (queryOf ?r) (own b) = Some (Inr sel)" "rangeSelected (queryOf r) ?rs sel"
    using selected denoted_norm [OF by3] by (auto simp: rangeSelected_def assms(5))
  have rec: "recordOk x" if "x \<in> set (Records sel)" for x using that sel(2) denoted_subset assms(3) by (fastforce simp: rangeSelected_def)
  have id': "wf_id (b_id b)" by (simp add: assms(2) run_id [OF assms(1)])
  have prop': "Identifier (rr_Property ?r) = PropertyLogBuffer" by (simp add: norm assms(5))
  have n: "length (Records sel) = length ?want" "length (Records sel) < 2 ^ 32" "Items sel = []"
    using sel(2) denoted_length [of "queryOf r" ?rs] len by (simp_all add: rangeSelected_def)
  note ack = buildACK_ok [OF id' prop' n(3) rec _ n(2)]
  let ?build = "\<lambda>k. EncodeReadRangeACK (buildACK (b_id b) ?r sel k)"
  have "is_ok (?build k)" if "k \<le> length ?want" for k using ack(4) that n(1) by simp
  from replyRange_spec [of "length ?want" ?build "responseBudget rc req", OF this] obtain k payload where
    k: "replyRange (responseBudget rc req) ?build (length ?want) = Inr payload" "fitting (responseBudget rc req) ?build (length ?want) k payload"
    by blast
  have "readRange ranges L rc req d = Some (ComplexResult payload)"
    using dec assms(8,9) sel(1) k(1) n by (simp add: readRange_def norm queryOf_def)
  moreover have "\<exists>ack. DecodeReadRangeACK payload L' = Inr ack \<and> rangeReported (queryOf r) ?rs k ack"
    if "fitsSequence L' (readRangeACK_els (buildACK (b_id b) ?r sel k))"
    using readRangeACK.service_roundtrip [OF ack(1) that] k(2) n(1) buildACK_reported [OF sel(2) len, of k ?r "b_id b"]
    by (auto simp: DecodeReadRangeACK_def fitting_def norm queryOf_def)
  ultimately show ?thesis using sel(1) k(2) budget_not_refused [OF _ assms(11-13)] by blast
qed

text \<open>C4. In a log of at most \<open>2 ^ 31\<close> records: once the numbers in a buffer have gone from \<open>2 ^ 32 - 1\<close> back to 1, no range by sequence number returns a record, although
  each record of the buffer is denoted by a range of its own number.\<close>

theorem wrapped_log_unreadable:
  assumes "NewTrendLog cfg = Inr b" "BufferSize cfg \<le> 2 ^ 31" "wrapped (tl_records (own (tlRun read b ops)))"
  shows "let t = own (tlRun read b ops) in
    (\<forall>q. q_By q = ReadRangeBySequenceNumber \<longrightarrow>
       (\<exists>res. ReadRange \<lparr>Identifier = PropertyLogBuffer, ArrayIndex = None\<rparr> q t = Some (Inr res) \<and> Records res = []))
    \<and> (\<forall>e \<in> set (tl_records t). e \<in> set (denoted \<lparr>q_By = ReadRangeBySequenceNumber, q_Index = le_seq e, q_Time = zeroDateTime, q_Count = 1\<rparr> (tl_records t)))"
proof -
  let ?t = "own (tlRun read b ops)"
  obtain k where k: "consecutive k (tl_records ?t)" using run_records(1) [OF assms(1)] by blast
  note len = run_records(2,3) [OF assms(1), of read ops]
  have "\<not> spansGap q (tl_records ?t)" for q using spansGap_long [OF k len(1)] len(2) [OF assms(2)] by fastforce
  then show ?thesis unfolding Let_def using ReadRange_wrapped [OF k len(1) assms(3)]
    by (auto simp: denoted_def inRange_def rangeBounds_def Let_def)
qed

text \<open>A log of two records into which three values go.\<close>

definition sampleLog :: TrendLogConfig where
  "sampleLog = \<lparr>tlc_Instance = 5, tlc_Name = [0x74], tlc_Description = [], BufferSize = 2, StopWhenFull = False, tlc_Source = None,
     SourceProperty = 85, LogInterval = 0, tlc_Enable = True\<rparr>"

definition sampleEntry :: "nat \<Rightarrow> logEntry" where
  "sampleEntry k = \<lparr>le_seq = seqOf k, le_at = 0, le_rec = logRecord 0 LogDatumUnsigned (UnsignedValue 7) None\<rparr>"

definition sampleOps :: "nat \<Rightarrow> unit tl_op list" where
  "sampleOps n = replicate n (LogOp 0 (UnsignedValue 7) None)"

lemma sampleLog_new: "\<exists>b. NewTrendLog (sampleLog\<lparr>BufferSize := n\<rparr>) = Inr b" "sampleLog\<lparr>BufferSize := 2\<rparr> = sampleLog"
  by (simp_all add: NewTrendLog_def sampleLog_def MaxObjectInstance_def Let_def)

lemma sampleLog_window:
  assumes "NewTrendLog (sampleLog\<lparr>BufferSize := B\<rparr>) = Inr b" "B \<noteq> 0"
  shows "tl_records (own (tlRun read b (sampleOps n))) = window (unat B) (numbered 0 (replicate n (0, logRecord 0 LogDatumUnsigned (UnsignedValue 7) None)))"
proof -
  let ?x = "(0, logRecord 0 LogDatumUnsigned (UnsignedValue 7) None)" and ?c = "sampleLog\<lparr>BufferSize := B\<rparr>"
  have c: "logDefaults ?c = ?c" using assms(2) by (simp add: logDefaults_def sampleLog_def)
  have "specRun read ?c (sampleOps n) = \<lparr>ls_all = replicate n ?x, ls_enabled = True, ls_count = n, ls_poll = None\<rparr>" for n
  proof (induction n)
    case (Suc n)
    have "sampleOps (Suc n) = sampleOps n @ [LogOp 0 (UnsignedValue 7) None]" by (simp add: sampleOps_def replicate_append_same)
    then show ?case using Suc
      by (simp add: specRun_def specStep_def specLog_def datumChoice_def UnsignedValue_def sampleLog_def replicate_append_same)
  qed (simp add: specRun_def sampleOps_def sampleLog_def)
  then show ?thesis
    using run_refines [OF assms(1), of read "sampleOps n", unfolded c] by (simp add: refines_def logState_def)
qed


lemma sampleLog_records:
  assumes "NewTrendLog sampleLog = Inr b" "2 \<le> n"
  shows "tl_records (own (tlRun read b (sampleOps n))) = [sampleEntry (n - 1), sampleEntry n]"
proof -
  have r: "tl_records (own (tlRun read b (sampleOps n))) = window 2 (numbered 0 (replicate n (0, logRecord 0 LogDatumUnsigned (UnsignedValue 7) None)))"
    using sampleLog_window [of 2 b] assms(1) by (simp add: sampleLog_new(2))
  show ?thesis
  proof (rule nth_equalityI)
    fix i assume "i < length (tl_records (own (tlRun read b (sampleOps n))))"
    then have "i < 2" by (simp add: r window_def)
    moreover obtain m where "n = Suc (Suc m)" using assms(2) le_Suc_ex [of 2 n] by auto
    ultimately show "tl_records (own (tlRun read b (sampleOps n))) ! i = [sampleEntry (n - 1), sampleEntry n] ! i"
      unfolding r by (auto simp: window_def numbered_nth sampleEntry_def less_2_cases_iff simp del: replicate_Suc replicate.simps)
  qed (use assms(2) in \<open>simp add: r window_def\<close>)
qed


theorem trend_log_refines_witness:
  "\<exists>b. NewTrendLog sampleLog = Inr b \<and> length (tl_records (own (tlRun (\<lambda>_ _ _. Inl ErrNotAnArray) b (sampleOps 3)))) = 2
    \<and> readLocked (tlRun (\<lambda>_ _ _. Inl ErrNotAnArray) b (sampleOps 3)) \<lparr>Identifier = PropertyRecordCount, ArrayIndex = None\<rparr> = Inr (UnsignedValue 2)"
proof -
  let ?read = "\<lambda>_ _ _. Inl ErrNotAnArray"
  obtain b where b: "NewTrendLog sampleLog = Inr b" using sampleLog_new(1) [of 2] by (auto simp: sampleLog_new(2))
  have two: "length (tl_records (own (tlRun ?read b (sampleOps 3)))) = 2" by (simp add: sampleLog_records [OF b])
  with trend_log_refines [OF b, of ?read "sampleOps 3"]
  have "readLocked (tlRun ?read b (sampleOps 3)) \<lparr>Identifier = PropertyRecordCount, ArrayIndex = None\<rparr> = Inr (UnsignedValue (word_of_nat 2))"
    unfolding Let_def by metis
  then show ?thesis using b two by auto
qed


theorem wrapped_log_unreadable_witness:
  "\<exists>b ops res. NewTrendLog sampleLog = Inr b \<and> length (tl_records (own (tlRun (\<lambda>_ _ _. Inl ErrNotAnArray) b (ops :: unit tl_op list)))) = 2
    \<and> ReadRange \<lparr>Identifier = PropertyLogBuffer, ArrayIndex = None\<rparr>
        \<lparr>q_By = ReadRangeBySequenceNumber, q_Index = 1, q_Time = zeroDateTime, q_Count = 1\<rparr> (own (tlRun (\<lambda>_ _ _. Inl ErrNotAnArray) b ops)) = Some (Inr res)
    \<and> Records res = []"
proof -
  let ?read = "\<lambda>_ _ _. Inl ErrNotAnArray"
  obtain b where b: "NewTrendLog sampleLog = Inr b" using sampleLog_new(1) [of 2] by (auto simp: sampleLog_new(2))
  have s: "BufferSize sampleLog \<le> 2 ^ 31" by (simp add: sampleLog_def)
  define n :: nat where "n = 2 ^ 32"
  have "seqOf (n - 1) = word_of_nat 4294967295" "seqOf n = 1" "2 \<le> n" by (simp_all add: seqOf_def n_def)
  then have r: "length (tl_records (own (tlRun ?read b (sampleOps n)))) = 2" "wrapped (tl_records (own (tlRun ?read b (sampleOps n))))"
    by (simp_all add: sampleLog_records [OF b] wrapped_def sampleEntry_def)
  show ?thesis
    using wrapped_log_unreadable [OF b s r(2)] b r(1) unfolding Let_def
    by (intro exI [of _ b] exI [of _ "sampleOps n"]) auto
qed

definition sampleRange :: ReadRangeRequest where
  "sampleRange = \<lparr>rr_Object = \<lparr>oType = 20, Instance = 5\<rparr>, rr_Property = \<lparr>Identifier = PropertyLogBuffer, ArrayIndex = None\<rparr>,
     rr_By = ReadRangeByPosition, ReferenceIndex = 2, ReferenceTime = zeroDateTime, rr_Count = 1\<rparr>"

definition rangeReader :: "TrendLogState entry \<Rightarrow> (PropertyReference \<Rightarrow> RangeQuery \<Rightarrow> RangeResult result option) option" where
  "rangeReader e = (case e of OwnEntry \<Rightarrow> None | Entry b \<Rightarrow> Some (\<lambda>ref q. ReadRange ref q (own b)))"

lemma sample_evaluates:
  "recordOk (logRecord 0 LogDatumUnsigned (UnsignedValue 7) None)" "readRangeOk sampleRange"
  "fitsSequence DefaultDecodeLimits (readRange_els sampleRange)"
proof -
  show "recordOk (logRecord 0 LogDatumUnsigned (UnsignedValue 7) None)"
    by (simp add: recordOk_def logRecord_def datumOk_def recordEls_def datumEl_def dateValue_def timeValue_def wf_appValue_def canonicalValue_def
        fitsLimits_def DateValue_def TimeValue_def fits_simps)
  show "readRangeOk sampleRange" by (simp add: readRangeOk_def sampleRange_def wf_id_def MaxObjectInstance_def)
  show "fitsSequence DefaultDecodeLimits (readRange_els sampleRange)"
    by (simp add: readRange_els_def rangeEls_def sampleRange_def fits_simps)
qed

theorem log_range_served_witness:
  "\<exists>(d :: TrendLogState Device) b0 b payload k sel. NewTrendLog sampleLog = Inr b0 \<and> b = tlRun (\<lambda>_ _ _. Inl ErrNotAnArray) b0 (sampleOps 3)
    \<and> Object (rr_Object sampleRange) d = Some (Entry b)
    \<and> (\<exists>req. EncodeReadRange sampleRange = Inr req
        \<and> readRange rangeReader DefaultDecodeLimits sampleServer (Responder.sampleRequest\<lparr>cr_Payload := req\<rparr>) d = Some (ComplexResult payload)
        \<and> fitting (responseBudget sampleServer (Responder.sampleRequest\<lparr>cr_Payload := req\<rparr>))
            (\<lambda>k. EncodeReadRangeACK (buildACK (b_id b) (readRange_norm sampleRange) sel k)) 1 k payload)"
proof -
  let ?read = "\<lambda>_ _ _. Inl ErrNotAnArray"
  obtain b0 where b0: "NewTrendLog sampleLog = Inr b0" using sampleLog_new(1) [of 2] by (auto simp: sampleLog_new(2))
  define b where "b = tlRun ?read b0 (sampleOps 3)"
  have rs: "tl_records (own b) = [sampleEntry 2, sampleEntry 3]" by (simp add: b_def sampleLog_records [OF b0])
  obtain d0 :: "TrendLogState Device" where d0: "NewDevice sampleDevice 0 = Inr d0" using sampleDevice_new by blast
  define d where "d = updOwn (\<lambda>t. t\<lparr>dv_objects := AList.update (rr_Object sampleRange) (Entry b) (dv_objects t)\<rparr>) d0"
  have d: "Object (rr_Object sampleRange) d = Some (Entry b)"
    by (simp add: d_def Object_def updOwn_def update_conv' sampleRange_def ObjectTypeDevice_def)
  obtain req where req: "EncodeReadRange sampleRange = Inr req"
    using readRange.service_roundtrip [OF sample_evaluates(2,3)] by blast
  let ?req = "Responder.sampleRequest\<lparr>cr_Payload := req\<rparr>"
  have h: "\<forall>e \<in> set (tl_records (own b)). recordOk (le_rec e)"
    "rr_Property sampleRange = \<lparr>Identifier = PropertyLogBuffer, ArrayIndex = None\<rparr>"
    "rr_By sampleRange = ReadRangeBySequenceNumber \<longrightarrow> \<not> wrapped (tl_records (own b))"
    "rangeReader (Entry b) = Some (\<lambda>ref q. ReadRange ref q (own b))"
    "DecodeMaxAPDUSize (cr_MaxAPDU ?req) \<noteq> None" "6 \<le> rc_maxAPDU sampleServer" "1 \<le> rc_maxSegments sampleServer"
    by (simp_all add: rs sampleEntry_def sample_evaluates sampleLog_def sampleRange_def rangeReader_def Responder.sampleRequest_def
        sampleServer_def DecodeMaxAPDUSize_def)
  have p: "EncodeReadRange sampleRange = Inr (cr_Payload ?req)" by (simp add: req)
  have one: "length (denoted (queryOf sampleRange) (tl_records (own b))) = 1"
    by (simp add: rs queryOf_def sampleRange_def denoted_def inRange_def rangeBounds_def Let_def upt_rec)
  from log_range_served [where ranges = rangeReader and iid = 7 and reason = 1 and L' = DefaultDecodeLimits, OF b0 b_def h(1) sample_evaluates(2) h(2) sample_evaluates(3) h(3) d h(4) p h(5-7)]
  obtain sel payload k where served: "readRange rangeReader DefaultDecodeLimits sampleServer ?req d = Some (ComplexResult payload)"
    "fitting (responseBudget sampleServer ?req) (\<lambda>k. EncodeReadRangeACK (buildACK (b_id b) (readRange_norm sampleRange) sel k)) 1 k payload"
    unfolding one by blast
  show ?thesis
    by (rule exI [of _ d], rule exI [of _ b0], rule exI [of _ b], rule exI [of _ payload], rule exI [of _ k], rule exI [of _ sel])
      (intro conjI exI [of _ req] b0 b_def d req served)
qed

end
