(* ===== verification/Spec2Isabelle.thy ===== *)
theory Spec2Isabelle
  imports Constructed Apdu Segment Bbmd Confirmed Intrinsic Discovery Trend_Log
begin

text \<open>
  Verification library for go-bacnet, a BACnet/IP protocol stack with a client and a server.

  \<^bold>\<open>The program.\<close> A datagram is a BVLC message (\<^verbatim>\<open>bvlc\<close>) around an NPDU (\<^verbatim>\<open>npdu\<close>) around an APDU (\<^verbatim>\<open>apdu\<close>), whose
  service parameters are sequences of tagged elements (\<^verbatim>\<open>tags.go\<close>, \<^verbatim>\<open>constructed.go\<close>, \<^verbatim>\<open>service\<close>). The client
  (\<^verbatim>\<open>client\<close>) gives each confirmed request an invoke ID, sends it whole or in segments, retransmits, matches the answer
  with its transaction and reassembles it; it remembers the devices it has seen. The server (\<^verbatim>\<open>server\<close>) reassembles
  requests, runs one handler per request and sends the reply, in segments if need be; the handlers act on the objects of a
  device (\<^verbatim>\<open>server/object\<close>). A broadcast management device (\<^verbatim>\<open>bbmd\<close>) forwards broadcasts between subnets.

  \<^bold>\<open>The model.\<close> Machine integers are words and wrap as in the source; Go's \<^verbatim>\<open>int\<close> is \<open>int\<close>, byte slices are lists of
  octets, maps are association lists with \<^verbatim>\<open>AList\<close> updates, errors are the left side of a sum. A method that changes its
  receiver returns it. Code that holds a lock runs to its end in one step; operations that take their lock several times,
  such as the creation and renaming of objects and the polling of a trend log, are one step too. The completion of a
  transaction, which unlocks before it sends the result, is divided at that point. A goroutine that blocks is a machine over the
  outcomes of its blocking calls, so that every interleaving of events is a list of events. What a function sends is part
  of its result. Times are integers of nanoseconds, given by the caller where the source reads its clock.

  \<^bold>\<open>Foundations.\<close>
  \<^item> \<^verbatim>\<open>Prelude\<close>: words, results, octet readers and writers, and the interfaces \<open>wire_codec\<close> and \<open>invariant_machine\<close>
    against which codecs and machines are proved.
  \<^item> \<^verbatim>\<open>Bacnet_Types\<close>: errors, limits, addresses, object identifiers, application values (\<^verbatim>\<open>errors.go\<close>, \<^verbatim>\<open>limits.go\<close>,
    \<^verbatim>\<open>mac.go\<close>, \<^verbatim>\<open>address.go\<close>, \<^verbatim>\<open>object.go\<close>, \<^verbatim>\<open>property.go\<close>, \<^verbatim>\<open>value.go\<close>).

  \<^bold>\<open>Wire formats.\<close> Each codec is shown to give back what was encoded, and, where the source accepts more than it
  writes, to re-encode what it accepted.
  \<^item> \<^verbatim>\<open>Tags\<close>, \<^verbatim>\<open>Tag_Roundtrip\<close>: \<^verbatim>\<open>ParseTag\<close>, \<^verbatim>\<open>AppendTag\<close> and the application values (\<^verbatim>\<open>tags.go\<close>).
  \<^item> \<^verbatim>\<open>Constructed\<close>: \<^verbatim>\<open>ParseSequence\<close>, a recursive function with a termination proof, its bounds on elements and nesting
    for arbitrary input, the context-tag helpers and BACnet errors (\<^verbatim>\<open>constructed.go\<close>, \<^verbatim>\<open>error_value.go\<close>).
  \<^item> \<^verbatim>\<open>Npdu\<close>, \<^verbatim>\<open>Apdu\<close>, \<^verbatim>\<open>Bvlc\<close>: \<^verbatim>\<open>Parse\<close> and \<^verbatim>\<open>Append\<close> of the three headers and the BVLC tables.
  \<^item> \<^verbatim>\<open>Service_Base\<close>, \<^verbatim>\<open>Property_Services\<close>: the prologue shared by the service decoders, the interface
    \<open>element_service\<close> and its interpretations for ReadProperty, WriteProperty, their Multiple forms and the
    WritePropertyMultiple error. \<^verbatim>\<open>Range_Services\<close>: log records and ReadRange, whose acknowledgment carries as many records
    as it counts (\<^verbatim>\<open>service/log_record.go\<close>, \<^verbatim>\<open>service/read_range.go\<close>), on the same interface.
  \<^item> \<^verbatim>\<open>Segment\<close>: division into segments, windows and \<^verbatim>\<open>Reassembly\<close> (\<^verbatim>\<open>internal/segment\<close>); \<^verbatim>\<open>Link\<close>: framing (\<^verbatim>\<open>internal/link\<close>).

  \<^bold>\<open>Broadcast management.\<close> \<^verbatim>\<open>Bbmd\<close>: \<^verbatim>\<open>HandleBVLC\<close> with registrations and distribution; the table stays unique and within
  its limit, registrations live as long as granted, broadcasts are not echoed, unregistered devices are refused; its quick
  test for confirmed requests agrees with the NPDU and APDU decoders.

  \<^bold>\<open>Client.\<close>
  \<^item> \<^verbatim>\<open>Policy\<close>: which services may be retransmitted (\<^verbatim>\<open>service_policy.go\<close>, \<^verbatim>\<open>maxapdu.go\<close>, \<^verbatim>\<open>invoke.go\<close>).
  \<^item> \<^verbatim>\<open>Transactions\<close>: \<^verbatim>\<open>txManager\<close> over a heap of transactions (\<^verbatim>\<open>transaction.go\<close>): a result is final, quarantines are
    respected, allocation succeeds below capacity, retransmissions are bounded. Here a completion is taken whole, its locked part
    and the send of its result. \<^verbatim>\<open>Tx_Interleaving\<close> takes them as two steps between which other goroutines run:
    identifiers are unique, and each transaction waits, or is about to get its one result, or has it.
  \<^item> \<^verbatim>\<open>Segment_Send\<close>: the sending loop; success means that everything was acknowledged, every run is bounded, and with a
    cooperating peer it succeeds (\<^verbatim>\<open>segment_send.go\<close>). \<^verbatim>\<open>Segment_Receive\<close>: reassembly of responses (\<^verbatim>\<open>segmentation.go\<close>).
  \<^item> \<^verbatim>\<open>Confirmed\<close>: the whole confirmed request (\<^verbatim>\<open>confirmed.go\<close>): only the addressed device decides it, a request returns
    the published result however the goroutines interleave, an unanswered one ends, and an answered one returns the reassembled response.
  \<^item> \<^verbatim>\<open>Device_Registry\<close>: retention and lookup of observations (\<^verbatim>\<open>registry.go\<close>, \<^verbatim>\<open>capabilities.go\<close>).

  \<^bold>\<open>Server.\<close>
  \<^item> \<^verbatim>\<open>Object_Base\<close>: property tables and command prioritisation, with the interface \<open>commandable_object\<close> that \<^verbatim>\<open>Point\<close>
    interprets (\<^verbatim>\<open>base.go\<close>, \<^verbatim>\<open>commandable.go\<close>); \<^verbatim>\<open>Civil_Time\<close>: dates and times of instants.
  \<^item> \<^verbatim>\<open>Point\<close>, \<^verbatim>\<open>Intrinsic\<close>: points and their events (\<^verbatim>\<open>point.go\<close>, \<^verbatim>\<open>intrinsic.go\<close>): Present_Value keeps its type, a
    commandable point implements command prioritisation, a transition waits for its delay.
  \<^item> \<^verbatim>\<open>Object_Device\<close>: the Device and its object table (\<^verbatim>\<open>device.go\<close>): it implements a directory of unique names, lists
    its objects and counts its changes; creating an object ends.
  \<^item> \<^verbatim>\<open>Responder\<close>: transactions of the server (\<^verbatim>\<open>responder.go\<close>): the segments of a client lead to one execution of the
    original request, or to an Abort if no worker takes it, with housekeeping in between; a request is not executed twice at a time, segmented replies are complete and bounded.
  \<^item> \<^verbatim>\<open>Handlers\<close>: the property services and the service table (\<^verbatim>\<open>handlers_data.go\<close>, \<^verbatim>\<open>dispatch.go\<close>): what clients write
    is read back as command prioritisation says, a WritePropertyMultiple stops at its first failure and reports it.
  \<^item> \<^verbatim>\<open>Discovery\<close>: Who-Is and Who-Has with their answers (\<^verbatim>\<open>service/discovery.go\<close>, \<^verbatim>\<open>service/who_has.go\<close>, the handlers of
    \<^verbatim>\<open>handlers_data.go\<close> and the sending side of \<^verbatim>\<open>packet.go\<close>): who answers, where the datagram goes and what the
    client reads in it.
  \<^item> \<^verbatim>\<open>Trend_Log\<close>: the trend log and the handler of ReadRange (\<^verbatim>\<open>trendlog.go\<close>, \<^verbatim>\<open>handlers_range.go\<close>): the log is a window on
    everything logged, a range returns the records it denotes, the reply has as many of them as the requester
    accepts. By sequence number both need numbers that have not wrapped; what happens otherwise are theorems too: no
    record is returned, and in a buffer of more than \<open>2 ^ 31\<close> records \<^verbatim>\<open>ReadRange\<close> panics for the ranges that are characterised.

  \<^bold>\<open>Bounds and fuel.\<close> No definition runs on fuel. Recursive parsers have termination proofs by the length of the input;
  loops that wait for events are folds over event lists, and their bounds are theorems. The two searches of
  \<^verbatim>\<open>Device.Create\<close>, unbounded in the source, are partial functions into \<open>option\<close> and are proved to return a value on every
  device whose configured bound is below \<open>2 ^ 32 - 1\<close>: their candidates are pairwise different and outnumber the table.

  \<^bold>\<open>Not modelled.\<close> Sockets, goroutine start-up, channels as such, option parsing, logging and diagnostics have no
  behaviour beyond the calls that are modelled. \<^verbatim>\<open>String\<close> methods other than those on which behaviour depends, text
  conversion between character sets and \<^verbatim>\<open>Clone\<close> (values are immutable here) are left out. The remaining service codecs
  follow the pattern of the property services, field by field; schedules, calendars, files, structured views
  and notification classes are objects on the same property tables; COV subscriptions, event distribution, the
  client side of discovery, batching and subscription helpers are built on the parts above. Handlers outside \<^verbatim>\<open>handlers_data.go\<close>
  and \<^verbatim>\<open>handlers_range.go\<close>, object factories and application hooks are arguments of the definitions that call them.
\<close>

end
